(* ===== verification/Prelude.thy ===== *)
theory Prelude
  imports Main "HOL-Library.Word" "HOL-Library.Signed_Division"
begin

text \<open>
  Shared vocabulary of the development: the machine-integer types, the result type of code that
  can stop the simulator, checked access to \<open>std::vector\<close>, counted loops, and the generic lemmas
  that carry the component proofs.

  A C++ function that can call \<open>AbruptExit\<close>, fail an \<open>assert\<close>, throw, call \<open>exit\<close>, divide by
  zero, shift too far, loop for ever or index a vector out of its range returns an element of \<open>'a res\<close>; the
  fault says which of these happened. \<open>okE m P\<close> is total correctness: \<open>m\<close> returns normally and
  its value satisfies \<open>P\<close>.
\<close>

section \<open>Machine integers\<close>

type_synonym u16 = "16 word"
type_synonym u32 = "32 word"
type_synonym u64 = "64 word"

lemma sint_u32_small: "uint w < 2 ^ 31 \<Longrightarrow> sint (w :: u32) = uint w"
proof -
  assume "uint w < 2 ^ 31"
  moreover have "- (2 ^ 31) \<le> uint w" by (rule order.trans [of _ 0]) auto
  ultimately have "signed_take_bit 31 (uint w) = uint w"
    by (rule signed_take_bit_int_eq_self [rotated])
  then show ?thesis by (simp add: sint_uint)
qed

section \<open>Faults and results\<close>

datatype fault =
    AbruptExit      \<comment> \<open>common.cc: prints the file and line, then \<open>exit(-1)\<close>\<close>
  | ExitFailure     \<comment> \<open>a direct \<open>exit(1)\<close> or \<open>exit(-1)\<close>\<close>
  | AssertFailed    \<comment> \<open>a failed \<open>assert\<close>\<close>
  | Thrown          \<comment> \<open>an exception nobody catches\<close>
  | OutOfRange      \<comment> \<open>\<open>v[i]\<close> or \<open>v.front()\<close> outside the vector\<close>
  | DivByZero       \<comment> \<open>integer \<open>/\<close> or \<open>%\<close> by zero\<close>
  | ShiftRange      \<comment> \<open>a shift by the operand's width or more\<close>
  | NoReturn        \<comment> \<open>a loop that never ends\<close>

type_synonym 'a res = "fault + 'a"

definition bindE :: "'a res \<Rightarrow> ('a \<Rightarrow> 'b res) \<Rightarrow> 'b res" where
  "bindE m f = (case m of Inl e \<Rightarrow> Inl e | Inr x \<Rightarrow> f x)"

definition okE :: "'a res \<Rightarrow> ('a \<Rightarrow> bool) \<Rightarrow> bool" where
  "okE m P = (case m of Inl e \<Rightarrow> False | Inr x \<Rightarrow> P x)"

definition checkE :: "fault \<Rightarrow> bool \<Rightarrow> unit res" where
  "checkE e b = (if b then Inr () else Inl e)"

named_theorems ok_intro \<open>total-correctness rules, used as introduction rules\<close>

lemma bindE_simps [simp]: "bindE (Inl e) f = Inl e" "bindE (Inr x) f = f x"
  by (simp_all add: bindE_def)

lemma bindE_Inr_iff: "bindE m f = Inr y \<longleftrightarrow> (\<exists>x. m = Inr x \<and> f x = Inr y)"
  by (cases m) auto

lemma bindE_InrE [elim]:
  assumes "bindE m f = Inr y"
  obtains x where "m = Inr x" "f x = Inr y"
  using assms by (auto simp: bindE_Inr_iff)

lemma bindE_assoc: "bindE (bindE m f) g = bindE m (\<lambda>x. bindE (f x) g)"
  by (cases m) auto

lemma bindE_cong [fundef_cong]:
  "m = m' \<Longrightarrow> (\<And>x. m' = Inr x \<Longrightarrow> f x = f' x) \<Longrightarrow> bindE m f = bindE m' f'"
  by (cases m') auto

lemma okE_simps [simp]: "okE (Inl e) P = False" "okE (Inr x) P = P x"
  by (simp_all add: okE_def)

lemma okE_bindE: "okE (bindE m f) P = okE m (\<lambda>x. okE (f x) P)"
  by (cases m) auto

lemma okE_bindEI [ok_intro]: "okE m (\<lambda>x. okE (f x) P) \<Longrightarrow> okE (bindE m f) P"
  by (simp add: okE_bindE)

lemma okE_mono: "okE m P \<Longrightarrow> (\<And>x. m = Inr x \<Longrightarrow> P x \<Longrightarrow> Q x) \<Longrightarrow> okE m Q"
  by (cases m) auto

lemma okE_iff: "okE m P \<longleftrightarrow> (\<exists>x. m = Inr x \<and> P x)"
  by (cases m) auto

lemma okE_conjI: "okE m P \<Longrightarrow> okE m Q \<Longrightarrow> okE m (\<lambda>x. P x \<and> Q x)"
  by (cases m) auto

lemma okE_D: "okE m P \<Longrightarrow> m = Inr x \<Longrightarrow> P x"
  by simp

lemma okE_if [simp]: "okE (if b then m else n) P = (if b then okE m P else okE n P)"
  by simp

lemma checkE_simps [simp]: "checkE e True = Inr ()" "checkE e False = Inl e"
  by (simp_all add: checkE_def)

lemma checkE_Inr_iff [simp]: "checkE e b = Inr u \<longleftrightarrow> b"
  by (simp add: checkE_def)

lemma okE_checkE [simp]: "okE (checkE e b) P = (b \<and> P ())"
  by (simp add: checkE_def)

section \<open>Vectors\<close>

text \<open>
  \<open>v[i]\<close> and \<open>v[i] = x\<close>. The index is an \<open>int\<close>; an unsigned index is passed as \<open>uint i\<close>. A
  negative \<open>int\<close> converts to a huge \<open>size_t\<close>, so it is out of range.
\<close>

definition vget :: "'a list \<Rightarrow> int \<Rightarrow> 'a res" where
  "vget xs i = (if 0 \<le> i \<and> i < int (length xs) then Inr (xs ! nat i) else Inl OutOfRange)"

definition vset :: "'a list \<Rightarrow> int \<Rightarrow> 'a \<Rightarrow> 'a list res" where
  "vset xs i x = (if 0 \<le> i \<and> i < int (length xs) then Inr (xs[nat i := x]) else Inl OutOfRange)"

definition vupd :: "'a list \<Rightarrow> int \<Rightarrow> ('a \<Rightarrow> 'a) \<Rightarrow> 'a list res" where
  "vupd xs i f = bindE (vget xs i) (\<lambda>x. vset xs i (f x))"

definition vfront :: "'a list \<Rightarrow> 'a res" where
  "vfront xs = (case xs of [] \<Rightarrow> Inl OutOfRange | x # _ \<Rightarrow> Inr x)"

definition inrange :: "int \<Rightarrow> 'a list \<Rightarrow> bool" where
  "inrange i xs \<longleftrightarrow> 0 \<le> i \<and> i < int (length xs)"

lemma vget_ok [simp]: "inrange i xs \<Longrightarrow> vget xs i = Inr (xs ! nat i)"
  by (simp add: vget_def inrange_def)

lemma vset_ok [simp]: "inrange i xs \<Longrightarrow> vset xs i x = Inr (xs[nat i := x])"
  by (simp add: vset_def inrange_def)

lemma vupd_ok [simp]: "inrange i xs \<Longrightarrow> vupd xs i f = Inr (xs[nat i := f (xs ! nat i)])"
  by (simp add: vupd_def)

lemma vget_Inr_iff: "vget xs i = Inr x \<longleftrightarrow> inrange i xs \<and> x = xs ! nat i"
  by (auto simp: vget_def inrange_def)

lemma vset_Inr_iff: "vset xs i x = Inr ys \<longleftrightarrow> inrange i xs \<and> ys = xs[nat i := x]"
  by (auto simp: vset_def inrange_def)

lemma vupd_Inr_iff: "vupd xs i f = Inr ys \<longleftrightarrow> inrange i xs \<and> ys = xs[nat i := f (xs ! nat i)]"
  by (auto simp: vupd_def bindE_Inr_iff vget_Inr_iff vset_Inr_iff)

lemma vfront_Cons [simp]: "vfront (x # xs) = Inr x"
  by (simp add: vfront_def)

lemma vfront_Inr_iff: "vfront xs = Inr x \<longleftrightarrow> (\<exists>ys. xs = x # ys)"
  by (cases xs) (auto simp: vfront_def)

lemma inrange_update [simp]: "inrange i (xs[k := x]) = inrange i xs"
  by (simp add: inrange_def)

lemma inrange_nat: "inrange i xs \<Longrightarrow> nat i < length xs"
  by (auto simp: inrange_def)

lemma inrange_uint: "inrange (uint w) xs \<longleftrightarrow> unat w < length xs"
proof -
  have "uint w = int (unat w)" by simp
  then show ?thesis unfolding inrange_def by (simp only: of_nat_0_le_iff of_nat_less_iff simp_thms)
qed

lemmas v_iffs = vget_Inr_iff vset_Inr_iff vupd_Inr_iff vfront_Inr_iff

section \<open>Integer division and remainder\<close>

text \<open>C++ \<open>/\<close> and \<open>%\<close> on \<open>int\<close> truncate towards zero; on unsigned words they are \<open>div\<close> and \<open>mod\<close>.\<close>

definition idiv :: "int \<Rightarrow> int \<Rightarrow> int res" where
  "idiv a b = (if b = 0 then Inl DivByZero else Inr (a sdiv b))"

definition imod :: "int \<Rightarrow> int \<Rightarrow> int res" where
  "imod a b = (if b = 0 then Inl DivByZero else Inr (a smod b))"

definition udiv :: "'a::len word \<Rightarrow> 'a word \<Rightarrow> 'a word res" where
  "udiv a b = (if b = 0 then Inl DivByZero else Inr (a div b))"

definition umod :: "'a::len word \<Rightarrow> 'a word \<Rightarrow> 'a word res" where
  "umod a b = (if b = 0 then Inl DivByZero else Inr (a mod b))"

lemma sdiv_nonneg: "0 \<le> a \<Longrightarrow> 0 \<le> b \<Longrightarrow> (a::int) sdiv b = a div b"
  by (cases "a = 0"; cases "b = 0") (simp_all add: signed_divide_int_def sgn_if)

lemma smod_nonneg: "0 \<le> a \<Longrightarrow> 0 \<le> b \<Longrightarrow> (a::int) smod b = a mod b"
  by (cases "a = 0") (simp_all add: signed_modulo_int_def sgn_if)

lemma idiv_ok [simp]: "0 \<le> a \<Longrightarrow> 0 < b \<Longrightarrow> idiv a b = Inr (a div b)"
  by (simp add: idiv_def sdiv_nonneg)

lemma imod_ok [simp]: "0 \<le> a \<Longrightarrow> 0 < b \<Longrightarrow> imod a b = Inr (a mod b)"
  by (simp add: imod_def smod_nonneg)

lemma udiv_ok [simp]: "b \<noteq> 0 \<Longrightarrow> udiv a b = Inr (a div b)"
  by (simp add: udiv_def)

lemma umod_ok [simp]: "b \<noteq> 0 \<Longrightarrow> umod a b = Inr (a mod b)"
  by (simp add: umod_def)

section \<open>Loops\<close>

primrec foldE :: "('a \<Rightarrow> 's \<Rightarrow> 's res) \<Rightarrow> 'a list \<Rightarrow> 's \<Rightarrow> 's res" where
  "foldE f [] s = Inr s"
| "foldE f (x # xs) s = bindE (f x s) (\<lambda>s'. foldE f xs s')"

text \<open>\<open>for (int i = 0; i < n; i++) s = f(i, s);\<close>\<close>

definition forE :: "int \<Rightarrow> (int \<Rightarrow> 's \<Rightarrow> 's res) \<Rightarrow> 's \<Rightarrow> 's res" where
  "forE n f s = foldE (\<lambda>i. f (int i)) [0..<nat n] s"

lemma foldE_append: "foldE f (xs @ ys) s = bindE (foldE f xs s) (\<lambda>s'. foldE f ys s')"
  by (induction xs arbitrary: s) (auto simp: bindE_assoc)

lemma foldE_inv:
  assumes "I s" and "\<And>x s. x \<in> set xs \<Longrightarrow> I s \<Longrightarrow> okE (f x s) I"
  shows "okE (foldE f xs s) I"
  using assms
proof (induction xs arbitrary: s)
  case Nil
  then show ?case by simp
next
  case (Cons x xs)
  have "okE (f x s) I" using Cons.prems by simp
  then show ?case
    by (auto simp: okE_bindE intro: okE_mono intro!: Cons.IH Cons.prems(2))
qed

lemma foldE_cong [fundef_cong]:
  "xs = ys \<Longrightarrow> (\<And>x s. x \<in> set ys \<Longrightarrow> f x s = g x s) \<Longrightarrow> s = t \<Longrightarrow> foldE f xs s = foldE g ys t"
  by (induction ys arbitrary: xs s t) (auto intro!: bindE_cong)

lemma foldE_fold:
  assumes "\<And>x s. x \<in> set xs \<Longrightarrow> f x s = Inr (g x s)"
  shows "foldE f xs s = Inr (fold g xs s)"
  using assms by (induction xs arbitrary: s) auto

text \<open>The loop rules: an invariant indexed by the number of completed iterations.\<close>

lemma foldE_upt_inv:
  assumes "a \<le> b" "I a s" and step: "\<And>i s. a \<le> i \<Longrightarrow> i < b \<Longrightarrow> I i s \<Longrightarrow> okE (f i s) (I (Suc i))"
  shows "okE (foldE f [a..<b] s) (I b)"
proof -
  have "okE (foldE f [a..<k] s) (I k)" if "a \<le> k" "k \<le> b" for k
    using that
  proof (induction k)
    case 0
    then show ?case using assms by simp
  next
    case (Suc k)
    show ?case
    proof (cases "a = Suc k")
      case True
      then show ?thesis using assms by simp
    next
      case False
      with Suc obtain t where t: "foldE f [a..<k] s = Inr t" "I k t" by (auto simp: okE_iff)
      with Suc False have "okE (f k t) (I (Suc k))" by (intro step) auto
      with t Suc False show ?thesis by (simp add: foldE_append okE_bindE)
    qed
  qed
  with assms show ?thesis by simp
qed

lemma forE_inv:
  assumes init: "I 0 s"
    and step: "\<And>i s. 0 \<le> i \<Longrightarrow> i < n \<Longrightarrow> I i s \<Longrightarrow> okE (f i s) (I (i + 1))"
    and fin: "\<And>s. I (max 0 n) s \<Longrightarrow> P s"
  shows "okE (forE n f s) P"
proof -
  have "okE (foldE (\<lambda>i. f (int i)) [0..<nat n] s) (\<lambda>t. I (int (nat n)) t)"
  proof (rule foldE_upt_inv [where I = "\<lambda>i. I (int i)"])
    fix i t
    assume "i < nat n" "I (int i) t"
    then show "okE (f (int i) t) (I (int (Suc i)))"
      using step [of "int i" t] by (simp add: add.commute)
  qed (use init in auto)
  then show ?thesis
    unfolding forE_def by (rule okE_mono) (use fin in \<open>simp add: max_def split: if_splits\<close>)
qed

lemma forE_const_inv:
  assumes "I s" and "\<And>i s. 0 \<le> i \<Longrightarrow> i < n \<Longrightarrow> I s \<Longrightarrow> okE (f i s) I"
  shows "okE (forE n f s) I"
  by (rule forE_inv [where I = "\<lambda>_. I"]) (use assms in auto)

lemma forE_nonpos [simp]: "n \<le> 0 \<Longrightarrow> forE n f s = Inr s"
  by (simp add: forE_def)

text \<open>\<open>for (int i = 0; i < n; i++) if (p(i)) return i;\<close>: the search loops.\<close>

primrec find_loopE :: "(int \<Rightarrow> bool res) \<Rightarrow> nat list \<Rightarrow> int option res" where
  "find_loopE p [] = Inr None"
| "find_loopE p (i # is) =
     bindE (p (int i)) (\<lambda>b. if b then Inr (Some (int i)) else find_loopE p is)"

definition find_forE :: "int \<Rightarrow> (int \<Rightarrow> bool res) \<Rightarrow> int option res" where
  "find_forE n p = find_loopE p [0..<nat n]"

lemma find_loopE_eq:
  assumes "\<And>i. i \<in> set is \<Longrightarrow> p (int i) = Inr (q i)"
  shows "find_loopE p is = Inr (map_option int (find q is))"
  using assms by (induction "is") auto

lemma find_forE_eq:
  assumes "\<And>i. i < nat n \<Longrightarrow> p (int i) = Inr (q i)"
  shows "find_forE n p = Inr (map_option int (find q [0..<nat n]))"
  unfolding find_forE_def by (rule find_loopE_eq) (use assms in auto)

lemma find_upt_Some: "find q [0..<n] = Some i \<longleftrightarrow> i < n \<and> q i \<and> (\<forall>j<i. \<not> q j)"
proof -
  have "find q [0..<n] = Some i \<longleftrightarrow> (\<exists>k<n. k = i \<and> q k \<and> (\<forall>j<k. \<not> q j))"
    by (auto simp: find_Some_iff)
  then show ?thesis by auto
qed

lemma find_upt_None: "find q [0..<n] = None \<longleftrightarrow> (\<forall>i<n. \<not> q i)"
  by (auto simp: find_None_iff)

section \<open>Erasing from vectors\<close>

text \<open>\<open>find_if\<close> followed by \<open>erase(it)\<close>: the first element with the property goes.\<close>

fun erase_first :: "('a \<Rightarrow> bool) \<Rightarrow> 'a list \<Rightarrow> 'a list" where
  "erase_first p [] = []"
| "erase_first p (x # xs) = (if p x then xs else x # erase_first p xs)"

lemma erase_first_split:
  "x \<in> set xs \<Longrightarrow> p x \<Longrightarrow>
    \<exists>ys y zs. xs = ys @ y # zs \<and> p y \<and> (\<forall>z\<in>set ys. \<not> p z) \<and> erase_first p xs = ys @ zs"
proof (induction xs)
  case (Cons a xs)
  show ?case
  proof (cases "p a")
    case True
    then show ?thesis by (intro exI [of _ "[]"] exI [of _ a] exI [of _ xs]) simp
  next
    case False
    with Cons obtain ys y zs where "xs = ys @ y # zs" "p y" "\<forall>z\<in>set ys. \<not> p z"
      "erase_first p xs = ys @ zs" by auto
    with False show ?thesis by (intro exI [of _ "a # ys"] exI [of _ y] exI [of _ zs]) simp
  qed
qed simp

lemma erase_first_none: "\<forall>x\<in>set xs. \<not> p x \<Longrightarrow> erase_first p xs = xs"
  by (induction xs) auto

lemma set_erase_first: "set (erase_first p xs) \<subseteq> set xs"
  by (induction xs) auto

lemma erase_first_other: "x \<in> set xs \<Longrightarrow> \<not> p x \<Longrightarrow> x \<in> set (erase_first p xs)"
  by (induction xs) auto

lemma length_erase_first_le: "length (erase_first p xs) \<le> length xs"
  by (induction xs) auto

lemma length_erase_first:
  "length (erase_first p xs) = (if \<exists>x\<in>set xs. p x then length xs - 1 else length xs)"
  by (induction xs) (auto simp: Suc_diff_Suc dest: length_pos_if_in_set)

lemma distinct_erase_first: "distinct xs \<Longrightarrow> distinct (erase_first p xs)"
  using set_erase_first by (induction xs) fastforce+

lemma distinct_map_erase_first: "distinct (map f xs) \<Longrightarrow> distinct (map f (erase_first p xs))"
  using set_erase_first by (induction xs) fastforce+

text \<open>\<open>std::find_if\<close> as an index, \<open>None\<close> for \<open>end()\<close>.\<close>

fun find_idx :: "('a \<Rightarrow> bool) \<Rightarrow> 'a list \<Rightarrow> nat option" where
  "find_idx p [] = None"
| "find_idx p (x # xs) = (if p x then Some 0 else map_option Suc (find_idx p xs))"

lemma find_idx_Some:
  "find_idx p xs = Some i \<Longrightarrow> i < length xs \<and> p (xs ! i) \<and> (\<forall>j<i. \<not> p (xs ! j))"
proof (induction xs arbitrary: i)
  case (Cons x xs)
  show ?case
  proof (cases "p x")
    case True
    with Cons.prems show ?thesis by simp
  next
    case False
    with Cons.prems obtain k where "find_idx p xs = Some k" "i = Suc k" by auto
    with Cons.IH [of k] False show ?thesis by (auto simp: less_Suc_eq_0_disj)
  qed
qed simp

lemma find_idx_None: "find_idx p xs = None \<longleftrightarrow> (\<forall>x\<in>set xs. \<not> p x)"
  by (induction xs) auto

text \<open>\<open>std::max_element\<close> with a strict comparison on a key: the first index of a largest key.\<close>

function max_idx_from :: "('a \<Rightarrow> 'k::linorder) \<Rightarrow> 'a list \<Rightarrow> nat \<Rightarrow> nat \<Rightarrow> nat" where
  "max_idx_from f xs best i =
     (if i < length xs
      then max_idx_from f xs (if f (xs ! best) < f (xs ! i) then i else best) (Suc i)
      else best)"
  by pat_completeness auto
termination
  by (relation "measure (\<lambda>(f, xs, best, i). length xs - i)") auto

declare max_idx_from.simps [simp del]

definition max_element :: "('a \<Rightarrow> 'k::linorder) \<Rightarrow> 'a list \<Rightarrow> nat option" where
  "max_element f xs = (if xs = [] then None else Some (max_idx_from f xs 0 1))"

lemma max_idx_from_props:
  assumes "best < length xs" "best < i" "\<forall>j<i. j < length xs \<longrightarrow> f (xs ! j) \<le> f (xs ! best)"
    and "\<forall>j<best. f (xs ! j) < f (xs ! best)"
  shows "max_idx_from f xs best i < length xs
    \<and> (\<forall>j<length xs. f (xs ! j) \<le> f (xs ! max_idx_from f xs best i))
    \<and> (\<forall>j<max_idx_from f xs best i. f (xs ! j) < f (xs ! max_idx_from f xs best i))"
  using assms
proof (induction f xs best i rule: max_idx_from.induct)
  case (1 f xs best i)
  show ?case
  proof (cases "i < length xs")
    case False
    with 1 show ?thesis by (auto simp: max_idx_from.simps [of f xs best i])
  next
    case True
    let ?b = "if f (xs ! best) < f (xs ! i) then i else best"
    have "?b < length xs" "?b < Suc i" using True 1 by auto
    moreover have "\<forall>j<Suc i. j < length xs \<longrightarrow> f (xs ! j) \<le> f (xs ! ?b)"
      using 1 True by (auto simp: less_Suc_eq intro: order.trans less_imp_le)
    moreover have "\<forall>j<?b. f (xs ! j) < f (xs ! ?b)"
      using 1 True by (auto intro: order.strict_trans1)
    ultimately show ?thesis
      using 1 True by (simp add: max_idx_from.simps [of f xs best i])
  qed
qed

lemma max_element_Some:
  assumes "max_element f xs = Some m"
  shows "m < length xs" "\<And>j. j < length xs \<Longrightarrow> f (xs ! j) \<le> f (xs ! m)"
    "\<And>j. j < m \<Longrightarrow> f (xs ! j) < f (xs ! m)"
proof -
  from assms have ne: "xs \<noteq> []" and m: "m = max_idx_from f xs 0 1"
    by (auto simp: max_element_def split: if_splits)
  from ne have len: "0 < length xs" by simp
  note p = max_idx_from_props [where best = 0 and i = 1 and xs = xs and f = f, OF len]
  show "m < length xs" "\<And>j. j < length xs \<Longrightarrow> f (xs ! j) \<le> f (xs ! m)"
    "\<And>j. j < m \<Longrightarrow> f (xs ! j) < f (xs ! m)"
    using p m by auto
qed

lemma max_element_None [simp]: "max_element f xs = None \<longleftrightarrow> xs = []"
  by (simp add: max_element_def)

text \<open>\<open>v.erase(v.begin() + i)\<close>.\<close>

definition erase_at :: "nat \<Rightarrow> 'a list \<Rightarrow> 'a list" where
  "erase_at i xs = take i xs @ drop (Suc i) xs"

lemma length_erase_at: "i < length xs \<Longrightarrow> length (erase_at i xs) = length xs - 1"
  by (simp add: erase_at_def)

lemma set_erase_at: "set (erase_at i xs) \<subseteq> set xs"
  by (auto simp: erase_at_def dest: in_set_takeD in_set_dropD)

end
