(* ===== verification/Common.thy ===== *)
theory Common
  imports Prelude
begin

unbundle bit_operations_syntax

text \<open>
  common.h and common.cc: addresses, the command vocabulary of the DRAM bus, commands and
  transactions, and the small bit and string helpers. C++ \<open>int\<close> is modelled as \<open>int\<close> (signed
  overflow is undefined in C++ and does not happen at the magnitudes the simulator uses);
  unsigned types keep their width.
\<close>

section \<open>Addresses\<close>

record Address =
  a_channel :: int
  a_rank :: int
  a_bankgroup :: int
  a_bank :: int
  a_row :: int
  a_column :: int

definition Address_default :: Address where
  "Address_default =
     \<lparr>a_channel = -1, a_rank = -1, a_bankgroup = -1, a_bank = -1, a_row = -1, a_column = -1\<rparr>"

definition mk_Address :: "int \<Rightarrow> int \<Rightarrow> int \<Rightarrow> int \<Rightarrow> int \<Rightarrow> int \<Rightarrow> Address" where
  "mk_Address ch ra bg ba ro co =
     \<lparr>a_channel = ch, a_rank = ra, a_bankgroup = bg, a_bank = ba, a_row = ro, a_column = co\<rparr>"

section \<open>Commands\<close>

datatype CommandType =
    READ | READ_PRECHARGE | WRITE | WRITE_PRECHARGE | ACTIVATE | PRECHARGE
  | REFRESH_BANK | REFsb | REFab | SREF_ENTER | SREF_EXIT
  | RFMsb | RFMab | DRFMb | DRFMsb | DRFMab | PREab | PREsb | SIZE

text \<open>\<open>static_cast<int>(cmd_type)\<close>, the position in the enumeration.\<close>

fun cmd_index :: "CommandType \<Rightarrow> nat" where
  "cmd_index READ = 0"
| "cmd_index READ_PRECHARGE = 1"
| "cmd_index WRITE = 2"
| "cmd_index WRITE_PRECHARGE = 3"
| "cmd_index ACTIVATE = 4"
| "cmd_index PRECHARGE = 5"
| "cmd_index REFRESH_BANK = 6"
| "cmd_index REFsb = 7"
| "cmd_index REFab = 8"
| "cmd_index SREF_ENTER = 9"
| "cmd_index SREF_EXIT = 10"
| "cmd_index RFMsb = 11"
| "cmd_index RFMab = 12"
| "cmd_index DRFMb = 13"
| "cmd_index DRFMsb = 14"
| "cmd_index DRFMab = 15"
| "cmd_index PREab = 16"
| "cmd_index PREsb = 17"
| "cmd_index SIZE = 18"

fun CommandTypeToString :: "CommandType \<Rightarrow> string" where
  "CommandTypeToString READ = ''read''"
| "CommandTypeToString READ_PRECHARGE = ''read_p''"
| "CommandTypeToString WRITE = ''write''"
| "CommandTypeToString WRITE_PRECHARGE = ''write_p''"
| "CommandTypeToString ACTIVATE = ''activate''"
| "CommandTypeToString PRECHARGE = ''precharge''"
| "CommandTypeToString REFRESH_BANK = ''refresh_bank''"
| "CommandTypeToString REFsb = ''ref_sb''"
| "CommandTypeToString REFab = ''ref_ab''"
| "CommandTypeToString SREF_ENTER = ''self_refresh_enter''"
| "CommandTypeToString SREF_EXIT = ''self_refresh_exit''"
| "CommandTypeToString RFMsb = ''rfm_sb''"
| "CommandTypeToString RFMab = ''rfm_ab''"
| "CommandTypeToString DRFMb = ''drfm_b''"
| "CommandTypeToString DRFMsb = ''drfm_sb''"
| "CommandTypeToString DRFMab = ''drfm_ab''"
| "CommandTypeToString PREab = ''pre_ab''"
| "CommandTypeToString PREsb = ''pre_sb''"
| "CommandTypeToString SIZE = ''WRONG''"

record Command =
  cmd_type :: CommandType
  cmd_addr :: Address
  hex_addr :: u64

text \<open>The default constructor: an invalid command.\<close>

definition Command_default :: Command where
  "Command_default = \<lparr>cmd_type = SIZE, cmd_addr = Address_default, hex_addr = 0\<rparr>"

definition mk_Command :: "CommandType \<Rightarrow> Address \<Rightarrow> u64 \<Rightarrow> Command" where
  "mk_Command ct a h = \<lparr>cmd_type = ct, cmd_addr = a, hex_addr = h\<rparr>"

definition IsValid :: "Command \<Rightarrow> bool" where
  "IsValid cmd \<longleftrightarrow> cmd_type cmd \<noteq> SIZE"

definition IsRefresh :: "Command \<Rightarrow> bool" where
  "IsRefresh cmd \<longleftrightarrow>
     cmd_type cmd = REFab \<or> cmd_type cmd = REFsb \<or> cmd_type cmd = REFRESH_BANK"

definition IsRFM :: "Command \<Rightarrow> bool" where
  "IsRFM cmd \<longleftrightarrow> cmd_type cmd = RFMab \<or> cmd_type cmd = RFMsb"

definition IsDRFM :: "Command \<Rightarrow> bool" where
  "IsDRFM cmd \<longleftrightarrow> cmd_type cmd = DRFMab \<or> cmd_type cmd = DRFMsb \<or> cmd_type cmd = DRFMb"

definition IsRead :: "Command \<Rightarrow> bool" where
  "IsRead cmd \<longleftrightarrow> cmd_type cmd = READ \<or> cmd_type cmd = READ_PRECHARGE"

definition IsWrite :: "Command \<Rightarrow> bool" where
  "IsWrite cmd \<longleftrightarrow> cmd_type cmd = WRITE \<or> cmd_type cmd = WRITE_PRECHARGE"

definition IsReadWrite :: "Command \<Rightarrow> bool" where
  "IsReadWrite cmd \<longleftrightarrow> IsRead cmd \<or> IsWrite cmd"

definition IsSbCMD :: "Command \<Rightarrow> bool" where
  "IsSbCMD cmd \<longleftrightarrow>
     cmd_type cmd = RFMsb \<or> cmd_type cmd = REFsb \<or> cmd_type cmd = DRFMsb \<or> cmd_type cmd = PREsb"

definition IsRankCMD :: "Command \<Rightarrow> bool" where
  "IsRankCMD cmd \<longleftrightarrow>
     cmd_type cmd = REFab \<or> cmd_type cmd = SREF_ENTER \<or> cmd_type cmd = SREF_EXIT \<or>
     cmd_type cmd = RFMab \<or> cmd_type cmd = DRFMab \<or> cmd_type cmd = PREab"

definition Channel :: "Command \<Rightarrow> int" where "Channel cmd = a_channel (cmd_addr cmd)"
definition Rank :: "Command \<Rightarrow> int" where "Rank cmd = a_rank (cmd_addr cmd)"
definition Bankgroup :: "Command \<Rightarrow> int" where "Bankgroup cmd = a_bankgroup (cmd_addr cmd)"
definition Bank :: "Command \<Rightarrow> int" where "Bank cmd = a_bank (cmd_addr cmd)"
definition Row :: "Command \<Rightarrow> int" where "Row cmd = a_row (cmd_addr cmd)"
definition Column :: "Command \<Rightarrow> int" where "Column cmd = a_column (cmd_addr cmd)"

lemmas cmd_fields = Channel_def Rank_def Bankgroup_def Bank_def Row_def Column_def
lemmas cmd_kinds = IsValid_def IsRefresh_def IsRFM_def IsDRFM_def IsRead_def IsWrite_def
  IsReadWrite_def IsSbCMD_def IsRankCMD_def

lemma mk_Command_sel [simp]:
  "cmd_type (mk_Command ct a h) = ct" "cmd_addr (mk_Command ct a h) = a"
  "hex_addr (mk_Command ct a h) = h"
  by (simp_all add: mk_Command_def)

lemma mk_Address_sel [simp]:
  "a_channel (mk_Address ch ra bg ba ro co) = ch" "a_rank (mk_Address ch ra bg ba ro co) = ra"
  "a_bankgroup (mk_Address ch ra bg ba ro co) = bg" "a_bank (mk_Address ch ra bg ba ro co) = ba"
  "a_row (mk_Address ch ra bg ba ro co) = ro" "a_column (mk_Address ch ra bg ba ro co) = co"
  by (simp_all add: mk_Address_def)

lemma Command_default_sel [simp]:
  "cmd_type Command_default = SIZE" "\<not> IsValid Command_default"
  by (simp_all add: Command_default_def IsValid_def)

lemma cmd_index_le: "cmd_index ct \<le> 18"
  by (cases ct) simp_all

lemma cmd_index_less: "ct \<noteq> SIZE \<Longrightarrow> cmd_index ct < 18"
  by (cases ct) simp_all

lemma cmd_index_inj: "cmd_index a = cmd_index b \<longleftrightarrow> a = b"
  by (cases a; cases b; simp)

section \<open>Transactions\<close>

record Transaction =
  t_addr :: u64
  added_cycle :: u64
  complete_cycle :: u64
  t_is_write :: bool

definition mk_Transaction :: "u64 \<Rightarrow> bool \<Rightarrow> Transaction" where
  "mk_Transaction a w = \<lparr>t_addr = a, added_cycle = 0, complete_cycle = 0, t_is_write = w\<rparr>"

section \<open>Bit helpers\<close>

definition ModuloWidth :: "u64 \<Rightarrow> u32 \<Rightarrow> u32 \<Rightarrow> u32 res" where
  "ModuloWidth addr bit_width pos =
     (if unat pos \<ge> 64 \<or> unat bit_width \<ge> 64 then Inl ShiftRange
      else let addr = drop_bit (unat pos) addr;
               store = addr;
               addr = drop_bit (unat bit_width) addr;
               addr = push_bit (unat bit_width) addr
           in Inr (ucast (store XOR addr)))"

definition GetBitInPos :: "u64 \<Rightarrow> int \<Rightarrow> int res" where
  "GetBitInPos bits pos =
     (if pos < 0 \<or> pos \<ge> 64 then Inl ShiftRange
      else Inr (uint (drop_bit (nat pos) bits AND 1)))"

text \<open>The loop of \<open>LogBase2\<close>: halve until the value is at most one, counting the steps.\<close>

function LogBase2_loop :: "int \<Rightarrow> int \<Rightarrow> int" where
  "LogBase2_loop p i = (if p > 1 then LogBase2_loop (p sdiv 2) (i + 1) else i)"
  by pat_completeness auto
termination
  by (relation "measure (\<lambda>(p, i). nat p)") (auto simp: sdiv_nonneg)

declare LogBase2_loop.simps [simp del]

definition LogBase2 :: "int \<Rightarrow> int" where
  "LogBase2 power_of_two = LogBase2_loop power_of_two 0"

lemma xor_high_bits:
  fixes a :: "'a::len word"
  shows "a XOR push_bit n (drop_bit n a) = take_bit n a"
  by (rule bit_word_eqI) (auto simp: bit_simps)

lemma LogBase2_loop_bounds:
  "0 < p \<Longrightarrow> \<exists>k. LogBase2_loop p i = i + int k \<and> 2 ^ k \<le> p \<and> p < 2 ^ Suc k"
proof (induction p i rule: LogBase2_loop.induct)
  case (1 p i)
  show ?case
  proof (cases "1 < p")
    case True
    then have h: "p sdiv 2 = p div 2" "0 < p div 2" by (auto simp: sdiv_nonneg)
    with "1.IH" True obtain k where
      k: "LogBase2_loop (p div 2) (i + 1) = i + 1 + int k" "2 ^ k \<le> p div 2" "p div 2 < 2 ^ Suc k"
      by auto
    from k(2,3) have "2 ^ Suc k \<le> p" "p < 2 ^ Suc (Suc k)" by auto
    with k(1) True h show ?thesis
      by (intro exI [of _ "Suc k"]) (simp add: LogBase2_loop.simps [of p i])
  next
    case False
    with "1.prems" have "p = 1" by simp
    then show ?thesis by (intro exI [of _ 0]) (simp add: LogBase2_loop.simps)
  qed
qed

lemma LogBase2_bounds:
  "0 < n \<Longrightarrow> 0 \<le> LogBase2 n \<and> 2 ^ nat (LogBase2 n) \<le> n \<and> n < 2 ^ nat (LogBase2 n + 1)"
  using LogBase2_loop_bounds [of n 0] by (auto simp: LogBase2_def nat_add_distrib)

lemma LogBase2_nonpos: "n \<le> 1 \<Longrightarrow> LogBase2 n = 0"
  by (simp add: LogBase2_def LogBase2_loop.simps)

lemma LogBase2_nonneg [simp]: "0 \<le> LogBase2 n"
  using LogBase2_bounds [of n] LogBase2_nonpos [of n] by (cases "0 < n") auto

lemma LogBase2_power [simp]: "LogBase2 (2 ^ k) = int k"
proof -
  let ?m = "nat (LogBase2 (2 ^ k))"
  have "(2::int) ^ ?m \<le> 2 ^ k" "(2::int) ^ k < 2 ^ Suc ?m"
    using LogBase2_bounds [of "2 ^ k"] by (auto simp: nat_add_distrib)
  then have "?m \<le> k" "k < Suc ?m"
    by (simp_all only: power_increasing_iff power_strict_increasing_iff one_less_numeral_iff
        Num.num.simps semiring_norm)
  then show ?thesis using LogBase2_nonneg [of "2 ^ k"] by linarith
qed

section \<open>Splitting strings\<close>

text \<open>\<open>std::getline\<close> in a loop, dropping the empty items.\<close>

function StringSplit :: "string \<Rightarrow> char \<Rightarrow> string list" where
  "StringSplit s delim =
     (if s = [] then []
      else let item = takeWhile (\<lambda>c. c \<noteq> delim) s;
               rest = drop 1 (dropWhile (\<lambda>c. c \<noteq> delim) s)
           in if item \<noteq> [] then item # StringSplit rest delim else StringSplit rest delim)"
  by pat_completeness auto
termination
proof (relation "measure (\<lambda>(s, d). length s)", goal_cases)
  case 1
  then show ?case by simp
next
  case (2 s d x xa)
  have "length (dropWhile (\<lambda>c. c \<noteq> d) s) \<le> length s" by (rule length_dropWhile_le)
  with 2 show ?case by (cases "dropWhile (\<lambda>c. c \<noteq> d) s") auto
next
  case (3 s d x xa)
  have "length (dropWhile (\<lambda>c. c \<noteq> d) s) \<le> length s" by (rule length_dropWhile_le)
  with 3 show ?case by (cases "dropWhile (\<lambda>c. c \<noteq> d) s") auto
qed

declare StringSplit.simps [simp del]

definition join :: "char \<Rightarrow> string list \<Rightarrow> string" where
  "join d ws = concat (map (\<lambda>w. w @ [d]) ws)"

lemma StringSplit_item:
  assumes "w \<noteq> []" "d \<notin> set w"
  shows "StringSplit (w @ d # s) d = w # StringSplit s d"
proof -
  have "takeWhile (\<lambda>c. c \<noteq> d) (w @ d # s) = w" "dropWhile (\<lambda>c. c \<noteq> d) (w @ d # s) = d # s"
    using assms by (auto simp: takeWhile_append dropWhile_append)
  with assms show ?thesis by (subst StringSplit.simps) (simp add: Let_def)
qed

end
