(* ===== verification/Lru.thy ===== *)
theory Lru
  imports Common
begin

text \<open>
  lru.hpp: the set-associative LRU cache that Hydra uses as its row-count cache. The record
  \<open>LRUCache\<close> is the class, \<open>lru_read\<close> and \<open>lru_write\<close> its two operations, with the vectors
  accessed through the checked operations of the prelude. \<open>lru_lookup\<close> abstracts a set to the
  partial map from the tags it holds to their dirty bits; the interface locale
  \<open>writeback_cache\<close> states what a client relies on and is interpreted on the model.
\<close>

record CacheEntry =
  e_addr :: u64
  last_access :: u64
  e_valid :: bool
  e_dirty :: bool

record LRUCache =
  l_sets :: int
  l_ways :: int
  l_cache :: "CacheEntry list"
  access_count :: u64
  l_hits :: int
  l_misses :: int
  l_reads :: int
  l_writes :: int
  l_writebacks :: int

definition CacheEntry_zero :: CacheEntry where
  "CacheEntry_zero = \<lparr>e_addr = 0, last_access = 0, e_valid = False, e_dirty = False\<rparr>"

text \<open>
  \<open>cache.resize(n)\<close> keeps a prefix and appends value-initialised entries. A negative size
  converts to a huge \<open>size_t\<close> and throws \<open>std::length_error\<close>.
\<close>

definition update_size :: "LRUCache \<Rightarrow> int \<Rightarrow> int \<Rightarrow> LRUCache res" where
  "update_size c sets ways =
     (if sets * ways < 0 then Inl Thrown
      else Inr (c\<lparr>l_sets := sets, l_ways := ways,
         l_cache := take (nat (sets * ways)) (l_cache c)
           @ replicate (nat (sets * ways) - length (l_cache c)) CacheEntry_zero,
         access_count := 0, l_hits := 0, l_misses := 0, l_reads := 0, l_writes := 0,
         l_writebacks := 0\<rparr>))"

definition get_index :: "LRUCache \<Rightarrow> u64 \<Rightarrow> int res" where
  "get_index c addr =
     bindE (umod addr (word_of_int (l_sets c))) (\<lambda>r. Inr (sint (ucast r :: u32)))"

definition lru_entry :: "LRUCache \<Rightarrow> int \<Rightarrow> int \<Rightarrow> CacheEntry res" where
  "lru_entry c s i = vget (l_cache c) (s * l_ways c + i)"

definition lru_set_entry :: "LRUCache \<Rightarrow> int \<Rightarrow> int \<Rightarrow> (CacheEntry \<Rightarrow> CacheEntry) \<Rightarrow> LRUCache res" where
  "lru_set_entry c s i f =
     bindE (vupd (l_cache c) (s * l_ways c + i) f) (\<lambda>ca. Inr (c\<lparr>l_cache := ca\<rparr>))"

definition find_hit :: "LRUCache \<Rightarrow> int \<Rightarrow> u64 \<Rightarrow> int option res" where
  "find_hit c s addr =
     find_forE (l_ways c) (\<lambda>i. bindE (lru_entry c s i) (\<lambda>e. Inr (e_addr e = addr \<and> e_valid e)))"

definition find_victim :: "LRUCache \<Rightarrow> int \<Rightarrow> int res" where
  "find_victim c s =
     bindE (find_forE (l_ways c) (\<lambda>i. bindE (lru_entry c s i) (\<lambda>e. Inr (\<not> e_valid e)))) (\<lambda>inv.
     case inv of
       Some i \<Rightarrow> Inr i
     | None \<Rightarrow>
         bindE (lru_entry c s 0) (\<lambda>e0.
         bindE (foldE (\<lambda>i (victim, min_access).
             bindE (lru_entry c s (int i)) (\<lambda>e.
             Inr (if last_access e < min_access then (int i, last_access e)
                  else (victim, min_access))))
           [1..<nat (l_ways c)] (0, last_access e0)) (\<lambda>(victim, min_access).
         Inr victim)))"

definition writeback :: "LRUCache \<Rightarrow> int \<Rightarrow> int \<Rightarrow> LRUCache res" where
  "writeback c s way =
     lru_set_entry (c\<lparr>l_writebacks := l_writebacks c + 1\<rparr>) s way (\<lambda>e. e\<lparr>e_valid := False\<rparr>)"

text \<open>The part the two operations share: choose a victim, write it back if it is dirty, refill.\<close>

definition lru_fill :: "LRUCache \<Rightarrow> int \<Rightarrow> u64 \<Rightarrow> bool \<Rightarrow> (int \<times> LRUCache) res" where
  "lru_fill c s addr d =
     bindE (find_victim c s) (\<lambda>victim.
     bindE (lru_entry c s victim) (\<lambda>e.
     bindE (if e_valid e \<and> e_dirty e
            then bindE (writeback c s victim) (\<lambda>c'. Inr (sint (e_addr e), c'))
            else Inr (-1, c)) (\<lambda>(writeback_addr, c').
     bindE (lru_set_entry c' s victim
         (\<lambda>e. e\<lparr>e_addr := addr, e_valid := True, last_access := access_count c', e_dirty := d\<rparr>)) (\<lambda>c''.
     Inr (writeback_addr, c''\<lparr>access_count := access_count c'' + 1\<rparr>)))))"

definition lru_read :: "LRUCache \<Rightarrow> u64 \<Rightarrow> u64 \<Rightarrow> (int \<times> LRUCache) res" where
  "lru_read c addr set_addr =
     bindE (get_index c set_addr) (\<lambda>s.
     let c = c\<lparr>l_reads := l_reads c + 1\<rparr> in
     bindE (find_hit c s addr) (\<lambda>hit.
     case hit of
       Some i \<Rightarrow>
         bindE (lru_set_entry (c\<lparr>l_hits := l_hits c + 1\<rparr>) s i
             (\<lambda>e. e\<lparr>last_access := access_count c\<rparr>)) (\<lambda>c'.
         Inr (0, c'\<lparr>access_count := access_count c' + 1\<rparr>))
     | None \<Rightarrow> lru_fill (c\<lparr>l_misses := l_misses c + 1\<rparr>) s addr False))"

definition lru_write :: "LRUCache \<Rightarrow> u64 \<Rightarrow> u64 \<Rightarrow> (int \<times> LRUCache) res" where
  "lru_write c addr set_addr =
     bindE (get_index c set_addr) (\<lambda>s.
     let c = c\<lparr>l_writes := l_writes c + 1\<rparr> in
     bindE (find_hit c s addr) (\<lambda>hit.
     case hit of
       Some i \<Rightarrow>
         bindE (lru_set_entry c s i
             (\<lambda>e. e\<lparr>last_access := access_count c, e_dirty := True\<rparr>)) (\<lambda>c'.
         Inr (0, c'\<lparr>access_count := access_count c' + 1\<rparr>))
     | None \<Rightarrow> lru_fill c s addr True))"

section \<open>Well-formed caches and their abstraction\<close>

text \<open>The entries of set \<open>s\<close>, and the dirty bit the set stores for a tag.\<close>

definition set_ways :: "LRUCache \<Rightarrow> int \<Rightarrow> CacheEntry list" where
  "set_ways c s = take (nat (l_ways c)) (drop (nat s * nat (l_ways c)) (l_cache c))"

definition ways_lookup :: "CacheEntry list \<Rightarrow> u64 \<Rightarrow> bool option" where
  "ways_lookup es a = map_option e_dirty (find (\<lambda>e. e_valid e \<and> e_addr e = a) es)"

definition lru_lookup :: "LRUCache \<Rightarrow> int \<Rightarrow> u64 \<Rightarrow> bool option" where
  "lru_lookup c s a = ways_lookup (set_ways c s) a"

definition ways_wf :: "CacheEntry list \<Rightarrow> bool" where
  "ways_wf es \<longleftrightarrow> distinct (map e_addr (filter e_valid es))"

definition lru_dims :: "LRUCache \<Rightarrow> bool" where
  "lru_dims c \<longleftrightarrow> 0 < l_sets c \<and> l_sets c < 2 ^ 31 \<and> 0 < l_ways c
     \<and> length (l_cache c) = nat (l_sets c) * nat (l_ways c)"

definition lru_wf :: "LRUCache \<Rightarrow> bool" where
  "lru_wf c \<longleftrightarrow> lru_dims c \<and> (\<forall>s < nat (l_sets c). ways_wf (set_ways c (int s)))"

definition set_of :: "LRUCache \<Rightarrow> u64 \<Rightarrow> int" where
  "set_of c a = uint a mod l_sets c"

lemma get_index_wf:
  assumes "lru_dims c"
  shows "get_index c a = Inr (set_of c a)" "0 \<le> set_of c a" "set_of c a < l_sets c"
proof -
  from assms have s: "0 < l_sets c" "l_sets c < 2 ^ 31" by (auto simp: lru_dims_def)
  then have u: "uint (word_of_int (l_sets c) :: u64) = l_sets c"
    by (simp add: uint_word_of_int take_bit_int_eq_self)
  then have nz: "(word_of_int (l_sets c) :: u64) \<noteq> 0" using s by (metis unsigned_0 less_irrefl)
  show b: "0 \<le> set_of c a" "set_of c a < l_sets c" using s by (auto simp: set_of_def)
  have "uint (a mod word_of_int (l_sets c)) = set_of c a"
    by (simp add: uint_mod u set_of_def)
  then have "uint (ucast (a mod word_of_int (l_sets c)) :: u32) = set_of c a"
    using b s by (simp add: unsigned_ucast_eq take_bit_int_eq_self)
  then have "sint (ucast (a mod word_of_int (l_sets c)) :: u32) = set_of c a"
    using b s by (subst sint_u32_small) simp_all
  with nz show "get_index c a = Inr (set_of c a)" by (simp add: get_index_def)
qed

lemma way_index:
  assumes "lru_dims c" "0 \<le> s" "s < l_sets c" "0 \<le> i" "i < l_ways c"
  shows "inrange (s * l_ways c + i) (l_cache c)"
    "nat (s * l_ways c + i) = nat s * nat (l_ways c) + nat i"
proof -
  have "s * l_ways c + i < (s + 1) * l_ways c" using assms by (simp add: algebra_simps)
  also have "\<dots> \<le> l_sets c * l_ways c" using assms by (intro mult_right_mono) auto
  finally show "inrange (s * l_ways c + i) (l_cache c)"
    using assms by (auto simp: inrange_def lru_dims_def nat_mult_distrib)
  show "nat (s * l_ways c + i) = nat s * nat (l_ways c) + nat i"
    using assms by (simp add: nat_add_distrib nat_mult_distrib)
qed

lemma length_set_ways:
  assumes "lru_dims c" "0 \<le> s" "s < l_sets c"
  shows "length (set_ways c s) = nat (l_ways c)"
proof -
  have "(nat s + 1) * nat (l_ways c) \<le> nat (l_sets c) * nat (l_ways c)"
    using assms by (intro mult_right_mono) auto
  then have "nat (l_ways c) \<le> nat (l_sets c) * nat (l_ways c) - nat s * nat (l_ways c)"
    by (simp only: distrib_right mult_1) linarith
  with assms show ?thesis by (simp add: set_ways_def lru_dims_def)
qed

lemma lru_entry_way:
  assumes "lru_dims c" "0 \<le> s" "s < l_sets c" "i < nat (l_ways c)"
  shows "lru_entry c s (int i) = Inr (set_ways c s ! i)"
proof -
  have i: "0 \<le> int i" "int i < l_ways c" using assms by auto
  note ix = way_index [OF assms(1-3) i]
  then have "nat s * nat (l_ways c) \<le> length (l_cache c)" by (auto simp: inrange_def)
  with ix assms show ?thesis by (simp add: lru_entry_def set_ways_def)
qed

lemma slice_update_same:
  "v < w \<Longrightarrow> take w (drop (s * w) (xs[s * w + v := e])) = (take w (drop (s * w) xs))[v := e]"
  by (simp add: drop_update_swap take_update_swap)

lemma slice_update_other:
  assumes "v < w" "(s::nat) \<noteq> t"
  shows "take w (drop (t * w) (xs[s * w + v := e])) = take w (drop (t * w) xs)"
proof (cases "s < t")
  case True
  then have "s * w + w \<le> t * w" using mult_le_mono1 [of "Suc s" t w] by simp
  with assms show ?thesis by simp
next
  case False
  with assms have "t * w + w \<le> s * w" using mult_le_mono1 [of "Suc t" s w] by simp
  with assms show ?thesis by (simp add: drop_update_swap take_update_swap list_update_beyond)
qed

lemma lru_set_entry_way:
  assumes wf: "lru_dims c" and s: "0 \<le> s" "s < l_sets c" and i: "0 \<le> i" "i < l_ways c"
  obtains c' where "lru_set_entry c s i f = Inr c'" "c' = c\<lparr>l_cache := l_cache c'\<rparr>"
    "length (l_cache c') = length (l_cache c)"
    "set_ways c' s = (set_ways c s)[nat i := f (set_ways c s ! nat i)]"
    "\<And>t. 0 \<le> t \<Longrightarrow> t \<noteq> s \<Longrightarrow> set_ways c' t = set_ways c t"
proof -
  note ix = way_index [OF wf s i]
  let ?k = "nat s * nat (l_ways c) + nat i"
  have "l_cache c ! ?k = set_ways c s ! nat i"
    using lru_entry_way [OF wf s, of "nat i"] i ix by (simp add: lru_entry_def)
  then have "lru_set_entry c s i f = Inr (c\<lparr>l_cache := (l_cache c)[?k := f (set_ways c s ! nat i)]\<rparr>)"
    using ix by (simp add: lru_set_entry_def)
  then show ?thesis
    by (rule that) (use i s in \<open>auto simp: set_ways_def slice_update_same slice_update_other\<close>)
qed

section \<open>Reasoning about one set\<close>

lemma map_of_insert_mid:
  "k \<notin> fst ` set A \<Longrightarrow> map_of (A @ (k, v) # B) = (map_of (A @ B))(k \<mapsto> v)"
  by (induction A) (auto simp: fun_upd_twist)

lemma map_of_distinct_remove:
  "k \<notin> fst ` set A \<Longrightarrow> k \<notin> fst ` set B \<Longrightarrow> (map_of (A @ (k, v) # B))(k := None) = map_of (A @ B)"
  by (simp add: map_of_insert_mid map_of_eq_None_iff fun_upd_idem image_Un del: map_of_append)

definition tags :: "CacheEntry list \<Rightarrow> (u64 \<times> bool) list" where
  "tags es = map (\<lambda>e. (e_addr e, e_dirty e)) (filter e_valid es)"

lemma tags_simps [simp]:
  "tags [] = []" "tags (e # es) = (if e_valid e then (e_addr e, e_dirty e) # tags es else tags es)"
  "tags (xs @ ys) = tags xs @ tags ys"
  by (simp_all add: tags_def)

lemma ways_lookup_tags: "ways_lookup es = map_of (tags es)"
  by (rule ext, induction es) (auto simp: ways_lookup_def)

lemma ways_wf_tags: "ways_wf es \<longleftrightarrow> distinct (map fst (tags es))"
  by (simp add: ways_wf_def tags_def comp_def)

text \<open>Touching an entry without changing its tag, and refilling way \<open>v\<close> with a tag the set lacks.\<close>

lemma ways_touch:
  assumes "ways_wf es" "i < length es" "e_valid (es ! i)" "e_addr (es ! i) = a"
    and "e_valid e'" "e_addr e' = a"
  shows "ways_wf (es[i := e'])" "ways_lookup (es[i := e']) = (ways_lookup es)(a \<mapsto> e_dirty e')"
proof -
  from assms(2) obtain xs e ys where es: "es = xs @ e # ys" "i = length xs"
    by (metis id_take_nth_drop length_take min.absorb4)
  from assms show "ways_wf (es[i := e'])" by (auto simp: es ways_wf_tags)
  have "a \<notin> fst ` set (tags xs)" using assms by (auto simp: es ways_wf_tags)
  with assms show "ways_lookup (es[i := e']) = (ways_lookup es)(a \<mapsto> e_dirty e')"
    by (simp add: es ways_lookup_tags map_of_insert_mid del: map_of_append)
qed

lemma ways_refill:
  assumes wf: "ways_wf es" and v: "v < length es" and miss: "ways_lookup es a = None"
    and e': "e_valid e'" "e_addr e' = a"
  shows "ways_wf (es[v := e'])"
    "ways_lookup (es[v := e']) =
       (if e_valid (es ! v) then (ways_lookup es)(e_addr (es ! v) := None) else ways_lookup es)
         (a \<mapsto> e_dirty e')"
proof -
  from v obtain xs e ys where es: "es = xs @ e # ys" "v = length xs"
    by (metis id_take_nth_drop length_take min.absorb4)
  have a: "a \<notin> fst ` set (tags xs)" "a \<notin> fst ` set (tags ys)"
    using miss by (auto simp: es ways_lookup_tags map_of_eq_None_iff split: if_splits)
  from wf a e' show "ways_wf (es[v := e'])"
    by (auto simp: es ways_wf_tags split: if_splits)
  have "e_valid e \<Longrightarrow> e_addr e \<notin> fst ` set (tags xs) \<and> e_addr e \<notin> fst ` set (tags ys)"
    using wf by (auto simp: es ways_wf_tags)
  then have "(if e_valid e then (ways_lookup es)(e_addr e := None) else ways_lookup es)
      = map_of (tags xs @ tags ys)"
    by (simp add: es ways_lookup_tags map_of_distinct_remove del: map_of_append)
  moreover have "ways_lookup (es[v := e']) = (map_of (tags xs @ tags ys))(a \<mapsto> e_dirty e')"
    using a e' by (simp add: es ways_lookup_tags map_of_insert_mid del: map_of_append)
  moreover have "es ! v = e" by (simp add: es)
  ultimately show "ways_lookup (es[v := e']) =
       (if e_valid (es ! v) then (ways_lookup es)(e_addr (es ! v) := None) else ways_lookup es)
         (a \<mapsto> e_dirty e')"
    by (simp only:)
qed

lemma ways_lookup_hit:
  assumes "ways_wf es" "i < length es" "e_valid (es ! i)" "e_addr (es ! i) = a"
  shows "ways_lookup es a = Some (e_dirty (es ! i))"
  using ways_touch(2) [OF assms, of "es ! i"] assms by (metis list_update_id fun_upd_same)

lemma ways_lookup_None_iff:
  "ways_lookup es a = None \<longleftrightarrow> (\<forall>i < length es. \<not> (e_addr (es ! i) = a \<and> e_valid (es ! i)))"
  by (fastforce simp: ways_lookup_def find_None_iff in_set_conv_nth)

section \<open>The operations on well-formed caches\<close>

lemma find_hit_wf:
  assumes "lru_dims c" "0 \<le> s" "s < l_sets c"
  shows "find_hit c s a = Inr (map_option int
    (find (\<lambda>i. e_addr (set_ways c s ! i) = a \<and> e_valid (set_ways c s ! i)) [0..<nat (l_ways c)]))"
  unfolding find_hit_def by (rule find_forE_eq) (simp add: lru_entry_way assms)

text \<open>An empty way if there is one, otherwise a least recently used way.\<close>

definition victim_ok :: "CacheEntry list \<Rightarrow> int \<Rightarrow> bool" where
  "victim_ok es v \<longleftrightarrow> 0 \<le> v \<and> v < int (length es) \<and>
     (if \<forall>e\<in>set es. e_valid e then \<forall>e\<in>set es. last_access (es ! nat v) \<le> last_access e
      else \<not> e_valid (es ! nat v))"

lemma find_victim_wf:
  assumes "lru_dims c" "0 \<le> s" "s < l_sets c"
  shows "okE (find_victim c s) (victim_ok (set_ways c s))"
proof -
  let ?es = "set_ways c s" and ?n = "nat (l_ways c)"
  have len: "length ?es = ?n" using assms by (rule length_set_ways)
  have n: "0 < ?n" using assms by (simp add: lru_dims_def)
  note way = lru_entry_way [OF assms]
  let ?I = "\<lambda>i (v, m). 0 \<le> v \<and> v < int i \<and> m = last_access (?es ! nat v)
    \<and> (\<forall>j<i. last_access (?es ! nat v) \<le> last_access (?es ! j))"
  have loop: "okE (foldE (\<lambda>i (victim, min_access).
             bindE (lru_entry c s (int i)) (\<lambda>e.
             Inr (if last_access e < min_access then (int i, last_access e)
                  else (victim, min_access)))) [1..<?n] (0, last_access (?es ! 0))) (?I ?n)"
    by (rule foldE_upt_inv)
      (use n way in \<open>force simp: less_Suc_eq not_less dest: order.strict_trans2\<close>)+
  have inv: "find_forE (l_ways c) (\<lambda>i. bindE (lru_entry c s i) (\<lambda>e. Inr (\<not> e_valid e)))
      = Inr (map_option int (find (\<lambda>i. \<not> e_valid (?es ! i)) [0..<?n]))"
    by (rule find_forE_eq) (simp add: way)
  show ?thesis
  proof (cases "find (\<lambda>i. \<not> e_valid (?es ! i)) [0..<?n]")
    case None
    then have "\<forall>e\<in>set ?es. e_valid e"
      using len by (auto simp: find_upt_None in_set_conv_nth)
    moreover have "lru_entry c s 0 = Inr (?es ! 0)" using way [of 0] n by simp
    ultimately show ?thesis
      using loop len
      by (auto simp: find_victim_def inv None okE_bindE victim_ok_def in_set_conv_nth elim!: okE_mono)
  next
    case (Some i)
    then have "i < ?n" "\<not> e_valid (?es ! i)" by (auto simp: find_upt_Some)
    with len show ?thesis
      by (auto simp: find_victim_def inv Some victim_ok_def intro!: nth_mem)
  qed
qed

text \<open>What a refill does to the abstract contents of the cache.\<close>

definition same_shape :: "LRUCache \<Rightarrow> LRUCache \<Rightarrow> bool" where
  "same_shape c c' \<longleftrightarrow> l_sets c' = l_sets c \<and> l_ways c' = l_ways c"

definition fill_post :: "LRUCache \<Rightarrow> int \<Rightarrow> u64 \<Rightarrow> bool \<Rightarrow> int \<times> LRUCache \<Rightarrow> bool" where
  "fill_post c s a d p \<longleftrightarrow> (case p of (r, c') \<Rightarrow>
     lru_wf c' \<and> same_shape c c' \<and>
     (\<forall>t. 0 \<le> t \<longrightarrow> t \<noteq> s \<longrightarrow> lru_lookup c' t = lru_lookup c t) \<and>
     (lru_lookup c' s = (lru_lookup c s)(a \<mapsto> d) \<and> r = -1 \<or>
      (\<exists>b x. lru_lookup c s b = Some x \<and> r = (if x then sint b else -1) \<and>
         lru_lookup c' s = (lru_lookup c s)(b := None, a \<mapsto> d))))"

lemma lru_wf_update:
  assumes "lru_wf c" "0 \<le> s" "s < l_sets c" "same_shape c c'" "length (l_cache c') = length (l_cache c)"
    and "ways_wf (set_ways c' s)" "\<And>t. 0 \<le> t \<Longrightarrow> t \<noteq> s \<Longrightarrow> set_ways c' t = set_ways c t"
  shows "lru_wf c'"
proof -
  have "ways_wf (set_ways c' (int t))" if "t < nat (l_sets c)" for t
    using assms that by (cases "int t = s") (auto simp: lru_wf_def)
  with assms show ?thesis by (auto simp: lru_wf_def lru_dims_def same_shape_def)
qed


lemma update_all:
  "e\<lparr>e_addr := a, e_valid := v, last_access := l, e_dirty := d\<rparr>
    = \<lparr>e_addr = a, last_access = l, e_valid = v, e_dirty = d\<rparr>"
  by simp

lemma refill_entry:
  assumes d: "lru_dims c" and s: "0 \<le> s" "s < l_sets c" and v: "0 \<le> v" "v < l_ways c"
    and f: "\<And>e. f e = e'"
  shows "\<exists>c'. lru_set_entry c s v f = Inr c' \<and> c' = c\<lparr>l_cache := l_cache c'\<rparr>
    \<and> length (l_cache c') = length (l_cache c) \<and> set_ways c' s = (set_ways c s)[nat v := e']
    \<and> (\<forall>t. 0 \<le> t \<longrightarrow> t \<noteq> s \<longrightarrow> set_ways c' t = set_ways c t)"
  by (rule lru_set_entry_way [OF d s v, of f]) (simp only: f, blast)

lemma writeback_dims:
  assumes d: "lru_dims c" and s: "0 \<le> s" "s < l_sets c" and v: "0 \<le> v" "v < l_ways c"
  shows "\<exists>c'. writeback c s v = Inr c' \<and> lru_dims c' \<and> same_shape c c'
    \<and> access_count c' = access_count c \<and> length (l_cache c') = length (l_cache c)
    \<and> (\<forall>e. (set_ways c' s)[nat v := e] = (set_ways c s)[nat v := e])
    \<and> (\<forall>t. 0 \<le> t \<longrightarrow> t \<noteq> s \<longrightarrow> set_ways c' t = set_ways c t)"
proof -
  let ?c = "c\<lparr>l_writebacks := l_writebacks c + 1\<rparr>"
  have ways: "set_ways ?c = set_ways c" by (simp add: fun_eq_iff set_ways_def)
  have d': "lru_dims ?c" using d by (simp add: lru_dims_def)
  have s': "s < l_sets ?c" "v < l_ways ?c" using s v by auto
  obtain c' where c': "writeback c s v = Inr c'" "c' = ?c\<lparr>l_cache := l_cache c'\<rparr>"
    "length (l_cache c') = length (l_cache c)"
    "set_ways c' s = (set_ways c s)[nat v := (set_ways c s ! nat v)\<lparr>e_valid := False\<rparr>]"
    "\<And>t. 0 \<le> t \<Longrightarrow> t \<noteq> s \<Longrightarrow> set_ways c' t = set_ways c t"
    using lru_set_entry_way [OF d' s(1) s'(1) v(1) s'(2), of "\<lambda>e. e\<lparr>e_valid := False\<rparr>"] ways
    by (auto simp: writeback_def)
  have "same_shape c c'" "access_count c' = access_count c" "lru_dims c'"
    by (subst c'(2), use d c'(3) in \<open>simp add: same_shape_def lru_dims_def\<close>)+
  with c' show ?thesis by auto
qed

text \<open>Choosing a victim and refilling it, for an address the set does not hold.\<close>

lemma lru_fill_wf:
  assumes wf: "lru_wf c" and s: "0 \<le> s" "s < l_sets c" and miss: "lru_lookup c s a = None"
  shows "okE (lru_fill c s a d') (fill_post c s a d')"
proof -
  let ?es = "set_ways c s"
  have d: "lru_dims c" using wf by (simp add: lru_wf_def)
  have len: "length ?es = nat (l_ways c)" by (rule length_set_ways [OF d s])
  have ws: "ways_wf ?es" using wf s by (auto simp: lru_wf_def dest: spec [of _ "nat s"])
  obtain v where v: "find_victim c s = Inr v" "victim_ok ?es v"
    using find_victim_wf [OF d s] by (auto simp: okE_iff)
  then have vr: "0 \<le> v" "v < l_ways c" "nat v < length ?es"
    using len d by (auto simp: victim_ok_def lru_dims_def)
  let ?e = "?es ! nat v" and ?r = "\<lambda>e. if e_valid e \<and> e_dirty e then sint (e_addr e) else -1"
  have ent: "lru_entry c s v = Inr ?e" using lru_entry_way [OF d s, of "nat v"] vr by simp
  obtain c1 where c1: "(if e_valid ?e \<and> e_dirty ?e
       then bindE (writeback c s v) (\<lambda>c'. Inr (sint (e_addr ?e), c')) else Inr (-1, c)) = Inr (?r ?e, c1)"
    "lru_dims c1" "same_shape c c1" "length (l_cache c1) = length (l_cache c)"
    "\<And>e. (set_ways c1 s)[nat v := e] = ?es[nat v := e]"
    "\<And>t. 0 \<le> t \<Longrightarrow> t \<noteq> s \<Longrightarrow> set_ways c1 t = set_ways c t"
  proof (cases "e_valid ?e \<and> e_dirty ?e")
    case True
    obtain c0 where "writeback c s v = Inr c0" "lru_dims c0" "same_shape c c0"
      "access_count c0 = access_count c" "length (l_cache c0) = length (l_cache c)"
      "\<And>e. (set_ways c0 s)[nat v := e] = ?es[nat v := e]"
      "\<And>t. 0 \<le> t \<Longrightarrow> t \<noteq> s \<Longrightarrow> set_ways c0 t = set_ways c t"
      using writeback_dims [OF d s vr(1,2)] by blast
    with True show ?thesis by (intro that [of c0]) simp_all
  next
    case False
    with that [of c] d show ?thesis by (simp add: same_shape_def)
  qed
  let ?n = "\<lparr>e_addr = a, last_access = access_count c1, e_valid = True, e_dirty = d'\<rparr>"
  have s1: "s < l_sets c1" "v < l_ways c1" using c1(3) s vr by (auto simp: same_shape_def)
  obtain c2 where c2: "lru_set_entry c1 s v
       (\<lambda>e. e\<lparr>e_addr := a, e_valid := True, last_access := access_count c1, e_dirty := d'\<rparr>) = Inr c2"
    "c2 = c1\<lparr>l_cache := l_cache c2\<rparr>" "length (l_cache c2) = length (l_cache c1)"
    "set_ways c2 s = (set_ways c1 s)[nat v := ?n]"
    "\<And>t. 0 \<le> t \<Longrightarrow> t \<noteq> s \<Longrightarrow> set_ways c2 t = set_ways c1 t"
    using refill_entry [OF c1(2) s(1) s1(1) vr(1) s1(2), of
      "\<lambda>e. e\<lparr>e_addr := a, e_valid := True, last_access := access_count c1, e_dirty := d'\<rparr>" ?n]
    by (auto simp: update_all)
  let ?c3 = "c2\<lparr>access_count := access_count c2 + 1\<rparr>"
  have run: "lru_fill c s a d' = Inr (?r ?e, ?c3)"
    unfolding lru_fill_def using v ent c1(1) c2(1) by simp
  have shape: "same_shape c ?c3" by (subst c2(2), use c1(3) in \<open>simp add: same_shape_def\<close>)
  have ways: "set_ways ?c3 s = ?es[nat v := ?n]"
    "\<And>t. 0 \<le> t \<Longrightarrow> t \<noteq> s \<Longrightarrow> set_ways ?c3 t = set_ways c t"
    using c2(4,5) c1(5,6) by (simp_all add: set_ways_def)
  note refill = ways_refill [OF ws vr(3) miss [unfolded lru_lookup_def], of ?n]
  have wf3: "lru_wf ?c3"
    by (rule lru_wf_update [OF wf s shape]) (use c1(4) c2(3) ways refill(1) in auto)
  have look: "lru_lookup ?c3 s = (if e_valid ?e then (lru_lookup c s)(e_addr ?e := None)
       else lru_lookup c s)(a \<mapsto> d')"
    using refill(2) ways(1) by (simp add: lru_lookup_def fun_eq_iff)
  have other: "\<forall>t. 0 \<le> t \<longrightarrow> t \<noteq> s \<longrightarrow> lru_lookup ?c3 t = lru_lookup c t"
    using ways(2) by (simp add: lru_lookup_def fun_eq_iff)
  have old: "e_valid ?e \<Longrightarrow> lru_lookup c s (e_addr ?e) = Some (e_dirty ?e)"
    using ways_lookup_hit [OF ws vr(3)] by (simp add: lru_lookup_def)
  show ?thesis
  proof (cases "e_valid ?e")
    case True
    show ?thesis unfolding run okE_simps fill_post_def prod.case
      by (intro conjI disjI2 exI [of _ "e_addr ?e"] exI [of _ "e_dirty ?e"])
        (use wf3 shape look other old True in simp_all)
  next
    case False
    show ?thesis unfolding run okE_simps fill_post_def prod.case
      by (intro conjI disjI1) (use wf3 shape look other False in simp_all)
  qed
qed

section \<open>The two operations\<close>

definition lru_access :: "bool \<Rightarrow> LRUCache \<Rightarrow> u64 \<Rightarrow> u64 \<Rightarrow> (int \<times> LRUCache) res" where
  "lru_access w c a sa = (if w then lru_write c a sa else lru_read c a sa)"

definition access_post :: "bool \<Rightarrow> LRUCache \<Rightarrow> int \<Rightarrow> u64 \<Rightarrow> int \<times> LRUCache \<Rightarrow> bool" where
  "access_post w c s a p \<longleftrightarrow>
     (case lru_lookup c s a of
        None \<Rightarrow> fill_post c s a w p
      | Some d \<Rightarrow> (case p of (r, c') \<Rightarrow>
          lru_wf c' \<and> same_shape c c' \<and> r = 0 \<and> lru_lookup c' s = (lru_lookup c s)(a \<mapsto> (d \<or> w)) \<and>
          (\<forall>t. 0 \<le> t \<longrightarrow> t \<noteq> s \<longrightarrow> lru_lookup c' t = lru_lookup c t)))"

text \<open>The counters are no part of the contents.\<close>

lemma counters_irrelevant [simp]:
  "set_ways (c\<lparr>l_reads := x\<rparr>) = set_ways c" "set_ways (c\<lparr>l_writes := x\<rparr>) = set_ways c"
  "set_ways (c\<lparr>l_hits := x\<rparr>) = set_ways c" "set_ways (c\<lparr>l_misses := x\<rparr>) = set_ways c"
  "set_ways (c\<lparr>access_count := y\<rparr>) = set_ways c"
  "lru_dims (c\<lparr>l_reads := x\<rparr>) = lru_dims c" "lru_dims (c\<lparr>l_writes := x\<rparr>) = lru_dims c"
  "lru_dims (c\<lparr>l_hits := x\<rparr>) = lru_dims c" "lru_dims (c\<lparr>l_misses := x\<rparr>) = lru_dims c"
  "lru_dims (c\<lparr>access_count := y\<rparr>) = lru_dims c"
  by (auto simp: set_ways_def lru_dims_def fun_eq_iff)

lemma fill_post_counters:
  assumes "set_ways c = set_ways c'" "same_shape c' c"
  shows "fill_post c s a d p = fill_post c' s a d p"
  using assms by (simp add: fill_post_def lru_lookup_def fun_eq_iff same_shape_def)

lemma find_hit_cases:
  assumes "lru_wf c" "0 \<le> s" "s < l_sets c"
  obtains "find_hit c s a = Inr None" "lru_lookup c s a = None"
  | i where "find_hit c s a = Inr (Some (int i))" "i < nat (l_ways c)"
      "e_valid (set_ways c s ! i)" "e_addr (set_ways c s ! i) = a"
      "lru_lookup c s a = Some (e_dirty (set_ways c s ! i))"
proof -
  have d: "lru_dims c" using assms by (simp add: lru_wf_def)
  have ws: "ways_wf (set_ways c s)" using assms by (auto simp: lru_wf_def dest: spec [of _ "nat s"])
  note len = length_set_ways [OF d assms(2,3)] and hit = find_hit_wf [OF d assms(2,3), of a]
  show ?thesis
  proof (cases "find (\<lambda>i. e_addr (set_ways c s ! i) = a \<and> e_valid (set_ways c s ! i)) [0..<nat (l_ways c)]")
    case None
    then have "lru_lookup c s a = None"
      by (simp add: lru_lookup_def ways_lookup_None_iff len find_upt_None)
    with hit None show ?thesis using that(1) by simp
  next
    case (Some i)
    then have "i < nat (l_ways c)" "e_addr (set_ways c s ! i) = a" "e_valid (set_ways c s ! i)"
      by (auto simp: find_upt_Some)
    moreover from this have "lru_lookup c s a = Some (e_dirty (set_ways c s ! i))"
      using ways_lookup_hit [OF ws, of i a] len by (simp add: lru_lookup_def)
    ultimately show ?thesis using hit Some that(2) [of i] by simp
  qed
qed

text \<open>A hit: the entry is touched in place.\<close>

lemma lru_hit_wf:
  assumes wf: "lru_wf c" and s: "0 \<le> s" "s < l_sets c" and i: "i < nat (l_ways c)"
    and e: "e_valid (set_ways c s ! i)" "e_addr (set_ways c s ! i) = a"
    and f: "\<And>e. e_valid (f e) = e_valid e" "\<And>e. e_addr (f e) = e_addr e"
      "\<And>e. e_dirty (f e) = (e_dirty e \<or> w)"
  shows "okE (bindE (lru_set_entry c s (int i) f) (\<lambda>c'. Inr (0, c'\<lparr>access_count := access_count c' + 1\<rparr>)))
    (access_post w c s a)"
proof -
  have d: "lru_dims c" using wf by (simp add: lru_wf_def)
  have ws: "ways_wf (set_ways c s)" using wf s by (auto simp: lru_wf_def dest: spec [of _ "nat s"])
  have i': "0 \<le> int i" "int i < l_ways c" "i < length (set_ways c s)"
    using i length_set_ways [OF d s] by auto
  obtain c' where c': "lru_set_entry c s (int i) f = Inr c'" "c' = c\<lparr>l_cache := l_cache c'\<rparr>"
    "length (l_cache c') = length (l_cache c)"
    "set_ways c' s = (set_ways c s)[i := f (set_ways c s ! i)]"
    "\<And>t. 0 \<le> t \<Longrightarrow> t \<noteq> s \<Longrightarrow> set_ways c' t = set_ways c t"
    using lru_set_entry_way [OF d s i'(1,2), of f] by auto
  let ?c = "c'\<lparr>access_count := access_count c' + 1\<rparr>"
  have shape: "same_shape c ?c" by (subst c'(2), simp add: same_shape_def)
  note touch = ways_touch [OF ws i'(3) e, of "f (set_ways c s ! i)"]
  have "lru_wf ?c"
    by (rule lru_wf_update [OF wf s shape]) (use c' touch(1) f e in auto)
  moreover have "lru_lookup ?c s = (lru_lookup c s)(a \<mapsto> (e_dirty (set_ways c s ! i) \<or> w))"
    using touch(2) f e c'(4) by (simp add: lru_lookup_def fun_eq_iff)
  moreover have "lru_lookup c s a = Some (e_dirty (set_ways c s ! i))"
    using ways_lookup_hit [OF ws i'(3) e] by (simp add: lru_lookup_def)
  ultimately show ?thesis
    using c' shape by (simp add: access_post_def lru_lookup_def fun_eq_iff)
qed

lemma lru_access_wf:
  assumes wf: "lru_wf c"
  shows "okE (lru_access w c a sa) (access_post w c (set_of c sa) a)"
proof -
  have d: "lru_dims c" using wf by (simp add: lru_wf_def)
  note ix = get_index_wf [OF d, of sa]
  define b where "b = (if w then c\<lparr>l_writes := l_writes c + 1\<rparr> else c\<lparr>l_reads := l_reads c + 1\<rparr>)"
  define m where "m = (if w then b else b\<lparr>l_misses := l_misses b + 1\<rparr>)"
  define h where "h = (if w then b else b\<lparr>l_hits := l_hits b + 1\<rparr>)"
  note bmh = b_def m_def h_def
  define s where "s = set_of c sa"
  have shape: "same_shape c b" "same_shape c m" "same_shape c h"
    by (auto simp: bmh same_shape_def)
  have ways: "set_ways b = set_ways c" "set_ways m = set_ways c" "set_ways h = set_ways c"
    by (auto simp: bmh)
  have wfs: "lru_wf b" "lru_wf m" "lru_wf h"
    using wf by (auto simp: bmh lru_wf_def)
  have post: "access_post w x s a = access_post w c s a" if "set_ways x = set_ways c" "same_shape c x" for x
  proof -
    have "lru_lookup x = lru_lookup c" "same_shape x = same_shape c"
      using that by (auto simp: fun_eq_iff lru_lookup_def same_shape_def)
    then show ?thesis by (intro ext) (simp add: access_post_def fill_post_def split: option.split)
  qed
  have look: "lru_lookup b = lru_lookup c" "lru_lookup m = lru_lookup c"
    using ways by (auto simp: fun_eq_iff lru_lookup_def)
  let ?f = "\<lambda>e. if w then e\<lparr>last_access := access_count b, e_dirty := True\<rparr>
    else e\<lparr>last_access := access_count b\<rparr>"
  have run: "lru_access w c a sa = bindE (find_hit b s a) (\<lambda>hit. case hit of
      Some i \<Rightarrow> bindE (lru_set_entry h s i ?f) (\<lambda>c'. Inr (0, c'\<lparr>access_count := access_count c' + 1\<rparr>))
    | None \<Rightarrow> lru_fill m s a w)"
    unfolding bmh s_def lru_access_def lru_write_def lru_read_def using ix
    by (cases w) (simp_all add: Let_def)
  have s: "0 \<le> s" "s < l_sets b" "s < l_sets m" "s < l_sets h"
    using ix shape by (auto simp: same_shape_def s_def)
  show ?thesis unfolding s_def [symmetric]
  proof (cases rule: find_hit_cases [OF wfs(1) s(1,2), of a, case_names miss hit])
    case miss
    with lru_fill_wf [OF wfs(2) s(1,3), of a w] look
    have "okE (lru_access w c a sa) (access_post w m s a)" by (auto simp: run access_post_def elim!: okE_mono)
    then show "okE (lru_access w c a sa) (access_post w c s a)" using post [OF ways(2) shape(2)] by simp
  next
    case (hit i)
    then have "okE (lru_access w c a sa) (access_post w h s a)"
      using lru_hit_wf [OF wfs(3) s(1,4), of i a ?f w] ways shape
      by (simp add: run same_shape_def)
    then show "okE (lru_access w c a sa) (access_post w c s a)" using post [OF ways(3) shape(3)] by simp
  qed
qed

section \<open>The interface of a write-back cache\<close>

text \<open>
  What a client may rely on. \<open>look c s a\<close> is the dirty bit stored for tag \<open>a\<close> in set \<open>s\<close>;
  \<open>acc\<close> is a read or a write; \<open>enc\<close> is the value in which an operation reports a tag it has
  written back.
\<close>

fun accesses :: "(bool \<Rightarrow> 'c \<Rightarrow> 'a \<Rightarrow> 'a \<Rightarrow> (int \<times> 'c) res) \<Rightarrow> (bool \<times> 'a \<times> 'a) list \<Rightarrow> 'c \<Rightarrow> (int list \<times> 'c) res" where
  "accesses acc [] c = Inr ([], c)"
| "accesses acc ((w, a, sa) # ops) c =
     bindE (acc w c a sa) (\<lambda>(r, c').
     bindE (accesses acc ops c') (\<lambda>(rs, c''). Inr (r # rs, c'')))"

locale writeback_cache =
  fixes invar :: "'c \<Rightarrow> bool"
    and index :: "'c \<Rightarrow> 'a \<Rightarrow> 's"
    and look :: "'c \<Rightarrow> 's \<Rightarrow> 'a \<Rightarrow> bool option"
    and acc :: "bool \<Rightarrow> 'c \<Rightarrow> 'a \<Rightarrow> 'a \<Rightarrow> (int \<times> 'c) res"
    and enc :: "'a \<Rightarrow> int"
  assumes acc_ok: "invar c \<Longrightarrow> okE (acc w c a sa) (\<lambda>(r, c'). invar c' \<and> index c' = index c)"
    and acc_present: "invar c \<Longrightarrow> acc w c a sa = Inr (r, c') \<Longrightarrow>
      \<exists>d. look c' (index c sa) a = Some d \<and> (w \<longrightarrow> d)"
    and acc_keeps: "invar c \<Longrightarrow> acc w c a sa = Inr (r, c') \<Longrightarrow> look c (index c sb) b = Some True \<Longrightarrow>
      look c' (index c sb) b = Some True \<or> r = enc b"
begin

lemma accesses_ok:
  "invar c \<Longrightarrow> okE (accesses acc ops c) (\<lambda>(rs, c'). invar c' \<and> index c' = index c \<and> length rs = length ops)"
proof (induction ops arbitrary: c)
  case (Cons op ops)
  obtain w a sa where op: "op = (w, a, sa)" by (cases op)
  obtain r c' where c': "acc w c a sa = Inr (r, c')" "invar c'" "index c' = index c"
    using acc_ok [OF Cons.prems, of w a sa] by (auto simp: okE_iff)
  from Cons.IH [OF c'(2)] c' show ?case by (auto simp: op okE_iff)
qed simp

lemma dirty_until_returned:
  "invar c \<Longrightarrow> look c (index c sb) b = Some True \<Longrightarrow>
    okE (accesses acc ops c) (\<lambda>(rs, c'). look c' (index c sb) b = Some True \<or> enc b \<in> set rs)"
proof (induction ops arbitrary: c)
  case (Cons op ops)
  obtain w a sa where op: "op = (w, a, sa)" by (cases op)
  obtain r c' where c': "acc w c a sa = Inr (r, c')" "invar c'" "index c' = index c"
    using acc_ok [OF Cons.prems(1), of w a sa] by (auto simp: okE_iff)
  consider "look c' (index c sb) b = Some True" | "r = enc b"
    using acc_keeps [OF Cons.prems(1) c'(1) Cons.prems(2)] by blast
  then show ?case
  proof cases
    case 1
    with Cons.IH [OF c'(2)] c' show ?thesis by (auto simp: op okE_iff)
  next
    case 2
    with accesses_ok [OF c'(2), of ops] c' show ?thesis by (auto simp: op okE_iff)
  qed
qed simp

lemma written_until_returned:
  assumes "invar c"
  shows "okE (acc True c a sa) (\<lambda>(r, c'). okE (accesses acc ops c')
    (\<lambda>(rs, c''). look c'' (index c sa) a = Some True \<or> enc a \<in> set rs))"
proof -
  obtain r c' where c': "acc True c a sa = Inr (r, c')" "invar c'" "index c' = index c"
    using acc_ok [OF assms, of True a sa] by (auto simp: okE_iff)
  have "look c' (index c' sa) a = Some True"
    using acc_present [OF assms c'(1)] c'(3) by auto
  with dirty_until_returned [OF c'(2), of sa a ops] c' show ?thesis by simp
qed

end

interpretation lru: writeback_cache lru_wf set_of lru_lookup lru_access sint
proof
  fix c :: LRUCache and w and a sa :: u64
  assume wf: "lru_wf c"
  note spec = lru_access_wf [OF wf, of w a sa]
  show "okE (lru_access w c a sa) (\<lambda>(r, c'). lru_wf c' \<and> set_of c' = set_of c)"
    using spec by (rule okE_mono)
      (auto simp: access_post_def fill_post_def same_shape_def set_of_def fun_eq_iff split: option.splits)
  fix r c'
  assume run: "lru_access w c a sa = Inr (r, c')"
  show "\<exists>d. lru_lookup c' (set_of c sa) a = Some d \<and> (w \<longrightarrow> d)"
    using spec run by (auto simp: access_post_def fill_post_def split: option.splits)
  fix sb b
  assume "lru_lookup c (set_of c sb) b = Some True"
  moreover have "0 \<le> set_of c sb" using wf by (simp add: set_of_def lru_wf_def lru_dims_def)
  ultimately show "lru_lookup c' (set_of c sb) b = Some True \<or> r = sint b"
    using spec run
    by (cases "set_of c sb = set_of c sa")
      (auto simp: access_post_def fill_post_def split: option.splits if_splits)
qed

section \<open>Properties\<close>

text \<open>A one-way cache whose only set holds the dirty tag \<open>t\<close>.\<close>

definition one_line :: "u64 \<Rightarrow> LRUCache" where
  "one_line t = \<lparr>l_sets = 1, l_ways = 1,
     l_cache = [\<lparr>e_addr = t, last_access = 0, e_valid = True, e_dirty = True\<rparr>],
     access_count = 1, l_hits = 0, l_misses = 0, l_reads = 0, l_writes = 1, l_writebacks = 0\<rparr>"

lemma one_line_wf: "lru_wf (one_line t)"
  by (simp add: one_line_def lru_wf_def lru_dims_def set_ways_def ways_wf_def)

text \<open>
  C24. Nothing that was written is lost: after a write of \<open>addr\<close> and any further sequence of
  reads and writes, none of which faults, the set of \<open>addr\<close> still holds the line and the line is
  dirty, or one of the later operations returned its address for write-back.
\<close>

theorem lru_dirty_line_reported:
  assumes "lru_wf c"
  shows "okE (lru_write c a sa) (\<lambda>(r, c'). okE (accesses lru_access ops c')
    (\<lambda>(rs, c''). lru_lookup c'' (set_of c sa) a = Some True \<or> sint a \<in> set rs))"
  using lru.written_until_returned [OF assms, of a sa ops] by (simp add: lru_access_def)

theorem lru_dirty_line_reported_witness:
  "lru_wf (one_line 7) \<and> okE (lru_write (one_line 7) 9 0) (\<lambda>(r, c').
     okE (accesses lru_access [(False, 5, 0)] c')
      (\<lambda>(rs, c''). lru_lookup c'' (set_of (one_line 7) 0) 9 = Some True \<or> sint (9::u64) \<in> set rs))"
  using lru_dirty_line_reported [OF one_line_wf, of 7 9 0 "[(False, 5, 0)]"] one_line_wf by simp

text \<open>
  The victim of a replacement is an empty way of the set when it has one, and otherwise a way
  with the least \<open>last_access\<close> of the set.
\<close>

theorem find_victim_lru:
  assumes "lru_wf c"
  shows "okE (find_victim c (set_of c sa)) (\<lambda>v. 0 \<le> v \<and> v < l_ways c \<and>
    (if \<forall>e\<in>set (set_ways c (set_of c sa)). e_valid e
     then \<forall>e\<in>set (set_ways c (set_of c sa)).
            last_access (set_ways c (set_of c sa) ! nat v) \<le> last_access e
     else \<not> e_valid (set_ways c (set_of c sa) ! nat v)))"
proof -
  have d: "lru_dims c" using assms by (simp add: lru_wf_def)
  note ix = get_index_wf [OF d, of sa]
  from find_victim_wf [OF d ix(2,3)] show ?thesis
    by (rule okE_mono) (use length_set_ways [OF d ix(2,3)] d in \<open>simp add: victim_ok_def lru_dims_def\<close>)
qed

theorem find_victim_lru_witness:
  "lru_wf (one_line 7) \<and> okE (find_victim (one_line 7) (set_of (one_line 7) 3))
     (\<lambda>v. 0 \<le> v \<and> v < l_ways (one_line 7))"
  using find_victim_lru [OF one_line_wf, of 7 3] one_line_wf by (auto elim!: okE_mono)

text \<open>
  \<open>update_size\<close> turns a cache that holds no valid line (the default-constructed
  \<open>Config::hydra_rcc\<close>) into a well-formed empty cache.
\<close>

theorem update_size_empty:
  assumes "0 < sets" "sets < 2 ^ 31" "0 < ways" "\<forall>e\<in>set (l_cache c). \<not> e_valid e"
  shows "okE (update_size c sets ways) (\<lambda>c'. lru_wf c' \<and> (\<forall>s a. lru_lookup c' s a = None))"
proof -
  obtain c' where c': "update_size c sets ways = Inr c'" "l_sets c' = sets" "l_ways c' = ways"
    "l_cache c' = take (nat (sets * ways)) (l_cache c)
           @ replicate (nat (sets * ways) - length (l_cache c)) CacheEntry_zero"
    using assms by (auto simp: update_size_def mult_less_0_iff)
  have inv: "\<not> e_valid e" if "e \<in> set (l_cache c')" for e
    using that assms(4) c'(4) by (auto simp: CacheEntry_zero_def dest: in_set_takeD)
  then have inv': "\<not> e_valid e" if "e \<in> set (set_ways c' s)" for e s
    using that by (auto simp: set_ways_def dest!: in_set_takeD in_set_dropD)
  have "length (l_cache c') = nat sets * nat ways"
    using c'(4) assms by (simp add: nat_mult_distrib)
  then have "lru_dims c'" using c' assms by (simp add: lru_dims_def)
  moreover have "filter e_valid (set_ways c' s) = []" for s using inv' by (simp add: filter_empty_conv)
  then have "\<And>s. ways_wf (set_ways c' s)" by (simp add: ways_wf_def)
  moreover have "lru_lookup c' s a = None" for s a
    using inv' by (auto simp: lru_lookup_def ways_lookup_def find_None_iff)
  ultimately show ?thesis using c' by (simp add: lru_wf_def)
qed

theorem update_size_empty_witness:
  "okE (update_size ((one_line 0)\<lparr>l_cache := []\<rparr>) 4 2) (\<lambda>c'. lru_wf c' \<and> (\<forall>s a. lru_lookup c' s a = None))"
  using update_size_empty [of 4 2 "(one_line 0)\<lparr>l_cache := []\<rparr>"] by simp

text \<open>
  The result \<open>0\<close> does not identify a hit: a read that misses and evicts the dirty line of
  tag 0 returns the same value, so its client cannot tell that a write-back is due.
\<close>

theorem lru_zero_is_ambiguous:
  "lru_wf (one_line 0) \<and> lru_lookup (one_line 0) 0 0 = Some True \<and>
   okE (lru_read (one_line 0) 0 0) (\<lambda>(r, c'). r = 0 \<and> lru_lookup c' 0 0 = Some True) \<and>
   okE (lru_read (one_line 0) 5 0) (\<lambda>(r, c'). r = 0 \<and> lru_lookup c' 0 0 = None)"
  using one_line_wf
  by (simp add: one_line_def lru_read_def get_index_def umod_def find_hit_def find_forE_def lru_entry_def
      vget_def lru_set_entry_def vupd_def vset_def lru_fill_def find_victim_def writeback_def
      lru_lookup_def set_ways_def ways_lookup_def Let_def)

end
