(* ===== verification/Config.thy ===== *)
theory Config
  imports Lru Complex_Main
begin

unbundle bit_operations_syntax

text \<open>
  configuration.h and configuration.cc: the parameter set of a simulation, how it is read, and
  the translation of physical addresses to DRAM coordinates. \<open>Config\<close> is a chain of record
  extensions, one per \<open>Init*Params\<close> group, so that a field is selected as in the source. The INI
  reader is a third-party library; it is the record \<open>INIReader\<close> of its four lookup functions.
  The energy increments of \<open>InitPowerParams\<close> and the thermal parameters (floating point, read by
  the power report only) are left out.
\<close>

datatype DRAMProtocol =
    DDR3 | DDR4 | DDR5 | GDDR5 | GDDR5X | GDDR6 | LPDDR | LPDDR3 | LPDDR4 | HBM | HBM2 | HMC
  | DRAMProtocol_SIZE

datatype RefreshPolicy =
    RANK_LEVEL_SIMULTANEOUS | RANK_LEVEL_STAGGERED | BANKSET_LEVEL_STAGGERED
  | BANK_LEVEL_STAGGERED | NO_REFRESH | RefreshPolicy_SIZE

datatype RowBufPolicy = OPEN_PAGE | CLOSE_PAGE | SOFT_CLOSE_PAGE | RowBufPolicy_SIZE

section \<open>The parameter record\<close>

record cfg_dram =
  protocol :: DRAMProtocol
  channel_size :: int
  channels :: int
  ranks :: int
  banks :: int
  bankgroups :: int
  banks_per_group :: int
  rows :: int
  columns :: int
  device_width :: int
  bus_width :: int
  devices_per_rank :: int
  BL :: int

record cfg_map = cfg_dram +
  shift_bits :: int
  ch_pos :: int
  ra_pos :: int
  bg_pos :: int
  ba_pos :: int
  ro_pos :: int
  co_pos :: int
  hi_pos :: int
  lo_pos :: int
  ch_mask :: u64
  ra_mask :: u64
  bg_mask :: u64
  ba_mask :: u64
  ro_mask :: u64
  co_mask :: u64
  hi_mask :: u64
  lo_mask :: u64
  request_size_bytes :: int

record cfg_timing1 = cfg_map +
  tCK :: rat
  burst_cycle :: int
  AL :: int
  CL :: int
  CWL :: int
  RL :: int
  WL :: int
  tCCD_L :: int
  tCCD_S :: int
  tRTRS :: int
  tRTP :: int
  tWTR_L :: int
  tWTR_S :: int
  tWR :: int
  tRP :: int
  tRRD_L :: int
  tRRD_S :: int
  tRAS :: int
  tRCD :: int
  tRC :: int

record cfg_timing2 = cfg_timing1 +
  tCKE :: int
  tCKESR :: int
  tXS :: int
  tXP :: int
  tREFSBRD :: int
  tRFC :: int
  tRFCsb :: int
  tRFCb :: int
  tREFI :: int
  tREFIsb :: int
  tREFIb :: int
  tFAW :: int
  tRPRE :: int
  tWPRE :: int
  read_delay :: int
  write_delay :: int
  tPPD :: int
  t32AW :: int
  tRCDRD :: int
  tRCDWR :: int
  ideal_memory_latency :: int

record cfg_hmc = cfg_timing2 +
  num_links :: int
  num_dies :: int
  link_width :: int
  link_speed :: int
  num_vaults :: int
  block_size :: int
  xbar_queue_depth :: int

record cfg_system = cfg_hmc +
  address_mapping :: string
  mop_size :: int
  mop_enabled :: bool
  queue_structure :: string
  row_buf_policy :: RowBufPolicy
  refresh_policy :: RefreshPolicy
  fgr :: bool
  refchunks :: int
  rows_refreshed :: int
  cmd_queue_size :: int
  unified_queue :: bool
  trans_queue_size :: int
  write_buf_size :: int
  enable_self_refresh :: bool
  sref_threshold :: int
  aggressive_precharging_enabled :: bool
  enable_hbm_dual_cmd :: bool

record cfg_rfm = cfg_system +
  rfm_mode :: int
  rfm_policy :: int
  raaimt :: int
  raammt :: int
  rfm_raa_decrement :: int
  ref_raa_decrement :: int
  tRFM :: int
  tRFMsb :: int
  alert_mode :: int
  tABO_act :: int
  ABO_delay_acts :: int
  tABO_PW :: int
  tref_enable :: int
  tref_mode :: int
  tref_interval :: int
  moat_mode :: int
  moatth :: int

record cfg_drfm = cfg_rfm +
  drfm_mode :: int
  drfm_policy :: int
  drfm_qsize :: int
  drfm_qth :: int
  tDRFMb :: int
  tDRFMsb :: int
  tDRFMab :: int
  dream_mode :: int
  dream_policy :: int
  dream_trhd :: int
  dream_th :: int
  dream_reset :: int
  dream_k :: int
  dream_prev_enable :: bool

record cfg_cactus = cfg_drfm +
  cactus_mode :: int
  cactus_policy :: int
  cactus_trhd :: int
  cactus_th :: int
  cactus_reset :: int
  cactus_k :: int
  cactus_prev_enable :: bool
  mint_mode :: int
  mint_window :: int
  para_mode :: int
  para_prob :: rat
  graphene_mode :: int
  graphene_th :: int

record Config = cfg_cactus +
  hydra_mode :: int
  hydra_th :: int
  hydra_gct_size :: int
  hydra_gct_th :: int
  hydra_rcc_sets :: int
  hydra_rcc_ways :: int
  hydra_wbq_size :: int
  hydra_rcc :: LRUCache
  abacus_mode :: int
  abacus_th :: int
  epoch_period :: int
  output_level :: int
  output_dir :: string
  output_prefix :: string
  json_stats_name :: string
  json_epoch_name :: string
  txt_stats_name :: string

definition IsGDDR :: "Config \<Rightarrow> bool" where
  "IsGDDR cfg \<longleftrightarrow> protocol cfg = GDDR5 \<or> protocol cfg = GDDR5X \<or> protocol cfg = GDDR6"

definition IsHBM :: "Config \<Rightarrow> bool" where
  "IsHBM cfg \<longleftrightarrow> protocol cfg = HBM \<or> protocol cfg = HBM2"

definition IsHMC :: "Config \<Rightarrow> bool" where
  "IsHMC cfg \<longleftrightarrow> protocol cfg = HMC"

definition IsDDR4 :: "Config \<Rightarrow> bool" where
  "IsDDR4 cfg \<longleftrightarrow> protocol cfg = DDR4"

definition IsDDR5 :: "Config \<Rightarrow> bool" where
  "IsDDR5 cfg \<longleftrightarrow> protocol cfg = DDR5"

section \<open>From physical addresses to coordinates\<close>

text \<open>\<open>x >> n\<close> and \<open>x << n\<close> on \<open>uint64_t\<close>, and the conversion of an unsigned value to \<open>int\<close>.\<close>

definition shr64 :: "u64 \<Rightarrow> int \<Rightarrow> u64 res" where
  "shr64 x n = (if 0 \<le> n \<and> n < 64 then Inr (drop_bit (nat n) x) else Inl ShiftRange)"

definition shl64 :: "u64 \<Rightarrow> int \<Rightarrow> u64 res" where
  "shl64 x n = (if 0 \<le> n \<and> n < 64 then Inr (push_bit (nat n) x) else Inl ShiftRange)"

definition to_int :: "u64 \<Rightarrow> int" where
  "to_int x = sint (ucast x :: u32)"

text \<open>\<open>int f = (hex_addr >> pos) & mask;\<close>\<close>

definition addr_field :: "u64 \<Rightarrow> int \<Rightarrow> u64 \<Rightarrow> int res" where
  "addr_field x pos m = bindE (shr64 x pos) (\<lambda>y. Inr (to_int (y AND m)))"

definition AddressMapping :: "Config \<Rightarrow> u64 \<Rightarrow> Address res" where
  "AddressMapping cfg hex =
     bindE (shr64 hex (shift_bits cfg)) (\<lambda>x.
     bindE (addr_field x (ch_pos cfg) (ch_mask cfg)) (\<lambda>ch.
     bindE (addr_field x (ra_pos cfg) (ra_mask cfg)) (\<lambda>ra.
     bindE (addr_field x (bg_pos cfg) (bg_mask cfg)) (\<lambda>bg.
     bindE (addr_field x (ba_pos cfg) (ba_mask cfg)) (\<lambda>ba.
     bindE (addr_field x (ro_pos cfg) (ro_mask cfg)) (\<lambda>ro.
     bindE (if mop_enabled cfg
            then bindE (addr_field x (hi_pos cfg) (hi_mask cfg)) (\<lambda>hi.
                 bindE (addr_field x (lo_pos cfg) (lo_mask cfg)) (\<lambda>lo.
                 if LogBase2 (mop_size cfg) < 32
                 then Inr (push_bit (nat (LogBase2 (mop_size cfg))) hi OR lo)
                 else Inl ShiftRange))
            else addr_field x (co_pos cfg) (co_mask cfg)) (\<lambda>co.
     Inr (mk_Address ch ra bg ba ro co))))))))"

text \<open>\<open>pos\<close> and \<open>width\<close> are \<open>unsigned\<close>; the sum \<open>pos + width\<close> wraps at 32 bits.\<close>

definition RemoveBits :: "u64 \<Rightarrow> u32 \<Rightarrow> u32 \<Rightarrow> u64 res" where
  "RemoveBits v pos width =
     bindE (checkE AssertFailed (pos < 64)) (\<lambda>_.
     bindE (checkE AssertFailed (0 < width)) (\<lambda>_.
     bindE (checkE AssertFailed (pos + width \<le> 64)) (\<lambda>_.
     let lower_part = v AND (push_bit (unat pos) 1 - 1) in
     bindE (shr64 v (uint (pos + width - 1 + 1))) (\<lambda>upper_part.
     Inr (lower_part OR push_bit (unat pos) upper_part)))))"

definition RemoveColBits :: "Config \<Rightarrow> u64 \<Rightarrow> u64 res" where
  "RemoveColBits cfg hex =
     bindE (shr64 hex (shift_bits cfg)) (\<lambda>x.
     bindE (addr_field x (ro_pos cfg) (ro_mask cfg)) (\<lambda>ro.
     bindE (addr_field x (ba_pos cfg) (ba_mask cfg)) (\<lambda>bank.
     bindE (addr_field x (bg_pos cfg) (bg_mask cfg)) (\<lambda>bg.
     Inr (word_of_int (ro XOR bank XOR bg))))))"

definition ResetColBits :: "Config \<Rightarrow> u64 \<Rightarrow> u64 res" where
  "ResetColBits cfg hex =
     bindE (shr64 hex (shift_bits cfg)) (\<lambda>x.
     bindE (if mop_enabled cfg
            then bindE (shl64 (lo_mask cfg) (lo_pos cfg)) (\<lambda>lo.
                 bindE (shl64 (hi_mask cfg) (hi_pos cfg)) (\<lambda>hi.
                 Inr (x AND NOT lo AND NOT hi)))
            else bindE (shl64 (co_mask cfg) (co_pos cfg)) (\<lambda>co.
                 Inr (x AND NOT co))) (\<lambda>x.
     shl64 x (shift_bits cfg)))"

section \<open>Reading the parameters\<close>

record INIReader =
  ini_Get :: "string \<Rightarrow> string \<Rightarrow> string \<Rightarrow> string"
  ini_GetInteger :: "string \<Rightarrow> string \<Rightarrow> int \<Rightarrow> int"
  ini_GetBoolean :: "string \<Rightarrow> string \<Rightarrow> bool \<Rightarrow> bool"
  ini_GetReal :: "string \<Rightarrow> string \<Rightarrow> rat \<Rightarrow> rat"
  ini_ParseError :: int

text \<open>The reader returns a \<open>long\<close>, which is converted to \<open>int\<close>.\<close>

definition GetInteger :: "INIReader \<Rightarrow> string \<Rightarrow> string \<Rightarrow> int \<Rightarrow> int" where
  "GetInteger reader sec opt default_val =
     sint (word_of_int (ini_GetInteger reader sec opt default_val) :: u32)"

definition protocol_pairs :: "(string \<times> DRAMProtocol) list" where
  "protocol_pairs =
     [(''DDR3'', DDR3), (''DDR4'', DDR4), (''DDR5'', DDR5), (''GDDR5'', GDDR5), (''GDDR5X'', GDDR5X),
      (''GDDR6'', GDDR6), (''LPDDR'', LPDDR), (''LPDDR3'', LPDDR3), (''LPDDR4'', LPDDR4),
      (''HBM'', HBM), (''HBM2'', HBM2), (''HMC'', HMC)]"

definition GetDRAMProtocol :: "string \<Rightarrow> DRAMProtocol res" where
  "GetDRAMProtocol s = (case map_of protocol_pairs s of None \<Rightarrow> Inl AbruptExit | Some p \<Rightarrow> Inr p)"

definition CalculateSize :: "Config \<Rightarrow> Config res" where
  "CalculateSize cfg =
     bindE (idiv (bus_width cfg) (device_width cfg)) (\<lambda>dpr.
     let cfg = cfg\<lparr>devices_per_rank := dpr\<rparr>;
         page_size = (columns cfg * device_width cfg) sdiv 8;
         megs_per_bank = (page_size * (rows cfg sdiv 1024)) sdiv 1024;
         megs_per_rank = megs_per_bank * banks cfg * devices_per_rank cfg
     in if megs_per_rank > channel_size cfg
        then Inr (cfg\<lparr>ranks := 1, channel_size := megs_per_rank\<rparr>)
        else bindE (idiv (channel_size cfg) megs_per_rank) (\<lambda>ra.
             Inr (cfg\<lparr>ranks := ra, channel_size := ra * megs_per_rank\<rparr>)))"

definition burst_of :: "DRAMProtocol \<Rightarrow> int \<Rightarrow> int" where
  "burst_of p bl =
     (if bl = 0 then 0
      else if p = GDDR5 then bl sdiv 4
      else if p = GDDR5X then bl sdiv 8
      else if p = GDDR6 then bl sdiv 16
      else bl sdiv 2)"

definition InitDRAMParams :: "INIReader \<Rightarrow> Config \<Rightarrow> Config res" where
  "InitDRAMParams reader cfg =
     bindE (GetDRAMProtocol (ini_Get reader ''dram_structure'' ''protocol'' ''DDR3'')) (\<lambda>p.
     let cfg = cfg\<lparr>protocol := p\<rparr>;
         bg = GetInteger reader ''dram_structure'' ''bankgroups'' 2;
         bpg = GetInteger reader ''dram_structure'' ''banks_per_group'' 2;
         bankgroup_enable = ini_GetBoolean reader ''dram_structure'' ''bankgroup_enable'' True;
         cfg = (if \<not> bankgroup_enable
                then cfg\<lparr>banks_per_group := bpg * bg, bankgroups := 1\<rparr>
                else cfg\<lparr>banks_per_group := bpg, bankgroups := bg\<rparr>);
         cfg = cfg\<lparr>banks := bankgroups cfg * banks_per_group cfg,
           rows := GetInteger reader ''dram_structure'' ''rows'' (2 ^ 16),
           columns := GetInteger reader ''dram_structure'' ''columns'' (2 ^ 10),
           device_width := GetInteger reader ''dram_structure'' ''device_width'' 8,
           BL := GetInteger reader ''dram_structure'' ''BL'' 8,
           num_dies := GetInteger reader ''dram_structure'' ''num_dies'' 1,
           enable_hbm_dual_cmd := ini_GetBoolean reader ''dram_structure'' ''hbm_dual_cmd'' True \<and> IsHBM cfg,
           num_links := GetInteger reader ''hmc'' ''num_links'' 4,
           link_width := GetInteger reader ''hmc'' ''link_width'' 16,
           link_speed := GetInteger reader ''hmc'' ''link_speed'' 15000,
           block_size := GetInteger reader ''hmc'' ''block_size'' 64,
           xbar_queue_depth := GetInteger reader ''hmc'' ''xbar_queue_depth'' 16\<rparr>
     in bindE (if IsHMC cfg then idiv (block_size cfg * 8) (device_width cfg) else Inr (BL cfg)) (\<lambda>bl.
        let cfg = cfg\<lparr>burst_cycle := burst_of p bl,
              BL := (if bl = 0 then (if IsHBM cfg then 4 else 8) else bl)\<rparr>;
            cfg = (if IsGDDR cfg then cfg\<lparr>columns := columns cfg * BL cfg\<rparr>
                   else if IsHBM cfg then cfg\<lparr>columns := columns cfg * 2\<rparr> else cfg);
            cfg = cfg\<lparr>refchunks := GetInteger reader ''dram_structure'' ''refchunks'' 8192\<rparr>
        in bindE (idiv (rows cfg) (refchunks cfg)) (\<lambda>rr. Inr (cfg\<lparr>rows_refreshed := rr\<rparr>))))"

text \<open>\<open>DirExist\<close> asks the file system; it is a parameter.\<close>

definition InitOtherParams :: "(string \<Rightarrow> bool) \<Rightarrow> INIReader \<Rightarrow> Config \<Rightarrow> Config" where
  "InitOtherParams DirExist reader cfg =
     (let dir = (if \<not> DirExist (output_dir cfg) then ''./'' else output_dir cfg @ ''/'');
          prefix = dir @ ini_Get reader ''other'' ''output_prefix'' ''dramsim3''
      in cfg\<lparr>epoch_period := GetInteger reader ''other'' ''epoch_period'' 100000,
           output_level := GetInteger reader ''other'' ''output_level'' 1,
           output_dir := dir, output_prefix := prefix, json_stats_name := prefix @ ''.json'',
           json_epoch_name := prefix @ ''epoch.json'', txt_stats_name := prefix @ ''.txt''\<rparr>)"

definition row_buf_policy_of :: "string \<Rightarrow> RowBufPolicy res" where
  "row_buf_policy_of s =
     (if s = ''OPEN_PAGE'' then Inr OPEN_PAGE
      else if s = ''CLOSE_PAGE'' then Inr CLOSE_PAGE
      else if s = ''SOFT_CLOSE_PAGE'' then Inr SOFT_CLOSE_PAGE
      else Inl AbruptExit)"

definition refresh_policy_of :: "string \<Rightarrow> RefreshPolicy res" where
  "refresh_policy_of s =
     (if s = ''RANK_LEVEL_SIMULTANEOUS'' then Inr RANK_LEVEL_SIMULTANEOUS
      else if s = ''RANK_LEVEL_STAGGERED'' then Inr RANK_LEVEL_STAGGERED
      else if s = ''BANKSET_LEVEL_STAGGERED'' then Inr BANKSET_LEVEL_STAGGERED
      else if s = ''BANK_LEVEL_STAGGERED'' then Inr BANK_LEVEL_STAGGERED
      else if s = ''NO_REFRESH'' then Inr NO_REFRESH
      else Inl AbruptExit)"

definition InitSystemParams :: "INIReader \<Rightarrow> Config \<Rightarrow> Config res" where
  "InitSystemParams reader cfg =
     (let cfg = cfg\<lparr>channel_size := GetInteger reader ''system'' ''channel_size'' 1024,
           channels := GetInteger reader ''system'' ''channels'' 1,
           bus_width := GetInteger reader ''system'' ''bus_width'' 64,
           address_mapping := ini_Get reader ''system'' ''address_mapping'' ''chrobabgraco'',
           mop_size := GetInteger reader ''system'' ''mop_size'' 0,
           queue_structure := ini_Get reader ''system'' ''queue_structure'' ''PER_BANK''\<rparr>
      in bindE (row_buf_policy_of (ini_Get reader ''system'' ''row_buf_policy'' ''OPEN_PAGE'')) (\<lambda>rb.
         let cfg = cfg\<lparr>row_buf_policy := rb,
               cmd_queue_size := GetInteger reader ''system'' ''cmd_queue_size'' 16,
               trans_queue_size := GetInteger reader ''system'' ''trans_queue_size'' 32,
               unified_queue := ini_GetBoolean reader ''system'' ''unified_queue'' False,
               write_buf_size := GetInteger reader ''system'' ''write_buf_size'' 16\<rparr>
         in bindE (refresh_policy_of (ini_Get reader ''system'' ''refresh_policy'' ''RANK_LEVEL_STAGGERED'')) (\<lambda>rp.
            Inr (cfg\<lparr>refresh_policy := rp,
               fgr := (if rp = BANKSET_LEVEL_STAGGERED then True else fgr cfg),
               enable_self_refresh := ini_GetBoolean reader ''system'' ''enable_self_refresh'' False,
               sref_threshold := GetInteger reader ''system'' ''sref_threshold'' 1000,
               aggressive_precharging_enabled :=
                 ini_GetBoolean reader ''system'' ''aggressive_precharging_enabled'' False\<rparr>))))"

definition InitTimingParams :: "INIReader \<Rightarrow> Config \<Rightarrow> Config" where
  "InitTimingParams reader cfg =
     (let t = GetInteger reader ''timing'';
          cfg = cfg\<lparr>tCK := ini_GetReal reader ''timing'' ''tCK'' 1,
            AL := t ''AL'' 0, CL := t ''CL'' 12, CWL := t ''CWL'' 12,
            tCCD_L := t ''tCCD_L'' 6, tCCD_S := t ''tCCD_S'' 4, tRTRS := t ''tRTRS'' 2,
            tRTP := t ''tRTP'' 5, tWTR_L := t ''tWTR_L'' 5, tWTR_S := t ''tWTR_S'' 5,
            tWR := t ''tWR'' 10, tRP := t ''tRP'' 10, tRRD_L := t ''tRRD_L'' 4,
            tRRD_S := t ''tRRD_S'' 4, tRAS := t ''tRAS'' 24, tRCD := t ''tRCD'' 10\<rparr>;
          cfg = cfg\<lparr>tRC := tRAS cfg + tRP cfg,
            tCKE := t ''tCKE'' 6, tCKESR := t ''tCKESR'' 12, tXS := t ''tXS'' 432,
            tXP := t ''tXP'' 8, tREFSBRD := t ''tREFSBRD'' 72, tRFC := t ''tRFC'' 74,
            tRFCsb := t ''tRFCsb'' 74, tRFCb := t ''tRFCb'' 20, tREFI := t ''tREFI'' 7800,
            tREFIsb := t ''tREFIsb'' 1950, tREFIb := t ''tREFIb'' 1950, tFAW := t ''tFAW'' 50,
            tRPRE := t ''tRPRE'' 1, tWPRE := t ''tWPRE'' 1, tPPD := t ''tPPD'' 2,
            t32AW := t ''t32AW'' 330, tRCDRD := t ''tRCDRD'' 24, tRCDWR := t ''tRCDWR'' 20,
            ideal_memory_latency := t ''ideal_memory_latency'' 10\<rparr>;
          cfg = cfg\<lparr>RL := AL cfg + CL cfg, WL := AL cfg + CWL cfg\<rparr>
      in cfg\<lparr>read_delay := RL cfg + burst_cycle cfg, write_delay := WL cfg + burst_cycle cfg\<rparr>)"

section \<open>The address mapping\<close>

definition field_widths :: "Config \<Rightarrow> (string \<times> int) list" where
  "field_widths cfg =
     (let actual_col_bits = LogBase2 (columns cfg) - LogBase2 (BL cfg)
      in [(''ch'', LogBase2 (channels cfg)), (''ra'', LogBase2 (ranks cfg)),
          (''bg'', LogBase2 (bankgroups cfg)), (''ba'', LogBase2 (banks_per_group cfg)),
          (''ro'', LogBase2 (rows cfg)), (''co'', actual_col_bits),
          (''hi'', actual_col_bits - LogBase2 (mop_size cfg)), (''lo'', LogBase2 (mop_size cfg))])"

text \<open>The two-character tokens of the mapping string.\<close>

fun tokens :: "string \<Rightarrow> string list" where
  "tokens (a # b # s) = [a, b] # tokens s"
| "tokens [a] = [[a]]"
| "tokens [] = []"

text \<open>The \<open>while\<close> loop takes the tokens from the back, the least significant field first.\<close>

fun field_pos_loop :: "(string \<times> int) list \<Rightarrow> string list \<Rightarrow> int \<Rightarrow> (string \<rightharpoonup> int) \<Rightarrow> (string \<rightharpoonup> int) res" where
  "field_pos_loop ws [] pos fp = Inr fp"
| "field_pos_loop ws (token # rest) pos fp =
     (case map_of ws token of
        None \<Rightarrow> Inl AbruptExit
      | Some w \<Rightarrow> field_pos_loop ws rest (pos + w) (fp(token \<mapsto> pos)))"

text \<open>\<open>std::map::at\<close>, and \<open>(1 << w) - 1\<close> converted to \<open>uint64_t\<close>.\<close>

definition map_at :: "(string \<rightharpoonup> int) \<Rightarrow> string \<Rightarrow> int res" where
  "map_at m k = (case m k of None \<Rightarrow> Inl Thrown | Some v \<Rightarrow> Inr v)"

definition mask_of :: "int \<Rightarrow> u64 res" where
  "mask_of w = (if 0 \<le> w \<and> w < 31 then Inr (word_of_int (2 ^ nat w - 1)) else Inl ShiftRange)"

definition set_field_pos :: "(string \<rightharpoonup> int) \<Rightarrow> Config \<Rightarrow> Config res" where
  "set_field_pos fp cfg =
     bindE (map_at fp ''ch'') (\<lambda>ch.
     bindE (map_at fp ''ra'') (\<lambda>ra.
     bindE (map_at fp ''bg'') (\<lambda>bg.
     bindE (map_at fp ''ba'') (\<lambda>ba.
     bindE (map_at fp ''ro'') (\<lambda>ro.
     let cfg = cfg\<lparr>ch_pos := ch, ra_pos := ra, bg_pos := bg, ba_pos := ba, ro_pos := ro\<rparr>
     in if mop_enabled cfg
        then bindE (map_at fp ''hi'') (\<lambda>hi.
             bindE (map_at fp ''lo'') (\<lambda>lo.
             Inr (cfg\<lparr>hi_pos := hi, lo_pos := lo\<rparr>)))
        else bindE (map_at fp ''co'') (\<lambda>co. Inr (cfg\<lparr>co_pos := co\<rparr>)))))))"

definition width_mask :: "(string \<times> int) list \<Rightarrow> string \<Rightarrow> u64 res" where
  "width_mask ws t = bindE (map_at (map_of ws) t) mask_of"

definition set_field_masks :: "(string \<times> int) list \<Rightarrow> Config \<Rightarrow> Config res" where
  "set_field_masks ws cfg =
     bindE (width_mask ws ''ch'') (\<lambda>ch.
     bindE (width_mask ws ''ra'') (\<lambda>ra.
     bindE (width_mask ws ''bg'') (\<lambda>bg.
     bindE (width_mask ws ''ba'') (\<lambda>ba.
     bindE (width_mask ws ''ro'') (\<lambda>ro.
     let cfg = cfg\<lparr>ch_mask := ch, ra_mask := ra, bg_mask := bg, ba_mask := ba, ro_mask := ro\<rparr>
     in if mop_enabled cfg
        then bindE (width_mask ws ''hi'') (\<lambda>hi.
             bindE (width_mask ws ''lo'') (\<lambda>lo.
             Inr (cfg\<lparr>hi_mask := hi, lo_mask := lo\<rparr>)))
        else bindE (width_mask ws ''co'') (\<lambda>co. Inr (cfg\<lparr>co_mask := co\<rparr>)))))))"

definition SetAddressMapping :: "Config \<Rightarrow> Config res" where
  "SetAddressMapping cfg =
     (let cfg = cfg\<lparr>request_size_bytes := (bus_width cfg sdiv 8) * BL cfg\<rparr>;
          cfg = cfg\<lparr>shift_bits := LogBase2 (request_size_bytes cfg)\<rparr>;
          ws = field_widths cfg;
          n = length (address_mapping cfg)
      in if n \<noteq> 12 \<and> n \<noteq> 14 then Inl AbruptExit
      else let cfg = (if n = 14 then cfg\<lparr>mop_enabled := True\<rparr> else cfg)
      in bindE (field_pos_loop ws (rev (tokens (address_mapping cfg))) 0 Map.empty) (\<lambda>fp.
         bindE (set_field_pos fp cfg) (\<lambda>cfg.
         set_field_masks ws cfg)))"

section \<open>The mitigation parameters and the constructor\<close>

text \<open>\<open>raaimt * 0.5\<close> and \<open>0.5 * tRFC\<close> are exact in double precision and truncate to \<open>int\<close>.\<close>

definition InitRFMParams :: "INIReader \<Rightarrow> Config \<Rightarrow> Config" where
  "InitRFMParams reader cfg =
     (let g = GetInteger reader ''rfm'';
          cfg = cfg\<lparr>raaimt := g ''raaimt'' 32\<rparr>
      in cfg\<lparr>raammt := g ''raammt'' (raaimt cfg * 3),
           rfm_raa_decrement := g ''rfm_raa_decrement'' (raaimt cfg),
           ref_raa_decrement := g ''ref_raa_decrement'' (raaimt cfg sdiv 2),
           tRFM := g ''tRFM'' (tRFC cfg), tRFMsb := g ''tRFMsb'' (tRFC cfg sdiv 2),
           rfm_mode := g ''rfm_mode'' 0, rfm_policy := g ''rfm_policy'' 1\<rparr>)"

definition InitALERTParams :: "INIReader \<Rightarrow> Config \<Rightarrow> Config" where
  "InitALERTParams reader cfg =
     (let g = GetInteger reader ''alert''
      in cfg\<lparr>alert_mode := g ''alert_mode'' 0, tABO_act := g ''tABO_act'' 432,
           ABO_delay_acts := g ''ABO_delay_acts'' 1, tABO_PW := g ''tABO_PW'' 640,
           tref_enable := g ''tref_enable'' 0, tref_mode := g ''tref_mode'' 0,
           tref_interval := g ''tref_interval'' 4\<rparr>)"

definition InitMOATParams :: "INIReader \<Rightarrow> Config \<Rightarrow> Config" where
  "InitMOATParams reader cfg =
     cfg\<lparr>moat_mode := GetInteger reader ''moat'' ''moat_mode'' 0,
         moatth := GetInteger reader ''moat'' ''moatth'' 64\<rparr>"

definition InitDRFMParams :: "INIReader \<Rightarrow> Config \<Rightarrow> Config res" where
  "InitDRFMParams reader cfg =
     (let g = GetInteger reader ''drfm'';
          cfg = cfg\<lparr>drfm_mode := g ''drfm_mode'' 0, drfm_policy := g ''drfm_policy'' 0,
            tDRFMb := g ''tDRFMb'' 576, tDRFMsb := g ''tDRFMsb'' 576, tDRFMab := g ''tDRFMab'' 672,
            drfm_qsize := g ''drfm_qsize'' 1, drfm_qth := g ''drfm_qth'' 1\<rparr>
      in if drfm_mode cfg \<noteq> 0
         then bindE (checkE AssertFailed (drfm_policy cfg = 0 \<and> drfm_qsize cfg = 1)) (\<lambda>_.
              Inr (if drfm_qsize cfg > 2
                   then cfg\<lparr>tDRFMb := tDRFMb cfg + tRC cfg, tDRFMsb := tDRFMsb cfg + tRC cfg,
                          tDRFMab := tDRFMab cfg + tRC cfg\<rparr>
                   else cfg))
         else Inr cfg)"

text \<open>The threshold a tracker uses, from the hammer threshold and the number of resets.\<close>

definition reset_th :: "int \<Rightarrow> int \<Rightarrow> int res" where
  "reset_th reset trhd =
     (if reset = 1 then Inr (trhd sdiv 2) else if reset = 2 then Inr (trhd sdiv 3) else Inl AbruptExit)"

definition InitDREAMParams :: "INIReader \<Rightarrow> Config \<Rightarrow> Config res" where
  "InitDREAMParams reader cfg =
     (let g = GetInteger reader ''dream'';
          cfg = cfg\<lparr>dream_mode := g ''dream_mode'' 0, dream_policy := g ''dream_policy'' 0,
            dream_k := g ''dream_k'' 1, dream_trhd := g ''dream_trhd'' 1000,
            dream_reset := g ''dream_reset'' 1,
            dream_prev_enable := ini_GetBoolean reader ''dream'' ''dream_prev_enable'' False\<rparr>
      in bindE (reset_th (dream_reset cfg) (dream_trhd cfg)) (\<lambda>th. Inr (cfg\<lparr>dream_th := th\<rparr>)))"

definition InitCACTUSParams :: "INIReader \<Rightarrow> Config \<Rightarrow> Config res" where
  "InitCACTUSParams reader cfg =
     (let g = GetInteger reader ''cactus'';
          cfg = cfg\<lparr>cactus_mode := g ''cactus_mode'' 0, cactus_policy := g ''cactus_policy'' 0,
            cactus_trhd := g ''cactus_trhd'' 1000, cactus_reset := g ''cactus_reset'' 1,
            cactus_k := g ''cactus_k'' 1,
            cactus_prev_enable := ini_GetBoolean reader ''cactus'' ''cactus_prev_enable'' False\<rparr>;
          cfg = (if cactus_mode cfg \<noteq> 0 \<and> (cactus_policy cfg = 0 \<or> cactus_policy cfg = 1) \<and> cactus_k cfg \<noteq> 1
                 then cfg\<lparr>cactus_k := 1\<rparr> else cfg)
      in bindE (reset_th (cactus_reset cfg) (cactus_trhd cfg)) (\<lambda>th. Inr (cfg\<lparr>cactus_th := th\<rparr>)))"

definition InitMINTParams :: "INIReader \<Rightarrow> Config \<Rightarrow> Config" where
  "InitMINTParams reader cfg =
     cfg\<lparr>mint_mode := GetInteger reader ''mint'' ''mint_mode'' 0,
         mint_window := GetInteger reader ''mint'' ''mint_window'' 50\<rparr>"

definition InitPARAParams :: "INIReader \<Rightarrow> Config \<Rightarrow> Config" where
  "InitPARAParams reader cfg =
     cfg\<lparr>para_mode := GetInteger reader ''para'' ''para_mode'' 0,
         para_prob := ini_GetReal reader ''para'' ''para_prob'' (2 / 100)\<rparr>"

definition InitGrapheneParams :: "INIReader \<Rightarrow> Config \<Rightarrow> Config" where
  "InitGrapheneParams reader cfg =
     cfg\<lparr>graphene_mode := GetInteger reader ''graphene'' ''graphene_mode'' 0,
         graphene_th := GetInteger reader ''graphene'' ''graphene_th'' 500\<rparr>"

definition InitHYDRAParams :: "INIReader \<Rightarrow> Config \<Rightarrow> Config res" where
  "InitHYDRAParams reader cfg =
     (let g = GetInteger reader ''hydra'';
          cfg = cfg\<lparr>hydra_mode := g ''hydra_mode'' 0, hydra_th := g ''hydra_th'' 500,
            hydra_gct_size := g ''hydra_gct_size'' 1, hydra_gct_th := g ''hydra_gct_th'' 1,
            hydra_rcc_sets := g ''hydra_rcc_sets'' 1, hydra_rcc_ways := g ''hydra_rcc_ways'' 1,
            hydra_wbq_size := g ''hydra_wbq_size'' 32\<rparr>
      in if hydra_mode cfg \<noteq> 0
         then bindE (update_size (hydra_rcc cfg) (hydra_rcc_sets cfg) (hydra_rcc_ways cfg)) (\<lambda>c.
              Inr (cfg\<lparr>hydra_rcc := c\<rparr>))
         else Inr cfg)"

definition InitABACUSParams :: "INIReader \<Rightarrow> Config \<Rightarrow> Config" where
  "InitABACUSParams reader cfg =
     cfg\<lparr>abacus_mode := GetInteger reader ''abacus'' ''abacus_mode'' 0,
         abacus_th := GetInteger reader ''abacus'' ''abacus_th'' 500\<rparr>"

text \<open>
  The constructor. The fields no initialiser assigns (\<open>co_pos\<close> with MOP, \<open>hi_pos\<close> without) are
  those of the uninitialised object \<open>cfg\<close>, in which the header presets \<open>mop_enabled\<close> and \<open>fgr\<close>.
\<close>

definition mk_Config :: "(string \<Rightarrow> bool) \<Rightarrow> INIReader \<Rightarrow> string \<Rightarrow> Config \<Rightarrow> Config res" where
  "mk_Config DirExist reader out_dir cfg =
     (if ini_ParseError reader < 0 then Inl AbruptExit
      else let cfg = cfg\<lparr>mop_enabled := False, fgr := False, output_dir := out_dir\<rparr> in
        bindE (InitSystemParams reader cfg) (\<lambda>cfg.
        bindE (InitDRAMParams reader cfg) (\<lambda>cfg.
        bindE (CalculateSize cfg) (\<lambda>cfg.
        bindE (SetAddressMapping cfg) (\<lambda>cfg.
        let cfg = InitTimingParams reader cfg;
            cfg = InitOtherParams DirExist reader cfg;
            cfg = InitRFMParams reader cfg;
            cfg = InitALERTParams reader cfg;
            cfg = InitMOATParams reader cfg in
        bindE (InitDRFMParams reader cfg) (\<lambda>cfg.
        bindE (InitDREAMParams reader cfg) (\<lambda>cfg.
        bindE (InitCACTUSParams reader cfg) (\<lambda>cfg.
        let cfg = InitMINTParams reader cfg;
            cfg = InitPARAParams reader cfg;
            cfg = InitGrapheneParams reader cfg in
        bindE (InitHYDRAParams reader cfg) (\<lambda>cfg.
        Inr (InitABACUSParams reader cfg))))))))))"

section \<open>A small device\<close>

text \<open>
  The concrete instances of the development use this device: one DDR5 channel with one rank of two
  bank groups of two banks, 16 rows each, timing parameters of the DDR5 configurations.
\<close>

definition tiny_cfg :: Config where
  "tiny_cfg = \<lparr>
     protocol = DDR5, channel_size = 0, channels = 1, ranks = 1, banks = 4, bankgroups = 2,
     banks_per_group = 2, rows = 16, columns = 32, device_width = 8, bus_width = 32,
     devices_per_rank = 4, BL = 16, shift_bits = 6, ch_pos = 1, ra_pos = 3, bg_pos = 1, ba_pos = 2,
     ro_pos = 3, co_pos = 0, hi_pos = 0, lo_pos = 0, ch_mask = 0, ra_mask = 0, bg_mask = 1,
     ba_mask = 1, ro_mask = 15, co_mask = 1, hi_mask = 0, lo_mask = 0, request_size_bytes = 64,
     tCK = 1, burst_cycle = 8, AL = 0, CL = 40, CWL = 38, RL = 40, WL = 38, tCCD_L = 12, tCCD_S = 8,
     tRTRS = 2, tRTP = 18, tWTR_L = 24, tWTR_S = 6, tWR = 72, tRP = 39, tRRD_L = 12, tRRD_S = 8,
     tRAS = 77, tRCD = 39, tRC = 116, tCKE = 8, tCKESR = 13, tXS = 984, tXP = 18, tREFSBRD = 72,
     tRFC = 984, tRFCsb = 456, tRFCb = 456, tREFI = 9360, tREFIsb = 1170, tREFIb = 1170, tFAW = 32,
     tRPRE = 1, tWPRE = 1, read_delay = 48, write_delay = 46, tPPD = 2, t32AW = 330, tRCDRD = 24,
     tRCDWR = 20, ideal_memory_latency = 10, num_links = 4, num_dies = 1, link_width = 16,
     link_speed = 15000, num_vaults = 0, block_size = 64, xbar_queue_depth = 16,
     address_mapping = ''rorababgchco'', mop_size = 0, mop_enabled = False,
     queue_structure = ''PER_BANK'', row_buf_policy = OPEN_PAGE,
     refresh_policy = RANK_LEVEL_STAGGERED, fgr = False, refchunks = 4, rows_refreshed = 4,
     cmd_queue_size = 4, unified_queue = False, trans_queue_size = 8, write_buf_size = 4,
     enable_self_refresh = False, sref_threshold = 1000, aggressive_precharging_enabled = False,
     enable_hbm_dual_cmd = False, rfm_mode = 0, rfm_policy = 1, raaimt = 4, raammt = 12,
     rfm_raa_decrement = 4, ref_raa_decrement = 2, tRFM = 984, tRFMsb = 492, alert_mode = 0,
     tABO_act = 432, ABO_delay_acts = 1, tABO_PW = 640, tref_enable = 0, tref_mode = 0,
     tref_interval = 4, moat_mode = 0, moatth = 64, drfm_mode = 0, drfm_policy = 0, drfm_qsize = 1,
     drfm_qth = 1, tDRFMb = 576, tDRFMsb = 576, tDRFMab = 672, dream_mode = 0, dream_policy = 0,
     dream_trhd = 1000, dream_th = 500, dream_reset = 1, dream_k = 1, dream_prev_enable = False,
     cactus_mode = 0, cactus_policy = 0, cactus_trhd = 1000, cactus_th = 500, cactus_reset = 1,
     cactus_k = 1, cactus_prev_enable = False, mint_mode = 0, mint_window = 50, para_mode = 0,
     para_prob = 1 / 50, graphene_mode = 0, graphene_th = 500, hydra_mode = 0, hydra_th = 500,
     hydra_gct_size = 1, hydra_gct_th = 1, hydra_rcc_sets = 1, hydra_rcc_ways = 1,
     hydra_wbq_size = 32,
     hydra_rcc = \<lparr>l_sets = 1, l_ways = 1, l_cache = [], access_count = 0, l_hits = 0, l_misses = 0, l_reads = 0, l_writes = 0, l_writebacks = 0\<rparr>,
     abacus_mode = 0, abacus_th = 500, epoch_period = 100000, output_level = 1, output_dir = ''./'',
     output_prefix = ''./dramsim3'', json_stats_name = ''./dramsim3.json'',
     json_epoch_name = ''./dramsim3epoch.json'', txt_stats_name = ''./dramsim3.txt''\<rparr>"

lemma tiny_cfg_sel [simp]:
  "protocol tiny_cfg = DDR5" "channel_size tiny_cfg = 0" "channels tiny_cfg = 1"
  "ranks tiny_cfg = 1" "banks tiny_cfg = 4" "bankgroups tiny_cfg = 2" "banks_per_group tiny_cfg = 2"
  "rows tiny_cfg = 16" "columns tiny_cfg = 32" "device_width tiny_cfg = 8" "bus_width tiny_cfg = 32"
  "devices_per_rank tiny_cfg = 4" "BL tiny_cfg = 16" "shift_bits tiny_cfg = 6" "ch_pos tiny_cfg = 1"
  "ra_pos tiny_cfg = 3" "bg_pos tiny_cfg = 1" "ba_pos tiny_cfg = 2" "ro_pos tiny_cfg = 3"
  "co_pos tiny_cfg = 0" "hi_pos tiny_cfg = 0" "lo_pos tiny_cfg = 0" "ch_mask tiny_cfg = 0"
  "ra_mask tiny_cfg = 0" "bg_mask tiny_cfg = 1" "ba_mask tiny_cfg = 1" "ro_mask tiny_cfg = 15"
  "co_mask tiny_cfg = 1" "hi_mask tiny_cfg = 0" "lo_mask tiny_cfg = 0"
  "request_size_bytes tiny_cfg = 64" "tCK tiny_cfg = 1" "burst_cycle tiny_cfg = 8" "AL tiny_cfg = 0"
  "CL tiny_cfg = 40" "CWL tiny_cfg = 38" "RL tiny_cfg = 40" "WL tiny_cfg = 38"
  "tCCD_L tiny_cfg = 12" "tCCD_S tiny_cfg = 8" "tRTRS tiny_cfg = 2" "tRTP tiny_cfg = 18"
  "tWTR_L tiny_cfg = 24" "tWTR_S tiny_cfg = 6" "tWR tiny_cfg = 72" "tRP tiny_cfg = 39"
  "tRRD_L tiny_cfg = 12" "tRRD_S tiny_cfg = 8" "tRAS tiny_cfg = 77" "tRCD tiny_cfg = 39"
  "tRC tiny_cfg = 116" "tCKE tiny_cfg = 8" "tCKESR tiny_cfg = 13" "tXS tiny_cfg = 984"
  "tXP tiny_cfg = 18" "tREFSBRD tiny_cfg = 72" "tRFC tiny_cfg = 984" "tRFCsb tiny_cfg = 456"
  "tRFCb tiny_cfg = 456" "tREFI tiny_cfg = 9360" "tREFIsb tiny_cfg = 1170" "tREFIb tiny_cfg = 1170"
  "tFAW tiny_cfg = 32" "tRPRE tiny_cfg = 1" "tWPRE tiny_cfg = 1" "read_delay tiny_cfg = 48"
  "write_delay tiny_cfg = 46" "tPPD tiny_cfg = 2" "t32AW tiny_cfg = 330" "tRCDRD tiny_cfg = 24"
  "tRCDWR tiny_cfg = 20" "ideal_memory_latency tiny_cfg = 10" "num_links tiny_cfg = 4"
  "num_dies tiny_cfg = 1" "link_width tiny_cfg = 16" "link_speed tiny_cfg = 15000"
  "num_vaults tiny_cfg = 0" "block_size tiny_cfg = 64" "xbar_queue_depth tiny_cfg = 16"
  "address_mapping tiny_cfg = ''rorababgchco''" "mop_size tiny_cfg = 0"
  "mop_enabled tiny_cfg = False" "queue_structure tiny_cfg = ''PER_BANK''"
  "row_buf_policy tiny_cfg = OPEN_PAGE" "refresh_policy tiny_cfg = RANK_LEVEL_STAGGERED"
  "fgr tiny_cfg = False" "refchunks tiny_cfg = 4" "rows_refreshed tiny_cfg = 4"
  "cmd_queue_size tiny_cfg = 4" "unified_queue tiny_cfg = False" "trans_queue_size tiny_cfg = 8"
  "write_buf_size tiny_cfg = 4" "enable_self_refresh tiny_cfg = False"
  "sref_threshold tiny_cfg = 1000" "aggressive_precharging_enabled tiny_cfg = False"
  "enable_hbm_dual_cmd tiny_cfg = False" "rfm_mode tiny_cfg = 0" "rfm_policy tiny_cfg = 1"
  "raaimt tiny_cfg = 4" "raammt tiny_cfg = 12" "rfm_raa_decrement tiny_cfg = 4"
  "ref_raa_decrement tiny_cfg = 2" "tRFM tiny_cfg = 984" "tRFMsb tiny_cfg = 492"
  "alert_mode tiny_cfg = 0" "tABO_act tiny_cfg = 432" "ABO_delay_acts tiny_cfg = 1"
  "tABO_PW tiny_cfg = 640" "tref_enable tiny_cfg = 0" "tref_mode tiny_cfg = 0"
  "tref_interval tiny_cfg = 4" "moat_mode tiny_cfg = 0" "moatth tiny_cfg = 64"
  "drfm_mode tiny_cfg = 0" "drfm_policy tiny_cfg = 0" "drfm_qsize tiny_cfg = 1"
  "drfm_qth tiny_cfg = 1" "tDRFMb tiny_cfg = 576" "tDRFMsb tiny_cfg = 576" "tDRFMab tiny_cfg = 672"
  "dream_mode tiny_cfg = 0" "dream_policy tiny_cfg = 0" "dream_trhd tiny_cfg = 1000"
  "dream_th tiny_cfg = 500" "dream_reset tiny_cfg = 1" "dream_k tiny_cfg = 1"
  "dream_prev_enable tiny_cfg = False" "cactus_mode tiny_cfg = 0" "cactus_policy tiny_cfg = 0"
  "cactus_trhd tiny_cfg = 1000" "cactus_th tiny_cfg = 500" "cactus_reset tiny_cfg = 1"
  "cactus_k tiny_cfg = 1" "cactus_prev_enable tiny_cfg = False" "mint_mode tiny_cfg = 0"
  "mint_window tiny_cfg = 50" "para_mode tiny_cfg = 0" "para_prob tiny_cfg = 1 / 50"
  "graphene_mode tiny_cfg = 0" "graphene_th tiny_cfg = 500" "hydra_mode tiny_cfg = 0"
  "hydra_th tiny_cfg = 500" "hydra_gct_size tiny_cfg = 1" "hydra_gct_th tiny_cfg = 1"
  "hydra_rcc_sets tiny_cfg = 1" "hydra_rcc_ways tiny_cfg = 1" "hydra_wbq_size tiny_cfg = 32"
  "abacus_mode tiny_cfg = 0" "abacus_th tiny_cfg = 500" "epoch_period tiny_cfg = 100000"
  "output_level tiny_cfg = 1" "output_dir tiny_cfg = ''./''"
  "output_prefix tiny_cfg = ''./dramsim3''" "json_stats_name tiny_cfg = ''./dramsim3.json''"
  "json_epoch_name tiny_cfg = ''./dramsim3epoch.json''"
  "txt_stats_name tiny_cfg = ''./dramsim3.txt''"
  by (simp_all add: tiny_cfg_def)

end
