(* ===== verification/Stats.thy ===== *)
theory Stats
  imports Config "HOL-Library.AList"
begin

text \<open>
  simple_stats.h and simple_stats.cc: the counters, vector counters and histograms the simulator
  keeps per channel, their registration, their epoch accumulation and their reset. An
  \<open>unordered_map\<close> is an association list (its iteration order is the list order; no operation
  depends on it). The energy figures (floating point), the JSON and the text output are left out.
\<close>

type_synonym HistoCount = "(int \<times> u64) list"

record SimpleStats =
  counters :: "(string \<times> u64) list"
  epoch_counters :: "(string \<times> u64) list"
  vec_counters :: "(string \<times> u64 list) list"
  epoch_vec_counters :: "(string \<times> u64 list) list"
  histo_bounds :: "(string \<times> (int \<times> int)) list"
  bin_widths :: "(string \<times> int) list"
  histo_counts :: "(string \<times> HistoCount) list"
  epoch_histo_counts :: "(string \<times> HistoCount) list"
  histo_bins :: "(string \<times> u64 list) list"
  epoch_histo_bins :: "(string \<times> u64 list) list"

text \<open>\<open>m[k]\<close> reads a default value for a missing key; \<open>emplace\<close> keeps an existing entry.\<close>

definition al_get :: "'v \<Rightarrow> ('k \<times> 'v) list \<Rightarrow> 'k \<Rightarrow> 'v" where
  "al_get d m k = (case map_of m k of None \<Rightarrow> d | Some v \<Rightarrow> v)"

definition al_add :: "'k \<Rightarrow> u64 \<Rightarrow> ('k \<times> u64) list \<Rightarrow> ('k \<times> u64) list" where
  "al_add k v m = AList.update k (al_get 0 m k + v) m"

definition emplace :: "'k \<Rightarrow> 'v \<Rightarrow> ('k \<times> 'v) list \<Rightarrow> ('k \<times> 'v) list" where
  "emplace k v m = (if k \<in> fst ` set m then m else m @ [(k, v)])"

definition Increment_by :: "SimpleStats \<Rightarrow> string \<Rightarrow> u64 \<Rightarrow> SimpleStats" where
  "Increment_by st name v = st\<lparr>epoch_counters := al_add name v (epoch_counters st)\<rparr>"

definition Increment :: "SimpleStats \<Rightarrow> string \<Rightarrow> SimpleStats" where
  "Increment st name = Increment_by st name 1"

definition Assign :: "SimpleStats \<Rightarrow> string \<Rightarrow> u64 \<Rightarrow> SimpleStats" where
  "Assign st name v = st\<lparr>epoch_counters := AList.update name v (epoch_counters st)\<rparr>"

definition GetCtr :: "SimpleStats \<Rightarrow> string \<Rightarrow> u64" where
  "GetCtr st name = al_get 0 (counters st) name"

definition GetECtr :: "SimpleStats \<Rightarrow> string \<Rightarrow> u64" where
  "GetECtr st name = al_get 0 (epoch_counters st) name"

definition IncrementVecBy :: "SimpleStats \<Rightarrow> string \<Rightarrow> int \<Rightarrow> int \<Rightarrow> SimpleStats res" where
  "IncrementVecBy st name pos num =
     bindE (vupd (al_get [] (epoch_vec_counters st) name) pos (\<lambda>v. v + word_of_int num)) (\<lambda>vec.
     Inr (st\<lparr>epoch_vec_counters := AList.update name vec (epoch_vec_counters st)\<rparr>))"

definition IncrementVec :: "SimpleStats \<Rightarrow> string \<Rightarrow> int \<Rightarrow> SimpleStats res" where
  "IncrementVec st name pos = IncrementVecBy st name pos 1"

definition AddValue :: "SimpleStats \<Rightarrow> string \<Rightarrow> int \<Rightarrow> SimpleStats" where
  "AddValue st name v =
     st\<lparr>epoch_histo_counts := AList.update name (al_add v 1 (al_get [] (epoch_histo_counts st) name))
       (epoch_histo_counts st)\<rparr>"

definition InitStat :: "SimpleStats \<Rightarrow> string \<Rightarrow> string \<Rightarrow> SimpleStats" where
  "InitStat st name stat_type =
     (if stat_type = ''counter''
      then st\<lparr>counters := emplace name 0 (counters st), epoch_counters := emplace name 0 (epoch_counters st)\<rparr>
      else st)"

definition InitVecStat :: "SimpleStats \<Rightarrow> string \<Rightarrow> string \<Rightarrow> int \<Rightarrow> SimpleStats res" where
  "InitVecStat st name stat_type vec_len =
     (if vec_len < 0 then Inl Thrown
      else Inr (if stat_type = ''vec_counter''
        then st\<lparr>vec_counters := emplace name (replicate (nat vec_len) 0) (vec_counters st),
               epoch_vec_counters := emplace name (replicate (nat vec_len) 0) (epoch_vec_counters st)\<rparr>
        else st))"

definition InitHistoStat :: "SimpleStats \<Rightarrow> string \<Rightarrow> int \<Rightarrow> int \<Rightarrow> int \<Rightarrow> SimpleStats res" where
  "InitHistoStat st name start_val end_val num_bins =
     bindE (idiv (end_val - start_val) num_bins) (\<lambda>bin_width.
     if num_bins + 2 < 0 then Inl Thrown
     else Inr (st\<lparr>bin_widths := emplace name bin_width (bin_widths st),
       histo_bounds := emplace name (start_val, end_val) (histo_bounds st),
       histo_counts := emplace name [] (histo_counts st),
       epoch_histo_counts := emplace name [] (epoch_histo_counts st),
       histo_bins := emplace name (replicate (nat (num_bins + 2)) 0) (histo_bins st),
       epoch_histo_bins := emplace name (replicate (nat (num_bins + 2)) 0) (epoch_histo_bins st)\<rparr>))"

definition UpdateCounters :: "SimpleStats \<Rightarrow> SimpleStats res" where
  "UpdateCounters st =
     (let st = st\<lparr>counters := fold (\<lambda>(k, v). al_add k v) (epoch_counters st) (counters st)\<rparr>
      in foldE (\<lambda>(name, vec) st.
           bindE (foldE (\<lambda>i tot. vupd tot (int i) (\<lambda>x. x + vec ! i)) [0..<length vec]
             (al_get [] (vec_counters st) name)) (\<lambda>tot.
           Inr (st\<lparr>vec_counters := AList.update name tot (vec_counters st)\<rparr>)))
         (epoch_vec_counters st) st)"

text \<open>The bin of a value: one bin below the range, one above it, equal bins in between.\<close>

definition bin_of :: "int \<times> int \<Rightarrow> int \<Rightarrow> nat \<Rightarrow> int \<Rightarrow> int res" where
  "bin_of bounds width nbins v =
     (if v < fst bounds then Inr 0
      else if v > snd bounds then Inr (int nbins - 1)
      else bindE (idiv (v - fst bounds) width) (\<lambda>q. Inr (q + 1)))"

definition fill_bins :: "int \<times> int \<Rightarrow> int \<Rightarrow> HistoCount \<Rightarrow> u64 list \<Rightarrow> u64 list res" where
  "fill_bins bounds width counts bins =
     foldE (\<lambda>(v, c) bins.
       bindE (bin_of bounds width (length bins) v) (\<lambda>i. vupd bins i (\<lambda>x. x + c)))
     counts (map (\<lambda>_. 0) bins)"

definition UpdateHistoBins :: "SimpleStats \<Rightarrow> SimpleStats res" where
  "UpdateHistoBins st =
     bindE (foldE (\<lambda>(name, bins) st.
         bindE (fill_bins (al_get (0, 0) (histo_bounds st) name) (al_get 0 (bin_widths st) name)
           (al_get [] (epoch_histo_counts st) name) bins) (\<lambda>bins'.
         Inr (st\<lparr>epoch_histo_bins := AList.update name bins' (epoch_histo_bins st)\<rparr>)))
       (epoch_histo_bins st) st) (\<lambda>st.
     foldE (\<lambda>(name, cs) st.
         let final = fold (\<lambda>(v, c). al_add v c) cs (al_get [] (histo_counts st) name);
             fbins = al_get [] (histo_bins st) name;
             ebins = al_get [] (epoch_histo_bins st) name
         in bindE (foldE (\<lambda>i fb. bindE (vget ebins (int i)) (\<lambda>e. vupd fb (int i) (\<lambda>x. x + e)))
              [0..<length fbins] fbins) (\<lambda>fbins'.
            Inr (st\<lparr>histo_counts := AList.update name final (histo_counts st),
                   histo_bins := AList.update name fbins' (histo_bins st)\<rparr>)))
       (epoch_histo_counts st) st)"

text \<open>The end of an epoch: accumulate, then clear the epoch figures.\<close>

definition clear_epoch :: "SimpleStats \<Rightarrow> SimpleStats" where
  "clear_epoch st =
     st\<lparr>epoch_counters := map (\<lambda>(k, _). (k, 0)) (epoch_counters st),
        epoch_vec_counters := map (\<lambda>(k, v). (k, map (\<lambda>_. 0) v)) (epoch_vec_counters st),
        epoch_histo_counts := map (\<lambda>(k, _). (k, [])) (epoch_histo_counts st)\<rparr>"

definition UpdateEpochStats :: "SimpleStats \<Rightarrow> SimpleStats res" where
  "UpdateEpochStats st =
     bindE (UpdateCounters st) (\<lambda>st. bindE (UpdateHistoBins st) (\<lambda>st. Inr (clear_epoch st)))"

definition UpdateFinalStats :: "SimpleStats \<Rightarrow> SimpleStats res" where
  "UpdateFinalStats st = bindE (UpdateCounters st) UpdateHistoBins"

definition Stats_Reset :: "SimpleStats \<Rightarrow> SimpleStats" where
  "Stats_Reset st =
     (clear_epoch st)\<lparr>counters := map (\<lambda>(k, _). (k, 0)) (counters st),
        vec_counters := map (\<lambda>(k, v). (k, map (\<lambda>_. 0) v)) (vec_counters st),
        histo_counts := map (\<lambda>(k, _). (k, [])) (histo_counts st)\<rparr>"

section \<open>The constructor\<close>

definition Stats_empty :: SimpleStats where
  "Stats_empty = \<lparr>counters = [], epoch_counters = [], vec_counters = [], epoch_vec_counters = [],
     histo_bounds = [], bin_widths = [], histo_counts = [], epoch_histo_counts = [],
     histo_bins = [], epoch_histo_bins = []\<rparr>"

definition counter_names :: "string list" where
  "counter_names =
     [''num_cycles'', ''epoch_num'', ''num_reads_done'', ''num_writes_done'', ''num_write_buf_hits'',
      ''num_read_row_hits'', ''num_write_row_hits'', ''num_read_cmds'', ''num_write_cmds'', ''num_act_cmds'',
      ''num_pre_cmds'', ''num_ondemand_pres'', ''num_refab_cmds'', ''num_refsb_cmds'', ''num_refb_cmds'',
      ''num_srefe_cmds'', ''num_srefx_cmds'', ''hbm_dual_cmds'', ''num_rfmab_cmds'', ''num_rfmsb_cmds'',
      ''num_tref_rfmab_skips'', ''num_tref_max_mitigs'', ''num_alerts'', ''num_drfmab_cmds'',
      ''num_drfmsb_cmds'', ''num_drfmb_cmds'', ''num_preab_cmds'', ''num_presb_cmds'']"

definition mk_SimpleStats :: "Config \<Rightarrow> SimpleStats res" where
  "mk_SimpleStats cfg =
     (let st = fold (\<lambda>n st. InitStat st n ''counter'') counter_names Stats_empty in
      bindE (InitVecStat st ''all_bank_idle_cycles'' ''vec_counter'' (ranks cfg)) (\<lambda>st.
      bindE (InitVecStat st ''rank_active_cycles'' ''vec_counter'' (ranks cfg)) (\<lambda>st.
      bindE (InitVecStat st ''sref_cycles'' ''vec_counter'' (ranks cfg)) (\<lambda>st.
      bindE (InitHistoStat st ''read_latency'' 0 200 10) (\<lambda>st.
      bindE (InitHistoStat st ''write_latency'' 0 200 10) (\<lambda>st.
      bindE (InitHistoStat st ''interarrival_latency'' 0 100 10) (\<lambda>st.
      InitHistoStat st ''bursty_access_count'' 0 32 32)))))))"

section \<open>Counters\<close>

lemma al_get_update [simp]: "al_get d (AList.update k v m) j = (if j = k then v else al_get d m j)"
  by (simp add: al_get_def update_conv)

lemma al_get_add: "al_get 0 (al_add k v m) j = al_get 0 m j + (if j = k then v else 0)"
  by (simp add: al_add_def)

lemma al_get_Cons: "al_get d ((k, v) # m) j = (if j = k then v else al_get d m j)"
  by (simp add: al_get_def)

lemma Increment_GetECtr:
  "GetECtr (Increment st n) m = GetECtr st m + (if m = n then 1 else 0)"
  by (simp add: Increment_def Increment_by_def GetECtr_def al_get_add)

lemma fold_al_add:
  "distinct (map fst es) \<Longrightarrow> al_get 0 (fold (\<lambda>(k, v). al_add k v) es m) j = al_get 0 m j + al_get 0 es j"
proof (induction es arbitrary: m)
  case (Cons e es)
  obtain k v where e: "e = (k, v)" by (cases e)
  show ?case
  proof (cases "j = k")
    case True
    then have "map_of es j = None" using Cons.prems by (simp add: e map_of_eq_None_iff)
    then have "al_get 0 es j = 0" by (simp add: al_get_def)
    with Cons True show ?thesis by (simp add: e al_get_add al_get_Cons)
  next
    case False
    with Cons show ?thesis by (simp add: e al_get_add al_get_Cons)
  qed
qed (simp add: al_get_def)

lemma UpdateCounters_counters:
  assumes "UpdateCounters st = Inr st'"
  shows "counters st' = fold (\<lambda>(k, v). al_add k v) (epoch_counters st) (counters st)"
proof -
  let ?st = "st\<lparr>counters := fold (\<lambda>(k, v). al_add k v) (epoch_counters st) (counters st)\<rparr>"
  have "counters t' = counters t"
    if "foldE (\<lambda>(name, vec) st.
           bindE (foldE (\<lambda>i tot. vupd tot (int i) (\<lambda>x. x + vec ! i)) [0..<length vec]
             (al_get [] (vec_counters st) name)) (\<lambda>tot.
           Inr (st\<lparr>vec_counters := AList.update name tot (vec_counters st)\<rparr>))) es t = Inr t'" for es t t'
    using that
    by (induction es arbitrary: t) (fastforce simp: bindE_Inr_iff)+
  from this [of "epoch_vec_counters ?st" ?st st'] assms show ?thesis
    by (simp add: UpdateCounters_def Let_def)
qed

section \<open>Histogram bins\<close>

lemma sum_list_add_at:
  "i < length xs \<Longrightarrow> sum_list (xs[i := xs ! i + c]) = sum_list xs + (c :: 'a::comm_monoid_add)"
  by (induction xs arbitrary: i) (auto simp: algebra_simps split: nat.splits)

definition bins_ok :: "int \<times> int \<Rightarrow> int \<Rightarrow> nat \<Rightarrow> bool" where
  "bins_ok bounds width n \<longleftrightarrow> 0 < width \<and> 2 \<le> n \<and> (snd bounds - fst bounds) div width + 2 \<le> int n"

lemma bin_of_ok:
  assumes "bins_ok b w n"
  shows "okE (bin_of b w n v) (\<lambda>i. 0 \<le> i \<and> i < int n)"
proof (cases "fst b \<le> v \<and> v \<le> snd b")
  case True
  with assms have "(v - fst b) div w \<le> (snd b - fst b) div w" "0 \<le> (v - fst b) div w"
    by (auto simp: bins_ok_def pos_imp_zdiv_nonneg_iff intro: zdiv_mono1)
  with True assms show ?thesis by (simp add: bin_of_def bins_ok_def)
qed (use assms in \<open>auto simp: bin_of_def bins_ok_def\<close>)

lemma fill_loop_sum:
  fixes bins :: "u64 list"
  assumes "bins_ok b w (length bins)"
  shows "okE (foldE (\<lambda>(v, c) bins. bindE (bin_of b w (length bins) v) (\<lambda>i. vupd bins i (\<lambda>x. x + c))) cs bins)
    (\<lambda>bins'. length bins' = length bins \<and> sum_list bins' = sum_list bins + sum_list (map snd cs))"
  using assms
proof (induction cs arbitrary: bins)
  case (Cons vc cs)
  obtain v c where vc: "vc = (v, c)" by (cases vc)
  obtain i where i: "bin_of b w (length bins) v = Inr i" "inrange i bins"
    using bin_of_ok [OF Cons.prems, of v] by (auto simp: okE_iff inrange_def)
  let ?bins = "bins[nat i := bins ! nat i + c]"
  have "bins_ok b w (length ?bins)" using Cons.prems by simp
  from Cons.IH [OF this] i show ?case
    by (auto simp: vc sum_list_add_at [OF inrange_nat [OF i(2)]] add.assoc elim!: okE_mono)
qed simp

text \<open>
  No sample is lost when a histogram is binned: with the bin widths \<open>InitHistoStat\<close> computes,
  the bins of an epoch add up to the number of values recorded in it.
\<close>

theorem histogram_conserves_samples:
  assumes "0 < num_bins" "start_val \<le> end_val" "(end_val - start_val) mod num_bins = 0"
    "start_val < end_val" "length bins = nat (num_bins + 2)"
  shows "okE (fill_bins (start_val, end_val) ((end_val - start_val) sdiv num_bins) counts bins)
    (\<lambda>bins'. length bins' = length bins \<and> sum_list bins' = sum_list (map snd counts))"
proof -
  let ?w = "(end_val - start_val) div num_bins"
  have w: "(end_val - start_val) sdiv num_bins = ?w" using assms by (simp add: sdiv_nonneg)
  have e: "end_val - start_val = num_bins * ?w" using assms(3) by auto
  have pos: "0 < ?w" using assms e by (metis diff_gt_0_iff_gt zero_less_mult_pos)
  then have "(end_val - start_val) div ?w = num_bins" by (subst e) simp
  with pos assms have "bins_ok (start_val, end_val) ?w (length (map (\<lambda>_. 0 :: u64) bins))"
    by (simp add: bins_ok_def)
  from fill_loop_sum [OF this, of counts] show ?thesis
    by (simp add: fill_bins_def w map_replicate_const sum_list_replicate)
qed

theorem histogram_conserves_samples_witness:
  "okE (fill_bins (0, 200) ((200 - 0) sdiv 10) [(7, 3), (200, 1), (500, 2)] (replicate 12 0))
     (\<lambda>bins'. length bins' = 12 \<and> sum_list bins' = 6)"
  using histogram_conserves_samples [of 10 0 200 "replicate 12 0" "[(7, 3), (200, 1), (500, 2)]"]
  by (simp add: numeral_eq_Suc)

end
