(* ===== verification/Bank_State.thy ===== *)
theory Bank_State
  imports Stats
begin

unbundle bit_operations_syntax

text \<open>
  bankstate.h and bankstate.cc: one DRAM bank. The record \<open>BankState\<close> has the members of the class;
  \<open>bank_GetReadyCommand\<close>, \<open>bank_UpdateState\<close> and \<open>bank_UpdateTiming\<close> are the command state machine,
  the others the Rowhammer trackers that live in a bank (DRFM queue, MINT, PARA, Graphene, Hydra,
  MOAT) and the per-row activation counts. \<open>Env\<close> holds what the banks of a channel share: the
  statistics, the row-count cache that Hydra keeps in the configuration, and the sequence of
  values \<open>rand()\<close> returns.
\<close>

section \<open>The environment of a bank\<close>

record Env =
  env_stats :: SimpleStats
  env_rcc :: LRUCache
  env_rand :: "nat \<Rightarrow> int"
  env_rand_pos :: nat

definition stat_inc :: "Env \<Rightarrow> string \<Rightarrow> Env" where
  "stat_inc e name = e\<lparr>env_stats := Increment (env_stats e) name\<rparr>"

definition rand :: "Env \<Rightarrow> int \<times> Env" where
  "rand e = (env_rand e (env_rand_pos e), e\<lparr>env_rand_pos := env_rand_pos e + 1\<rparr>)"

section \<open>The bank\<close>

datatype State = OPEN | CLOSED | SREF | PD | State_SIZE

record DRFM_Q_Entry =
  d_rowid :: u32
  d_ctr :: u16

record GRAPHENE_Q_Entry =
  g_rowid :: u32
  g_ctr :: u16

record bank_core =
  b_state :: State
  cmd_timing :: "u64 list"
  last_cmd :: Command
  open_row :: int
  row_hit_count :: int
  b_rank :: int
  b_bank_group :: int
  b_bank :: int
  raa_ctr :: int
  acts_counter :: int
  b_ref_idx :: u32
  b_fgr_counter :: u32
  prac :: "u32 list"
  max_prac_val :: u32

record BankState = bank_core +
  drfm_q :: "DRFM_Q_Entry list"
  drfm_issued :: bool
  moat_max_prac_idx :: int
  mint_rows :: "u32 list"
  graphene_q :: "GRAPHENE_Q_Entry list"
  graphene_spill_counter :: u64
  graphene_entries :: u32
  graphene_spills_stat :: string
  graphene_resets_stat :: string
  hydra_resets_stat :: string
  hydra_gct_overflows_stat :: string
  hydra_aggressor_stat :: string
  hydra_gct :: "u32 list"
  hydra_gct_valid :: "bool list"
  hydra_counts :: "u32 list"
  num_rows_per_gct :: u32

text \<open>\<open>std::to_string\<close> of an \<open>int\<close>.\<close>

function nat_to_string :: "nat \<Rightarrow> string" where
  "nat_to_string n =
     (if n < 10 then [char_of (48 + n)] else nat_to_string (n div 10) @ [char_of (48 + n mod 10)])"
  by pat_completeness auto
termination
  by (relation "measure id") auto

declare nat_to_string.simps [simp del]

definition int_to_string :: "int \<Rightarrow> string" where
  "int_to_string i = (if i < 0 then ''-'' @ nat_to_string (nat (- i)) else nat_to_string (nat i))"

definition bank_identifier :: "BankState \<Rightarrow> string" where
  "bank_identifier b = int_to_string (b_rank b) @ ''.'' @ int_to_string (b_bank_group b)
     @ ''.'' @ int_to_string (b_bank b)"

definition acts_stat_name :: "BankState \<Rightarrow> string" where
  "acts_stat_name b = ''acts.'' @ bank_identifier b"

definition mitig_used_stat :: "BankState \<Rightarrow> string" where
  "mitig_used_stat b = ''mitig_used.'' @ bank_identifier b"

definition mitig_wasted_stat :: "BankState \<Rightarrow> string" where
  "mitig_wasted_stat b = ''mitig_wasted.'' @ bank_identifier b"

definition counter_stats :: "string list \<Rightarrow> Env \<Rightarrow> Env" where
  "counter_stats names e =
     e\<lparr>env_stats := fold (\<lambda>n st. InitStat st n ''counter'') names (env_stats e)\<rparr>"

text \<open>
  \<open>std::vector<T> v(n, x)\<close> and \<open>v.resize(n, x)\<close> on an empty vector; a negative \<open>int\<close> is a huge size.
\<close>

definition vec_of :: "int \<Rightarrow> 'a \<Rightarrow> 'a list res" where
  "vec_of n x = (if n < 0 then Inl Thrown else Inr (replicate (nat n) x))"

text \<open>
  The constructor. The members it does not assign keep the values of the uninitialised object
  \<open>b0\<close>; its vectors and strings are empty.
\<close>

definition mk_BankState :: "Config \<Rightarrow> BankState \<Rightarrow> int \<Rightarrow> int \<Rightarrow> int \<Rightarrow> Env \<Rightarrow> (BankState \<times> Env) res" where
  "mk_BankState cfg b0 rank bank_group bank e =
     bindE (vec_of (rows cfg) 0) (\<lambda>pr.
     let b = b0\<lparr>b_state := CLOSED, cmd_timing := replicate 18 0, last_cmd := Command_default,
           open_row := -1, row_hit_count := 0, b_rank := rank, b_bank_group := bank_group, b_bank := bank,
           raa_ctr := 0, acts_counter := 0, b_ref_idx := 0, b_fgr_counter := 0, prac := pr, max_prac_val := 0,
           drfm_q := [], drfm_issued := False, mint_rows := [], graphene_q := [],
           graphene_spills_stat := [], graphene_resets_stat := [], hydra_resets_stat := [],
           hydra_gct_overflows_stat := [], hydra_aggressor_stat := [],
           hydra_gct := [], hydra_gct_valid := [], hydra_counts := []\<rparr>;
         e = counter_stats [acts_stat_name b] e
     in bindE (InitHistoStat (env_stats e) ''acts_per_row_per_trefw'' 0 65 65) (\<lambda>st.
        let e = counter_stats [mitig_used_stat b, mitig_wasted_stat b] (e\<lparr>env_stats := st\<rparr>)
        in if dream_mode cfg = 1 \<or> mint_mode cfg = 1 \<or> para_mode cfg = 1 then Inr (b, e)
        else if graphene_mode cfg = 1 then
          bindE (idiv (refchunks cfg * tREFI cfg) (tRAS cfg + tRP cfg)) (\<lambda>ma.
          let max_acts = word_of_int ma :: u64 in
          bindE (udiv max_acts (word_of_int (graphene_th cfg))) (\<lambda>ge.
          let b = b\<lparr>graphene_entries := ucast ge, graphene_spill_counter := 0,
                graphene_spills_stat := ''graphene_spills.'' @ bank_identifier b,
                graphene_resets_stat := ''graphene_resets.'' @ bank_identifier b\<rparr>
          in Inr (b, counter_stats [graphene_spills_stat b, graphene_resets_stat b] e)))
        else if hydra_mode cfg = 1 then
          bindE (idiv (rows cfg) (hydra_gct_size cfg)) (\<lambda>nr.
          bindE (vec_of (hydra_gct_size cfg) 0) (\<lambda>gct.
          bindE (vec_of (hydra_gct_size cfg) True) (\<lambda>val.
          let b = b\<lparr>num_rows_per_gct := word_of_int nr, hydra_gct := gct, hydra_gct_valid := val,
                hydra_counts := pr,
                hydra_resets_stat := ''hydra_resets.'' @ bank_identifier b,
                hydra_gct_overflows_stat := ''hydra_gct_overflows.'' @ bank_identifier b,
                hydra_aggressor_stat := ''hydra_aggressor.'' @ bank_identifier b\<rparr>
          in Inr (b, counter_stats [hydra_resets_stat b, hydra_gct_overflows_stat b, hydra_aggressor_stat b] e))))
        else if moat_mode cfg = 1 then Inr (b\<lparr>moat_max_prac_idx := -1\<rparr>, e)
        else Inr (b, e)))"

section \<open>Which command the bank needs next\<close>

definition rfm_th :: "Config \<Rightarrow> int" where
  "rfm_th cfg = (if rfm_policy cfg \<noteq> 0 then raammt cfg else raaimt cfg)"

definition required_closed :: "Config \<Rightarrow> BankState \<Rightarrow> CommandType \<Rightarrow> CommandType res" where
  "required_closed cfg b ct =
     (if ct \<in> {READ, READ_PRECHARGE, WRITE, WRITE_PRECHARGE} then
        Inr (if rfm_mode cfg = 1 \<and> raa_ctr b \<ge> rfm_th cfg then RFMsb
             else if rfm_mode cfg = 2 \<and> raa_ctr b \<ge> rfm_th cfg then RFMab
             else if drfm_issued b then SIZE
             else ACTIVATE)
      else if ct \<in> {REFRESH_BANK, REFsb, REFab, SREF_ENTER, RFMsb, RFMab, DRFMb, DRFMsb, DRFMab} then Inr ct
      else Inl AbruptExit)"

definition required_open :: "BankState \<Rightarrow> Command \<Rightarrow> CommandType res" where
  "required_open b cmd =
     (if cmd_type cmd \<in> {READ, READ_PRECHARGE, WRITE, WRITE_PRECHARGE} then
        Inr (if Row cmd = open_row b then cmd_type cmd else PRECHARGE)
      else if cmd_type cmd \<in> {REFRESH_BANK, DRFMb} then Inr PRECHARGE
      else if cmd_type cmd \<in> {REFab, RFMab, DRFMab, SREF_ENTER} then Inr PREab
      else if cmd_type cmd \<in> {RFMsb, REFsb, DRFMsb} then Inr PREsb
      else Inl AbruptExit)"

definition required_sref :: "CommandType \<Rightarrow> CommandType res" where
  "required_sref ct =
     (if ct \<in> {READ, READ_PRECHARGE, WRITE, WRITE_PRECHARGE} then Inr SREF_EXIT else Inl AbruptExit)"

definition required_type :: "Config \<Rightarrow> BankState \<Rightarrow> Command \<Rightarrow> CommandType res" where
  "required_type cfg b cmd =
     (case b_state b of
        CLOSED \<Rightarrow> required_closed cfg b (cmd_type cmd)
      | OPEN \<Rightarrow> required_open b cmd
      | SREF \<Rightarrow> required_sref (cmd_type cmd)
      | PD \<Rightarrow> Inl AbruptExit
      | State_SIZE \<Rightarrow> Inl AbruptExit)"

definition bank_GetReadyCommand :: "Config \<Rightarrow> BankState \<Rightarrow> Command \<Rightarrow> u64 \<Rightarrow> Command res" where
  "bank_GetReadyCommand cfg b cmd clk =
     bindE (required_type cfg b cmd) (\<lambda>rt.
     if rt \<noteq> SIZE
     then bindE (vget (cmd_timing b) (int (cmd_index rt))) (\<lambda>t.
          if clk \<ge> t then Inr (mk_Command rt (cmd_addr cmd) (hex_addr cmd)) else Inr Command_default)
     else Inr Command_default)"

definition bank_IsInDRFM :: "BankState \<Rightarrow> bool" where
  "bank_IsInDRFM b = IsDRFM (last_cmd b)"

definition bank_IsInREF :: "BankState \<Rightarrow> bool" where
  "bank_IsInREF b = IsRefresh (last_cmd b)"

definition bank_IsRowOpen :: "BankState \<Rightarrow> bool" where
  "bank_IsRowOpen b \<longleftrightarrow> b_state b = OPEN"

definition bank_UpdateTiming :: "BankState \<Rightarrow> CommandType \<Rightarrow> u64 \<Rightarrow> BankState res" where
  "bank_UpdateTiming b ct time =
     bindE (vupd (cmd_timing b) (int (cmd_index ct)) (\<lambda>t. max t time)) (\<lambda>ts. Inr (b\<lparr>cmd_timing := ts\<rparr>))"

section \<open>The DRFM queue\<close>

text \<open>\<open>find_if\<close> followed by a change of the entry it found.\<close>

fun upd_first :: "('a \<Rightarrow> bool) \<Rightarrow> ('a \<Rightarrow> 'a) \<Rightarrow> 'a list \<Rightarrow> 'a list" where
  "upd_first p f [] = []"
| "upd_first p f (x # xs) = (if p x then f x # xs else x # upd_first p f xs)"

definition drfm_post_act :: "BankState \<Rightarrow> u32 \<Rightarrow> BankState" where
  "drfm_post_act b rowid =
     b\<lparr>drfm_q := upd_first (\<lambda>x. d_rowid x = rowid) (\<lambda>x. x\<lparr>d_ctr := d_ctr x + 1\<rparr>) (drfm_q b)\<rparr>"

definition drfm_push :: "BankState \<Rightarrow> u32 \<Rightarrow> BankState" where
  "drfm_push b rowid = b\<lparr>drfm_q := drfm_q b @ [\<lparr>d_rowid = rowid, d_ctr = 0\<rparr>]\<rparr>"

definition insert_drfm :: "Config \<Rightarrow> BankState \<Rightarrow> u32 \<Rightarrow> BankState" where
  "insert_drfm cfg b rowid = (if drfm_mode cfg = 0 then b else drfm_push b rowid)"

text \<open>\<open>assert(drfm_q_.size() <= config_.drfm_qsize)\<close>: a negative size converts to a huge one.\<close>

definition drfm_push_asserted :: "Config \<Rightarrow> BankState \<Rightarrow> u32 \<Rightarrow> BankState res" where
  "drfm_push_asserted cfg b rowid =
     bindE (checkE AssertFailed (int (length (drfm_q b)) \<le> uint (word_of_int (drfm_qsize cfg) :: u64))) (\<lambda>_.
     Inr (drfm_push b rowid))"

definition IsSamplerFull :: "Config \<Rightarrow> BankState \<Rightarrow> bool" where
  "IsSamplerFull cfg b =
     (if drfm_mode cfg = 0 then False
      else if int (length (drfm_q b)) \<ge> uint (word_of_int (drfm_qsize cfg) :: u32) then True
      else case max_element d_ctr (drfm_q b) of
             Some i \<Rightarrow> uint (d_ctr (drfm_q b ! i)) \<ge> drfm_qth cfg
           | None \<Rightarrow> False)"

definition MarkDRFMIssued :: "BankState \<Rightarrow> BankState" where
  "MarkDRFMIssued b = b\<lparr>drfm_issued := True\<rparr>"

definition drfm_mitig :: "BankState \<times> Env \<Rightarrow> int \<times> BankState \<times> Env" where
  "drfm_mitig = (\<lambda>(b, e).
     case max_element d_ctr (drfm_q b) of
       Some i \<Rightarrow>
         let i = (if d_ctr (drfm_q b ! i) \<le> d_ctr (drfm_q b ! 0) then 0 else i)
         in (uint (d_rowid (drfm_q b ! i)), b\<lparr>drfm_q := erase_at i (drfm_q b)\<rparr>,
             stat_inc e (mitig_used_stat b))
     | None \<Rightarrow> (-1, b, stat_inc e (mitig_wasted_stat b)))"

definition mode_mitig :: "int \<Rightarrow> BankState \<times> Env \<Rightarrow> BankState \<times> Env" where
  "mode_mitig mode be = (if mode = 0 then be else snd (drfm_mitig be))"

section \<open>The trackers: what happens before an activation\<close>

definition mint_preact :: "Config \<Rightarrow> u32 \<Rightarrow> BankState \<times> Env \<Rightarrow> (BankState \<times> Env) res" where
  "mint_preact cfg rowid = (\<lambda>(b, e).
     if mint_mode cfg = 0 then Inr (b, e)
     else let b = b\<lparr>mint_rows := mint_rows b @ [rowid]\<rparr> in
       if int (length (mint_rows b)) \<ge> uint (word_of_int (mint_window cfg) :: u32)
       then case rand e of (r, e) \<Rightarrow>
         let idx = r mod int (length (mint_rows b)) in
         bindE (vget (mint_rows b) idx) (\<lambda>select_rowid.
         bindE (drfm_push_asserted cfg (b\<lparr>mint_rows := []\<rparr>) select_rowid) (\<lambda>b.
         Inr (b, e)))
       else Inr (b, e))"

definition para_preact :: "Config \<Rightarrow> u32 \<Rightarrow> BankState \<times> Env \<Rightarrow> (BankState \<times> Env) res" where
  "para_preact cfg rowid = (\<lambda>(b, e).
     if para_mode cfg = 0 then Inr (b, e)
     else case rand e of (r, e) \<Rightarrow>
       if of_int (r mod 2 ^ 20) / of_int (2 ^ 20) < para_prob cfg
       then bindE (drfm_push_asserted cfg b rowid) (\<lambda>b. Inr (b, e))
       else Inr (b, e))"

text \<open>The counter table of Graphene: hit, free entry, replacement of a low entry, or a spill.\<close>

definition graphene_count :: "u32 \<Rightarrow> BankState \<times> Env \<Rightarrow> BankState \<times> Env" where
  "graphene_count rowid = (\<lambda>(b, e).
     let q = graphene_q b; spill = graphene_spill_counter b in
     if \<exists>x\<in>set q. g_rowid x = rowid
     then (b\<lparr>graphene_q := upd_first (\<lambda>x. g_rowid x = rowid) (\<lambda>x. x\<lparr>g_ctr := g_ctr x + 1\<rparr>) q\<rparr>, e)
     else if int (length q) < uint (graphene_entries b)
     then (b\<lparr>graphene_q := q @ [\<lparr>g_rowid = rowid, g_ctr = 1\<rparr>]\<rparr>, e)
     else if \<exists>x\<in>set q. ucast (g_ctr x) = spill
     then (b\<lparr>graphene_q := upd_first (\<lambda>x. ucast (g_ctr x) = spill)
             (\<lambda>x. x\<lparr>g_rowid := rowid, g_ctr := ucast (spill + 1)\<rparr>) q\<rparr>, e)
     else (b\<lparr>graphene_spill_counter := spill + 1\<rparr>, stat_inc e (graphene_spills_stat b)))"

definition graphene_preact :: "Config \<Rightarrow> u32 \<Rightarrow> BankState \<times> Env \<Rightarrow> (BankState \<times> Env) res" where
  "graphene_preact cfg rowid = (\<lambda>(b, e).
     if graphene_mode cfg = 0 then Inr (b, e)
     else case graphene_count rowid (b, e) of (b, e) \<Rightarrow>
       case find (\<lambda>x. uint (g_ctr x) \<ge> graphene_th cfg) (graphene_q b) of
         Some x \<Rightarrow> bindE (drfm_push_asserted cfg b (g_rowid x)) (\<lambda>b. Inr (b, e))
       | None \<Rightarrow> Inr (b, e))"

definition hydra_idx :: "Config \<Rightarrow> u32 \<Rightarrow> u32 res" where
  "hydra_idx cfg rowid = umod rowid (word_of_int (hydra_gct_size cfg))"

definition hydra_check_rcc :: "Config \<Rightarrow> Command \<Rightarrow> BankState \<Rightarrow> Env \<Rightarrow> (int \<times> Env) res" where
  "hydra_check_rcc cfg cmd b e =
     (if hydra_mode cfg = 0 then Inr (0, e)
      else bindE (hydra_idx cfg (word_of_int (Row cmd))) (\<lambda>gct_idx.
        bindE (vget (hydra_gct_valid b) (uint gct_idx)) (\<lambda>valid.
        if valid then Inr (0, e)
        else bindE (ResetColBits cfg (hex_addr cmd)) (\<lambda>rcc_tag.
             bindE (RemoveColBits cfg (hex_addr cmd)) (\<lambda>rcc_set.
             bindE (lru_read (env_rcc e) rcc_tag rcc_set) (\<lambda>(r, c).
             Inr (r, e\<lparr>env_rcc := c\<rparr>)))))))"

text \<open>Counting an activation in Hydra: in the group counter while it is valid, else per row.\<close>

definition hydra_count :: "Config \<Rightarrow> Command \<Rightarrow> u32 \<Rightarrow> u32 \<Rightarrow> BankState \<times> Env \<Rightarrow> (BankState \<times> Env) res" where
  "hydra_count cfg cmd rowid gct_idx = (\<lambda>(b, e).
     bindE (vget (hydra_gct_valid b) (uint gct_idx)) (\<lambda>valid.
     if valid
     then bindE (vupd (hydra_gct b) (uint gct_idx) (\<lambda>v. v + 1)) (\<lambda>g. Inr (b\<lparr>hydra_gct := g\<rparr>, e))
     else bindE (vupd (hydra_counts b) (uint rowid) (\<lambda>v. v + 1)) (\<lambda>cs.
          bindE (ResetColBits cfg (hex_addr cmd)) (\<lambda>rcc_tag.
          bindE (RemoveColBits cfg (hex_addr cmd)) (\<lambda>rcc_set.
          bindE (lru_write (env_rcc e) rcc_tag rcc_set) (\<lambda>(r, c).
          Inr (b\<lparr>hydra_counts := cs\<rparr>, e\<lparr>env_rcc := c\<rparr>)))))))"

text \<open>A group counter that reaches its threshold is split into its rows.\<close>

definition hydra_split :: "Config \<Rightarrow> u32 \<Rightarrow> BankState \<times> Env \<Rightarrow> (BankState \<times> Env) res" where
  "hydra_split cfg gct_idx = (\<lambda>(b, e).
     bindE (vget (hydra_gct b) (uint gct_idx)) (\<lambda>g.
     bindE (vget (hydra_gct_valid b) (uint gct_idx)) (\<lambda>valid.
     if g \<ge> word_of_int (hydra_gct_th cfg) \<and> valid
     then bindE (vset (hydra_gct_valid b) (uint gct_idx) False) (\<lambda>vs.
          bindE (forE (uint (num_rows_per_gct b)) (\<lambda>i cs.
              vset cs (uint (word_of_int (i * hydra_gct_size cfg) + gct_idx)) (word_of_int (hydra_gct_th cfg)))
            (hydra_counts b)) (\<lambda>cs.
          Inr (b\<lparr>hydra_gct_valid := vs, hydra_counts := cs\<rparr>, stat_inc e (hydra_gct_overflows_stat b))))
     else Inr (b, e))))"

definition hydra_preact :: "Config \<Rightarrow> Command \<Rightarrow> BankState \<times> Env \<Rightarrow> (BankState \<times> Env) res" where
  "hydra_preact cfg cmd = (\<lambda>(b, e).
     if hydra_mode cfg = 0 then Inr (b, e)
     else let rowid = word_of_int (Row cmd) :: u32 in
       bindE (hydra_idx cfg rowid) (\<lambda>gct_idx.
       bindE (hydra_count cfg cmd rowid gct_idx (b, e)) (\<lambda>be.
       bindE (hydra_split cfg gct_idx be) (\<lambda>(b, e).
       bindE (vget (hydra_gct_valid b) (uint gct_idx)) (\<lambda>valid.
       if valid then Inr (b, e)
       else bindE (vget (hydra_counts b) (uint rowid)) (\<lambda>n.
            if n \<ge> word_of_int (hydra_th cfg)
            then bindE (drfm_push_asserted cfg b rowid) (\<lambda>b'. Inr (b', stat_inc e (hydra_aggressor_stat b)))
            else Inr (b, e)))))))"

definition PreACT :: "Config \<Rightarrow> Command \<Rightarrow> BankState \<times> Env \<Rightarrow> (bool \<times> BankState \<times> Env) res" where
  "PreACT cfg cmd be =
     (let rowid = word_of_int (Row cmd) :: u32 in
      bindE (mint_preact cfg rowid be) (\<lambda>be.
      bindE (para_preact cfg rowid be) (\<lambda>be.
      bindE (graphene_preact cfg rowid be) (\<lambda>be.
      bindE (hydra_preact cfg cmd be) (\<lambda>(b, e).
      Inr (IsSamplerFull cfg b, b, e))))))"

section \<open>The trackers: refresh and mitigation\<close>

definition at_ref_start :: "Config \<Rightarrow> BankState \<Rightarrow> bool res" where
  "at_ref_start cfg b = bindE (umod (b_ref_idx b) (word_of_int (rows cfg))) (\<lambda>r. Inr (r = 0))"

definition graphene_refresh :: "Config \<Rightarrow> BankState \<times> Env \<Rightarrow> (BankState \<times> Env) res" where
  "graphene_refresh cfg = (\<lambda>(b, e).
     if graphene_mode cfg = 0 then Inr (b, e)
     else bindE (at_ref_start cfg b) (\<lambda>start.
       Inr (if start
            then (b\<lparr>graphene_q := [], graphene_spill_counter := 0\<rparr>, stat_inc e (graphene_resets_stat b))
            else (b, e))))"

definition hydra_refresh :: "Config \<Rightarrow> BankState \<times> Env \<Rightarrow> (BankState \<times> Env) res" where
  "hydra_refresh cfg = (\<lambda>(b, e).
     if hydra_mode cfg = 0 then Inr (b, e)
     else bindE (at_ref_start cfg b) (\<lambda>start.
       if start
       then bindE (vec_of (hydra_gct_size cfg) 0) (\<lambda>gct.
            bindE (vec_of (hydra_gct_size cfg) True) (\<lambda>val.
            bindE (vec_of (rows cfg) 0) (\<lambda>cs.
            Inr (b\<lparr>hydra_gct := gct, hydra_gct_valid := val, hydra_counts := cs\<rparr>,
                 stat_inc e (hydra_resets_stat b)))))
       else Inr (b, e)))"

definition moat_refresh :: "Config \<Rightarrow> BankState \<Rightarrow> BankState" where
  "moat_refresh cfg b =
     (if moat_mode cfg = 0 then b
      else if (word_of_int (moat_max_prac_idx b) :: u32) \<ge> b_ref_idx b \<and>
              (word_of_int (moat_max_prac_idx b) :: u32) < b_ref_idx b + word_of_int (rows_refreshed cfg)
           then b\<lparr>moat_max_prac_idx := -1\<rparr>
           else b)"

definition graphene_mitig :: "Config \<Rightarrow> BankState \<times> Env \<Rightarrow> (BankState \<times> Env) res" where
  "graphene_mitig cfg be =
     (if graphene_mode cfg = 0 then Inr be
      else case drfm_mitig be of (rowid, b, e) \<Rightarrow>
        case max_element g_ctr (graphene_q b) of
          Some i \<Rightarrow> bindE (checkE AssertFailed (rowid \<noteq> -1 \<and> rowid = uint (g_rowid (graphene_q b ! i)))) (\<lambda>_.
            Inr (b\<lparr>graphene_q := erase_at i (graphene_q b)\<rparr>, e))
        | None \<Rightarrow> Inr (b, e))"

definition hydra_mitig :: "Config \<Rightarrow> BankState \<times> Env \<Rightarrow> (BankState \<times> Env) res" where
  "hydra_mitig cfg be =
     (if hydra_mode cfg = 0 then Inr be
      else case drfm_mitig be of (rowid, b, e) \<Rightarrow>
        if rowid \<noteq> -1 then bindE (vset (hydra_counts b) rowid 0) (\<lambda>cs. Inr (b\<lparr>hydra_counts := cs\<rparr>, e))
        else Inr (b, e))"

definition refresh_row :: "u32 \<Rightarrow> BankState \<Rightarrow> BankState res" where
  "refresh_row rowid b =
     bindE (vset (prac b) (uint rowid) 0) (\<lambda>pr.
     Inr (b\<lparr>prac := pr, drfm_q := filter (\<lambda>x. d_rowid x \<noteq> rowid) (drfm_q b)\<rparr>))"

definition bank_cactus_mitig :: "Config \<Rightarrow> u32 \<Rightarrow> BankState \<Rightarrow> BankState res" where
  "bank_cactus_mitig cfg r b =
     bindE (if r > 1 then refresh_row (r - 2) b else Inr b) (\<lambda>b.
     bindE (if r > 0 then refresh_row (r - 1) b else Inr b) (\<lambda>b.
     bindE (if r + 1 < word_of_int (rows cfg) then refresh_row (r + 1) b else Inr b) (\<lambda>b.
     if r + 2 < word_of_int (rows cfg) then refresh_row (r + 2) b else Inr b)))"

definition moat_act :: "Config \<Rightarrow> u32 \<Rightarrow> BankState \<Rightarrow> BankState res" where
  "moat_act cfg rowid b =
     (if moat_mode cfg = 0 then Inr b
      else if moat_max_prac_idx b = -1 then Inr (b\<lparr>moat_max_prac_idx := sint rowid\<rparr>)
      else bindE (vget (prac b) (uint rowid)) (\<lambda>p.
           bindE (vget (prac b) (moat_max_prac_idx b)) (\<lambda>m.
           Inr (if p > m then b\<lparr>moat_max_prac_idx := sint rowid\<rparr> else b))))"

definition moat_mitig :: "Config \<Rightarrow> BankState \<Rightarrow> BankState res" where
  "moat_mitig cfg b =
     (if moat_mode cfg = 0 \<or> moat_max_prac_idx b = -1 then Inr b
      else let m = moat_max_prac_idx b; inc = (\<lambda>c i pr. if c then vupd pr i (\<lambda>v. v + 1) else Inr pr) in
        bindE (vset (prac b) m 0) (\<lambda>pr.
        bindE (inc (m > 0) (m - 1) pr) (\<lambda>pr.
        bindE (inc (m > 1) (m - 2) pr) (\<lambda>pr.
        bindE (inc (m < rows cfg - 1) (m + 1) pr) (\<lambda>pr.
        bindE (inc (m < rows cfg - 2) (m + 2) pr) (\<lambda>pr.
        Inr (b\<lparr>prac := pr, moat_max_prac_idx := -1\<rparr>)))))))"

definition CheckAlert :: "Config \<Rightarrow> BankState \<Rightarrow> bool res" where
  "CheckAlert cfg b =
     (if moat_mode cfg = 1
      then if moat_max_prac_idx b \<noteq> -1
           then bindE (vget (prac b) (moat_max_prac_idx b)) (\<lambda>p. Inr (p > word_of_int (moatth cfg)))
           else Inr False
      else Inr False)"

section \<open>Executing a command\<close>

text \<open>The rows a refresh command restores, with their activation counts sampled and cleared.\<close>

definition refresh_one :: "Config \<Rightarrow> int \<Rightarrow> BankState \<times> Env \<Rightarrow> (BankState \<times> Env) res" where
  "refresh_one cfg i = (\<lambda>(b, e).
     bindE (umod (b_ref_idx b + word_of_int i) (word_of_int (rows cfg))) (\<lambda>r.
     let idx = sint r in
     bindE (vget (prac b) idx) (\<lambda>p.
     bindE (vset (prac b) idx 0) (\<lambda>pr.
     Inr (b\<lparr>max_prac_val := max (max_prac_val b) p, prac := pr\<rparr>,
          e\<lparr>env_stats := AddValue (env_stats e) ''acts_per_row_per_trefw'' (sint p)\<rparr>)))))"

definition refresh_rows :: "Config \<Rightarrow> BankState \<times> Env \<Rightarrow> (BankState \<times> Env) res" where
  "refresh_rows cfg be = forE (rows_refreshed cfg) (refresh_one cfg) be"

definition exec_refresh :: "Config \<Rightarrow> BankState \<times> Env \<Rightarrow> (BankState \<times> Env) res" where
  "exec_refresh cfg = (\<lambda>(b, e).
     let b = b\<lparr>b_fgr_counter := (b_fgr_counter b + 1) mod 2\<rparr>;
         b = b\<lparr>raa_ctr := raa_ctr b - min (raa_ctr b) (ref_raa_decrement cfg)\<rparr>
     in if fgr cfg \<and> b_fgr_counter b = 0 \<or> \<not> fgr cfg
        then bindE (graphene_refresh cfg (b\<lparr>acts_counter := 0\<rparr>, e)) (\<lambda>be.
             bindE (hydra_refresh cfg be) (\<lambda>(b, e).
             bindE (refresh_rows cfg (moat_refresh cfg b, e)) (\<lambda>(b, e).
             bindE (umod (b_ref_idx b + word_of_int (rows_refreshed cfg)) (word_of_int (rows cfg))) (\<lambda>r.
             Inr (b\<lparr>b_ref_idx := r\<rparr>, e)))))
        else Inr (b, e))"

text \<open>
  The three cases of the switch that fall through: a DRFM mitigates through the trackers that
  are enabled, then does what an \<open>RFMab\<close> does, which does what an \<open>RFMsb\<close> does.
\<close>

definition exec_rfmsb :: "Config \<Rightarrow> BankState \<times> Env \<Rightarrow> (BankState \<times> Env) res" where
  "exec_rfmsb cfg = (\<lambda>(b, e).
     Inr (b\<lparr>raa_ctr := raa_ctr b - min (raa_ctr b) (rfm_raa_decrement cfg)\<rparr>, e))"

definition exec_rfmab :: "Config \<Rightarrow> BankState \<times> Env \<Rightarrow> (BankState \<times> Env) res" where
  "exec_rfmab cfg = (\<lambda>(b, e). bindE (moat_mitig cfg b) (\<lambda>b. exec_rfmsb cfg (b, e)))"

definition exec_drfm :: "Config \<Rightarrow> BankState \<times> Env \<Rightarrow> (BankState \<times> Env) res" where
  "exec_drfm cfg be =
     bindE (graphene_mitig cfg
       (mode_mitig (para_mode cfg) (mode_mitig (mint_mode cfg) (mode_mitig (dream_mode cfg) be)))) (\<lambda>be.
     bindE (hydra_mitig cfg be) (\<lambda>be.
     case mode_mitig (abacus_mode cfg) be of (b, e) \<Rightarrow>
     exec_rfmab cfg (b\<lparr>drfm_issued := False\<rparr>, e)))"

definition exec_activate :: "Config \<Rightarrow> Command \<Rightarrow> BankState \<times> Env \<Rightarrow> (BankState \<times> Env) res" where
  "exec_activate cfg cmd = (\<lambda>(b, e).
     let row = Row cmd;
         b = b\<lparr>b_state := OPEN, open_row := row, acts_counter := acts_counter b + 1, raa_ctr := raa_ctr b + 1\<rparr>;
         e = stat_inc e (acts_stat_name b)
     in bindE (vupd (prac b) row (\<lambda>v. v + 1)) (\<lambda>pr.
        bindE (moat_act cfg (word_of_int row) (b\<lparr>prac := pr\<rparr>)) (\<lambda>b.
        Inr (drfm_post_act b (word_of_int row), e))))"

definition bank_UpdateState :: "Config \<Rightarrow> Command \<Rightarrow> BankState \<times> Env \<Rightarrow> (BankState \<times> Env) res" where
  "bank_UpdateState cfg cmd = (\<lambda>(b, e).
     let ct = cmd_type cmd;
         b = (if ct \<noteq> SIZE then b\<lparr>last_cmd := cmd\<rparr> else b)
     in case b_state b of
          OPEN \<Rightarrow>
            if ct = READ \<or> ct = WRITE then Inr (b\<lparr>row_hit_count := row_hit_count b + 1\<rparr>, e)
            else if ct \<in> {READ_PRECHARGE, WRITE_PRECHARGE, PRECHARGE, PREab, PREsb}
            then Inr (b\<lparr>b_state := CLOSED, open_row := -1, row_hit_count := 0\<rparr>, e)
            else Inl AbruptExit
        | CLOSED \<Rightarrow>
            if ct \<in> {REFsb, REFRESH_BANK, REFab} then exec_refresh cfg (b, e)
            else if ct \<in> {DRFMb, DRFMsb, DRFMab} then exec_drfm cfg (b, e)
            else if ct = RFMab then exec_rfmab cfg (b, e)
            else if ct = RFMsb then exec_rfmsb cfg (b, e)
            else if ct = ACTIVATE then exec_activate cfg cmd (b, e)
            else if ct = SREF_ENTER then Inr (b\<lparr>b_state := SREF\<rparr>, e)
            else if ct = PREab \<or> ct = PREsb then Inr (b, e)
            else Inl AbruptExit
        | SREF \<Rightarrow> if ct = SREF_EXIT then Inr (b\<lparr>b_state := CLOSED\<rparr>, e) else Inl AbruptExit
        | PD \<Rightarrow> Inl AbruptExit
        | State_SIZE \<Rightarrow> Inl AbruptExit)"

end
