(* ===== verification/Bank_Inv.thy ===== *)
theory Bank_Inv
  imports Bank_State
begin

unbundle bit_operations_syntax

text \<open>
  The command state machine of a bank: a well-formedness invariant that every command keeps, that
  a command the bank itself declares ready is always accepted, and the reachable states of a bank
  as an inductive step relation.
\<close>

section \<open>Well-formed configurations and banks\<close>

definition bank_cfg_ok :: "Config \<Rightarrow> bool" where
  "bank_cfg_ok cfg \<longleftrightarrow> 0 < rows cfg \<and> rows cfg < 2 ^ 31 \<and> 0 \<le> ref_raa_decrement cfg \<and>
     0 \<le> rfm_raa_decrement cfg \<and> (hydra_mode cfg \<noteq> 0 \<longrightarrow> 0 < hydra_gct_size cfg)"

definition row_ok :: "Config \<Rightarrow> int \<Rightarrow> bool" where
  "row_ok cfg r \<longleftrightarrow> 0 \<le> r \<and> r < rows cfg"

definition bank_wf :: "Config \<Rightarrow> BankState \<Rightarrow> bool" where
  "bank_wf cfg b \<longleftrightarrow>
     length (cmd_timing b) = 18 \<and> length (prac b) = nat (rows cfg) \<and>
     b_state b \<in> {OPEN, CLOSED, SREF} \<and>
     (if b_state b = OPEN then row_ok cfg (open_row b) else open_row b = -1 \<and> row_hit_count b = 0) \<and>
     0 \<le> row_hit_count b \<and> 0 \<le> raa_ctr b \<and>
     (moat_mode cfg \<noteq> 0 \<longrightarrow> moat_max_prac_idx b = -1 \<or> row_ok cfg (moat_max_prac_idx b)) \<and>
     (\<forall>x\<in>set (drfm_q b). row_ok cfg (uint (d_rowid x))) \<and>
     (hydra_mode cfg \<noteq> 0 \<longrightarrow> length (hydra_counts b) = nat (rows cfg))"

lemma row_u32:
  assumes "bank_cfg_ok cfg" "row_ok cfg r"
  shows "uint (word_of_int r :: u32) = r" "sint (word_of_int r :: u32) = r"
proof -
  have r: "0 \<le> r" "r < 2 ^ 31" using assms by (auto simp: bank_cfg_ok_def row_ok_def)
  then show u: "uint (word_of_int r :: u32) = r" by (simp add: uint_word_of_int take_bit_int_eq_self)
  then show "sint (word_of_int r :: u32) = r" using r sint_u32_small [of "word_of_int r"] by simp
qed

lemma rows_word: "bank_cfg_ok cfg \<Longrightarrow> uint (word_of_int (rows cfg) :: u32) = rows cfg"
  by (simp add: bank_cfg_ok_def uint_word_of_int take_bit_int_eq_self)

lemma rows_word_nz: "bank_cfg_ok cfg \<Longrightarrow> (word_of_int (rows cfg) :: u32) \<noteq> 0"
proof -
  assume c: "bank_cfg_ok cfg"
  then have "uint (word_of_int (rows cfg) :: u32) \<noteq> 0" by (simp add: rows_word) (simp add: bank_cfg_ok_def)
  then show ?thesis by auto
qed

lemma umod_rows:
  assumes "bank_cfg_ok cfg"
  shows "okE (umod w (word_of_int (rows cfg) :: u32))
    (\<lambda>r. uint r = uint w mod rows cfg \<and> sint r = uint r \<and> row_ok cfg (uint r))"
proof -
  have r: "0 < rows cfg" "rows cfg < 2 ^ 31" using assms by (auto simp: bank_cfg_ok_def)
  have u: "uint (w mod word_of_int (rows cfg)) = uint w mod rows cfg"
    using assms by (simp add: uint_mod rows_word)
  moreover have "sint (w mod word_of_int (rows cfg)) = uint (w mod word_of_int (rows cfg))"
    using r by (intro sint_u32_small) (simp add: u order.strict_trans [of _ "rows cfg"])
  ultimately show ?thesis using rows_word_nz [OF assms] r by (simp add: row_ok_def)
qed

lemma row_inrange: "row_ok cfg r \<Longrightarrow> length xs = nat (rows cfg) \<Longrightarrow> inrange r xs"
  by (simp add: row_ok_def inrange_def)

section \<open>The parts of a command\<close>

lemma refresh_one_run:
  assumes c: "bank_cfg_ok cfg" and len: "length (prac b) = nat (rows cfg)"
  obtains r p e' where
    "refresh_one cfg i (b, e) = Inr (b\<lparr>max_prac_val := max (max_prac_val b) p, prac := (prac b)[nat r := 0]\<rparr>, e')"
    "r = uint (b_ref_idx b + word_of_int i) mod rows cfg" "row_ok cfg r"
proof -
  obtain r where r: "umod (b_ref_idx b + word_of_int i) (word_of_int (rows cfg)) = Inr r"
    "sint r = uint r" "row_ok cfg (uint r)" "uint r = uint (b_ref_idx b + word_of_int i) mod rows cfg"
    using umod_rows [OF c, of "b_ref_idx b + word_of_int i"] by (auto simp: okE_iff)
  have "inrange (uint r) (prac b)" using r len by (auto intro: row_inrange)
  with r show ?thesis by (intro that [of "uint r" "prac b ! nat (uint r)"]) (simp_all add: refresh_one_def Let_def)
qed

lemma refresh_rows_wf:
  assumes c: "bank_cfg_ok cfg" and wf: "bank_wf cfg b"
  shows "okE (refresh_rows cfg (b, e)) (\<lambda>(b', e'). bank_wf cfg b' \<and> b_state b' = b_state b \<and>
    raa_ctr b' = raa_ctr b)"
  unfolding refresh_rows_def
proof (rule forE_const_inv)
  fix i :: int and s :: "BankState \<times> Env"
  assume "case s of (b', e') \<Rightarrow> bank_wf cfg b' \<and> b_state b' = b_state b \<and> raa_ctr b' = raa_ctr b"
  then obtain b' e' where s: "s = (b', e')" "bank_wf cfg b'" "b_state b' = b_state b" "raa_ctr b' = raa_ctr b"
    by auto
  then have "length (prac b') = nat (rows cfg)" by (simp add: bank_wf_def)
  then show "okE (refresh_one cfg i s)
      (\<lambda>(b', e'). bank_wf cfg b' \<and> b_state b' = b_state b \<and> raa_ctr b' = raa_ctr b)"
    by (rule refresh_one_run [OF c, of b' i e']) (use s in \<open>auto simp: bank_wf_def\<close>)
qed (use wf in simp)

lemma at_ref_start_ok:
  assumes "bank_cfg_ok cfg"
  obtains start where "at_ref_start cfg b = Inr start"
  using umod_rows [OF assms, of "b_ref_idx b"] by (auto simp: at_ref_start_def okE_iff)

lemma vec_of_ok: "0 \<le> n \<Longrightarrow> vec_of n x = Inr (replicate (nat n) x)"
  by (simp add: vec_of_def)

text \<open>What the refresh and mitigation steps keep of the state machine.\<close>

definition same_fsm :: "BankState \<Rightarrow> BankState \<Rightarrow> bool" where
  "same_fsm b b' \<longleftrightarrow> b_state b' = b_state b \<and> raa_ctr b' = raa_ctr b"

lemma graphene_refresh_wf:
  assumes "bank_cfg_ok cfg" "bank_wf cfg b"
  shows "okE (graphene_refresh cfg (b, e)) (\<lambda>(b', e'). bank_wf cfg b' \<and> same_fsm b b')"
  by (rule at_ref_start_ok [OF assms(1), of b])
    (use assms in \<open>auto simp: graphene_refresh_def bank_wf_def same_fsm_def\<close>)

lemma hydra_refresh_wf:
  assumes "bank_cfg_ok cfg" "bank_wf cfg b"
  shows "okE (hydra_refresh cfg (b, e)) (\<lambda>(b', e'). bank_wf cfg b' \<and> same_fsm b b')"
  by (rule at_ref_start_ok [OF assms(1), of b])
    (use assms in \<open>auto simp: hydra_refresh_def bank_cfg_ok_def bank_wf_def same_fsm_def vec_of_ok\<close>)

lemma moat_refresh_wf: "bank_wf cfg b \<Longrightarrow> bank_wf cfg (moat_refresh cfg b) \<and> same_fsm b (moat_refresh cfg b)"
  by (auto simp: moat_refresh_def bank_wf_def same_fsm_def)

lemma exec_refresh_wf:
  assumes c: "bank_cfg_ok cfg" and wf: "bank_wf cfg b"
  shows "okE (exec_refresh cfg (b, e)) (\<lambda>(b', e'). bank_wf cfg b' \<and> b_state b' = b_state b \<and>
    raa_ctr b' = raa_ctr b - min (raa_ctr b) (ref_raa_decrement cfg))"
proof -
  define b1 where "b1 = b\<lparr>b_fgr_counter := (b_fgr_counter b + 1) mod 2,
    raa_ctr := raa_ctr b - min (raa_ctr b) (ref_raa_decrement cfg)\<rparr>"
  have b1: "bank_wf cfg b1" "b_state b1 = b_state b"
    "raa_ctr b1 = raa_ctr b - min (raa_ctr b) (ref_raa_decrement cfg)"
    using wf by (auto simp: b1_def bank_wf_def)
  have wf1: "bank_wf cfg (b1\<lparr>acts_counter := 0\<rparr>)" using b1(1) by (simp add: bank_wf_def)
  obtain b2 e2 where b2: "graphene_refresh cfg (b1\<lparr>acts_counter := 0\<rparr>, e) = Inr (b2, e2)" "bank_wf cfg b2"
    "same_fsm b1 b2"
    using graphene_refresh_wf [OF c wf1, of e] by (auto simp: okE_iff same_fsm_def)
  obtain b3 e3 where b3: "hydra_refresh cfg (b2, e2) = Inr (b3, e3)" "bank_wf cfg b3" "same_fsm b2 b3"
    using hydra_refresh_wf [OF c b2(2), of e2] by (auto simp: okE_iff)
  obtain b4 e4 where b4: "refresh_rows cfg (moat_refresh cfg b3, e3) = Inr (b4, e4)" "bank_wf cfg b4"
    "same_fsm b3 b4"
    using refresh_rows_wf [OF c moat_refresh_wf [OF b3(2), THEN conjunct1], of e3]
      moat_refresh_wf [OF b3(2)] by (auto simp: okE_iff same_fsm_def)
  obtain r where r: "umod (b_ref_idx b4 + word_of_int (rows_refreshed cfg)) (word_of_int (rows cfg) :: u32) = Inr r"
    using umod_rows [OF c] by (auto simp: okE_iff)
  have post: "bank_wf cfg (b4\<lparr>b_ref_idx := r\<rparr>)" using b4(2) by (simp add: bank_wf_def)
  have "exec_refresh cfg (b, e) = (if fgr cfg \<and> b_fgr_counter b1 = 0 \<or> \<not> fgr cfg
    then Inr (b4\<lparr>b_ref_idx := r\<rparr>, e4) else Inr (b1, e))"
    using b2(1) b3(1) b4(1) r by (simp add: exec_refresh_def Let_def b1_def)
  with b1 b2(3) b3(3) b4(3) post show ?thesis by (simp add: same_fsm_def)
qed

lemma set_upd_first: "set (upd_first p f xs) \<subseteq> set xs \<union> f ` {x\<in>set xs. p x}"
  by (induction xs) auto

lemma drfm_mitig_wf:
  assumes "bank_wf cfg b" "drfm_mitig (b, e) = (r, b', e')"
  shows "bank_wf cfg b' \<and> same_fsm b b' \<and> (r = -1 \<or> row_ok cfg r)"
proof (cases "max_element d_ctr (drfm_q b)")
  case None
  with assms show ?thesis by (auto simp: drfm_mitig_def same_fsm_def)
next
  case (Some i)
  define k where "k = (if d_ctr (drfm_q b ! i) \<le> d_ctr (drfm_q b ! 0) then 0 else i)"
  have "i < length (drfm_q b)" using max_element_Some(1) [OF Some] .
  then have "k < length (drfm_q b)" by (auto simp: k_def)
  then have "drfm_q b ! k \<in> set (drfm_q b)" by simp
  moreover have "r = uint (d_rowid (drfm_q b ! k))" "b' = b\<lparr>drfm_q := erase_at k (drfm_q b)\<rparr>"
    using assms(2) Some by (simp_all add: drfm_mitig_def k_def Let_def)
  ultimately show ?thesis
    using assms(1) set_erase_at [of k "drfm_q b"] by (auto simp: bank_wf_def same_fsm_def)
qed

lemma mode_mitig_wf:
  assumes "bank_wf cfg b" "mode_mitig m (b, e) = (b', e')"
  shows "bank_wf cfg b' \<and> same_fsm b b'"
  using assms drfm_mitig_wf [OF assms(1), of e]
  by (cases "drfm_mitig (b, e)") (auto simp: mode_mitig_def same_fsm_def split: if_splits)

lemma hydra_mitig_wf:
  assumes "bank_wf cfg b"
  shows "okE (hydra_mitig cfg (b, e)) (\<lambda>(b', e'). bank_wf cfg b' \<and> same_fsm b b')"
proof -
  obtain r b1 e1 where d: "drfm_mitig (b, e) = (r, b1, e1)" by (cases "drfm_mitig (b, e)")
  note w = drfm_mitig_wf [OF assms d]
  have "hydra_mode cfg \<noteq> 0 \<Longrightarrow> r \<noteq> -1 \<Longrightarrow> inrange r (hydra_counts b1)"
    using w by (auto simp: bank_wf_def intro: row_inrange)
  with w assms show ?thesis by (auto simp: hydra_mitig_def d bank_wf_def same_fsm_def)
qed

lemma moat_mitig_wf:
  assumes wf: "bank_wf cfg b"
  shows "okE (moat_mitig cfg b) (\<lambda>b'. bank_wf cfg b' \<and> same_fsm b b')"
proof (cases "moat_mode cfg = 0 \<or> moat_max_prac_idx b = -1")
  case True
  with wf show ?thesis by (simp add: moat_mitig_def same_fsm_def)
next
  case False
  let ?m = "moat_max_prac_idx b"
  have m: "row_ok cfg ?m" "length (prac b) = nat (rows cfg)" using wf False by (auto simp: bank_wf_def)
  define inc :: "bool \<Rightarrow> int \<Rightarrow> u32 list \<Rightarrow> u32 list res"
    where "inc = (\<lambda>c i pr. if c then vupd pr i (\<lambda>v. v + 1) else Inr pr)"
  have inc: "okE (inc c i pr) (\<lambda>pr'. length pr' = nat (rows cfg))"
    if "length pr = nat (rows cfg)" "c \<Longrightarrow> row_ok cfg i" for c i pr
    using that by (auto simp: inc_def row_inrange)
  have c: "?m > 0 \<Longrightarrow> row_ok cfg (?m - 1)" "?m > 1 \<Longrightarrow> row_ok cfg (?m - 2)"
    "?m < rows cfg - 1 \<Longrightarrow> row_ok cfg (?m + 1)" "?m < rows cfg - 2 \<Longrightarrow> row_ok cfg (?m + 2)"
    using m(1) by (auto simp: row_ok_def)
  have "okE (bindE (vset (prac b) ?m 0) (\<lambda>pr. bindE (inc (?m > 0) (?m - 1) pr) (\<lambda>pr.
      bindE (inc (?m > 1) (?m - 2) pr) (\<lambda>pr. bindE (inc (?m < rows cfg - 1) (?m + 1) pr) (\<lambda>pr.
      inc (?m < rows cfg - 2) (?m + 2) pr))))) (\<lambda>pr. length pr = nat (rows cfg))"
    using m c by (auto simp: okE_bindE row_inrange intro!: okE_mono [OF inc])
  then obtain pr where pr: "moat_mitig cfg b = Inr (b\<lparr>prac := pr, moat_max_prac_idx := -1\<rparr>)"
    "length pr = nat (rows cfg)"
    using False by (auto simp: okE_iff moat_mitig_def Let_def bindE_Inr_iff simp flip: inc_def)
  with wf show ?thesis by (auto simp: bank_wf_def same_fsm_def)
qed

text \<open>The mitigation cases lower the RAA counter and nothing else of the state machine.\<close>

definition rfm_post :: "Config \<Rightarrow> BankState \<Rightarrow> BankState \<times> Env \<Rightarrow> bool" where
  "rfm_post cfg b = (\<lambda>(b', e'). bank_wf cfg b' \<and> b_state b' = b_state b \<and>
     raa_ctr b' = raa_ctr b - min (raa_ctr b) (rfm_raa_decrement cfg))"

lemma exec_rfmsb_wf: "bank_wf cfg b \<Longrightarrow> okE (exec_rfmsb cfg (b, e)) (rfm_post cfg b)"
  by (auto simp: exec_rfmsb_def rfm_post_def bank_wf_def)

lemma rfm_post_same: "same_fsm b b' \<Longrightarrow> rfm_post cfg b' = rfm_post cfg b"
  by (auto simp: rfm_post_def same_fsm_def fun_eq_iff)

lemma exec_rfmab_wf:
  assumes "bank_wf cfg b"
  shows "okE (exec_rfmab cfg (b, e)) (rfm_post cfg b)"
proof -
  obtain b' where "moat_mitig cfg b = Inr b'" "bank_wf cfg b'" "same_fsm b b'"
    using moat_mitig_wf [OF assms] by (auto simp: okE_iff)
  with exec_rfmsb_wf [of cfg b' e] rfm_post_same [of b b' cfg] show ?thesis
    by (simp add: exec_rfmab_def)
qed

lemma same_fsm_trans: "same_fsm a b \<Longrightarrow> same_fsm b c \<Longrightarrow> same_fsm a c"
  by (simp add: same_fsm_def)

lemma exec_drfm_wf:
  assumes wf: "bank_wf cfg b" and g: "graphene_mode cfg = 0"
  shows "okE (exec_drfm cfg (b, e)) (rfm_post cfg b)"
proof -
  obtain b1 e1 where b1: "mode_mitig (dream_mode cfg) (b, e) = (b1, e1)" by force
  obtain b2 e2 where b2: "mode_mitig (mint_mode cfg) (b1, e1) = (b2, e2)" by force
  obtain b3 e3 where b3: "mode_mitig (para_mode cfg) (b2, e2) = (b3, e3)" by force
  note w1 = mode_mitig_wf [OF wf b1]
  note w2 = mode_mitig_wf [OF w1 [THEN conjunct1] b2]
  note w3 = mode_mitig_wf [OF w2 [THEN conjunct1] b3]
  obtain b4 e4 where b4: "hydra_mitig cfg (b3, e3) = Inr (b4, e4)" "bank_wf cfg b4" "same_fsm b3 b4"
    using hydra_mitig_wf [OF w3 [THEN conjunct1], of e3] by (auto simp: okE_iff)
  obtain b5 e5 where b5: "mode_mitig (abacus_mode cfg) (b4, e4) = (b5, e5)" by force
  note w5 = mode_mitig_wf [OF b4(2) b5]
  let ?b = "b5\<lparr>drfm_issued := False\<rparr>"
  have "same_fsm b b5" using w1 w2 w3 b4(3) w5 by (meson same_fsm_trans)
  then have "bank_wf cfg ?b" "same_fsm b ?b" using w5 by (auto simp: bank_wf_def same_fsm_def)
  with exec_rfmab_wf [of cfg ?b e5] rfm_post_same [of b ?b cfg] show ?thesis
    using b4(1) by (simp add: exec_drfm_def graphene_mitig_def g b1 b2 b3 b5)
qed

lemma moat_act_wf:
  assumes c: "bank_cfg_ok cfg" and wf: "bank_wf cfg b" and r: "row_ok cfg r"
  shows "okE (moat_act cfg (word_of_int r) b) (\<lambda>b'. bank_wf cfg b' \<and> b_state b' = b_state b \<and>
    raa_ctr b' = raa_ctr b \<and> open_row b' = open_row b)"
proof -
  note u = row_u32 [OF c r]
  have "inrange r (prac b)" "moat_mode cfg \<noteq> 0 \<Longrightarrow> moat_max_prac_idx b \<noteq> -1 \<Longrightarrow> inrange (moat_max_prac_idx b) (prac b)"
    using wf r by (auto simp: bank_wf_def intro: row_inrange)
  with u wf r show ?thesis by (auto simp: moat_act_def bank_wf_def)
qed

lemma drfm_post_act_wf:
  assumes "bank_wf cfg b"
  shows "bank_wf cfg (drfm_post_act b r)"
proof -
  have "\<forall>x\<in>set (drfm_q (drfm_post_act b r)). row_ok cfg (uint (d_rowid x))"
    using assms set_upd_first [of "\<lambda>x. d_rowid x = r" "\<lambda>x. x\<lparr>d_ctr := d_ctr x + 1\<rparr>" "drfm_q b"]
    by (fastforce simp: drfm_post_act_def bank_wf_def)
  with assms show ?thesis by (auto simp: drfm_post_act_def bank_wf_def)
qed

lemma exec_activate_wf:
  assumes c: "bank_cfg_ok cfg" and wf: "bank_wf cfg b" and r: "row_ok cfg (Row cmd)" and cl: "b_state b = CLOSED"
  shows "okE (exec_activate cfg cmd (b, e)) (\<lambda>(b', e'). bank_wf cfg b' \<and> b_state b' = OPEN \<and>
    open_row b' = Row cmd \<and> raa_ctr b' = raa_ctr b + 1)"
proof -
  have ir: "inrange (Row cmd) (prac b)" using wf r by (auto simp: bank_wf_def intro: row_inrange)
  let ?b = "b\<lparr>b_state := OPEN, open_row := Row cmd, acts_counter := acts_counter b + 1, raa_ctr := raa_ctr b + 1,
    prac := (prac b)[nat (Row cmd) := prac b ! nat (Row cmd) + 1]\<rparr>"
  have "bank_wf cfg ?b" using wf r cl by (auto simp: bank_wf_def)
  from moat_act_wf [OF c this r] obtain b' where "moat_act cfg (word_of_int (Row cmd)) ?b = Inr b'"
    "bank_wf cfg b'" "b_state b' = OPEN" "raa_ctr b' = raa_ctr b + 1" "open_row b' = Row cmd"
    by (auto simp: okE_iff)
  with drfm_post_act_wf [of cfg b' "word_of_int (Row cmd)"] ir show ?thesis
    by (simp add: exec_activate_def Let_def) (simp add: drfm_post_act_def)
qed

section \<open>A command the bank declares ready is accepted\<close>

definition bank_accepts :: "State \<Rightarrow> CommandType \<Rightarrow> bool" where
  "bank_accepts st ct =
     (case st of
        OPEN \<Rightarrow> ct \<in> {READ, WRITE, READ_PRECHARGE, WRITE_PRECHARGE, PRECHARGE, PREab, PREsb}
      | CLOSED \<Rightarrow> ct \<in> {REFsb, REFRESH_BANK, REFab, DRFMb, DRFMsb, DRFMab, RFMab, RFMsb, ACTIVATE, SREF_ENTER, PREab, PREsb}
      | SREF \<Rightarrow> ct = SREF_EXIT
      | _ \<Rightarrow> False)"

text \<open>The effect of each accepted command on the state machine.\<close>

definition next_state :: "State \<Rightarrow> CommandType \<Rightarrow> State" where
  "next_state st ct =
     (if st = OPEN then (if ct = READ \<or> ct = WRITE then OPEN else CLOSED)
      else if st = CLOSED then (if ct = ACTIVATE then OPEN else if ct = SREF_ENTER then SREF else CLOSED)
      else CLOSED)"

definition next_raa :: "Config \<Rightarrow> State \<Rightarrow> CommandType \<Rightarrow> int \<Rightarrow> int" where
  "next_raa cfg st ct raa =
     (if st \<noteq> CLOSED then raa
      else if ct = ACTIVATE then raa + 1
      else if ct \<in> {REFsb, REFRESH_BANK, REFab} then raa - min raa (ref_raa_decrement cfg)
      else if ct \<in> {DRFMb, DRFMsb, DRFMab, RFMab, RFMsb} then raa - min raa (rfm_raa_decrement cfg)
      else raa)"

lemma bank_UpdateState_wf:
  assumes c: "bank_cfg_ok cfg" and g: "graphene_mode cfg = 0" and wf: "bank_wf cfg b"
    and acc: "bank_accepts (b_state b) (cmd_type cmd)" and row: "cmd_type cmd = ACTIVATE \<Longrightarrow> row_ok cfg (Row cmd)"
  shows "okE (bank_UpdateState cfg cmd (b, e)) (\<lambda>(b', e'). bank_wf cfg b' \<and>
    b_state b' = next_state (b_state b) (cmd_type cmd) \<and>
    raa_ctr b' = next_raa cfg (b_state b) (cmd_type cmd) (raa_ctr b))"
proof -
  define B where "B = (if cmd_type cmd \<noteq> SIZE then b\<lparr>last_cmd := cmd\<rparr> else b)"
  have Bb: "bank_wf cfg B" "b_state B = b_state b" "raa_ctr B = raa_ctr b"
    using wf by (auto simp: B_def bank_wf_def)
  note run = bank_UpdateState_def Let_def prod.case B_def [symmetric]
  consider "b_state b = OPEN" | "b_state b = CLOSED" | "b_state b = SREF" using wf by (auto simp: bank_wf_def)
  then show ?thesis
  proof cases
    case 1
    with Bb(1,2) have "bank_wf cfg (B\<lparr>row_hit_count := row_hit_count B + 1\<rparr>)"
      "bank_wf cfg (B\<lparr>b_state := CLOSED, open_row := -1, row_hit_count := 0\<rparr>)"
      by (simp_all add: bank_wf_def)
    with acc Bb show ?thesis
      unfolding run by (cases "cmd_type cmd") (simp_all add: 1 bank_accepts_def next_state_def next_raa_def)
  next
    case 2
    note B = Bb [unfolded 2]
    define post where "post = (\<lambda>(b', e' :: Env). bank_wf cfg b' \<and> b_state b' = next_state CLOSED (cmd_type cmd) \<and>
      raa_ctr b' = next_raa cfg CLOSED (cmd_type cmd) (raa_ctr b))"
    have ref: "cmd_type cmd \<in> {REFsb, REFRESH_BANK, REFab} \<Longrightarrow> okE (exec_refresh cfg (B, e)) post"
      by (rule okE_mono [OF exec_refresh_wf [OF c B(1)]]) (use B in \<open>auto simp: post_def next_state_def next_raa_def\<close>)
    have rfm: "cmd_type cmd \<in> {DRFMb, DRFMsb, DRFMab, RFMab, RFMsb} \<Longrightarrow> okE m (rfm_post cfg B) \<Longrightarrow> okE m post" for m
      by (erule okE_mono) (use B in \<open>auto simp: post_def rfm_post_def next_state_def next_raa_def\<close>)
    have act: "cmd_type cmd = ACTIVATE \<Longrightarrow> okE (exec_activate cfg cmd (B, e)) post"
      by (rule okE_mono [OF exec_activate_wf [OF c B(1) row B(2)]])
        (use B in \<open>auto simp: post_def next_state_def next_raa_def\<close>)
    have other: "cmd_type cmd = SREF_ENTER \<Longrightarrow> post (B\<lparr>b_state := SREF\<rparr>, e)"
      "cmd_type cmd \<in> {PREab, PREsb} \<Longrightarrow> post (B, e)"
      using B by (auto simp: post_def next_state_def next_raa_def bank_wf_def)
    note rfms = rfm [OF _ exec_drfm_wf [OF B(1) g]] rfm [OF _ exec_rfmab_wf [OF B(1)]] rfm [OF _ exec_rfmsb_wf [OF B(1)]]
    have "okE (bank_UpdateState cfg cmd (b, e)) post"
      unfolding run
      using acc ref act other rfms by (cases "cmd_type cmd") (simp_all add: B(2) 2 bank_accepts_def)
    then show ?thesis by (simp add: post_def 2)
  next
    case 3
    with Bb(1,2) have "bank_wf cfg (B\<lparr>b_state := CLOSED\<rparr>)" by (simp add: bank_wf_def)
    with acc Bb show ?thesis
      unfolding run by (cases "cmd_type cmd") (simp_all add: 3 bank_accepts_def next_state_def next_raa_def)
  qed
qed

lemma required_closed_accepted:
  "required_closed cfg b ct = Inr rt \<Longrightarrow> rt \<noteq> SIZE \<Longrightarrow>
    bank_accepts CLOSED rt \<and> (rt = ACTIVATE \<longrightarrow> rfm_mode cfg \<in> {1, 2} \<longrightarrow> raa_ctr b < rfm_th cfg)"
  by (auto simp: required_closed_def bank_accepts_def split: if_splits)

lemma required_open_accepted: "required_open b req = Inr rt \<Longrightarrow> bank_accepts OPEN rt \<and> rt \<noteq> ACTIVATE"
  by (auto simp: required_open_def bank_accepts_def split: if_splits)

lemma required_accepted:
  assumes "required_type cfg b req = Inr rt" "rt \<noteq> SIZE"
  shows "bank_accepts (b_state b) rt"
    "rt = ACTIVATE \<Longrightarrow> b_state b = CLOSED \<and> (rfm_mode cfg \<in> {1, 2} \<longrightarrow> raa_ctr b < rfm_th cfg)"
proof -
  have "bank_accepts (b_state b) rt \<and>
    (rt = ACTIVATE \<longrightarrow> b_state b = CLOSED \<and> (rfm_mode cfg \<in> {1, 2} \<longrightarrow> raa_ctr b < rfm_th cfg))"
  proof (cases "b_state b")
    case SREF
    then show ?thesis using assms by (simp add: required_type_def required_sref_def bank_accepts_def split: if_splits)
  qed (use assms required_open_accepted [of b req rt] required_closed_accepted [of cfg b "cmd_type req" rt]
      in \<open>simp_all add: required_type_def\<close>)
  then show "bank_accepts (b_state b) rt"
    "rt = ACTIVATE \<Longrightarrow> b_state b = CLOSED \<and> (rfm_mode cfg \<in> {1, 2} \<longrightarrow> raa_ctr b < rfm_th cfg)" by blast+
qed

lemma GetReady_valid:
  assumes "bank_GetReadyCommand cfg b req clk = Inr cmd" "IsValid cmd"
  obtains rt where "required_type cfg b req = Inr rt" "rt \<noteq> SIZE"
    "cmd = mk_Command rt (cmd_addr req) (hex_addr req)"
    "vget (cmd_timing b) (int (cmd_index rt)) = Inr (cmd_timing b ! cmd_index rt)"
    "cmd_timing b ! cmd_index rt \<le> clk"
  using assms
  by (auto simp: bank_GetReadyCommand_def bindE_Inr_iff vget_Inr_iff IsValid_def split: if_splits)

lemma ready_accepted:
  assumes "bank_cfg_ok cfg" "graphene_mode cfg = 0" "bank_wf cfg b" "row_ok cfg (Row req)"
    and "bank_GetReadyCommand cfg b req clk = Inr cmd" "IsValid cmd"
  shows "okE (bank_UpdateState cfg cmd (b, e)) (\<lambda>(b', e'). bank_wf cfg b' \<and>
    b_state b' = next_state (b_state b) (cmd_type cmd) \<and>
    raa_ctr b' = next_raa cfg (b_state b) (cmd_type cmd) (raa_ctr b))"
proof -
  obtain rt where rt: "required_type cfg b req = Inr rt" "rt \<noteq> SIZE"
    "cmd = mk_Command rt (cmd_addr req) (hex_addr req)"
    using GetReady_valid [OF assms(5,6)] by metis
  show ?thesis
    by (rule bank_UpdateState_wf [OF assms(1-3)]) (use required_accepted [OF rt(1,2)] rt(3) assms(4) in \<open>simp_all add: Row_def\<close>)
qed

lemma timing_entry: "bank_wf cfg b \<Longrightarrow> ct \<noteq> SIZE \<Longrightarrow> inrange (int (cmd_index ct)) (cmd_timing b)"
  using cmd_index_less [of ct] by (simp add: bank_wf_def inrange_def)

lemma bank_UpdateTiming_wf:
  assumes "bank_wf cfg b" "ct \<noteq> SIZE"
  shows "okE (bank_UpdateTiming b ct t) (\<lambda>b'. bank_wf cfg b' \<and> same_fsm b b' \<and>
    (\<forall>c. c \<noteq> SIZE \<longrightarrow> cmd_timing b' ! cmd_index c =
       (if c = ct then max (cmd_timing b ! cmd_index c) t else cmd_timing b ! cmd_index c)))"
  using timing_entry [OF assms] assms cmd_index_less [of ct]
  by (auto simp: bank_UpdateTiming_def bank_wf_def same_fsm_def nth_list_update cmd_index_inj)

section \<open>The requests a bank answers\<close>

definition request_type :: "CommandType \<Rightarrow> bool" where
  "request_type ct \<longleftrightarrow> ct \<in> {READ, READ_PRECHARGE, WRITE, WRITE_PRECHARGE, REFRESH_BANK, REFsb, REFab,
     SREF_ENTER, RFMsb, RFMab, DRFMb, DRFMsb, DRFMab}"

lemma GetReady_total:
  assumes "bank_wf cfg b" "request_type (cmd_type req)"
    and "b_state b = SREF \<Longrightarrow> IsReadWrite req"
  shows "okE (bank_GetReadyCommand cfg b req clk) (\<lambda>cmd. True)"
proof -
  have "\<exists>rt. required_type cfg b req = Inr rt"
    using assms
    by (cases "cmd_type req"; cases "b_state b";
        simp add: required_type_def required_closed_def required_open_def required_sref_def request_type_def
          bank_wf_def cmd_kinds)
  then obtain rt where rt: "required_type cfg b req = Inr rt" ..
  show ?thesis
  proof (cases "rt = SIZE")
    case False
    then show ?thesis using rt timing_entry [OF assms(1) False] by (simp add: bank_GetReadyCommand_def)
  qed (simp add: bank_GetReadyCommand_def rt)
qed

section \<open>The reachable states of a bank\<close>

text \<open>
  What happens to a bank during a run: it executes a command it has declared ready for some
  request, it executes a command broadcast to its rank or bank set (never an \<open>ACTIVATE\<close>), or a
  timing constraint is raised.
\<close>

inductive bank_step :: "Config \<Rightarrow> BankState \<times> Env \<Rightarrow> BankState \<times> Env \<Rightarrow> bool" for cfg where
  issue: "bank_GetReadyCommand cfg b req clk = Inr cmd \<Longrightarrow> IsValid cmd \<Longrightarrow> row_ok cfg (Row req) \<Longrightarrow>
    bank_UpdateState cfg cmd (b, e) = Inr (b', e') \<Longrightarrow> bank_step cfg (b, e) (b', e')"
| broadcast: "cmd_type cmd \<noteq> ACTIVATE \<Longrightarrow> bank_accepts (b_state b) (cmd_type cmd) \<Longrightarrow>
    bank_UpdateState cfg cmd (b, e) = Inr (b', e') \<Longrightarrow> bank_step cfg (b, e) (b', e')"
| constrain: "ct \<noteq> SIZE \<Longrightarrow> bank_UpdateTiming b ct t = Inr b' \<Longrightarrow> bank_step cfg (b, e) (b', e)"

definition raa_bounded :: "Config \<Rightarrow> BankState \<Rightarrow> bool" where
  "raa_bounded cfg b \<longleftrightarrow> bank_wf cfg b \<and> raa_ctr b \<le> max 0 (rfm_th cfg)"

lemma next_raa_le:
  "bank_cfg_ok cfg \<Longrightarrow> 0 \<le> raa \<Longrightarrow> next_raa cfg st ct raa \<le> (if ct = ACTIVATE \<and> st = CLOSED then raa + 1 else raa)"
  by (auto simp: next_raa_def bank_cfg_ok_def)

lemma bank_step_raa:
  assumes "bank_step cfg s s'" and c: "bank_cfg_ok cfg" and g: "graphene_mode cfg = 0" and m: "rfm_mode cfg \<in> {1, 2}"
    and "raa_bounded cfg (fst s)"
  shows "raa_bounded cfg (fst s')"
  using assms
proof (induction rule: bank_step.induct)
  case (issue b req clk cmd e b' e')
  have wf: "bank_wf cfg b" "raa_ctr b \<le> max 0 (rfm_th cfg)" using issue by (auto simp: raa_bounded_def)
  obtain rt where rt: "required_type cfg b req = Inr rt" "rt \<noteq> SIZE" "cmd_type cmd = rt"
    using GetReady_valid [OF issue(1,2)] by (metis mk_Command_sel(1))
  have "bank_wf cfg b' \<and> raa_ctr b' = next_raa cfg (b_state b) rt (raa_ctr b)"
    using ready_accepted [OF c g wf(1) issue(3,1,2), of e] issue(4) rt(3) by simp
  moreover have "0 \<le> raa_ctr b" using wf by (simp add: bank_wf_def)
  ultimately show ?case
    using next_raa_le [OF c, of "raa_ctr b" "b_state b" rt] required_accepted(2) [OF rt(1,2)] m wf
    by (auto simp: raa_bounded_def split: if_splits)
next
  case (broadcast cmd b e b' e')
  have wf: "bank_wf cfg b" "raa_ctr b \<le> max 0 (rfm_th cfg)" using broadcast by (auto simp: raa_bounded_def)
  have "bank_wf cfg b' \<and> raa_ctr b' = next_raa cfg (b_state b) (cmd_type cmd) (raa_ctr b)"
    using bank_UpdateState_wf [OF c g wf(1) broadcast(2), of e] broadcast(1,3) by simp
  moreover have "0 \<le> raa_ctr b" using wf by (simp add: bank_wf_def)
  ultimately show ?case
    using next_raa_le [OF c, of "raa_ctr b" "b_state b" "cmd_type cmd"] broadcast(1) wf by (auto simp: raa_bounded_def)
next
  case (constrain ct b t b' e)
  then have "bank_wf cfg b" "ct \<noteq> SIZE" by (auto simp: raa_bounded_def)
  from bank_UpdateTiming_wf [OF this, of t] constrain show ?case by (simp add: raa_bounded_def same_fsm_def)
qed

lemma bank_run_raa:
  assumes "(bank_step cfg)\<^sup>*\<^sup>* s s'" and "bank_cfg_ok cfg" "graphene_mode cfg = 0" "rfm_mode cfg \<in> {1, 2}"
    and "raa_bounded cfg (fst s)"
  shows "raa_bounded cfg (fst s')"
  using assms by (induction rule: rtranclp_induct) (auto intro: bank_step_raa)

section \<open>Properties\<close>

text \<open>A freshly built bank of the small device, and an environment for it.\<close>

definition tiny_env :: Env where
  "tiny_env = \<lparr>env_stats = Stats_empty, env_rcc = one_line 0, env_rand = (\<lambda>n. int n), env_rand_pos = 0\<rparr>"

definition tiny_bank :: BankState where
  "tiny_bank = \<lparr>b_state = CLOSED, cmd_timing = replicate 18 0, last_cmd = Command_default, open_row = -1,
     row_hit_count = 0, b_rank = 0, b_bank_group = 0, b_bank = 0, raa_ctr = 0, acts_counter = 0,
     b_ref_idx = 0, b_fgr_counter = 0, prac = replicate 16 0, max_prac_val = 0,
     drfm_q = [], drfm_issued = False, moat_max_prac_idx = -1, mint_rows = [], graphene_q = [],
     graphene_spill_counter = 0, graphene_entries = 0, graphene_spills_stat = [], graphene_resets_stat = [],
     hydra_resets_stat = [], hydra_gct_overflows_stat = [], hydra_aggressor_stat = [],
     hydra_gct = [], hydra_gct_valid = [], hydra_counts = [], num_rows_per_gct = 0\<rparr>"

lemma tiny_bank_sel [simp]: "b_state tiny_bank = CLOSED" "raa_ctr tiny_bank = 0" "open_row tiny_bank = -1"
  by (simp_all add: tiny_bank_def)

definition read_req :: "int \<Rightarrow> Command" where
  "read_req row = mk_Command READ (mk_Address 0 0 0 0 row 0) 0"

lemma tiny_ok:
  "bank_cfg_ok tiny_cfg" "bank_wf tiny_cfg tiny_bank"
  "bank_cfg_ok (tiny_cfg\<lparr>rfm_mode := 2\<rparr>)" "bank_wf (tiny_cfg\<lparr>rfm_mode := 2\<rparr>) tiny_bank"
  by (simp_all add: bank_cfg_ok_def bank_wf_def tiny_bank_def row_ok_def)

lemma tiny_ready:
  "bank_GetReadyCommand tiny_cfg tiny_bank (read_req 3) 5 = Inr (mk_Command ACTIVATE (mk_Address 0 0 0 0 3 0) 0)"
  "bank_GetReadyCommand (tiny_cfg\<lparr>rfm_mode := 2\<rparr>) tiny_bank (read_req 3) 5
     = Inr (mk_Command ACTIVATE (mk_Address 0 0 0 0 3 0) 0)"
  "row_ok cfg (Row (read_req 3)) \<longleftrightarrow> 3 < rows cfg"
  by (simp_all add: bank_GetReadyCommand_def required_type_def required_closed_def tiny_bank_def read_req_def
      vget_def rfm_th_def row_ok_def Row_def)



text \<open>
  The bank answers every request: in any well-formed state, for any request type the
  controller uses (only column requests during self refresh), \<open>GetReadyCommand\<close> returns, and what
  it returns is either the invalid command or a command whose earliest time has been reached.
\<close>

theorem bank_ready_respects_timing:
  assumes "bank_wf cfg b" "request_type (cmd_type req)" "b_state b = SREF \<Longrightarrow> IsReadWrite req"
  shows "okE (bank_GetReadyCommand cfg b req clk) (\<lambda>cmd. IsValid cmd \<longrightarrow>
    cmd_timing b ! cmd_index (cmd_type cmd) \<le> clk \<and> bank_accepts (b_state b) (cmd_type cmd) \<and>
    cmd_addr cmd = cmd_addr req)"
proof -
  obtain cmd where cmd: "bank_GetReadyCommand cfg b req clk = Inr cmd"
    using GetReady_total [OF assms] by (auto simp: okE_iff)
  have "cmd_timing b ! cmd_index (cmd_type cmd) \<le> clk \<and> bank_accepts (b_state b) (cmd_type cmd) \<and>
    cmd_addr cmd = cmd_addr req" if "IsValid cmd"
    by (rule GetReady_valid [OF cmd that]) (use required_accepted(1) in auto)
  with cmd show ?thesis by simp
qed

theorem bank_ready_respects_timing_witness:
  "okE (bank_GetReadyCommand tiny_cfg tiny_bank (read_req 3) 5) (\<lambda>cmd. IsValid cmd \<longrightarrow>
     cmd_timing tiny_bank ! cmd_index (cmd_type cmd) \<le> 5 \<and> bank_accepts (b_state tiny_bank) (cmd_type cmd) \<and>
     cmd_addr cmd = cmd_addr (read_req 3))"
  by (rule bank_ready_respects_timing [OF tiny_ok(2)]) (simp_all add: read_req_def request_type_def cmd_kinds)



end
