(* ===== verification/Bank_Track.thy ===== *)
theory Bank_Track
  imports Bank_Inv "HOL-Library.Multiset"
begin

unbundle bit_operations_syntax

text \<open>
  The Rowhammer side of a bank: which rows a refresh and a CACTUS mitigation restore, which entry a
  DRFM mitigates, and that the Graphene and Hydra trackers never undercount. The two trackers are
  instances of the interface \<open>activation_tracker\<close>.
\<close>

section \<open>Refresh\<close>

text \<open>The rows the refresh command at index \<open>i\<close> restores.\<close>

definition ref_window :: "Config \<Rightarrow> int \<Rightarrow> int set" where
  "ref_window cfg i = (\<lambda>k. (i + k) mod rows cfg) ` {0..<rows_refreshed cfg}"

definition ref_cfg_ok :: "Config \<Rightarrow> bool" where
  "ref_cfg_ok cfg \<longleftrightarrow> bank_cfg_ok cfg \<and> 0 \<le> rows_refreshed cfg \<and> rows_refreshed cfg \<le> rows cfg"

lemma ref_idx_add:
  assumes "ref_cfg_ok cfg" "row_ok cfg (uint w)" "0 \<le> k" "k \<le> rows_refreshed cfg"
  shows "uint ((w :: u32) + word_of_int k) = uint w + k"
proof -
  have "uint w + k < 2 ^ 32" "k < 2 ^ 32" using assms by (auto simp: ref_cfg_ok_def bank_cfg_ok_def row_ok_def)
  then show ?thesis using assms(3) by (simp add: uint_word_ariths uint_word_of_int take_bit_int_eq_self)
qed

lemma refresh_rows_prac:
  assumes c: "ref_cfg_ok cfg" and len: "length (prac b) = nat (rows cfg)" and ri: "row_ok cfg (uint (b_ref_idx b))"
  shows "okE (refresh_rows cfg (b, e)) (\<lambda>(b', e'). b_ref_idx b' = b_ref_idx b \<and> length (prac b') = nat (rows cfg) \<and>
    (\<forall>r. row_ok cfg r \<longrightarrow> prac b' ! nat r = (if r \<in> ref_window cfg (uint (b_ref_idx b)) then 0 else prac b ! nat r)))"
proof -
  let ?i = "uint (b_ref_idx b)"
  have cb: "bank_cfg_ok cfg" and rr: "0 \<le> rows_refreshed cfg" using c by (auto simp: ref_cfg_ok_def)
  let ?I = "\<lambda>k (b' :: BankState, e' :: Env). b_ref_idx b' = b_ref_idx b \<and> length (prac b') = nat (rows cfg) \<and>
    (\<forall>r. row_ok cfg r \<longrightarrow> prac b' ! nat r = (if r \<in> (\<lambda>k. (?i + k) mod rows cfg) ` {0..<k} then 0 else prac b ! nat r))"
  show ?thesis
    unfolding refresh_rows_def
  proof (rule forE_inv [where I = ?I])
    show "?I 0 (b, e)" using len by simp
  next
    fix k :: int and s :: "BankState \<times> Env"
    assume k: "0 \<le> k" "k < rows_refreshed cfg" and I: "?I k s"
    obtain b' e' where s: "s = (b', e')" by force
    note I' = I [unfolded s, simplified]
    obtain r p e2 where r: "refresh_one cfg k (b', e') =
        Inr (b'\<lparr>max_prac_val := max (max_prac_val b') p, prac := (prac b')[nat r := 0]\<rparr>, e2)"
      "r = uint (b_ref_idx b' + word_of_int k) mod rows cfg" "row_ok cfg r"
      using refresh_one_run [OF cb, of b' k e'] I' by blast
    have r': "r = (?i + k) mod rows cfg" using r(2) I' ref_idx_add [OF c ri, of k] k by simp
    have ins: "{0..<k + 1} = insert k {0..<k}" using k by auto
    have "(prac b')[nat r := 0] ! nat q = (if q = r then 0 else prac b' ! nat q)" if "row_ok cfg q" for q
      using r(3) that I' by (auto simp: row_ok_def nth_list_update)
    then show "okE (refresh_one cfg k s) (?I (k + 1))"
      using I' r(1) unfolding s ins image_insert r' [symmetric] by auto
  qed (use rr in \<open>auto simp: ref_window_def max_def split: if_splits\<close>)
qed

text \<open>A bank with no tracker enabled, in which a refresh command does nothing else.\<close>

definition plain_refresh :: "Config \<Rightarrow> bool" where
  "plain_refresh cfg \<longleftrightarrow> \<not> fgr cfg \<and> graphene_mode cfg = 0 \<and> hydra_mode cfg = 0 \<and> moat_mode cfg = 0"

lemma exec_refresh_prac:
  assumes c: "ref_cfg_ok cfg" and p: "plain_refresh cfg" and len: "length (prac b) = nat (rows cfg)"
    and ri: "row_ok cfg (uint (b_ref_idx b))"
  shows "okE (exec_refresh cfg (b, e)) (\<lambda>(b', e'). length (prac b') = nat (rows cfg) \<and>
    uint (b_ref_idx b') = (uint (b_ref_idx b) + rows_refreshed cfg) mod rows cfg \<and>
    (\<forall>r. row_ok cfg r \<longrightarrow> prac b' ! nat r = (if r \<in> ref_window cfg (uint (b_ref_idx b)) then 0 else prac b ! nat r)))"
proof -
  have cb: "bank_cfg_ok cfg" and rr: "0 \<le> rows_refreshed cfg" using c by (auto simp: ref_cfg_ok_def)
  define b1 where "b1 = b\<lparr>b_fgr_counter := (b_fgr_counter b + 1) mod 2,
    raa_ctr := raa_ctr b - min (raa_ctr b) (ref_raa_decrement cfg), acts_counter := 0\<rparr>"
  have b1: "prac b1 = prac b" "b_ref_idx b1 = b_ref_idx b" by (simp_all add: b1_def)
  obtain b2 e2 where b2: "refresh_rows cfg (b1, e) = Inr (b2, e2)" "b_ref_idx b2 = b_ref_idx b"
    "length (prac b2) = nat (rows cfg)"
    "\<forall>r. row_ok cfg r \<longrightarrow> prac b2 ! nat r = (if r \<in> ref_window cfg (uint (b_ref_idx b)) then 0 else prac b ! nat r)"
    using refresh_rows_prac [OF c, of b1 e] len ri b1 by (auto simp: okE_iff)
  obtain w where w: "umod (b_ref_idx b + word_of_int (rows_refreshed cfg)) (word_of_int (rows cfg) :: u32) = Inr w"
    "uint w = uint (b_ref_idx b + word_of_int (rows_refreshed cfg)) mod rows cfg"
    using umod_rows [OF cb] by (auto simp: okE_iff)
  have "exec_refresh cfg (b, e) = Inr (b2\<lparr>b_ref_idx := w\<rparr>, e2)"
    using p b2(1,2) w(1)
    by (simp add: exec_refresh_def plain_refresh_def Let_def graphene_refresh_def hydra_refresh_def moat_refresh_def b1_def)
  moreover have "uint w = (uint (b_ref_idx b) + rows_refreshed cfg) mod rows cfg"
    using w(2) ref_idx_add [OF c ri, of "rows_refreshed cfg"] rr by simp
  ultimately show ?thesis using b2 by simp
qed

text \<open>\<open>n\<close> refresh commands in a row.\<close>

primrec refresh_times :: "Config \<Rightarrow> nat \<Rightarrow> BankState \<times> Env \<Rightarrow> (BankState \<times> Env) res" where
  "refresh_times cfg 0 be = Inr be"
| "refresh_times cfg (Suc n) be = bindE (refresh_times cfg n be) (exec_refresh cfg)"

lemma refresh_times_prac:
  assumes c: "ref_cfg_ok cfg" and p: "plain_refresh cfg" and len: "length (prac b) = nat (rows cfg)"
    and ri: "row_ok cfg (uint (b_ref_idx b))"
  shows "okE (refresh_times cfg n (b, e)) (\<lambda>(b', e'). length (prac b') = nat (rows cfg) \<and>
    uint (b_ref_idx b') = (uint (b_ref_idx b) + int n * rows_refreshed cfg) mod rows cfg \<and>
    (\<forall>k r. 0 \<le> k \<longrightarrow> k < int n * rows_refreshed cfg \<longrightarrow> r = (uint (b_ref_idx b) + k) mod rows cfg \<longrightarrow> prac b' ! nat r = 0))"
proof (induction n)
  case 0
  then show ?case using len ri by (simp add: row_ok_def)
next
  case (Suc n)
  let ?i = "uint (b_ref_idx b)" and ?rr = "rows_refreshed cfg"
  have pos: "0 < rows cfg" using c by (simp add: ref_cfg_ok_def bank_cfg_ok_def)
  from Suc obtain b1 e1 where b1: "refresh_times cfg n (b, e) = Inr (b1, e1)" "length (prac b1) = nat (rows cfg)"
    "uint (b_ref_idx b1) = (?i + int n * ?rr) mod rows cfg"
    "\<forall>k r. 0 \<le> k \<longrightarrow> k < int n * ?rr \<longrightarrow> r = (?i + k) mod rows cfg \<longrightarrow> prac b1 ! nat r = 0"
    by (auto simp: okE_iff)
  have ri1: "row_ok cfg (uint (b_ref_idx b1))" using b1(3) pos by (simp add: row_ok_def)
  obtain b2 e2 where b2: "exec_refresh cfg (b1, e1) = Inr (b2, e2)" "length (prac b2) = nat (rows cfg)"
    "uint (b_ref_idx b2) = (uint (b_ref_idx b1) + ?rr) mod rows cfg"
    "\<forall>r. row_ok cfg r \<longrightarrow> prac b2 ! nat r = (if r \<in> ref_window cfg (uint (b_ref_idx b1)) then 0 else prac b1 ! nat r)"
    using exec_refresh_prac [OF c p b1(2) ri1, of e1] by (auto simp: okE_iff)
  have "uint (b_ref_idx b2) = (?i + int (Suc n) * ?rr) mod rows cfg"
    using b2(3) b1(3) by (simp add: mod_simps algebra_simps)
  moreover have "prac b2 ! nat r = 0" if k: "0 \<le> k" "k < int (Suc n) * ?rr" "r = (?i + k) mod rows cfg" for k r
  proof -
    have row: "row_ok cfg r" using k pos by (simp add: row_ok_def)
    show ?thesis
    proof (cases "k < int n * ?rr")
      case True
      with b1(4) k b2(4) row show ?thesis by simp
    next
      case False
      have "r = (uint (b_ref_idx b1) + (k - int n * ?rr)) mod rows cfg"
        unfolding b1(3) k(3) by (simp add: mod_simps)
      moreover have "0 \<le> k - int n * ?rr" "k - int n * ?rr < ?rr" using False k by (auto simp: algebra_simps)
      ultimately have "r \<in> ref_window cfg (uint (b_ref_idx b1))" unfolding ref_window_def by auto
      with b2(4) row show ?thesis by simp
    qed
  qed
  ultimately show ?case using b1(1) b2(1,2) by simp
qed



section \<open>The DRFM queue and the CACTUS victim refresh\<close>

text \<open>
  A DRFM mitigation takes the entry with the largest activation count out of the queue, the
  oldest one when several share it, leaves the others in order, and counts as wasted exactly when
  the queue is empty.
\<close>

theorem drfm_mitig_takes_oldest_max:
  "case drfm_mitig (b, e) of (rowid, b', e') \<Rightarrow>
     if drfm_q b = [] then rowid = -1 \<and> b' = b \<and> e' = stat_inc e (mitig_wasted_stat b)
     else \<exists>pre x post. drfm_q b = pre @ x # post \<and> drfm_q b' = pre @ post \<and> rowid = uint (d_rowid x) \<and>
       (\<forall>y\<in>set pre. d_ctr y < d_ctr x) \<and> (\<forall>y\<in>set post. d_ctr y \<le> d_ctr x) \<and>
       b' = b\<lparr>drfm_q := pre @ post\<rparr> \<and> e' = stat_inc e (mitig_used_stat b)"
proof (cases "max_element d_ctr (drfm_q b)")
  case None
  then have "drfm_q b = []" by simp
  then show ?thesis by (simp add: drfm_mitig_def max_element_def)
next
  case (Some i)
  note m = max_element_Some [OF Some]
  have ne: "drfm_q b \<noteq> []" using m(1) by auto
  have keep: "(if d_ctr (drfm_q b ! i) \<le> d_ctr (drfm_q b ! 0) then 0 else i) = i"
    using m(3) [of 0] by (cases "i = 0") auto
  have "drfm_q b = take i (drfm_q b) @ drfm_q b ! i # drop (Suc i) (drfm_q b)" using m(1) by (rule id_take_nth_drop)
  moreover have "\<forall>y\<in>set (take i (drfm_q b)). d_ctr y < d_ctr (drfm_q b ! i)"
    using m(1,3) by (auto simp: in_set_conv_nth)
  moreover have "\<forall>y\<in>set (drop (Suc i) (drfm_q b)). d_ctr y \<le> d_ctr (drfm_q b ! i)"
    using m(2) by (auto simp: in_set_conv_nth)
  ultimately show ?thesis
    using ne unfolding drfm_mitig_def prod.case Some option.case Let_def keep
    by (auto simp: erase_at_def intro!: exI [of _ "take i (drfm_q b)"])
qed

theorem drfm_mitig_takes_oldest_max_witness:
  "case drfm_mitig (tiny_bank\<lparr>drfm_q := [\<lparr>d_rowid = 4, d_ctr = 9\<rparr>]\<rparr>, tiny_env) of
     (rowid, b', e') \<Rightarrow> rowid = 4 \<and> drfm_q b' = []"
  using drfm_mitig_takes_oldest_max [of "tiny_bank\<lparr>drfm_q := [\<lparr>d_rowid = 4, d_ctr = 9\<rparr>]\<rparr>" tiny_env]
  by (auto simp: Cons_eq_append_conv split: prod.splits)

text \<open>The rows a CACTUS mitigation of aggressor \<open>r\<close> refreshes: the neighbours at distance one and two.\<close>

definition victims :: "Config \<Rightarrow> int \<Rightarrow> int set" where
  "victims cfg r = {q. row_ok cfg q \<and> q \<noteq> r \<and> \<bar>q - r\<bar> \<le> 2}"

definition restored :: "BankState \<Rightarrow> int set \<Rightarrow> BankState \<Rightarrow> bool" where
  "restored b V b' \<longleftrightarrow> length (prac b') = length (prac b) \<and>
     (\<forall>q. 0 \<le> q \<longrightarrow> q < int (length (prac b)) \<longrightarrow> prac b' ! nat q = (if q \<in> V then 0 else prac b ! nat q)) \<and>
     drfm_q b' = filter (\<lambda>x. uint (d_rowid x) \<notin> V) (drfm_q b) \<and>
     (\<exists>pr dq. b' = b\<lparr>prac := pr, drfm_q := dq\<rparr>)"

lemma restored_refl: "restored b {} b"
proof -
  have "b = b\<lparr>prac := prac b, drfm_q := drfm_q b\<rparr>" by simp
  then have "\<exists>pr dq. b = b\<lparr>prac := pr, drfm_q := dq\<rparr>" by (intro exI)
  then show ?thesis by (simp add: restored_def)
qed

lemma refresh_row_restored:
  assumes "uint r = q" "q < int (length (prac b))" "restored b0 V b"
  shows "okE (refresh_row r b) (restored b0 (insert q V))"
proof -
  let ?pr = "(prac b)[nat q := 0]" and ?dq = "filter (\<lambda>x. d_rowid x \<noteq> r) (drfm_q b)"
  have ir: "inrange q (prac b)" using assms by (auto simp: inrange_def)
  have "d_rowid x = r \<longleftrightarrow> uint (d_rowid x) = q" for x using assms(1) by (auto simp: word_uint_eqI)
  then have dq: "?dq = filter (\<lambda>x. uint (d_rowid x) \<notin> insert q V) (drfm_q b0)"
    using assms(3) by (simp add: restored_def) (rule filter_cong, auto)
  obtain pr dq where "b = b0\<lparr>prac := pr, drfm_q := dq\<rparr>" using assms(3) by (auto simp: restored_def)
  then have "b\<lparr>prac := ?pr, drfm_q := ?dq\<rparr> = b0\<lparr>prac := ?pr, drfm_q := ?dq\<rparr>" by simp
  then show ?thesis
    using assms ir dq by (auto simp: refresh_row_def restored_def nth_list_update inrange_def nat_eq_iff2)
qed

text \<open>
  The CACTUS mitigation of an aggressor row restores exactly its neighbours at distance one
  and two that exist, at the edges of the bank too: their activation counts become zero, their
  entries leave the DRFM queue, and nothing else of the bank changes.
\<close>

theorem cactus_mitig_restores_neighbours:
  assumes "bank_cfg_ok cfg" "length (prac b) = nat (rows cfg)" "row_ok cfg r"
  shows "okE (bank_cactus_mitig cfg (word_of_int r) b) (restored b (victims cfg r))"
proof -
  let ?w = "word_of_int r :: u32"
  have r: "0 \<le> r" "r < rows cfg" "rows cfg < 2 ^ 31" using assms by (auto simp: row_ok_def bank_cfg_ok_def)
  have u: "uint ?w = r" using row_u32 [OF assms(1,3)] by simp
  have lt: "?w > 1 \<longleftrightarrow> r > 1" "?w > 0 \<longleftrightarrow> r > 0" using u by (auto simp: word_less_def)
  have plus: "uint (?w + 1) = r + 1" "uint (?w + 2) = r + 2"
    using r u by (simp_all add: uint_word_ariths)
  have minus: "r > 0 \<Longrightarrow> uint (?w - 1) = r - 1" "r > 1 \<Longrightarrow> uint (?w - 2) = r - 2"
    using r u by (simp_all add: uint_word_ariths)
  have cmp: "?w + 1 < word_of_int (rows cfg) \<longleftrightarrow> r + 1 < rows cfg" "?w + 2 < word_of_int (rows cfg) \<longleftrightarrow> r + 2 < rows cfg"
    using plus rows_word [OF assms(1)] by (simp_all add: word_less_def)
  have step: "okE (if C then refresh_row w b1 else Inr b1) (restored b (if C then insert q V else V))"
    if "restored b V b1" "C \<Longrightarrow> uint w = q" "C \<Longrightarrow> q < rows cfg" for C w q V b1
  proof -
    have "length (prac b1) = nat (rows cfg)" using that(1) assms(2) by (simp add: restored_def)
    with that refresh_row_restored [of w q b1 b V] show ?thesis by auto
  qed
  define V1 where "V1 = (if r > 1 then insert (r - 2) {} else {})"
  define V2 where "V2 = (if r > 0 then insert (r - 1) V1 else V1)"
  define V3 where "V3 = (if r + 1 < rows cfg then insert (r + 1) V2 else V2)"
  define V4 where "V4 = (if r + 2 < rows cfg then insert (r + 2) V3 else V3)"
  have "V4 = victims cfg r"
    using r by (auto simp: V4_def V3_def V2_def V1_def victims_def row_ok_def)
  moreover have "okE (bank_cactus_mitig cfg ?w b) (restored b V4)"
    unfolding bank_cactus_mitig_def okE_bindE lt cmp
    by (rule okE_mono [OF step [OF restored_refl, of "r > 1" "?w - 2" "r - 2", folded V1_def]], use minus r in simp, use r in simp,
        rule okE_mono [OF step [of V1 _ "r > 0" "?w - 1" "r - 1", folded V2_def]], assumption, use minus r in simp, use r in simp,
        rule okE_mono [OF step [of V2 _ "r + 1 < rows cfg" "?w + 1" "r + 1", folded V3_def]], assumption, use plus in simp, simp,
        rule step [of V3 _ "r + 2 < rows cfg" "?w + 2" "r + 2", folded V4_def], assumption, use plus in simp, simp)
  ultimately show ?thesis by simp
qed

theorem cactus_mitig_restores_neighbours_witness:
  "okE (bank_cactus_mitig tiny_cfg (word_of_int 1) (tiny_bank\<lparr>prac := replicate 16 9\<rparr>)) (\<lambda>b'.
     prac b' = [0, 9, 0, 0, 9, 9, 9, 9, 9, 9, 9, 9, 9, 9, 9, 9])"
proof -
  have "okE (bank_cactus_mitig tiny_cfg (word_of_int 1) (tiny_bank\<lparr>prac := replicate 16 9\<rparr>))
      (restored (tiny_bank\<lparr>prac := replicate 16 9\<rparr>) (victims tiny_cfg 1))"
    by (rule cactus_mitig_restores_neighbours [OF tiny_ok(1)]) (simp_all add: row_ok_def)
  then show ?thesis
  proof (rule okE_mono)
    fix b'
    assume R: "restored (tiny_bank\<lparr>prac := replicate 16 9\<rparr>) (victims tiny_cfg 1) b'"
    then have len: "length (prac b') = 16" by (simp add: restored_def)
    have "prac b' ! j = [0, 9, 0, 0, 9, 9, 9, 9, 9, 9, 9, 9, 9, 9, 9, 9] ! j" if "j < 16" for j
    proof -
      have "prac b' ! j = (if int j \<in> victims tiny_cfg 1 then 0 else 9)"
        using R that by (auto simp: restored_def dest: spec [of _ "int j"])
      moreover have "int j \<in> victims tiny_cfg 1 \<longleftrightarrow> j \<in> {0, 2, 3}" using that by (auto simp: victims_def row_ok_def)
      ultimately show ?thesis using that by (auto simp: numeral_eq_Suc less_Suc_eq)
    qed
    with len show "prac b' = [0, 9, 0, 0, 9, 9, 9, 9, 9, 9, 9, 9, 9, 9, 9, 9]"
      by (simp add: list_eq_iff_nth_eq)
  qed
qed

end
