(* ===== verification/AddressMap.thy ===== *)
theory AddressMap
  imports Config
begin

unbundle bit_operations_syntax

text \<open>
  Correctness of the address mapping. A layout is the list of the fields of an address with their
  widths, least significant first; \<open>enc\<close> packs field values along a layout and \<open>fld\<close> extracts
  one. \<open>SetAddressMapping\<close> turns every mapping string it accepts into the positions and masks of
  a layout of all fields, which makes \<open>AddressMapping\<close> a bijection between the request-aligned
  addresses of the memory and its coordinates.
\<close>

section \<open>Bit-field layouts\<close>

type_synonym layout = "(string \<times> nat) list"

primrec lpos :: "layout \<Rightarrow> string \<Rightarrow> nat" where
  "lpos [] t = 0"
| "lpos (f # L) t = (if fst f = t then 0 else snd f + lpos L t)"

primrec lbits :: "layout \<Rightarrow> nat" where
  "lbits [] = 0"
| "lbits (f # L) = snd f + lbits L"

primrec enc :: "layout \<Rightarrow> (string \<Rightarrow> nat) \<Rightarrow> nat" where
  "enc [] v = 0"
| "enc (f # L) v = v (fst f) + 2 ^ snd f * enc L v"

definition fld :: "nat \<Rightarrow> nat \<Rightarrow> nat \<Rightarrow> nat" where
  "fld x p w = x div 2 ^ p mod 2 ^ w"

lemma enc_bound: "\<forall>(t, w)\<in>set L. v t < 2 ^ w \<Longrightarrow> enc L v < 2 ^ lbits L"
proof (induction L)
  case (Cons f L)
  obtain t w where f: "f = (t, w)" by (cases f)
  from Cons have "enc L v < 2 ^ lbits L" "v t < 2 ^ w" by (auto simp: f)
  then have "v t + 2 ^ w * enc L v < 2 ^ w + 2 ^ w * enc L v" "2 ^ w * (enc L v + 1) \<le> 2 ^ w * 2 ^ lbits L"
    by (simp, intro mult_le_mono2) auto
  then show ?case by (simp add: f power_add algebra_simps)
qed simp

lemma enc_cong: "(\<And>t. t \<in> fst ` set L \<Longrightarrow> v t = u t) \<Longrightarrow> enc L v = enc L u"
  by (induction L) auto

lemma fld_Suc: "fld (a + 2 ^ w * y) (w + p) k = fld y p k" if "a < 2 ^ w"
  using that by (simp add: fld_def power_add div_mult2_eq)

lemma fld_enc:
  assumes "distinct (map fst L)" "\<forall>(t, w)\<in>set L. v t < 2 ^ w" "(t, w) \<in> set L"
  shows "fld (enc L v) (lpos L t) w = v t"
  using assms
proof (induction L)
  case (Cons f L)
  obtain s k where f: "f = (s, k)" by (cases f)
  from Cons.prems have vs: "v s < 2 ^ k" by (simp add: f)
  show ?case
  proof (cases "s = t")
    case True
    with Cons.prems have "w = k" by (force simp: f)
    with vs True show ?thesis by (simp add: f fld_def)
  next
    case False
    with Cons have "fld (enc L v) (lpos L t) w = v t" by (simp add: f)
    with False vs show ?thesis by (simp add: f fld_Suc)
  qed
qed simp

lemma enc_fld:
  assumes "distinct (map fst L)" "x < 2 ^ lbits L" "\<And>t w. (t, w) \<in> set L \<Longrightarrow> v t = fld x (lpos L t) w"
  shows "enc L v = x"
  using assms
proof (induction L arbitrary: x)
  case (Cons f L)
  obtain s k where f: "f = (s, k)" by (cases f)
  have "x div 2 ^ k < 2 ^ lbits L" using Cons.prems(2) by (simp add: f power_add less_mult_imp_div_less mult.commute)
  moreover have "v t = fld (x div 2 ^ k) (lpos L t) w" if "(t, w) \<in> set L" for t w
  proof -
    have "s \<noteq> t" using that Cons.prems(1) by (force simp: f)
    with that Cons.prems(3) [of t w] show ?thesis by (simp add: f fld_def power_add div_mult2_eq)
  qed
  ultimately have "enc L v = x div 2 ^ k" using Cons by (simp add: f)
  moreover have "v s = x mod 2 ^ k" using Cons.prems(3) [of s k] by (simp add: f fld_def)
  ultimately show ?case by (simp add: f mod_mult_div_eq)
qed (simp)

lemma lpos_bound: "(t, w) \<in> set L \<Longrightarrow> distinct (map fst L) \<Longrightarrow> lpos L t + w \<le> lbits L"
  by (induction L) force+

section \<open>What the loop of \<open>SetAddressMapping\<close> computes\<close>

lemma field_pos_loop_dom:
  "field_pos_loop ws toks pos fp = Inr fp' \<Longrightarrow> dom fp' = dom fp \<union> set toks \<and> set toks \<subseteq> dom (map_of ws)"
  by (induction ws toks pos fp rule: field_pos_loop.induct) (force split: option.splits)+

lemma field_pos_loop_layout:
  assumes "field_pos_loop ws toks pos fp = Inr fp'" "distinct toks" "\<forall>t\<in>set toks. map_of ws t = Some (int (w t))"
  shows "(\<forall>t\<in>set toks. fp' t = Some (pos + int (lpos (map (\<lambda>t. (t, w t)) toks) t)))
    \<and> (\<forall>t. t \<notin> set toks \<longrightarrow> fp' t = fp t)"
  using assms
proof (induction ws toks pos fp rule: field_pos_loop.induct)
  case (2 ws token rest pos fp)
  then have wt: "map_of ws token = Some (int (w token))" by simp
  with 2 have run: "field_pos_loop ws rest (pos + int (w token)) (fp(token \<mapsto> pos)) = Inr fp'"
    and d: "distinct rest" "token \<notin> set rest" by auto
  from 2 have "\<forall>t\<in>set rest. map_of ws t = Some (int (w t))" by simp
  note IH = "2.IH" [OF wt run d(1) this]
  from IH d(2) have "fp' token = Some pos" by simp
  with IH d(2) show ?case by (auto simp: add.assoc)
qed simp

section \<open>The mapping as a layout\<close>

definition cfg_pos :: "Config \<Rightarrow> string \<Rightarrow> int" where
  "cfg_pos cfg t = the (map_of
     [(''ch'', ch_pos cfg), (''ra'', ra_pos cfg), (''bg'', bg_pos cfg), (''ba'', ba_pos cfg),
      (''ro'', ro_pos cfg), (''co'', co_pos cfg), (''hi'', hi_pos cfg), (''lo'', lo_pos cfg)] t)"

definition cfg_mask :: "Config \<Rightarrow> string \<Rightarrow> u64" where
  "cfg_mask cfg t = the (map_of
     [(''ch'', ch_mask cfg), (''ra'', ra_mask cfg), (''bg'', bg_mask cfg), (''ba'', ba_mask cfg),
      (''ro'', ro_mask cfg), (''co'', co_mask cfg), (''hi'', hi_mask cfg), (''lo'', lo_mask cfg)] t)"

definition cfg_tokens :: "Config \<Rightarrow> string set" where
  "cfg_tokens cfg = {''ch'', ''ra'', ''bg'', ''ba'', ''ro''} \<union>
     (if mop_enabled cfg then {''hi'', ''lo''} else {''co''})"

definition layout_of :: "Config \<Rightarrow> layout \<Rightarrow> bool" where
  "layout_of cfg L \<longleftrightarrow>
     distinct (map fst L) \<and> fst ` set L = cfg_tokens cfg \<and>
     (\<forall>(t, w)\<in>set L. w < 31 \<and> map_of (field_widths cfg) t = Some (int w) \<and>
        cfg_pos cfg t = int (lpos L t) \<and> cfg_mask cfg t = mask w)"

lemma length_tokens: "length (tokens s) = (length s + 1) div 2"
  by (induction s rule: tokens.induct) auto

lemma mask_of_Inr: "mask_of w = Inr m \<longleftrightarrow> 0 \<le> w \<and> w < 31 \<and> m = mask (nat w)"
  by (auto simp: mask_of_def mask_eq_exp_minus_1)

lemma map_at_Inr: "map_at m k = Inr v \<longleftrightarrow> m k = Some v"
  by (auto simp: map_at_def split: option.splits)

text \<open>A token list that covers the field names and is no longer than their number is a permutation.\<close>

lemma covering_distinct: "S \<subseteq> set ts \<Longrightarrow> length ts \<le> card S \<Longrightarrow> distinct ts \<and> set ts = S"
  by (metis List.finite_set card_distinct card_length card_mono card_subset_eq le_antisym le_trans)

text \<open>The configuration a successful \<open>SetAddressMapping\<close> returns, field by field.\<close>

definition map_result :: "Config \<Rightarrow> (string \<rightharpoonup> int) \<Rightarrow> Config \<Rightarrow> bool" where
  "map_result cfg0 fp cfg \<longleftrightarrow>
     shift_bits cfg = LogBase2 (request_size_bytes cfg) \<and> field_widths cfg = field_widths cfg0 \<and>
     mop_enabled cfg = (mop_enabled cfg0 \<or> length (address_mapping cfg0) = 14) \<and>
     length (address_mapping cfg0) \<in> {12, 14} \<and>
     field_pos_loop (field_widths cfg0) (rev (tokens (address_mapping cfg0))) 0 Map.empty = Inr fp \<and>
     (\<forall>t\<in>cfg_tokens cfg. fp t = Some (cfg_pos cfg t) \<and>
        (\<exists>w. map_of (field_widths cfg0) t = Some w \<and> 0 \<le> w \<and> w < 31 \<and> cfg_mask cfg t = mask (nat w)))"

text \<open>Neither block of assignments changes what the other reads.\<close>

definition same_frame :: "Config \<Rightarrow> Config \<Rightarrow> bool" where
  "same_frame c c' \<longleftrightarrow> field_widths c' = field_widths c \<and> mop_enabled c' = mop_enabled c
     \<and> shift_bits c' = shift_bits c \<and> request_size_bytes c' = request_size_bytes c"

lemma set_field_pos_Inr:
  "set_field_pos fp c = Inr c' \<Longrightarrow>
    same_frame c c' \<and> (\<forall>t\<in>cfg_tokens c. fp t = Some (cfg_pos c' t))"
  by (cases "mop_enabled c")
    (auto simp: set_field_pos_def Let_def bindE_Inr_iff map_at_Inr cfg_pos_def cfg_tokens_def same_frame_def
      field_widths_def)

lemma width_mask_Inr:
  "width_mask ws t = Inr m \<longleftrightarrow> (\<exists>w. map_of ws t = Some w \<and> 0 \<le> w \<and> w < 31 \<and> m = mask (nat w))"
  by (auto simp: width_mask_def bindE_Inr_iff map_at_Inr mask_of_Inr)

lemma set_field_masks_Inr:
  assumes "set_field_masks ws c = Inr c'"
  shows "same_frame c c' \<and> (\<forall>t\<in>cfg_tokens c. width_mask ws t = Inr (cfg_mask c' t)) \<and> cfg_pos c' = cfg_pos c"
proof (cases "mop_enabled c")
  case True
  with assms obtain ch ra bg ba ro hi lo where
    w: "width_mask ws ''ch'' = Inr ch" "width_mask ws ''ra'' = Inr ra" "width_mask ws ''bg'' = Inr bg"
      "width_mask ws ''ba'' = Inr ba" "width_mask ws ''ro'' = Inr ro" "width_mask ws ''hi'' = Inr hi"
      "width_mask ws ''lo'' = Inr lo" and
    c': "c' = c\<lparr>ch_mask := ch, ra_mask := ra, bg_mask := bg, ba_mask := ba, ro_mask := ro,
      hi_mask := hi, lo_mask := lo\<rparr>"
    by (auto simp: set_field_masks_def Let_def elim!: bindE_InrE)
  from w True show ?thesis
    by (simp add: c' same_frame_def field_widths_def cfg_tokens_def cfg_mask_def cfg_pos_def [abs_def]
        cong: if_cong)
next
  case False
  with assms obtain ch ra bg ba ro co where
    w: "width_mask ws ''ch'' = Inr ch" "width_mask ws ''ra'' = Inr ra" "width_mask ws ''bg'' = Inr bg"
      "width_mask ws ''ba'' = Inr ba" "width_mask ws ''ro'' = Inr ro" "width_mask ws ''co'' = Inr co" and
    c': "c' = c\<lparr>ch_mask := ch, ra_mask := ra, bg_mask := bg, ba_mask := ba, ro_mask := ro, co_mask := co\<rparr>"
    by (auto simp: set_field_masks_def Let_def elim!: bindE_InrE)
  from w False show ?thesis
    by (simp add: c' same_frame_def field_widths_def cfg_tokens_def cfg_mask_def cfg_pos_def [abs_def]
        cong: if_cong)
qed

lemma SetAddressMapping_result:
  assumes "SetAddressMapping cfg0 = Inr cfg"
  obtains fp where "map_result cfg0 fp cfg"
proof -
  define c1 where "c1 = cfg0\<lparr>request_size_bytes := (bus_width cfg0 sdiv 8) * BL cfg0,
    shift_bits := LogBase2 ((bus_width cfg0 sdiv 8) * BL cfg0)\<rparr>"
  define c2 where "c2 = (if length (address_mapping cfg0) = 14 then c1\<lparr>mop_enabled := True\<rparr> else c1)"
  have w: "field_widths c1 = field_widths cfg0" "field_widths c2 = field_widths cfg0"
    by (simp_all add: field_widths_def c1_def c2_def)
  have am: "address_mapping c2 = address_mapping cfg0" "address_mapping c1 = address_mapping cfg0"
    by (simp_all add: c1_def c2_def)
  from assms have "bindE (field_pos_loop (field_widths c1) (rev (tokens (address_mapping c2))) 0 Map.empty)
      (\<lambda>fp. bindE (set_field_pos fp c2) (\<lambda>cfg. set_field_masks (field_widths c1) cfg)) = Inr cfg"
    and len: "length (address_mapping cfg0) \<in> {12, 14}"
    by (simp_all add: SetAddressMapping_def Let_def c1_def c2_def split: if_splits)
  then obtain fp c3 where
    fp: "field_pos_loop (field_widths cfg0) (rev (tokens (address_mapping cfg0))) 0 Map.empty = Inr fp"
    and c3: "set_field_pos fp c2 = Inr c3" and c4: "set_field_masks (field_widths cfg0) c3 = Inr cfg"
    by (auto simp: w am elim!: bindE_InrE)
  note p = set_field_pos_Inr [OF c3] and m = set_field_masks_Inr [OF c4]
  have tok: "cfg_tokens c3 = cfg_tokens c2" "cfg_tokens cfg = cfg_tokens c2"
    using p m by (simp_all add: cfg_tokens_def same_frame_def)
  have "map_result cfg0 fp cfg"
    using fp len p m tok w
    by (auto simp: map_result_def same_frame_def width_mask_Inr c2_def c1_def)
  then show ?thesis by (rule that)
qed

lemma SetAddressMapping_layout:
  assumes run: "SetAddressMapping cfg0 = Inr cfg" and mop: "\<not> mop_enabled cfg0"
  obtains L where "layout_of cfg L"
proof -
  obtain fp where r: "map_result cfg0 fp cfg" using SetAddressMapping_result [OF run] .
  define toks where "toks = rev (tokens (address_mapping cfg0))"
  define w where "w t = nat (the (map_of (field_widths cfg0) t))" for t
  from r have loop: "field_pos_loop (field_widths cfg0) toks 0 Map.empty = Inr fp"
    by (simp add: map_result_def toks_def)
  have "cfg_tokens cfg \<subseteq> dom fp" using r by (auto simp: map_result_def)
  then have cover: "cfg_tokens cfg \<subseteq> set toks" using field_pos_loop_dom [OF loop] by simp
  have "length toks \<le> card (cfg_tokens cfg)"
    using r mop by (auto simp: map_result_def toks_def length_tokens cfg_tokens_def)
  with cover have d: "distinct toks" "set toks = cfg_tokens cfg" by (auto dest: covering_distinct)
  have wt: "\<forall>t\<in>set toks. map_of (field_widths cfg0) t = Some (int (w t))"
    using r d(2) by (fastforce simp: map_result_def w_def)
  let ?L = "map (\<lambda>t. (t, w t)) toks"
  have pos: "\<forall>t\<in>set toks. cfg_pos cfg t = int (lpos ?L t)"
    using field_pos_loop_layout [OF loop d(1) wt] r d(2) by (auto simp: map_result_def)
  have "layout_of cfg ?L"
    unfolding layout_of_def
  proof (intro conjI ballI)
    show "distinct (map fst ?L)" using d(1) by (simp add: comp_def)
    show "fst ` set ?L = cfg_tokens cfg" using d(2) by force
  next
    fix x
    assume "x \<in> set ?L"
    then obtain t where t: "x = (t, w t)" "t \<in> set toks" by auto
    with r d(2) obtain v where v: "map_of (field_widths cfg0) t = Some v" "0 \<le> v" "v < 31"
      "cfg_mask cfg t = mask (nat v)" by (auto simp: map_result_def)
    then have "int (w t) = v" by (simp add: w_def)
    moreover have "cfg_pos cfg t = int (lpos ?L t)" using pos t by blast
    moreover have "field_widths cfg = field_widths cfg0" using r by (simp add: map_result_def)
    ultimately show "case x of (t, w) \<Rightarrow> w < 31 \<and> map_of (field_widths cfg) t = Some (int w) \<and>
        cfg_pos cfg t = int (lpos ?L t) \<and> cfg_mask cfg t = mask w"
      using v t by auto
  qed
  then show ?thesis by (rule that)
qed

section \<open>Decoding along a layout\<close>

definition mapped_bits :: "Config \<Rightarrow> int" where
  "mapped_bits cfg = LogBase2 (channels cfg) + LogBase2 (ranks cfg) + LogBase2 (bankgroups cfg)
     + LogBase2 (banks_per_group cfg) + LogBase2 (rows cfg) + (LogBase2 (columns cfg) - LogBase2 (BL cfg))"

definition below :: "int \<Rightarrow> int \<Rightarrow> bool" where
  "below v w \<longleftrightarrow> 0 \<le> v \<and> v < 2 ^ nat w"

definition in_coords :: "Config \<Rightarrow> Address \<Rightarrow> bool" where
  "in_coords cfg a \<longleftrightarrow>
     below (a_channel a) (LogBase2 (channels cfg)) \<and> below (a_rank a) (LogBase2 (ranks cfg)) \<and>
     below (a_bankgroup a) (LogBase2 (bankgroups cfg)) \<and>
     below (a_bank a) (LogBase2 (banks_per_group cfg)) \<and> below (a_row a) (LogBase2 (rows cfg)) \<and>
     below (a_column a) (LogBase2 (columns cfg) - LogBase2 (BL cfg))"

definition coord :: "Config \<Rightarrow> Address \<Rightarrow> string \<Rightarrow> nat" where
  "coord cfg a t = the (map_of
     [(''ch'', nat (a_channel a)), (''ra'', nat (a_rank a)), (''bg'', nat (a_bankgroup a)),
      (''ba'', nat (a_bank a)), (''ro'', nat (a_row a)), (''co'', nat (a_column a)),
      (''hi'', nat (a_column a) div 2 ^ nat (LogBase2 (mop_size cfg))),
      (''lo'', nat (a_column a) mod 2 ^ nat (LogBase2 (mop_size cfg)))] t)"

lemma fld_bits: "fld x p w = take_bit w (drop_bit p x)"
  by (simp add: fld_def drop_bit_eq_div take_bit_eq_mod)

lemma fld_less: "fld x p w < 2 ^ w"
  by (simp add: fld_def)

lemma unat_field: "unat (drop_bit p (x::u64) AND mask w) = fld (unat x) p w"
proof -
  have "unat x < 2 ^ 64" using unsigned_less [of x] by simp
  then have "take_bit 64 (unat x) = unat x" by (rule take_bit_nat_eq_self)
  then show ?thesis
    by (simp add: fld_bits take_bit_eq_mask [symmetric] unsigned_take_bit_eq unsigned_drop_bit_eq)
qed

lemma addr_field_fld:
  assumes "w < 31" "p < 64"
  shows "addr_field x (int p) (mask w) = Inr (int (fld (unat x) p w))"
proof -
  have "(2::nat) ^ w \<le> 2 ^ 31" using assms by (intro power_increasing) auto
  with fld_less [of "unat x" p w] have small: "fld (unat x) p w < 2 ^ 31" by (rule order.strict_trans2)
  have "uint (drop_bit p x AND mask w) = int (fld (unat x) p w)"
    by (simp only: uint_nat unat_field)
  with small have "to_int (drop_bit p x AND mask w) = int (fld (unat x) p w)"
    unfolding to_int_def
    by (subst sint_u32_small) (simp_all add: unsigned_ucast_eq take_bit_int_eq_self)
  with assms show ?thesis by (simp add: addr_field_def shr64_def)
qed

lemma layout_field:
  assumes L: "layout_of cfg L" "lbits L < 64" and t: "t \<in> cfg_tokens cfg"
  obtains w where "(t, w) \<in> set L" "w < 31" "map_of (field_widths cfg) t = Some (int w)"
    "addr_field x (cfg_pos cfg t) (cfg_mask cfg t) = Inr (int (fld (unat x) (lpos L t) w))"
proof -
  from L t have "t \<in> fst ` set L" by (simp add: layout_of_def)
  then obtain w where w: "(t, w) \<in> set L" by auto
  with L have f: "w < 31" "map_of (field_widths cfg) t = Some (int w)" "cfg_pos cfg t = int (lpos L t)"
    "cfg_mask cfg t = mask w" by (auto simp: layout_of_def)
  have "lpos L t < 64" using lpos_bound [OF w] L by (simp add: layout_of_def)
  with f w show ?thesis by (intro that [of w]) (simp_all add: addr_field_fld)
qed

lemma lbits_mapped: "layout_of cfg L \<Longrightarrow> int (lbits L) = mapped_bits cfg"
proof -
  assume L: "layout_of cfg L"
  have "lbits L = (\<Sum>(t, w)\<in>set L. w)"
  proof -
    have "lbits L = sum_list (map snd L)" by (induction L) auto
    moreover have "distinct L" using L by (auto simp: layout_of_def distinct_map)
    ultimately show ?thesis by (simp add: sum_list_distinct_conv_sum_set case_prod_beta')
  qed
  also have "int \<dots> = (\<Sum>(t, w)\<in>set L. the (map_of (field_widths cfg) t))"
    using L by (simp only: int_sum) (rule sum.cong, auto simp: layout_of_def)
  also have "\<dots> = (\<Sum>t\<in>fst ` set L. the (map_of (field_widths cfg) t))"
    using L by (subst sum.reindex) (auto simp: layout_of_def distinct_map case_prod_beta')
  also have "\<dots> = mapped_bits cfg"
    using L by (simp add: layout_of_def cfg_tokens_def field_widths_def mapped_bits_def Let_def)
  finally show ?thesis .
qed

lemma or_concat:
  assumes "0 \<le> lo" "lo < 2 ^ k"
  shows "push_bit k (hi::int) OR lo = hi * 2 ^ k + lo"
proof -
  have "take_bit k lo = lo" using assms by (simp add: take_bit_int_eq_self)
  then show ?thesis
    using concat_bit_eq [of k lo hi] by (simp add: concat_bit_def or.commute push_bit_eq_mult add.commute)
qed

lemma AddressMapping_decode:
  assumes L: "layout_of cfg L" "lbits L < 64" and sh: "0 \<le> shift_bits cfg" "shift_bits cfg < 64"
  shows "\<exists>a. AddressMapping cfg hex = Inr a \<and> in_coords cfg a \<and>
    (\<forall>(t, w)\<in>set L. coord cfg a t = fld (unat (drop_bit (nat (shift_bits cfg)) hex)) (lpos L t) w)"
proof -
  define x where "x = drop_bit (nat (shift_bits cfg)) hex"
  define f where "f t = fld (unat x) (lpos L t) (nat (the (map_of (field_widths cfg) t)))" for t
  have field: "addr_field x (cfg_pos cfg t) (cfg_mask cfg t) = Inr (int (f t))
      \<and> below (int (f t)) (the (map_of (field_widths cfg) t)) \<and> the (map_of (field_widths cfg) t) < 31
      \<and> 0 \<le> the (map_of (field_widths cfg) t)"
    if t: "t \<in> cfg_tokens cfg" for t
    by (rule layout_field [OF L t, of x]) (use fld_less [of "unat x"] in \<open>simp add: f_def below_def\<close>)
  have ft: "\<forall>(t, w)\<in>set L. f t = fld (unat x) (lpos L t) w"
    using L by (auto simp: f_def layout_of_def)
  have tok: "fst ` set L = cfg_tokens cfg" using L by (simp add: layout_of_def)
  have lift: "\<forall>(t, w)\<in>set L. g t = fld (unat x) (lpos L t) w" if "\<forall>t\<in>cfg_tokens cfg. g t = f t" for g
    using that ft unfolding tok [symmetric] by fastforce
  have base: "{''ch'', ''ra'', ''bg'', ''ba'', ''ro''} \<subseteq> cfg_tokens cfg" by (simp add: cfg_tokens_def)
  note fb = field [OF subsetD [OF base], simplified, unfolded cfg_pos_def cfg_mask_def field_widths_def Let_def]
  note five = fb [of "''ch''", simplified] fb [of "''ra''", simplified] fb [of "''bg''", simplified]
    fb [of "''ba''", simplified] fb [of "''ro''", simplified]
  show ?thesis
  proof (cases "mop_enabled cfg")
    case False
    then have "''co'' \<in> cfg_tokens cfg" by (simp add: cfg_tokens_def)
    note co = field [OF this, unfolded cfg_pos_def cfg_mask_def field_widths_def Let_def, simplified]
    let ?a = "mk_Address (int (f ''ch'')) (int (f ''ra'')) (int (f ''bg'')) (int (f ''ba''))
      (int (f ''ro'')) (int (f ''co''))"
    have "AddressMapping cfg hex = Inr ?a"
      using five co False sh by (simp add: AddressMapping_def shr64_def flip: x_def)
    moreover have "in_coords cfg ?a" using five co by (simp add: in_coords_def)
    moreover have "\<forall>t\<in>cfg_tokens cfg. coord cfg ?a t = f t"
      using False by (simp add: cfg_tokens_def coord_def)
    ultimately show ?thesis using lift [of "coord cfg ?a"] unfolding x_def by blast
  next
    case True
    then have "''hi'' \<in> cfg_tokens cfg" "''lo'' \<in> cfg_tokens cfg" by (simp_all add: cfg_tokens_def)
    note hl = this [THEN field, unfolded cfg_pos_def cfg_mask_def field_widths_def Let_def, simplified]
    let ?k = "nat (LogBase2 (mop_size cfg))"
    let ?c = "int (f ''hi'') * 2 ^ ?k + int (f ''lo'')"
    let ?a = "mk_Address (int (f ''ch'')) (int (f ''ra'')) (int (f ''bg'')) (int (f ''ba''))
      (int (f ''ro'')) ?c"
    have lo: "int (f ''lo'') < 2 ^ ?k" using hl by (simp add: below_def)
    have "AddressMapping cfg hex = Inr ?a"
      using five hl True sh lo by (simp add: AddressMapping_def shr64_def or_concat flip: x_def)
    moreover have "below ?c (LogBase2 (columns cfg) - LogBase2 (BL cfg))"
    proof -
      let ?w = "LogBase2 (columns cfg) - LogBase2 (BL cfg)"
      have "int (f ''hi'') < 2 ^ nat (?w - LogBase2 (mop_size cfg))" using hl by (simp add: below_def)
      then have w: "0 \<le> ?w - LogBase2 (mop_size cfg)" "int (f ''hi'') + 1 \<le> 2 ^ nat (?w - LogBase2 (mop_size cfg))"
        using hl by (simp, linarith)
      have "?c < (int (f ''hi'') + 1) * 2 ^ ?k" using lo by (simp add: algebra_simps)
      also have "\<dots> \<le> 2 ^ nat (?w - LogBase2 (mop_size cfg)) * 2 ^ ?k" using w(2) by (rule mult_right_mono) simp
      also have "\<dots> = 2 ^ nat ?w"
        using w(1) LogBase2_nonneg [of "mop_size cfg"] by (simp flip: power_add nat_add_distrib)
      finally show ?thesis by (simp add: below_def)
    qed
    then have "in_coords cfg ?a" using five by (simp add: in_coords_def)
    moreover have "\<forall>t\<in>cfg_tokens cfg. coord cfg ?a t = f t"
    proof -
      have "nat ?c = f ''hi'' * 2 ^ ?k + f ''lo''" by (simp add: nat_add_distrib nat_mult_distrib nat_power_eq)
      then show ?thesis using True lo by (simp add: cfg_tokens_def coord_def)
    qed
    ultimately show ?thesis using lift [of "coord cfg ?a"] unfolding x_def by blast
  qed
qed

section \<open>The mapping is a bijection\<close>

lemma coord_inj:
  assumes "in_coords cfg a" "in_coords cfg b" "\<forall>t\<in>cfg_tokens cfg. coord cfg a t = coord cfg b t"
  shows "a = b"
proof -
  have nn: "0 \<le> a_channel c \<and> 0 \<le> a_rank c \<and> 0 \<le> a_bankgroup c \<and> 0 \<le> a_bank c \<and> 0 \<le> a_row c \<and> 0 \<le> a_column c"
    if "in_coords cfg c" for c using that by (simp add: in_coords_def below_def)
  have "nat (a_column a) = nat (a_column b)"
  proof (cases "mop_enabled cfg")
    case True
    let ?m = "2 ^ nat (LogBase2 (mop_size cfg))"
    have "nat (a_column a) div ?m = nat (a_column b) div ?m" "nat (a_column a) mod ?m = nat (a_column b) mod ?m"
      using assms(3) True by (simp_all add: cfg_tokens_def coord_def)
    then show ?thesis by (metis div_mult_mod_eq)
  next
    case False
    then show ?thesis using assms(3) by (simp add: cfg_tokens_def coord_def)
  qed
  moreover have "nat (a_channel a) = nat (a_channel b)" "nat (a_rank a) = nat (a_rank b)"
    "nat (a_bankgroup a) = nat (a_bankgroup b)" "nat (a_bank a) = nat (a_bank b)" "nat (a_row a) = nat (a_row b)"
    using assms(3) by (simp_all add: cfg_tokens_def coord_def)
  ultimately show ?thesis
    using nn [OF assms(1)] nn [OF assms(2)] by (intro Address.equality) (simp_all add: eq_nat_nat_iff)
qed

lemma coord_bound:
  assumes L: "layout_of cfg L" and a: "in_coords cfg a" and t: "(t, w) \<in> set L"
  shows "coord cfg a t < 2 ^ w"
proof -
  have tt: "t \<in> cfg_tokens cfg" using L t by (force simp: layout_of_def)
  have w: "map_of (field_widths cfg) t = Some (int w)" using L t by (auto simp: layout_of_def)
  have small: "nat v < 2 ^ nat b" if "below v b" for v b
    using that by (simp add: below_def nat_less_iff)
  have hi: "nat (a_column a) div 2 ^ nat (LogBase2 (mop_size cfg)) < 2 ^ w"
    if "int w = LogBase2 (columns cfg) - LogBase2 (BL cfg) - LogBase2 (mop_size cfg)"
  proof -
    have "nat (LogBase2 (columns cfg) - LogBase2 (BL cfg)) = w + nat (LogBase2 (mop_size cfg))"
      using that LogBase2_nonneg [of "mop_size cfg"] by linarith
    moreover have "nat (a_column a) < 2 ^ nat (LogBase2 (columns cfg) - LogBase2 (BL cfg))"
      using a small by (simp add: in_coords_def)
    ultimately show ?thesis by (simp add: power_add less_mult_imp_div_less)
  qed
  have cs: "nat (a_channel a) < 2 ^ nat (LogBase2 (channels cfg))" "nat (a_rank a) < 2 ^ nat (LogBase2 (ranks cfg))"
    "nat (a_bankgroup a) < 2 ^ nat (LogBase2 (bankgroups cfg))" "nat (a_bank a) < 2 ^ nat (LogBase2 (banks_per_group cfg))"
    "nat (a_row a) < 2 ^ nat (LogBase2 (rows cfg))" "nat (a_column a) < 2 ^ nat (LogBase2 (columns cfg) - LogBase2 (BL cfg))"
    using a small unfolding in_coords_def by blast+
  have all: "cfg_tokens cfg \<subseteq> {''ch'', ''ra'', ''bg'', ''ba'', ''ro'', ''co'', ''hi'', ''lo''}"
    by (simp add: cfg_tokens_def)
  consider "t = ''ch''" | "t = ''ra''" | "t = ''bg''" | "t = ''ba''" | "t = ''ro''" | "t = ''co''"
    | "t = ''hi''" | "t = ''lo''"
    using subsetD [OF all tt] unfolding insert_iff empty_iff by argo
  then show ?thesis
  proof cases
    case 7
    then show ?thesis using w hi by (simp add: coord_def field_widths_def Let_def)
  qed (use w cs in \<open>simp_all add: coord_def field_widths_def Let_def\<close>)
qed

text \<open>The request-aligned address with the coordinates \<open>a\<close>.\<close>

lemma AddressMapping_encode:
  assumes L: "layout_of cfg L" and bits: "0 \<le> shift_bits cfg" "shift_bits cfg + int (lbits L) < 64"
    and a: "in_coords cfg a"
  shows "\<exists>!x :: u64. uint x < 2 ^ lbits L \<and>
    AddressMapping cfg (push_bit (nat (shift_bits cfg)) x) = Inr a"
proof -
  let ?s = "nat (shift_bits cfg)" and ?e = "enc L (coord cfg a)"
  have d: "distinct (map fst L)" and tok: "fst ` set L = cfg_tokens cfg" using L by (auto simp: layout_of_def)
  have cb: "\<forall>(t, w)\<in>set L. coord cfg a t < 2 ^ w" using coord_bound [OF L a] by auto
  have b: "lbits L < 64" "?s < 64" "?s + lbits L < 64" using bits by auto
  have sh: "shift_bits cfg < 64" using bits by linarith
  have undo: "drop_bit ?s (push_bit ?s x) = x" if ux: "unat x < 2 ^ lbits L" for x :: u64
  proof (rule bit_word_eqI)
    fix n
    have "unat (take_bit (lbits L) x) = unat x" using ux by (simp add: unsigned_take_bit_eq take_bit_nat_eq_self)
    then have "bit x n \<longrightarrow> n < lbits L" using b(1) by (metis bit_take_bit_iff word_unat_eq_iff)
    then show "n < LENGTH(64) \<Longrightarrow> bit (drop_bit ?s (push_bit ?s x)) n = bit x n"
      using b by (auto simp: bit_simps)
  qed
  show ?thesis
  proof (rule ex1I)
    show "uint (word_of_nat ?e :: u64) < 2 ^ lbits L \<and>
      AddressMapping cfg (push_bit ?s (word_of_nat ?e)) = Inr a"
    proof
      have lt: "?e < 2 ^ lbits L" using cb by (rule enc_bound)
      also have "(2::nat) ^ lbits L \<le> 2 ^ 64" using b by (intro power_increasing) auto
      finally have u: "unat (word_of_nat ?e :: u64) = ?e" by (simp add: unat_of_nat take_bit_nat_eq_self)
      with lt show "uint (word_of_nat ?e :: u64) < 2 ^ lbits L" by (simp only: uint_nat) simp
      obtain a' where a': "AddressMapping cfg (push_bit ?s (word_of_nat ?e)) = Inr a'" "in_coords cfg a'"
        "\<forall>(t, w)\<in>set L. coord cfg a' t = fld ?e (lpos L t) w"
        using AddressMapping_decode [OF L b(1) bits(1) sh, of "push_bit ?s (word_of_nat ?e)"]
        unfolding undo [of "word_of_nat ?e", unfolded u, OF lt] u by blast
      have "\<forall>t\<in>cfg_tokens cfg. coord cfg a' t = coord cfg a t"
        using a'(3) fld_enc [OF d cb] unfolding tok [symmetric] by force
      then show "AddressMapping cfg (push_bit ?s (word_of_nat ?e)) = Inr a"
        using a' coord_inj [OF a'(2) a] by simp
    qed
  next
    fix x :: u64
    assume x: "uint x < 2 ^ lbits L \<and> AddressMapping cfg (push_bit ?s x) = Inr a"
    then have "int (unat x) < 2 ^ lbits L" by simp
    then have ux: "unat x < 2 ^ lbits L" by (simp only: of_nat_less_numeral_power_cancel_iff)
    obtain a' where a': "AddressMapping cfg (push_bit ?s x) = Inr a'"
      "\<forall>(t, w)\<in>set L. coord cfg a' t = fld (unat x) (lpos L t) w"
      using AddressMapping_decode [OF L b(1) bits(1) sh, of "push_bit ?s x"] unfolding undo [OF ux] by blast
    from x a'(1) have "a' = a" by simp
    with a'(2) have "?e = unat x" by (intro enc_fld [OF d ux]) auto
    then show "x = word_of_nat ?e" by simp
  qed
qed

section \<open>Clearing the column\<close>

lemma lpos_disjoint:
  "distinct (map fst L) \<Longrightarrow> (t, w) \<in> set L \<Longrightarrow> (s, k) \<in> set L \<Longrightarrow> t \<noteq> s \<Longrightarrow>
    lpos L t + w \<le> lpos L s \<or> lpos L s + k \<le> lpos L t"
  by (induction L) force+

text \<open>\<open>y\<close> is \<open>x\<close> with the bits of the fields in \<open>C\<close> cleared.\<close>

definition cleared :: "layout \<Rightarrow> string set \<Rightarrow> u64 \<Rightarrow> u64 \<Rightarrow> bool" where
  "cleared L C x y \<longleftrightarrow> (\<forall>n. bit y n \<longleftrightarrow>
     bit x n \<and> \<not> (\<exists>(t, w)\<in>set L. t \<in> C \<and> lpos L t \<le> n \<and> n < lpos L t + w))"

lemma bit_fld: "bit (fld (unat (x::u64)) p w) n \<longleftrightarrow> n < w \<and> bit x (p + n)"
  by (auto simp: fld_bits bit_simps)

lemma cleared_fld:
  assumes "distinct (map fst L)" "cleared L C x y" "(t, w) \<in> set L"
  shows "fld (unat y) (lpos L t) w = (if t \<in> C then 0 else fld (unat x) (lpos L t) w)"
proof (rule bit_eqI)
  fix n
  show "bit (fld (unat y) (lpos L t) w) n = bit (if t \<in> C then 0 else fld (unat x) (lpos L t) w) n"
  proof (cases "t \<in> C")
    case True
    then show ?thesis using assms by (auto simp: bit_fld cleared_def)
  next
    case False
    have "\<not> (\<exists>(s, k)\<in>set L. s \<in> C \<and> lpos L s \<le> lpos L t + n \<and> lpos L t + n < lpos L s + k)" if "n < w"
      using lpos_disjoint [OF assms(1,3)] False that by fastforce
    then show ?thesis using assms(2) False by (auto simp: bit_fld cleared_def)
  qed
qed

definition col_tokens :: "Config \<Rightarrow> string set" where
  "col_tokens cfg = (if mop_enabled cfg then {''hi'', ''lo''} else {''co''})"

lemma ResetColBits_cleared:
  assumes L: "layout_of cfg L" and bits: "0 \<le> shift_bits cfg" "shift_bits cfg + int (lbits L) < 64"
  shows "\<exists>y. ResetColBits cfg hex = Inr (push_bit (nat (shift_bits cfg)) y)
    \<and> cleared L (col_tokens cfg) (drop_bit (nat (shift_bits cfg)) hex) y"
proof -
  let ?x = "drop_bit (nat (shift_bits cfg)) hex"
  have d: "distinct (map fst L)" using L by (simp add: layout_of_def)
  have b: "lbits L < 64" using bits by linarith
  have sh: "shr64 hex (shift_bits cfg) = Inr ?x" "\<And>y. shl64 y (shift_bits cfg) = Inr (push_bit (nat (shift_bits cfg)) y)"
    using bits by (simp_all add: shr64_def shl64_def)
  have field: "\<exists>w. (t, w) \<in> set L \<and> shl64 (cfg_mask cfg t) (cfg_pos cfg t) = Inr (push_bit (lpos L t) (mask w))"
    if "t \<in> cfg_tokens cfg" for t
  proof -
    from L that have "t \<in> fst ` set L" by (simp add: layout_of_def)
    then obtain w where w: "(t, w) \<in> set L" by auto
    have "lpos L t < 64" using lpos_bound [OF w d] b by simp
    moreover have "cfg_pos cfg t = int (lpos L t)" "cfg_mask cfg t = mask w"
      using w L by (auto simp: layout_of_def)
    ultimately show ?thesis using w by (auto simp: shl64_def intro!: exI [of _ w])
  qed
  have uniq: "v = w" if "(t, v) \<in> set L" "(t, w) \<in> set L" for t v w
    using d that by (metis eq_key_imp_eq_value)
  have bm: "bit (push_bit p (mask w) :: u64) n \<longleftrightarrow> p \<le> n \<and> n < p + w \<and> n < 64" for p w n
    by (auto simp: bit_simps)
  show ?thesis
  proof (cases "mop_enabled cfg")
    case False
    then obtain w where w: "(''co'', w) \<in> set L" "shl64 (co_mask cfg) (co_pos cfg) = Inr (push_bit (lpos L ''co'') (mask w))"
      using field [of "''co''"] by (auto simp: cfg_tokens_def cfg_mask_def cfg_pos_def)
    have "cleared L (col_tokens cfg) ?x (?x AND NOT (push_bit (lpos L ''co'') (mask w)))"
      unfolding cleared_def using False w(1) uniq
      by (auto simp: col_tokens_def bit_and_iff bit_not_iff bm dest: bit_imp_le_length)
    moreover have "ResetColBits cfg hex
        = Inr (push_bit (nat (shift_bits cfg)) (?x AND NOT (push_bit (lpos L ''co'') (mask w))))"
      unfolding ResetColBits_def using w sh False by simp
    ultimately show ?thesis by blast
  next
    case True
    then obtain v w where w: "(''hi'', v) \<in> set L" "(''lo'', w) \<in> set L"
      "shl64 (hi_mask cfg) (hi_pos cfg) = Inr (push_bit (lpos L ''hi'') (mask v))"
      "shl64 (lo_mask cfg) (lo_pos cfg) = Inr (push_bit (lpos L ''lo'') (mask w))"
      using field [of "''hi''"] field [of "''lo''"] by (auto simp: cfg_tokens_def cfg_mask_def cfg_pos_def)
    have "cleared L (col_tokens cfg) ?x
      (?x AND NOT (push_bit (lpos L ''lo'') (mask w)) AND NOT (push_bit (lpos L ''hi'') (mask v)))"
      unfolding cleared_def using True w(1,2) uniq
      by (auto simp: col_tokens_def bit_and_iff bit_not_iff bm dest: bit_imp_le_length)
    moreover have "ResetColBits cfg hex = Inr (push_bit (nat (shift_bits cfg))
        (?x AND NOT (push_bit (lpos L ''lo'') (mask w)) AND NOT (push_bit (lpos L ''hi'') (mask v))))"
      unfolding ResetColBits_def using w sh True by simp
    ultimately show ?thesis by blast
  qed
qed

section \<open>Properties\<close>

lemma shift_nonneg: "SetAddressMapping cfg0 = Inr cfg \<Longrightarrow> 0 \<le> shift_bits cfg"
  by (erule SetAddressMapping_result) (simp add: map_result_def)

lemma tiny_mapping: "SetAddressMapping tiny_cfg = Inr tiny_cfg"
proof -
  have log: "LogBase2 64 = 6" "LogBase2 32 = 5" "LogBase2 16 = 4" "LogBase2 2 = 1" "LogBase2 1 = 0" "LogBase2 0 = 0"
    using LogBase2_power [of 6] LogBase2_power [of 5] LogBase2_power [of 4] LogBase2_power [of 1]
    by (simp_all add: LogBase2_nonpos)
  show ?thesis
    by (simp add: SetAddressMapping_def Let_def field_widths_def log set_field_pos_def set_field_masks_def
        width_mask_def map_at_def mask_of_def sdiv_nonneg)
qed

text \<open>
  C23. The address mapping is a bijection: for every mapping string \<open>SetAddressMapping\<close> accepts,
  with or without MOP, each in-range coordinate is the image of exactly one request-aligned
  address of the memory.
\<close>

theorem AddressMapping_bijective:
  assumes "SetAddressMapping cfg0 = Inr cfg" "\<not> mop_enabled cfg0"
    and "shift_bits cfg + mapped_bits cfg < 64" "in_coords cfg a"
  shows "\<exists>!x :: u64. uint x < 2 ^ nat (mapped_bits cfg) \<and>
    AddressMapping cfg (push_bit (nat (shift_bits cfg)) x) = Inr a"
proof -
  obtain L where L: "layout_of cfg L" using SetAddressMapping_layout [OF assms(1,2)] .
  have bits: "nat (mapped_bits cfg) = lbits L" "shift_bits cfg + int (lbits L) < 64"
    using assms(3) by (simp_all flip: lbits_mapped [OF L])
  show ?thesis unfolding bits(1)
    by (rule AddressMapping_encode [OF L shift_nonneg [OF assms(1)] bits(2) assms(4)])
qed

lemma log_small: "LogBase2 32 = 5" "LogBase2 16 = 4" "LogBase2 2 = 1" "LogBase2 1 = 0" "LogBase2 0 = 0"
  using LogBase2_power [of 5] LogBase2_power [of 4] LogBase2_power [of 1] by (simp_all add: LogBase2_nonpos)

theorem AddressMapping_bijective_witness:
  "SetAddressMapping tiny_cfg = Inr tiny_cfg \<and> in_coords tiny_cfg (mk_Address 0 0 1 0 13 1) \<and>
   (\<exists>!x :: u64. uint x < 2 ^ nat (mapped_bits tiny_cfg) \<and>
      AddressMapping tiny_cfg (push_bit (nat (shift_bits tiny_cfg)) x) = Inr (mk_Address 0 0 1 0 13 1))"
proof -
  have c: "in_coords tiny_cfg (mk_Address 0 0 1 0 13 1)" "shift_bits tiny_cfg + mapped_bits tiny_cfg < 64"
    by (simp_all add: in_coords_def below_def mapped_bits_def log_small)
  with AddressMapping_bijective [OF tiny_mapping _ c(2,1)] show ?thesis by (simp add: tiny_mapping)
qed

text \<open>
  Every 64-bit address decodes without a fault to coordinates inside the device.
\<close>

theorem AddressMapping_in_range:
  assumes "SetAddressMapping cfg0 = Inr cfg" "\<not> mop_enabled cfg0"
    and "shift_bits cfg + mapped_bits cfg < 64"
    and "0 < channels cfg" "0 < ranks cfg" "0 < bankgroups cfg" "0 < banks_per_group cfg" "0 < rows cfg"
  shows "okE (AddressMapping cfg hex) (\<lambda>a. 0 \<le> a_channel a \<and> a_channel a < channels cfg \<and>
    0 \<le> a_rank a \<and> a_rank a < ranks cfg \<and> 0 \<le> a_bankgroup a \<and> a_bankgroup a < bankgroups cfg \<and>
    0 \<le> a_bank a \<and> a_bank a < banks_per_group cfg \<and> 0 \<le> a_row a \<and> a_row a < rows cfg \<and>
    0 \<le> a_column a \<and> a_column a < 2 ^ nat (LogBase2 (columns cfg) - LogBase2 (BL cfg)))"
proof -
  obtain L where L: "layout_of cfg L" using SetAddressMapping_layout [OF assms(1,2)] .
  note sh = shift_nonneg [OF assms(1)]
  moreover from this have "lbits L < 64" "shift_bits cfg < 64" using assms(3) lbits_mapped [OF L] by auto
  ultimately obtain a where a: "AddressMapping cfg hex = Inr a" "in_coords cfg a"
    using AddressMapping_decode [OF L] by blast
  have lt: "v < n" if "below v (LogBase2 n)" "0 < n" for v n
    using that LogBase2_bounds [of n] by (auto simp: below_def)
  have nn: "0 \<le> v" if "below v n" for v n using that by (simp add: below_def)
  note c = a(2) [unfolded in_coords_def]
  then have "a_column a < 2 ^ nat (LogBase2 (columns cfg) - LogBase2 (BL cfg))" by (simp add: below_def)
  moreover have "a_channel a < channels cfg" "a_rank a < ranks cfg" "a_bankgroup a < bankgroups cfg"
    "a_bank a < banks_per_group cfg" "a_row a < rows cfg"
    using c assms(4-8) by (simp_all add: lt)
  moreover have "0 \<le> a_channel a" "0 \<le> a_rank a" "0 \<le> a_bankgroup a" "0 \<le> a_bank a" "0 \<le> a_row a" "0 \<le> a_column a"
    using c nn by blast+
  ultimately show ?thesis using a(1) by simp
qed

theorem AddressMapping_in_range_witness:
  "SetAddressMapping tiny_cfg = Inr tiny_cfg \<and>
   okE (AddressMapping tiny_cfg 0xFFFFFFFF) (\<lambda>a. 0 \<le> a_row a \<and> a_row a < rows tiny_cfg)"
proof -
  have "shift_bits tiny_cfg + mapped_bits tiny_cfg < 64" by (simp add: mapped_bits_def log_small)
  with AddressMapping_in_range [OF tiny_mapping, of "0xFFFFFFFF"] show ?thesis
    by (auto simp: tiny_mapping elim!: okE_mono)
qed

text \<open>
  \<open>ResetColBits\<close> names the row: the address it returns decodes to the same channel, rank, bank
  group, bank and row, with column 0.
\<close>

theorem ResetColBits_row:
  assumes "SetAddressMapping cfg0 = Inr cfg" "\<not> mop_enabled cfg0"
    and "shift_bits cfg + mapped_bits cfg < 64" "AddressMapping cfg hex = Inr a"
  shows "okE (ResetColBits cfg hex) (\<lambda>h. AddressMapping cfg h = Inr (a\<lparr>a_column := 0\<rparr>))"
proof -
  obtain L where L: "layout_of cfg L" using SetAddressMapping_layout [OF assms(1,2)] .
  have d: "distinct (map fst L)" and tok: "fst ` set L = cfg_tokens cfg" using L by (simp_all add: layout_of_def)
  note sh = shift_nonneg [OF assms(1)]
  have b: "shift_bits cfg + int (lbits L) < 64" using assms(3) lbits_mapped [OF L] by simp
  then have b': "lbits L < 64" "shift_bits cfg < 64" using sh by auto
  let ?s = "nat (shift_bits cfg)" and ?x = "drop_bit (nat (shift_bits cfg)) hex"
  obtain y where y: "ResetColBits cfg hex = Inr (push_bit ?s y)" "cleared L (col_tokens cfg) ?x y"
    using ResetColBits_cleared [OF L sh b, of hex] by blast
  have undo: "drop_bit ?s (push_bit ?s y) = y"
  proof (rule bit_word_eqI)
    fix n
    assume "n < LENGTH(64)"
    have "bit y n \<longrightarrow> n + ?s < 64"
      using y(2) by (auto simp: cleared_def bit_simps dest: bit_imp_le_length)
    with \<open>n < LENGTH(64)\<close> show "bit (drop_bit ?s (push_bit ?s y)) n = bit y n" by (auto simp: bit_simps)
  qed
  obtain a' where a': "AddressMapping cfg (push_bit ?s y) = Inr a'" "in_coords cfg a'"
    "\<forall>(t, w)\<in>set L. coord cfg a' t = fld (unat y) (lpos L t) w"
    using AddressMapping_decode [OF L b'(1) sh b'(2), of "push_bit ?s y"] unfolding undo by blast
  have a: "in_coords cfg a" "\<forall>(t, w)\<in>set L. coord cfg a t = fld (unat ?x) (lpos L t) w"
    using AddressMapping_decode [OF L b'(1) sh b'(2), of hex] assms(4) by auto
  have "coord cfg a' t = (if t \<in> col_tokens cfg then 0 else coord cfg a t)" if "t \<in> cfg_tokens cfg" for t
  proof -
    obtain w where "(t, w) \<in> set L" using \<open>t \<in> cfg_tokens cfg\<close> tok by force
    with a'(3) a(2) cleared_fld [OF d y(2)] show ?thesis by fastforce
  qed
  moreover have "coord cfg (a\<lparr>a_column := 0\<rparr>) t = (if t \<in> col_tokens cfg then 0 else coord cfg a t)"
    if "t \<in> cfg_tokens cfg" for t
    using that by (auto simp: coord_def cfg_tokens_def col_tokens_def split: if_splits)
  moreover have "in_coords cfg (a\<lparr>a_column := 0\<rparr>)" using a(1) by (simp add: in_coords_def below_def)
  ultimately have "a' = a\<lparr>a_column := 0\<rparr>" using coord_inj [OF a'(2)] by simp
  with a'(1) y(1) show ?thesis by simp
qed

theorem ResetColBits_row_witness:
  "okE (AddressMapping tiny_cfg 0x1FC0) (\<lambda>a.
     okE (ResetColBits tiny_cfg 0x1FC0) (\<lambda>h. AddressMapping tiny_cfg h = Inr (a\<lparr>a_column := 0\<rparr>)))"
proof -
  have s: "shift_bits tiny_cfg + mapped_bits tiny_cfg < 64" by (simp add: mapped_bits_def log_small)
  have "AddressMapping tiny_cfg 0x1FC0 = Inr (mk_Address 0 0 1 1 15 1)"
    by (simp add: AddressMapping_def shr64_def addr_field_def to_int_def)
  with ResetColBits_row [OF tiny_mapping _ s this] show ?thesis by simp
qed

end
