(* ===== verification/Trackers.thy ===== *)
theory Trackers
  imports Bank_Track AddressMap
begin

unbundle bit_operations_syntax

text \<open>
  The activation trackers of a bank. \<open>activation_tracker\<close> is the interface both Graphene (a
  Misra-Gries table with a spill counter) and Hydra (group counters that split into row counters)
  implement: one activation raises the estimate of its row by at least one and lowers no other.
  The client lemma is that an estimate never falls below the number of activations of the row.
\<close>

locale activation_tracker =
  fixes invar :: "nat \<Rightarrow> 's \<Rightarrow> bool"
    and cap :: nat
    and ok :: "'c \<Rightarrow> bool"
    and row_of :: "'c \<Rightarrow> 'r"
    and est :: "'s \<Rightarrow> 'r \<Rightarrow> nat"
    and act :: "'c \<Rightarrow> 's \<Rightarrow> 's res"
  assumes act_step: "n < cap \<Longrightarrow> invar n s \<Longrightarrow> ok c \<Longrightarrow>
    okE (act c s) (\<lambda>s'. invar (Suc n) s' \<and> (\<forall>q. est s q + (if q = row_of c then 1 else 0) \<le> est s' q))"
begin

lemma estimate_never_undercounts:
  assumes "invar n s" "n + length cs \<le> cap" "\<forall>c\<in>set cs. ok c"
  shows "okE (foldE act cs s) (\<lambda>s'. invar (n + length cs) s' \<and>
    (\<forall>q. est s q + count_list (map row_of cs) q \<le> est s' q))"
  using assms
proof (induction cs arbitrary: n s)
  case (Cons c cs)
  obtain s1 where s1: "act c s = Inr s1" "invar (Suc n) s1"
    "\<forall>q. est s q + (if q = row_of c then 1 else 0) \<le> est s1 q"
    using act_step [of n s c] Cons.prems by (auto simp: okE_iff)
  obtain s2 where s2: "foldE act cs s1 = Inr s2" "invar (Suc n + length cs) s2"
    "\<forall>q. est s1 q + count_list (map row_of cs) q \<le> est s2 q"
    using Cons.IH [OF s1(2)] Cons.prems by (auto simp: okE_iff)
  have "est s q + count_list (map row_of (c # cs)) q \<le> est s2 q" for q
    using s1(3) [rule_format, of q] s2(3) [rule_format, of q] by (auto split: if_splits)
  with s1(1) s2(1,2) show ?case by simp
qed simp

end

section \<open>Graphene\<close>

definition graphene_est :: "BankState \<times> Env \<Rightarrow> u32 \<Rightarrow> nat" where
  "graphene_est s r = (case find (\<lambda>x. g_rowid x = r) (graphene_q (fst s)) of
     Some x \<Rightarrow> unat (g_ctr x) | None \<Rightarrow> unat (graphene_spill_counter (fst s)))"

text \<open>
  After \<open>n\<close> activations: every activation is counted once, in an entry or in the spill counter; no
  entry is below the spill counter; and spilling only starts when the table is full.
\<close>

definition graphene_inv :: "nat \<Rightarrow> BankState \<times> Env \<Rightarrow> bool" where
  "graphene_inv n s \<longleftrightarrow>
     (let q = graphene_q (fst s); sp = unat (graphene_spill_counter (fst s)) in
      distinct (map g_rowid q) \<and> length q \<le> unat (graphene_entries (fst s)) \<and>
      (\<forall>x\<in>set q. sp \<le> unat (g_ctr x)) \<and>
      (length q < unat (graphene_entries (fst s)) \<longrightarrow> sp = 0) \<and>
      (\<Sum>x\<leftarrow>q. unat (g_ctr x)) + sp = n)"

lemma upd_first_split:
  assumes "\<exists>x\<in>set xs. p x"
  obtains ys y zs where "xs = ys @ y # zs" "p y" "\<forall>z\<in>set ys. \<not> p z" "upd_first p f xs = ys @ f y # zs"
proof -
  have "\<exists>ys y zs. xs = ys @ y # zs \<and> p y \<and> (\<forall>z\<in>set ys. \<not> p z) \<and> upd_first p f xs = ys @ f y # zs"
    using assms
  proof (induction xs)
    case (Cons a xs)
    show ?case
    proof (cases "p a")
      case True
      then show ?thesis by (intro exI [of _ "[]"] exI [of _ a] exI [of _ xs]) simp
    next
      case False
      with Cons obtain ys y zs where "xs = ys @ y # zs" "p y" "\<forall>z\<in>set ys. \<not> p z" "upd_first p f xs = ys @ f y # zs"
        by auto
      with False show ?thesis by (intro exI [of _ "a # ys"] exI [of _ y] exI [of _ zs]) simp
    qed
  qed simp
  then show ?thesis using that by blast
qed

lemma find_key:
  "distinct (map k xs) \<Longrightarrow> find (\<lambda>x. k x = r) xs = Some x \<longleftrightarrow> x \<in> set xs \<and> k x = r"
  by (induction xs) (auto split: if_splits)

lemma find_key_None: "find (\<lambda>x. k x = r) xs = None \<longleftrightarrow> r \<notin> k ` set xs"
  by (auto simp: find_None_iff)

lemma graphene_est_in:
  assumes "graphene_inv n s" "x \<in> set (graphene_q (fst s))"
  shows "graphene_est s (g_rowid x) = unat (g_ctr x)"
proof -
  have "find (\<lambda>y. g_rowid y = g_rowid x) (graphene_q (fst s)) = Some x"
    using assms by (subst find_key) (auto simp: graphene_inv_def Let_def)
  then show ?thesis by (simp add: graphene_est_def)
qed

lemma graphene_est_out:
  "r \<notin> g_rowid ` set (graphene_q (fst s)) \<Longrightarrow> graphene_est s r = unat (graphene_spill_counter (fst s))"
proof -
  assume "r \<notin> g_rowid ` set (graphene_q (fst s))"
  then have "find (\<lambda>y. g_rowid y = r) (graphene_q (fst s)) = None" by (simp only: find_key_None) simp
  then show ?thesis by (simp add: graphene_est_def)
qed

lemma graphene_ctr_bound:
  assumes "graphene_inv n s" "x \<in> set (graphene_q (fst s))"
  shows "unat (g_ctr x) \<le> n"
proof -
  have "unat (g_ctr x) \<le> (\<Sum>y\<leftarrow>graphene_q (fst s). unat (g_ctr y))" using assms(2) by (intro member_le_sum_list) auto
  then show ?thesis using assms(1) by (simp add: graphene_inv_def Let_def)
qed

lemma int_less_uint: "int n < uint (w :: 'a::len word) \<longleftrightarrow> n < unat w"
  by (simp only: uint_nat of_nat_less_iff)

lemma unat16_Suc: "unat (c :: u16) < 65535 \<Longrightarrow> unat (c + 1) = Suc (unat c)"
  by (simp add: unat_word_ariths)

lemma unat64_Suc: "unat (c :: u64) < 65535 \<Longrightarrow> unat (c + 1) = Suc (unat c)"
  by (simp add: unat_word_ariths)

definition graphene_rank :: "nat \<Rightarrow> u32 \<Rightarrow> BankState \<times> Env \<Rightarrow> BankState \<times> Env \<Rightarrow> bool" where
  "graphene_rank n r s s' \<longleftrightarrow> graphene_inv (Suc n) s' \<and>
     (\<forall>q. graphene_est s q + (if q = r then 1 else 0) \<le> graphene_est s' q)"

text \<open>
  A step that replaces the entry \<open>y\<close> by \<open>y'\<close>, where the row of \<open>y'\<close> is the one of \<open>y\<close> or is new to a
  table in which \<open>y\<close> is at the spill level.
\<close>

lemma graphene_replace:
  assumes inv: "graphene_inv n s" and q: "graphene_q (fst s) = ys @ y # zs"
    and s': "graphene_q (fst s') = ys @ y' # zs" "graphene_spill_counter (fst s') = graphene_spill_counter (fst s)"
      "graphene_entries (fst s') = graphene_entries (fst s)"
    and y': "g_rowid y' = r" "unat (g_ctr y') = Suc (unat (g_ctr y))"
    and r: "g_rowid y = r \<or> r \<notin> g_rowid ` set (graphene_q (fst s)) \<and> unat (g_ctr y) = unat (graphene_spill_counter (fst s))"
  shows "graphene_rank n r s s'"
proof -
  have inv': "graphene_inv (Suc n) s'"
    using inv q s' y' r by (auto simp: graphene_inv_def Let_def)
  have "graphene_est s p + (if p = r then 1 else 0) \<le> graphene_est s' p" for p
  proof (cases "p = r")
    case True
    have "graphene_est s' r = Suc (unat (g_ctr y))"
      using graphene_est_in [OF inv', of y'] s' y' by simp
    moreover have "graphene_est s r \<le> unat (g_ctr y)"
      using r graphene_est_in [OF inv, of y] graphene_est_out [of r s] q by auto
    ultimately show ?thesis using True by simp
  next
    case False
    show ?thesis
    proof (cases "p \<in> g_rowid ` (set ys \<union> set zs)")
      case True
      then obtain x where x: "x \<in> set ys \<union> set zs" "g_rowid x = p" by auto
      then show ?thesis
        using graphene_est_in [OF inv, of x] graphene_est_in [OF inv', of x] q s' False by auto
    next
      case out: False
      have "graphene_est s' p = unat (graphene_spill_counter (fst s))"
        using graphene_est_out [of p s'] out False s' y' by auto
      moreover have "graphene_est s p = unat (graphene_spill_counter (fst s))"
      proof (cases "p = g_rowid y")
        case True
        with False r have "unat (g_ctr y) = unat (graphene_spill_counter (fst s))" by auto
        with True graphene_est_in [OF inv, of y] q show ?thesis by simp
      next
        case False
        with out graphene_est_out [of p s] q show ?thesis by auto
      qed
      ultimately show ?thesis using False by simp
    qed
  qed
  with inv' show ?thesis by (simp add: graphene_rank_def)
qed

lemma ucast_ctr: "unat (ucast (c :: u16) :: u64) = unat c"
proof -
  have "unat c < 2 ^ 16" using unsigned_less [of c] by simp
  then show ?thesis by (simp add: unsigned_ucast_eq take_bit_nat_eq_self)
qed

lemma graphene_append:
  assumes inv: "graphene_inv n s" and free: "length (graphene_q (fst s)) < unat (graphene_entries (fst s))"
    and new: "r \<notin> g_rowid ` set (graphene_q (fst s))"
    and s': "graphene_q (fst s') = graphene_q (fst s) @ [\<lparr>g_rowid = r, g_ctr = 1\<rparr>]"
      "graphene_spill_counter (fst s') = graphene_spill_counter (fst s)"
      "graphene_entries (fst s') = graphene_entries (fst s)"
  shows "graphene_rank n r s s'"
proof -
  have sp: "unat (graphene_spill_counter (fst s)) = 0" using inv free by (simp add: graphene_inv_def Let_def)
  have inv': "graphene_inv (Suc n) s'" using inv free new s' sp by (auto simp: graphene_inv_def Let_def)
  have "graphene_est s p + (if p = r then 1 else 0) \<le> graphene_est s' p" for p
  proof (cases "p \<in> g_rowid ` set (graphene_q (fst s))")
    case True
    then obtain x where "x \<in> set (graphene_q (fst s))" "g_rowid x = p" by auto
    then show ?thesis using graphene_est_in [OF inv, of x] graphene_est_in [OF inv', of x] new s'(1) by auto
  next
    case False
    then have "graphene_est s p = 0" using graphene_est_out sp by simp
    moreover have "graphene_est s' r = 1"
      using graphene_est_in [OF inv', of "\<lparr>g_rowid = r, g_ctr = 1\<rparr>"] s'(1) by simp
    ultimately show ?thesis by auto
  qed
  with inv' show ?thesis by (simp add: graphene_rank_def)
qed

lemma graphene_spill:
  assumes inv: "graphene_inv n s" and full: "\<not> length (graphene_q (fst s)) < unat (graphene_entries (fst s))"
    and new: "r \<notin> g_rowid ` set (graphene_q (fst s))"
    and none: "\<forall>x\<in>set (graphene_q (fst s)). unat (g_ctr x) \<noteq> unat (graphene_spill_counter (fst s))"
    and s': "graphene_q (fst s') = graphene_q (fst s)"
      "unat (graphene_spill_counter (fst s')) = Suc (unat (graphene_spill_counter (fst s)))"
      "graphene_entries (fst s') = graphene_entries (fst s)"
  shows "graphene_rank n r s s'"
proof -
  have inv': "graphene_inv (Suc n) s'"
    using inv full none s' by (auto simp: graphene_inv_def Let_def Suc_le_eq le_neq_implies_less)
  have "graphene_est s p + (if p = r then 1 else 0) \<le> graphene_est s' p" for p
  proof (cases "p \<in> g_rowid ` set (graphene_q (fst s))")
    case True
    then obtain x where "x \<in> set (graphene_q (fst s))" "g_rowid x = p" by auto
    then show ?thesis using graphene_est_in [OF inv, of x] graphene_est_in [OF inv', of x] new s'(1) by auto
  next
    case False
    then show ?thesis using graphene_est_out [of p s] graphene_est_out [of p s'] s' by simp
  qed
  with inv' show ?thesis by (simp add: graphene_rank_def)
qed

lemma graphene_count_step:
  assumes inv: "graphene_inv n s" and n: "n < 65535"
  shows "graphene_rank n r s (graphene_count r s)"
proof -
  obtain b e where s: "s = (b, e)" by force
  let ?q = "graphene_q b" and ?sp = "graphene_spill_counter b"
  have bound: "unat (g_ctr x) < 65535" if "x \<in> set ?q" for x
    using graphene_ctr_bound [OF inv, of x] that n by (simp add: s)
  have spb: "unat ?sp < 65535" using inv n by (auto simp: graphene_inv_def Let_def s)
  have ctr: "ucast (g_ctr x) = ?sp \<longleftrightarrow> unat (g_ctr x) = unat ?sp" for x
    by (simp add: word_unat_eq_iff ucast_ctr)
  consider (hit) "\<exists>x\<in>set ?q. g_rowid x = r"
    | (free) "\<not> (\<exists>x\<in>set ?q. g_rowid x = r)" "int (length ?q) < uint (graphene_entries b)"
    | (low) "\<not> (\<exists>x\<in>set ?q. g_rowid x = r)" "\<not> int (length ?q) < uint (graphene_entries b)"
        "\<exists>x\<in>set ?q. ucast (g_ctr x) = ?sp"
    | (spill) "\<not> (\<exists>x\<in>set ?q. g_rowid x = r)" "\<not> int (length ?q) < uint (graphene_entries b)"
        "\<not> (\<exists>x\<in>set ?q. ucast (g_ctr x) = ?sp)" by blast
  then show ?thesis
  proof cases
    case hit
    then obtain ys y zs where y: "?q = ys @ y # zs" "g_rowid y = r"
      "upd_first (\<lambda>x. g_rowid x = r) (\<lambda>x. x\<lparr>g_ctr := g_ctr x + 1\<rparr>) ?q = ys @ y\<lparr>g_ctr := g_ctr y + 1\<rparr> # zs"
      by (rule upd_first_split)
    then show ?thesis
      using hit bound [of y] by (intro graphene_replace [OF inv, of ys y zs _ "y\<lparr>g_ctr := g_ctr y + 1\<rparr>"])
        (auto simp: s graphene_count_def Let_def unat16_Suc)
  next
    case free
    then show ?thesis
      by (intro graphene_append [OF inv]) (auto simp: s graphene_count_def Let_def int_less_uint)
  next
    case low
    from low(3) obtain ys y zs where y: "?q = ys @ y # zs" "ucast (g_ctr y) = ?sp"
      "upd_first (\<lambda>x. ucast (g_ctr x) = ?sp) (\<lambda>x. x\<lparr>g_rowid := r, g_ctr := ucast (?sp + 1)\<rparr>) ?q
         = ys @ y\<lparr>g_rowid := r, g_ctr := ucast (?sp + 1)\<rparr> # zs"
      by (rule upd_first_split)
    have "unat (ucast (?sp + 1) :: u16) = Suc (unat ?sp)"
      using spb by (simp add: unsigned_ucast_eq unat64_Suc take_bit_nat_eq_self)
    then show ?thesis
      using low y ctr [of y] 
      by (intro graphene_replace [OF inv, of ys y zs _ "y\<lparr>g_rowid := r, g_ctr := ucast (?sp + 1)\<rparr>"])
        (auto simp: s graphene_count_def Let_def)
  next
    case spill
    then show ?thesis
      using spb ctr by (intro graphene_spill [OF inv])
        (auto simp: s graphene_count_def Let_def int_less_uint unat64_Suc)
  qed
qed

interpretation graphene: activation_tracker graphene_inv 65535 "\<lambda>_. True" "\<lambda>r. r" graphene_est "\<lambda>r s. Inr (graphene_count r s)"
  by unfold_locales (use graphene_count_step in \<open>simp add: graphene_rank_def\<close>)

lemma foldE_Inr: "foldE (\<lambda>x s. Inr (f x s)) xs s = Inr (fold f xs s)"
  by (rule foldE_fold) simp

lemma graphene_run:
  assumes "graphene_inv n s" "n + length rs \<le> 65535"
  shows "graphene_inv (n + length rs) (fold graphene_count rs s) \<and>
    graphene_est s q + count_list rs q \<le> graphene_est (fold graphene_count rs s) q"
  using graphene.estimate_never_undercounts [OF assms] by (simp add: foldE_Inr)

lemma graphene_spill_bound:
  assumes "graphene_inv n s"
  shows "unat (graphene_spill_counter (fst s)) * Suc (unat (graphene_entries (fst s))) \<le> n"
proof (cases "length (graphene_q (fst s)) < unat (graphene_entries (fst s))")
  case True
  then show ?thesis using assms by (simp add: graphene_inv_def Let_def)
next
  case False
  let ?q = "graphene_q (fst s)" and ?sp = "unat (graphene_spill_counter (fst s))"
  have "(\<Sum>x\<leftarrow>?q. ?sp) \<le> (\<Sum>x\<leftarrow>?q. unat (g_ctr x))"
    using assms by (intro sum_list_mono) (auto simp: graphene_inv_def Let_def)
  moreover have "length ?q = unat (graphene_entries (fst s))" using assms False by (auto simp: graphene_inv_def Let_def)
  ultimately show ?thesis using assms by (simp add: graphene_inv_def Let_def sum_list_triv algebra_simps)
qed



lemma max_element_one: "max_element f [x] = Some 0"
  by (simp add: max_element_def max_idx_from.simps [of f "[x]" 0 "Suc 0"])

lemma max_element_two: "max_element f [x, y] = Some (if f x < f y then 1 else 0)"
  by (simp add: max_element_def max_idx_from.simps [of f "[x, y]" _ "Suc 0"] max_idx_from.simps [of f "[x, y]" _ "Suc (Suc 0)"])


end
