(* ===== verification/Timing.thy ===== *)
theory Timing
  imports Config
begin

text \<open>
  timing.h and timing.cc: the table of minimum distances between commands. The seven vectors of
  the class are the seven relations of \<open>TimingScope\<close>; the entries a command imposes are one
  definition per command, in the order of the constructor.
\<close>

datatype TimingScope =
    same_bank | other_banks_same_bankgroup | other_bankgroups_same_rank | other_ranks
  | same_rank | same_bankset | other_banksets

type_synonym entries = "(CommandType \<times> int) list"

definition read_to_read_l :: "Config \<Rightarrow> int" where
  "read_to_read_l cfg = (if bankgroups cfg = 1 then max (burst_cycle cfg) (tCCD_S cfg)
     else max (burst_cycle cfg) (tCCD_L cfg))"

definition read_to_read_s :: "Config \<Rightarrow> int" where
  "read_to_read_s cfg = max (burst_cycle cfg) (tCCD_S cfg)"

definition read_to_read_o :: "Config \<Rightarrow> int" where
  "read_to_read_o cfg = burst_cycle cfg + tRTRS cfg"

definition read_to_write :: "Config \<Rightarrow> int" where
  "read_to_write cfg = RL cfg + burst_cycle cfg - WL cfg + tRTRS cfg"

definition read_to_write_o :: "Config \<Rightarrow> int" where
  "read_to_write_o cfg = read_delay cfg + burst_cycle cfg + tRTRS cfg - write_delay cfg"

definition read_to_precharge :: "Config \<Rightarrow> int" where
  "read_to_precharge cfg = AL cfg + tRTP cfg"

definition readp_to_act :: "Config \<Rightarrow> int" where
  "readp_to_act cfg = AL cfg + burst_cycle cfg + tRTP cfg + tRP cfg"

definition write_to_read_l :: "Config \<Rightarrow> int" where
  "write_to_read_l cfg = (if bankgroups cfg = 1 then write_delay cfg + tWTR_S cfg
     else write_delay cfg + tWTR_L cfg)"

definition write_to_read_s :: "Config \<Rightarrow> int" where
  "write_to_read_s cfg = write_delay cfg + tWTR_S cfg"

definition write_to_read_o :: "Config \<Rightarrow> int" where
  "write_to_read_o cfg = write_delay cfg + burst_cycle cfg + tRTRS cfg - read_delay cfg"

definition write_to_write_l :: "Config \<Rightarrow> int" where
  "write_to_write_l cfg = (if bankgroups cfg = 1 then max (burst_cycle cfg) (tCCD_S cfg)
     else max (burst_cycle cfg) (tCCD_L cfg))"

definition write_to_write_s :: "Config \<Rightarrow> int" where
  "write_to_write_s cfg = max (burst_cycle cfg) (tCCD_S cfg)"

definition write_to_precharge :: "Config \<Rightarrow> int" where
  "write_to_precharge cfg = WL cfg + burst_cycle cfg + tWR cfg"

definition read_to_activate :: "Config \<Rightarrow> int" where
  "read_to_activate cfg = read_to_precharge cfg + tRP cfg"

definition write_to_activate :: "Config \<Rightarrow> int" where
  "write_to_activate cfg = write_to_precharge cfg + tRP cfg"

definition activate_to_activate_l :: "Config \<Rightarrow> int" where
  "activate_to_activate_l cfg = (if bankgroups cfg = 1 then tRRD_S cfg else tRRD_L cfg)"

definition activate_to_read :: "Config \<Rightarrow> int" where
  "activate_to_read cfg = (if IsGDDR cfg \<or> IsHBM cfg then tRCDRD cfg else tRCD cfg - AL cfg)"

definition activate_to_write :: "Config \<Rightarrow> int" where
  "activate_to_write cfg = (if IsGDDR cfg \<or> IsHBM cfg then tRCDWR cfg else tRCD cfg - AL cfg)"

section \<open>The entries of each command\<close>

text \<open>The four column commands after a read with distance \<open>r\<close> and after a write with \<open>w\<close>.\<close>

definition rw_entries :: "int \<Rightarrow> int \<Rightarrow> entries" where
  "rw_entries r w = [(READ, r), (WRITE, w), (READ_PRECHARGE, r), (WRITE_PRECHARGE, w)]"

definition precharges :: "int \<Rightarrow> entries" where
  "precharges d = [(PRECHARGE, d), (PREab, d), (PREsb, d)]"

definition to_each :: "int \<Rightarrow> CommandType list \<Rightarrow> entries" where
  "to_each d cts = map (\<lambda>ct. (ct, d)) cts"

fun READ_timing :: "Config \<Rightarrow> TimingScope \<Rightarrow> entries" where
  "READ_timing cfg same_bank =
     rw_entries (read_to_read_l cfg) (read_to_write cfg) @ precharges (read_to_precharge cfg)"
| "READ_timing cfg other_banks_same_bankgroup = rw_entries (read_to_read_l cfg) (read_to_write cfg)"
| "READ_timing cfg other_bankgroups_same_rank = rw_entries (read_to_read_s cfg) (read_to_write cfg)"
| "READ_timing cfg other_ranks = rw_entries (read_to_read_o cfg) (read_to_write_o cfg)"
| "READ_timing cfg _ = []"

fun WRITE_timing :: "Config \<Rightarrow> TimingScope \<Rightarrow> entries" where
  "WRITE_timing cfg same_bank =
     rw_entries (write_to_read_l cfg) (write_to_write_l cfg) @ precharges (write_to_precharge cfg)"
| "WRITE_timing cfg other_banks_same_bankgroup = rw_entries (write_to_read_l cfg) (write_to_write_l cfg)"
| "WRITE_timing cfg other_bankgroups_same_rank = rw_entries (write_to_read_s cfg) (write_to_write_s cfg)"
| "WRITE_timing cfg other_ranks = rw_entries (write_to_read_o cfg) (burst_cycle cfg)"
| "WRITE_timing cfg _ = []"

fun READ_PRECHARGE_timing :: "Config \<Rightarrow> TimingScope \<Rightarrow> entries" where
  "READ_PRECHARGE_timing cfg same_bank =
     (ACTIVATE, readp_to_act cfg) # to_each (read_to_activate cfg)
       [REFsb, REFab, REFRESH_BANK, SREF_ENTER, RFMsb, RFMab, DRFMsb, DRFMab, DRFMb]"
| "READ_PRECHARGE_timing cfg other_banks_same_bankgroup = rw_entries (read_to_read_l cfg) (read_to_write cfg)"
| "READ_PRECHARGE_timing cfg other_bankgroups_same_rank = rw_entries (read_to_read_s cfg) (read_to_write cfg)"
| "READ_PRECHARGE_timing cfg other_ranks = rw_entries (read_to_read_o cfg) (read_to_write_o cfg)"
| "READ_PRECHARGE_timing cfg _ = []"

fun WRITE_PRECHARGE_timing :: "Config \<Rightarrow> TimingScope \<Rightarrow> entries" where
  "WRITE_PRECHARGE_timing cfg same_bank =
     to_each (write_to_activate cfg)
       [ACTIVATE, REFsb, REFab, REFRESH_BANK, SREF_ENTER, RFMab, RFMsb, DRFMab, DRFMsb, DRFMb]"
| "WRITE_PRECHARGE_timing cfg other_banks_same_bankgroup = rw_entries (write_to_read_l cfg) (write_to_write_l cfg)"
| "WRITE_PRECHARGE_timing cfg other_bankgroups_same_rank = rw_entries (write_to_read_s cfg) (write_to_write_s cfg)"
| "WRITE_PRECHARGE_timing cfg other_ranks = rw_entries (write_to_read_o cfg) (burst_cycle cfg)"
| "WRITE_PRECHARGE_timing cfg _ = []"

fun ACTIVATE_timing :: "Config \<Rightarrow> TimingScope \<Rightarrow> entries" where
  "ACTIVATE_timing cfg same_bank =
     (ACTIVATE, tRC cfg) # rw_entries (activate_to_read cfg) (activate_to_write cfg) @ precharges (tRAS cfg)"
| "ACTIVATE_timing cfg other_banks_same_bankgroup =
     [(ACTIVATE, activate_to_activate_l cfg), (REFRESH_BANK, tRC cfg), (REFsb, tRRD_L cfg)]"
| "ACTIVATE_timing cfg other_bankgroups_same_rank =
     [(ACTIVATE, tRRD_S cfg), (REFRESH_BANK, tRC cfg), (REFsb, tRRD_L cfg)]"
| "ACTIVATE_timing cfg _ = []"

text \<open>\<open>PRECHARGE\<close>, \<open>PREab\<close> and \<open>PREsb\<close> impose the same distances.\<close>

fun PRECHARGE_timing :: "Config \<Rightarrow> TimingScope \<Rightarrow> entries" where
  "PRECHARGE_timing cfg same_bank =
     to_each (tRP cfg)
       [ACTIVATE, REFab, REFsb, REFRESH_BANK, SREF_ENTER, RFMab, RFMsb, DRFMab, DRFMsb, DRFMb]
     @ precharges (tPPD cfg)"
| "PRECHARGE_timing cfg other_banks_same_bankgroup =
     (if IsGDDR cfg \<or> protocol cfg = LPDDR4 \<or> protocol cfg = DDR5 then precharges (tPPD cfg) else [])"
| "PRECHARGE_timing cfg other_bankgroups_same_rank =
     (if IsGDDR cfg \<or> protocol cfg = LPDDR4 \<or> protocol cfg = DDR5 then precharges (tPPD cfg) else [])"
| "PRECHARGE_timing cfg _ = []"

fun REFRESH_BANK_timing :: "Config \<Rightarrow> TimingScope \<Rightarrow> entries" where
  "REFRESH_BANK_timing cfg same_rank =
     to_each (tRFCb cfg) [ACTIVATE, REFsb, REFab, REFRESH_BANK, SREF_ENTER]"
| "REFRESH_BANK_timing cfg other_banks_same_bankgroup = [(ACTIVATE, tRFC cfg), (REFRESH_BANK, tREFIb cfg)]"
| "REFRESH_BANK_timing cfg other_bankgroups_same_rank = [(ACTIVATE, tRFC cfg), (REFRESH_BANK, tREFIb cfg)]"
| "REFRESH_BANK_timing cfg _ = []"

fun DRFMb_timing :: "Config \<Rightarrow> TimingScope \<Rightarrow> entries" where
  "DRFMb_timing cfg same_bank =
     to_each (tDRFMb cfg) [ACTIVATE, REFsb, REFab, REFRESH_BANK, SREF_ENTER, RFMab, RFMsb, DRFMb]"
| "DRFMb_timing cfg _ = []"

fun REFab_timing :: "Config \<Rightarrow> TimingScope \<Rightarrow> entries" where
  "REFab_timing cfg same_rank =
     to_each (tRFC cfg) [ACTIVATE, REFab, REFsb, SREF_ENTER, RFMab, RFMsb, DRFMab, DRFMsb, DRFMb]"
| "REFab_timing cfg _ = []"

fun SREF_ENTER_timing :: "Config \<Rightarrow> TimingScope \<Rightarrow> entries" where
  "SREF_ENTER_timing cfg same_rank = [(SREF_EXIT, tCKESR cfg)]"
| "SREF_ENTER_timing cfg _ = []"

fun SREF_EXIT_timing :: "Config \<Rightarrow> TimingScope \<Rightarrow> entries" where
  "SREF_EXIT_timing cfg same_rank =
     to_each (tXS cfg) [ACTIVATE, REFsb, REFab, REFRESH_BANK, SREF_ENTER]"
| "SREF_EXIT_timing cfg _ = []"

fun RFMab_timing :: "Config \<Rightarrow> TimingScope \<Rightarrow> entries" where
  "RFMab_timing cfg same_rank =
     to_each (tRFM cfg)
       [ACTIVATE, REFsb, REFab, REFRESH_BANK, SREF_ENTER, RFMab, RFMsb, DRFMab, DRFMsb, DRFMb]"
| "RFMab_timing cfg _ = []"

fun DRFMab_timing :: "Config \<Rightarrow> TimingScope \<Rightarrow> entries" where
  "DRFMab_timing cfg same_rank =
     to_each (tDRFMab cfg) [ACTIVATE, REFsb, REFab, REFRESH_BANK, SREF_ENTER, RFMab, RFMsb, DRFMab]"
| "DRFMab_timing cfg _ = []"

fun RFMsb_timing :: "Config \<Rightarrow> TimingScope \<Rightarrow> entries" where
  "RFMsb_timing cfg same_bankset =
     to_each (tRFMsb cfg)
       [ACTIVATE, REFsb, REFab, REFRESH_BANK, SREF_ENTER, RFMsb, DRFMab, DRFMsb, DRFMb]"
| "RFMsb_timing cfg _ = []"

fun DRFMsb_timing :: "Config \<Rightarrow> TimingScope \<Rightarrow> entries" where
  "DRFMsb_timing cfg same_bankset =
     to_each (tDRFMsb cfg)
       [ACTIVATE, REFsb, REFab, REFRESH_BANK, SREF_ENTER, RFMab, RFMsb, DRFMab, DRFMsb, DRFMb]"
| "DRFMsb_timing cfg _ = []"

fun REFsb_timing :: "Config \<Rightarrow> TimingScope \<Rightarrow> entries" where
  "REFsb_timing cfg same_bankset =
     to_each (tRFCsb cfg) [ACTIVATE, REFsb, REFab, SREF_ENTER, RFMab, RFMsb, DRFMab, DRFMsb, DRFMb]"
| "REFsb_timing cfg other_banksets = [(ACTIVATE, tREFSBRD cfg)]"
| "REFsb_timing cfg _ = []"

text \<open>
  The whole table. The vectors have \<open>SIZE\<close> entries, so the row of \<open>SIZE\<close> itself does not exist;
  it is empty here and is never selected, since only valid commands are timed.
\<close>

fun timing :: "Config \<Rightarrow> TimingScope \<Rightarrow> CommandType \<Rightarrow> entries" where
  "timing cfg sc READ = READ_timing cfg sc"
| "timing cfg sc WRITE = WRITE_timing cfg sc"
| "timing cfg sc READ_PRECHARGE = READ_PRECHARGE_timing cfg sc"
| "timing cfg sc WRITE_PRECHARGE = WRITE_PRECHARGE_timing cfg sc"
| "timing cfg sc ACTIVATE = ACTIVATE_timing cfg sc"
| "timing cfg sc PRECHARGE = PRECHARGE_timing cfg sc"
| "timing cfg sc PREab = PRECHARGE_timing cfg sc"
| "timing cfg sc PREsb = PRECHARGE_timing cfg sc"
| "timing cfg sc REFRESH_BANK = REFRESH_BANK_timing cfg sc"
| "timing cfg sc DRFMb = DRFMb_timing cfg sc"
| "timing cfg sc REFab = REFab_timing cfg sc"
| "timing cfg sc SREF_ENTER = SREF_ENTER_timing cfg sc"
| "timing cfg sc SREF_EXIT = SREF_EXIT_timing cfg sc"
| "timing cfg sc RFMab = RFMab_timing cfg sc"
| "timing cfg sc DRFMab = DRFMab_timing cfg sc"
| "timing cfg sc RFMsb = RFMsb_timing cfg sc"
| "timing cfg sc DRFMsb = DRFMsb_timing cfg sc"
| "timing cfg sc REFsb = REFsb_timing cfg sc"
| "timing cfg sc SIZE = []"

end
