(* ===== verification/Channel_State.thy ===== *)
theory Channel_State
  imports Trackers Timing
begin

unbundle bit_operations_syntax

text \<open>
  channel_state.h and channel_state.cc, part one: the state of a channel (its banks, the queues of
  refresh, RFM and Hydra commands, the activation windows, the alert pins and the tables of DREAM,
  CACTUS and ABACUS), its constructor, the queue operations, and the activation windows. The
  environment \<open>c_env\<close> is what \<open>simple_stats_\<close>, \<open>config_.hydra_rcc\<close> and \<open>rand()\<close> refer to.
\<close>

section \<open>The state\<close>

record ABACUS_Entry =
  rac :: u32
  sav :: u64

record chan_core =
  c_env :: Env
  rank_idle_cycles :: "int list"
  hydra_wb_draining :: bool
  c_channel :: int
  last_bus_access_time :: u64
  bursty_access_count :: u64
  rank_is_sref :: "bool list"
  bank_states :: "BankState list list list"
  refresh_q :: "Command list"
  rfm_q :: "Command list"
  hydra_rd_q :: "Command list"
  hydra_wb_q :: "Command list"
  c_ref_idx :: u32
  c_fgr_counter :: u32
  four_aw :: "u64 list list"
  thirty_two_aw :: "u64 list list"

record chan_dream = chan_core +
  alert_n :: bool
  last_alert_clk :: u64
  alert_rank :: int
  num_acts_abo :: int
  dream_resets_stat :: string
  tusc :: "u32 list"
  tusc_prev :: "u32 list"
  random_masks :: "u32 list"
  tusc_size :: u32
  tusc_q :: "u32 list"

record ChannelState = chan_dream +
  cactus_resets_stat :: string
  cactus :: "u32 list"
  cactus_prev :: "u32 list"
  cactus_row_perms :: "u32 list"
  cactus_inv_row_perms :: "u32 list"
  cactus_size :: u32
  cactus_pending_counter_idx :: "int list"
  cactus_alert_pending :: "bool list"
  cactus_last_alert_clk :: "u64 list"
  cactus_rfm_inflight :: "bool list"
  cactus_acts_since_rfm :: "int list"
  cactus_tref_refab_count :: "int list"
  cactus_tref_max_counter_idx :: "int list"
  abacus_table :: "ABACUS_Entry list"
  abacus_q :: "u32 list"
  abacus_entries :: u32
  abacus_resets_stat :: string

section \<open>Access to the banks\<close>

text \<open>\<open>bank_states_[rank][bankgroup][bank]\<close>, read, written, and updated by a method call.\<close>

definition bank_at :: "ChannelState \<Rightarrow> int \<Rightarrow> int \<Rightarrow> int \<Rightarrow> BankState res" where
  "bank_at cs r j k = bindE (vget (bank_states cs) r) (\<lambda>rs. bindE (vget rs j) (\<lambda>bs. vget bs k))"

definition set_bank :: "ChannelState \<Rightarrow> int \<Rightarrow> int \<Rightarrow> int \<Rightarrow> BankState \<Rightarrow> ChannelState res" where
  "set_bank cs r j k b =
     bindE (vget (bank_states cs) r) (\<lambda>rs. bindE (vget rs j) (\<lambda>bs.
     bindE (vset bs k b) (\<lambda>bs. bindE (vset rs j bs) (\<lambda>rs.
     bindE (vset (bank_states cs) r rs) (\<lambda>rss. Inr (cs\<lparr>bank_states := rss\<rparr>))))))"

definition upd_bank :: "int \<Rightarrow> int \<Rightarrow> int \<Rightarrow> (BankState \<Rightarrow> BankState res) \<Rightarrow> ChannelState \<Rightarrow> ChannelState res" where
  "upd_bank r j k f cs = bindE (bank_at cs r j k) (\<lambda>b. bindE (f b) (\<lambda>b. set_bank cs r j k b))"

definition upd_bank_env ::
    "int \<Rightarrow> int \<Rightarrow> int \<Rightarrow> (BankState \<times> Env \<Rightarrow> (BankState \<times> Env) res) \<Rightarrow> ChannelState \<Rightarrow> ChannelState res" where
  "upd_bank_env r j k f cs =
     bindE (bank_at cs r j k) (\<lambda>b. bindE (f (b, c_env cs)) (\<lambda>(b, e). set_bank (cs\<lparr>c_env := e\<rparr>) r j k b))"

text \<open>The nested loops over the banks of a rank and of the channel, and over one bank of each group.\<close>

definition for_rank :: "Config \<Rightarrow> (int \<Rightarrow> int \<Rightarrow> ChannelState \<Rightarrow> ChannelState res) \<Rightarrow> ChannelState \<Rightarrow> ChannelState res" where
  "for_rank cfg f = forE (bankgroups cfg) (\<lambda>j. forE (banks_per_group cfg) (\<lambda>k. f j k))"

definition for_channel ::
    "Config \<Rightarrow> (int \<Rightarrow> int \<Rightarrow> int \<Rightarrow> ChannelState \<Rightarrow> ChannelState res) \<Rightarrow> ChannelState \<Rightarrow> ChannelState res" where
  "for_channel cfg f = forE (ranks cfg) (\<lambda>i. for_rank cfg (f i))"

definition c_stat_inc :: "string \<Rightarrow> ChannelState \<Rightarrow> ChannelState" where
  "c_stat_inc name cs = cs\<lparr>c_env := stat_inc (c_env cs) name\<rparr>"

definition c_IsRowOpen :: "ChannelState \<Rightarrow> int \<Rightarrow> int \<Rightarrow> int \<Rightarrow> bool res" where
  "c_IsRowOpen cs r j k = bindE (bank_at cs r j k) (\<lambda>b. Inr (bank_IsRowOpen b))"

definition c_OpenRow :: "ChannelState \<Rightarrow> int \<Rightarrow> int \<Rightarrow> int \<Rightarrow> int res" where
  "c_OpenRow cs r j k = bindE (bank_at cs r j k) (\<lambda>b. Inr (open_row b))"

definition c_RowHitCount :: "ChannelState \<Rightarrow> int \<Rightarrow> int \<Rightarrow> int \<Rightarrow> int res" where
  "c_RowHitCount cs r j k = bindE (bank_at cs r j k) (\<lambda>b. Inr (row_hit_count b))"

definition c_IsInDRFM :: "ChannelState \<Rightarrow> int \<Rightarrow> int \<Rightarrow> int \<Rightarrow> bool res" where
  "c_IsInDRFM cs r j k = bindE (bank_at cs r j k) (\<lambda>b. Inr (bank_IsInDRFM b))"

definition c_IsInREF :: "ChannelState \<Rightarrow> int \<Rightarrow> int \<Rightarrow> int \<Rightarrow> bool res" where
  "c_IsInREF cs r j k = bindE (bank_at cs r j k) (\<lambda>b. Inr (bank_IsInREF b))"

definition IsRankSelfRefreshing :: "ChannelState \<Rightarrow> int \<Rightarrow> bool res" where
  "IsRankSelfRefreshing cs rank = vget (rank_is_sref cs) rank"

definition IsAllBankIdleInRank :: "Config \<Rightarrow> ChannelState \<Rightarrow> int \<Rightarrow> bool res" where
  "IsAllBankIdleInRank cfg cs rank =
     bindE (find_forE (bankgroups cfg) (\<lambda>j.
       bindE (find_forE (banks_per_group cfg) (\<lambda>k. c_IsRowOpen cs rank j k)) (\<lambda>f. Inr (f \<noteq> None)))) (\<lambda>f.
     Inr (f = None))"

definition IsRWPendingOnRef :: "ChannelState \<Rightarrow> Command \<Rightarrow> bool res" where
  "IsRWPendingOnRef cs cmd =
     bindE (bank_at cs (Rank cmd) (Bankgroup cmd) (Bank cmd)) (\<lambda>b.
     Inr (bank_IsRowOpen b \<and> row_hit_count b = 0 \<and> open_row b = Row cmd))"

section \<open>The queues of maintenance commands\<close>

definition IsRefreshWaiting :: "ChannelState \<Rightarrow> bool" where
  "IsRefreshWaiting cs \<longleftrightarrow> refresh_q cs \<noteq> []"

definition PendingRefCommand :: "ChannelState \<Rightarrow> Command res" where
  "PendingRefCommand cs = vfront (refresh_q cs)"

definition IsRFMWaiting :: "ChannelState \<Rightarrow> bool" where
  "IsRFMWaiting cs \<longleftrightarrow> rfm_q cs \<noteq> []"

definition PendingRFMCommand :: "ChannelState \<Rightarrow> Command res" where
  "PendingRFMCommand cs = vfront (rfm_q cs)"

definition at_rank :: "int \<Rightarrow> Command \<Rightarrow> bool" where
  "at_rank rank c \<longleftrightarrow> Rank c = rank"

definition at_bankset :: "int \<Rightarrow> int \<Rightarrow> Command \<Rightarrow> bool" where
  "at_bankset rank bank c \<longleftrightarrow> Rank c = rank \<and> Bank c = bank"

definition at_bank :: "int \<Rightarrow> int \<Rightarrow> int \<Rightarrow> Command \<Rightarrow> bool" where
  "at_bank rank bankgroup bank c \<longleftrightarrow> Rank c = rank \<and> Bankgroup c = bankgroup \<and> Bank c = bank"

text \<open>The hexadecimal address of a maintenance command is \<open>-1\<close>, the largest \<open>uint64_t\<close>.\<close>

definition no_hex :: u64 where "no_hex = - 1"

definition BankNeedRefresh :: "int \<Rightarrow> int \<Rightarrow> int \<Rightarrow> bool \<Rightarrow> ChannelState \<Rightarrow> ChannelState" where
  "BankNeedRefresh rank bankgroup bank need cs =
     (if need
      then cs\<lparr>refresh_q := refresh_q cs @ [mk_Command REFRESH_BANK (mk_Address (-1) rank bankgroup bank (-1) (-1)) no_hex]\<rparr>
      else cs\<lparr>refresh_q := erase_first (at_bank rank bankgroup bank) (refresh_q cs)\<rparr>)"

definition BanksetNeedRefresh :: "int \<Rightarrow> int \<Rightarrow> bool \<Rightarrow> ChannelState \<Rightarrow> ChannelState" where
  "BanksetNeedRefresh rank bank need cs =
     (if need
      then cs\<lparr>refresh_q := refresh_q cs @ [mk_Command REFsb (mk_Address (-1) rank (-1) bank (-1) (-1)) no_hex]\<rparr>
      else cs\<lparr>refresh_q := erase_first (at_bankset rank bank) (refresh_q cs)\<rparr>)"

definition RankNeedRefresh :: "int \<Rightarrow> bool \<Rightarrow> ChannelState \<Rightarrow> ChannelState" where
  "RankNeedRefresh rank need cs =
     (if need
      then cs\<lparr>refresh_q := refresh_q cs @ [mk_Command REFab (mk_Address (-1) rank (-1) (-1) (-1) (-1)) no_hex]\<rparr>
      else cs\<lparr>refresh_q := erase_first (at_rank rank) (refresh_q cs)\<rparr>)"

text \<open>The RFM queue holds at most one request for what a command addresses.\<close>

definition need_rfm :: "(Command \<Rightarrow> bool) \<Rightarrow> Command \<Rightarrow> bool \<Rightarrow> ChannelState \<Rightarrow> ChannelState" where
  "need_rfm p c need cs =
     (if need \<and> \<not> (\<exists>x\<in>set (rfm_q cs). p x) then cs\<lparr>rfm_q := rfm_q cs @ [c]\<rparr>
      else if \<not> need then cs\<lparr>rfm_q := erase_first p (rfm_q cs)\<rparr>
      else cs)"

definition BanksetNeedRFM :: "int \<Rightarrow> int \<Rightarrow> bool \<Rightarrow> ChannelState \<Rightarrow> ChannelState" where
  "BanksetNeedRFM rank bank =
     need_rfm (at_bankset rank bank) (mk_Command RFMsb (mk_Address (-1) rank (-1) bank (-1) (-1)) no_hex)"

definition RankNeedRFM :: "int \<Rightarrow> bool \<Rightarrow> ChannelState \<Rightarrow> ChannelState" where
  "RankNeedRFM rank =
     need_rfm (at_rank rank) (mk_Command RFMab (mk_Address (-1) rank (-1) (-1) (-1) (-1)) no_hex)"

definition BankNeedDRFM :: "int \<Rightarrow> int \<Rightarrow> int \<Rightarrow> bool \<Rightarrow> ChannelState \<Rightarrow> ChannelState" where
  "BankNeedDRFM rank bankgroup bank =
     need_rfm (at_bank rank bankgroup bank) (mk_Command DRFMb (mk_Address (-1) rank bankgroup bank (-1) (-1)) no_hex)"

definition BanksetNeedDRFM :: "int \<Rightarrow> int \<Rightarrow> bool \<Rightarrow> ChannelState \<Rightarrow> ChannelState" where
  "BanksetNeedDRFM rank bank =
     need_rfm (at_bankset rank bank) (mk_Command DRFMsb (mk_Address (-1) rank (-1) bank (-1) (-1)) no_hex)"

definition RankNeedDRFM :: "int \<Rightarrow> bool \<Rightarrow> ChannelState \<Rightarrow> ChannelState" where
  "RankNeedDRFM rank =
     need_rfm (at_rank rank) (mk_Command DRFMab (mk_Address (-1) rank (-1) (-1) (-1) (-1)) no_hex)"

text \<open>The queues of Hydra: counter rows to read into the cache and to write back from it.\<close>

definition at_row :: "int \<Rightarrow> int \<Rightarrow> int \<Rightarrow> int \<Rightarrow> Command \<Rightarrow> bool" where
  "at_row rank bankgroup bank row c \<longleftrightarrow>
     Rank c = rank \<and> Bankgroup c = bankgroup \<and> Bank c = bank \<and> Row c = row"

definition HydraRead :: "int \<Rightarrow> int \<Rightarrow> int \<Rightarrow> int \<Rightarrow> ChannelState \<Rightarrow> bool \<times> ChannelState" where
  "HydraRead rank bankgroup bank row cs =
     (if \<exists>c\<in>set (hydra_wb_q cs). at_row rank bankgroup bank row c then (True, cs)
      else if \<exists>c\<in>set (hydra_rd_q cs). at_row rank bankgroup bank row c then (False, cs)
      else (False, cs\<lparr>hydra_rd_q := hydra_rd_q cs
              @ [mk_Command READ (mk_Address (c_channel cs) rank bankgroup bank row (-1)) no_hex]\<rparr>))"

definition HydraWB :: "int \<Rightarrow> int \<Rightarrow> int \<Rightarrow> int \<Rightarrow> ChannelState \<Rightarrow> ChannelState" where
  "HydraWB rank bankgroup bank row cs =
     (if \<exists>c\<in>set (hydra_wb_q cs). at_row rank bankgroup bank row c then cs
      else cs\<lparr>hydra_wb_q := hydra_wb_q cs
             @ [mk_Command WRITE (mk_Address (c_channel cs) rank bankgroup bank row (-1)) no_hex]\<rparr>)"

section \<open>The activation windows\<close>

definition window_ready :: "nat \<Rightarrow> u64 list \<Rightarrow> u64 \<Rightarrow> bool" where
  "window_ready n w t = (case w of [] \<Rightarrow> True | x # _ \<Rightarrow> \<not> (t < x \<and> length w \<ge> n))"

definition IsFAWReady :: "ChannelState \<Rightarrow> int \<Rightarrow> u64 \<Rightarrow> bool res" where
  "IsFAWReady cs rank curr_time = bindE (vget (four_aw cs) rank) (\<lambda>w. Inr (window_ready 4 w curr_time))"

definition Is32AWReady :: "ChannelState \<Rightarrow> int \<Rightarrow> u64 \<Rightarrow> bool res" where
  "Is32AWReady cs rank curr_time = bindE (vget (thirty_two_aw cs) rank) (\<lambda>w. Inr (window_ready 32 w curr_time))"

definition ActivationWindowOk :: "Config \<Rightarrow> ChannelState \<Rightarrow> int \<Rightarrow> u64 \<Rightarrow> bool res" where
  "ActivationWindowOk cfg cs rank curr_time =
     bindE (IsFAWReady cs rank curr_time) (\<lambda>tfaw_ok.
     if IsGDDR cfg then (if \<not> tfaw_ok then Inr False else Is32AWReady cs rank curr_time)
     else Inr tfaw_ok)"

definition window_add :: "u64 \<Rightarrow> int \<Rightarrow> u64 list \<Rightarrow> u64 list" where
  "window_add t d w = (case w of [] \<Rightarrow> [] | x # xs \<Rightarrow> if t \<ge> x then xs else w) @ [t + word_of_int d]"

definition UpdateActivationTimes :: "Config \<Rightarrow> int \<Rightarrow> u64 \<Rightarrow> ChannelState \<Rightarrow> ChannelState res" where
  "UpdateActivationTimes cfg rank curr_time cs =
     bindE (vupd (four_aw cs) rank (window_add curr_time (tFAW cfg))) (\<lambda>w.
     let cs = cs\<lparr>four_aw := w\<rparr> in
     if IsGDDR cfg
     then bindE (vupd (thirty_two_aw cs) rank (window_add curr_time (t32AW cfg))) (\<lambda>w.
          Inr (cs\<lparr>thirty_two_aw := w\<rparr>))
     else Inr cs)"

section \<open>The constructor\<close>

definition mk_banks_of_group ::
    "Config \<Rightarrow> BankState \<Rightarrow> int \<Rightarrow> int \<Rightarrow> Env \<Rightarrow> (BankState list \<times> Env) res" where
  "mk_banks_of_group cfg b0 i j e =
     forE (banks_per_group cfg) (\<lambda>k (bs, e).
       bindE (mk_BankState cfg b0 i j k e) (\<lambda>(b, e). Inr (bs @ [b], e))) ([], e)"

definition mk_banks :: "Config \<Rightarrow> BankState \<Rightarrow> Env \<Rightarrow> (BankState list list list \<times> Env) res" where
  "mk_banks cfg b0 e =
     forE (ranks cfg) (\<lambda>i (rss, e).
       bindE (forE (bankgroups cfg) (\<lambda>j (rs, e).
           bindE (mk_banks_of_group cfg b0 i j e) (\<lambda>(bs, e). Inr (rs @ [bs], e))) ([], e)) (\<lambda>(rs, e).
       Inr (rss @ [rs], e))) ([], e)"

definition mk_random_masks :: "Config \<Rightarrow> u32 \<Rightarrow> Env \<Rightarrow> (u32 list \<times> Env) res" where
  "mk_random_masks cfg sz e =
     forE (uint (word_of_int (ranks cfg * bankgroups cfg * banks_per_group cfg * dream_k cfg) :: u32))
       (\<lambda>_ (ms, e). case rand e of (r, e) \<Rightarrow>
          bindE (umod (word_of_int r) sz) (\<lambda>x. Inr (ms @ [x], e))) ([], e)"

text \<open>Writing the range that starts at \<open>off\<close>; it must lie in the vector.\<close>

definition put_slice :: "'a list \<Rightarrow> nat \<Rightarrow> 'a list \<Rightarrow> 'a list res" where
  "put_slice v off xs =
     (if off + length xs \<le> length v then Inr (take off v @ xs @ drop (off + length xs) v) else Inl OutOfRange)"

definition iota :: "int \<Rightarrow> u32 list" where
  "iota n = map word_of_nat [0..<nat n]"

text \<open>
  The row permutation of one bank and its inverse. \<open>shuffle k\<close> is what the call of \<open>std::shuffle\<close>
  for bank \<open>k\<close>, with the generator in the state the earlier calls left it in, does to a range.
\<close>

definition mk_perm ::
    "Config \<Rightarrow> (int \<Rightarrow> u32 list \<Rightarrow> u32 list) \<Rightarrow> int \<Rightarrow> u32 list \<times> u32 list \<Rightarrow> (u32 list \<times> u32 list) res" where
  "mk_perm cfg shuffle bank_idx = (\<lambda>(perms, invs).
     let off = word_of_int bank_idx * word_of_int (rows cfg) :: u32;
         perm = (if cactus_policy cfg = 1 then shuffle bank_idx (iota (rows cfg)) else iota (rows cfg))
     in bindE (put_slice perms (unat off) perm) (\<lambda>perms.
        bindE (forE (uint (word_of_int (rows cfg) :: u32)) (\<lambda>counter_idx invs.
            bindE (vget perms (uint off + counter_idx)) (\<lambda>r.
            vset invs (uint off + uint r) (word_of_int counter_idx))) invs) (\<lambda>invs.
        Inr (perms, invs))))"

definition total_banks :: "Config \<Rightarrow> u32" where
  "total_banks cfg = word_of_int (ranks cfg * bankgroups cfg * banks_per_group cfg)"

definition mk_perms :: "Config \<Rightarrow> (int \<Rightarrow> u32 list \<Rightarrow> u32 list) \<Rightarrow> (u32 list \<times> u32 list) res" where
  "mk_perms cfg shuffle =
     (let z = replicate (unat (total_banks cfg * word_of_int (rows cfg))) 0
      in forE (uint (total_banks cfg)) (mk_perm cfg shuffle) (z, z))"

text \<open>The members that the constructor does not assign are those of the uninitialised object \<open>cs0\<close>.\<close>

definition mk_ChannelState ::
    "Config \<Rightarrow> (int \<Rightarrow> u32 list \<Rightarrow> u32 list) \<Rightarrow> BankState \<Rightarrow> ChannelState \<Rightarrow> int \<Rightarrow> Env \<Rightarrow> ChannelState res" where
  "mk_ChannelState cfg shuffle b0 cs0 ch e =
     bindE (vec_of (ranks cfg) 0) (\<lambda>idle.
     bindE (mk_banks cfg b0 e) (\<lambda>(bss, e).
     bindE (idiv (rows cfg) (dream_k cfg)) (\<lambda>ts.
     bindE (vec_of ts 0) (\<lambda>tu.
     bindE (mk_random_masks cfg (word_of_nat (length tu)) e) (\<lambda>(masks, e).
     bindE (mk_perms cfg shuffle) (\<lambda>(perms, invs).
     let sz = word_of_int (rows cfg) :: u32; nr = nat (ranks cfg);
         ctrs = replicate (unat (word_of_int (ranks cfg) * sz)) 0;
         e = (if dream_mode cfg = 1 then counter_stats [''dream_resets''] e else e);
         e = (if cactus_mode cfg = 1 then counter_stats [''cactus_resets''] e else e);
         e = (if abacus_mode cfg = 1 then counter_stats [''abacus_resets''] e else e)
     in Inr (cs0\<lparr>
       c_env := e, rank_idle_cycles := idle, hydra_wb_draining := False, c_channel := ch,
       last_bus_access_time := 0, bursty_access_count := 0, rank_is_sref := replicate nr False,
       bank_states := bss, refresh_q := [], rfm_q := [], hydra_rd_q := [], hydra_wb_q := [],
       c_ref_idx := 0, c_fgr_counter := 0, four_aw := replicate nr [], thirty_two_aw := replicate nr [],
       alert_n := False, last_alert_clk := 0, num_acts_abo := 0,
       dream_resets_stat := (if dream_mode cfg = 1 then ''dream_resets'' else []),
       tusc := tu, tusc_prev := tu, random_masks := masks, tusc_size := word_of_nat (length tu), tusc_q := [],
       cactus_resets_stat := (if cactus_mode cfg = 1 then ''cactus_resets'' else []),
       cactus := ctrs, cactus_prev := ctrs, cactus_row_perms := perms, cactus_inv_row_perms := invs,
       cactus_size := sz, cactus_pending_counter_idx := replicate nr (-1),
       cactus_alert_pending := replicate nr False, cactus_last_alert_clk := replicate nr 0,
       cactus_rfm_inflight := replicate nr False, cactus_acts_since_rfm := replicate nr 0,
       cactus_tref_refab_count := replicate nr 0, cactus_tref_max_counter_idx := replicate nr (-1),
       abacus_table := (if abacus_mode cfg = 1 then replicate (nat (rows cfg)) \<lparr>rac = 0, sav = 0\<rparr> else []),
       abacus_q := [],
       abacus_entries := (if abacus_mode cfg = 1 then sz else abacus_entries cs0),
       abacus_resets_stat := (if abacus_mode cfg = 1 then ''abacus_resets'' else [])\<rparr>)))))))"

end
