(* ===== verification/Channel_Track.thy ===== *)
theory Channel_Track
  imports Channel_State
begin

unbundle bit_operations_syntax

text \<open>
  channel_state.cc, part two: the Rowhammer trackers that a channel shares between its banks.
  DREAM counts groups of rows in the table \<open>tusc\<close>, CACTUS counts one row of every bank of a rank
  in one counter of \<open>cactus\<close> and alerts the rank, ABACUS counts a row over all banks. Each has an
  operation before an activation, one at a mitigation and one at a refresh.
\<close>

section \<open>DREAM\<close>

definition bank_idx :: "Config \<Rightarrow> u32 \<Rightarrow> u32 \<Rightarrow> u32 \<Rightarrow> u32" where
  "bank_idx cfg rank bankgroup bank =
     rank * word_of_int (bankgroups cfg) * word_of_int (banks_per_group cfg)
     + bankgroup * word_of_int (banks_per_group cfg) + bank"

definition get_tusc_idx :: "Config \<Rightarrow> ChannelState \<Rightarrow> u32 \<Rightarrow> u32 \<Rightarrow> u32 \<Rightarrow> u32 \<Rightarrow> u32 res" where
  "get_tusc_idx cfg cs rank bankgroup bank rowid =
     bindE (udiv rowid (word_of_int (dream_k cfg))) (\<lambda>groupid.
     bindE (umod rowid (word_of_int (dream_k cfg))) (\<lambda>row_num.
     if dream_policy cfg = 0 then Inr groupid
     else if dream_policy cfg = 1 then
       bindE (umod rowid (tusc_size cs)) (\<lambda>rowid.
       umod (rowid - bank_idx cfg rank bankgroup bank + tusc_size cs) (tusc_size cs))
     else if dream_policy cfg = 2 then
       bindE (vget (random_masks cs) (uint (bank_idx cfg rank bankgroup bank + row_num * total_banks cfg))) (\<lambda>m.
       Inr (groupid XOR m))
     else Inl AbruptExit))"

definition get_row_idx :: "Config \<Rightarrow> ChannelState \<Rightarrow> u32 \<Rightarrow> u32 \<Rightarrow> u32 \<Rightarrow> u32 \<Rightarrow> u32 \<Rightarrow> u32 res" where
  "get_row_idx cfg cs rank bankgroup bank tusc_idx row_num =
     (if dream_policy cfg = 0 then Inr (tusc_idx * word_of_int (dream_k cfg) + row_num)
      else if dream_policy cfg = 1 then
        umod (tusc_idx + bank_idx cfg rank bankgroup bank + row_num * tusc_size cs) (word_of_int (rows cfg))
      else if dream_policy cfg = 2 then
        bindE (vget (random_masks cs) (uint (bank_idx cfg rank bankgroup bank + row_num * total_banks cfg))) (\<lambda>m.
        Inr ((tusc_idx XOR m) * word_of_int (dream_k cfg) + row_num))
      else Inl AbruptExit)"

text \<open>A DRFM request for every row the counter stands for, in every bank of the channel.\<close>

definition dream_insert_bank :: "Config \<Rightarrow> u32 \<Rightarrow> int \<Rightarrow> int \<Rightarrow> int \<Rightarrow> ChannelState \<Rightarrow> ChannelState res" where
  "dream_insert_bank cfg tusc_idx i j k =
     forE (dream_k cfg) (\<lambda>l cs.
       bindE (get_row_idx cfg cs (word_of_int i) (word_of_int j) (word_of_int k) tusc_idx (word_of_int l)) (\<lambda>rowid.
       upd_bank i j k (\<lambda>b. Inr (insert_drfm cfg b rowid)) cs))"

text \<open>The value a counter is judged by: with \<open>dream_prev_enable\<close> the last window counts too.\<close>

definition dream_val :: "Config \<Rightarrow> ChannelState \<Rightarrow> int \<Rightarrow> u32 res" where
  "dream_val cfg cs i =
     bindE (vget (tusc cs) i) (\<lambda>v.
     if dream_prev_enable cfg then bindE (vget (tusc_prev cs) i) (\<lambda>p. Inr (v + p)) else Inr v)"

definition dream_threshold :: "Config \<Rightarrow> u32" where
  "dream_threshold cfg =
     (if dream_prev_enable cfg then word_of_int (dream_th cfg) * 2 else word_of_int (dream_th cfg))"

definition dream_preact :: "Config \<Rightarrow> u32 \<Rightarrow> u32 \<Rightarrow> u32 \<Rightarrow> u32 \<Rightarrow> ChannelState \<Rightarrow> ChannelState res" where
  "dream_preact cfg rank bankgroup bank rowid cs =
     bindE (get_tusc_idx cfg cs rank bankgroup bank rowid) (\<lambda>tusc_idx.
     bindE (vupd (tusc cs) (uint tusc_idx) (\<lambda>v. v + 1)) (\<lambda>tu.
     let cs = cs\<lparr>tusc := tu\<rparr> in
     if dream_mode cfg = 0 then Inr cs
     else
       bindE (dream_val cfg cs (uint tusc_idx)) (\<lambda>counter_val.
       if counter_val \<ge> dream_threshold cfg
       then bindE (for_channel cfg (dream_insert_bank cfg tusc_idx) cs) (\<lambda>cs.
            Inr (cs\<lparr>tusc_q := tusc_q cs @ replicate (nat (dream_k cfg)) tusc_idx\<rparr>))
       else Inr cs)))"

definition dream_mitig :: "Config \<Rightarrow> ChannelState \<Rightarrow> ChannelState res" where
  "dream_mitig cfg cs =
     (if dream_mode cfg = 0 then Inr cs
      else case tusc_q cs of
        [] \<Rightarrow> Inr cs
      | tusc_idx # q \<Rightarrow>
          bindE (vget (tusc cs) (uint tusc_idx)) (\<lambda>v.
          bindE (vset (tusc_prev cs) (uint tusc_idx) v) (\<lambda>pv.
          bindE (vset (tusc cs) (uint tusc_idx) 0) (\<lambda>tu.
          Inr (cs\<lparr>tusc_prev := pv, tusc := tu, tusc_q := q\<rparr>)))))"

text \<open>Moving a counter to its predecessor and clearing it.\<close>

definition roll_counter :: "u32 \<Rightarrow> u32 list \<times> u32 list \<Rightarrow> (u32 list \<times> u32 list) res" where
  "roll_counter index = (\<lambda>(cur, prev).
     bindE (vget cur (uint index)) (\<lambda>v.
     bindE (vset prev (uint index) v) (\<lambda>prev.
     bindE (vset cur (uint index) 0) (\<lambda>cur. Inr (cur, prev)))))"

definition roll_range :: "u32 \<Rightarrow> u32 \<Rightarrow> u32 list \<times> u32 list \<Rightarrow> (u32 list \<times> u32 list) res" where
  "roll_range base n = forE (uint n) (\<lambda>i. roll_counter (base + word_of_int i))"

definition quantile_indices :: "u32 \<Rightarrow> u32 list" where
  "quantile_indices n = [0, n div 4, n div 2, n * 3 div 4, n * 9 div 10, n * 99 div 100, n - 1]"

definition dream_refresh :: "Config \<Rightarrow> bool \<Rightarrow> ChannelState \<Rightarrow> ChannelState res" where
  "dream_refresh cfg should_reset cs =
     (let factor = word_of_int (dream_reset cfg) :: u32; chunks = word_of_int (refchunks cfg) :: u32 in
      bindE (if dream_mode cfg = 0 \<and> should_reset
             then bindE (udiv chunks factor) (\<lambda>d. bindE (umod (c_ref_idx cs) d) (\<lambda>r. Inr (r = 0)))
             else Inr False) (\<lambda>dump.
      if dump then
        bindE (foldE (\<lambda>i _. bindE (vget (tusc cs) (uint i)) (\<lambda>_. Inr ())) (quantile_indices (tusc_size cs)) ()) (\<lambda>_.
        Inr (cs\<lparr>tusc := replicate (unat (tusc_size cs)) 0\<rparr>))
      else if dream_mode cfg = 1 \<and> should_reset then
        let cs = c_stat_inc (dream_resets_stat cs) cs in
        bindE (udiv chunks factor) (\<lambda>d.
        bindE (umod (c_ref_idx cs) d) (\<lambda>factored_ref_idx.
        bindE (udiv (tusc_size cs) chunks) (\<lambda>q.
        let tusc_rows_per_ref = factor * q in
        bindE (roll_range (factored_ref_idx * tusc_rows_per_ref) tusc_rows_per_ref (tusc cs, tusc_prev cs))
          (\<lambda>(tu, pv). Inr (cs\<lparr>tusc := tu, tusc_prev := pv\<rparr>)))))
      else Inr cs))"

section \<open>CACTUS\<close>

definition get_cactus_bank_idx :: "Config \<Rightarrow> u32 \<Rightarrow> u32 \<Rightarrow> u32 \<Rightarrow> u32" where
  "get_cactus_bank_idx cfg rank bankgroup bank =
     rank * word_of_int (bankgroups cfg) * word_of_int (banks_per_group cfg)
     + bankgroup * word_of_int (banks_per_group cfg) + bank"

definition get_cactus_idx :: "Config \<Rightarrow> ChannelState \<Rightarrow> u32 \<Rightarrow> u32 \<Rightarrow> u32 \<Rightarrow> u32 \<Rightarrow> u32 res" where
  "get_cactus_idx cfg cs rank bankgroup bank rowid =
     (let rank_offset = rank * cactus_size cs in
      if cactus_policy cfg = 0 then Inr (rank_offset + rowid)
      else if cactus_policy cfg = 1 then
        bindE (vget (cactus_inv_row_perms cs)
          (uint (get_cactus_bank_idx cfg rank bankgroup bank * word_of_int (rows cfg) + rowid))) (\<lambda>c.
        Inr (rank_offset + c))
      else Inl AbruptExit)"

definition get_cactus_row_idx :: "Config \<Rightarrow> ChannelState \<Rightarrow> u32 \<Rightarrow> u32 \<Rightarrow> u32 \<Rightarrow> u32 \<Rightarrow> u32 res" where
  "get_cactus_row_idx cfg cs rank bankgroup bank cactus_idx =
     (let local_idx = cactus_idx - rank * cactus_size cs in
      if cactus_policy cfg = 0 then Inr local_idx
      else if cactus_policy cfg = 1 then
        vget (cactus_row_perms cs)
          (uint (get_cactus_bank_idx cfg rank bankgroup bank * word_of_int (rows cfg) + local_idx))
      else Inl AbruptExit)"

text \<open>The value a counter is judged by: with \<open>cactus_prev_enable\<close> the last window counts too.\<close>

definition cactus_val :: "Config \<Rightarrow> ChannelState \<Rightarrow> int \<Rightarrow> u32 res" where
  "cactus_val cfg cs i =
     bindE (vget (cactus cs) i) (\<lambda>v.
     if cactus_prev_enable cfg then bindE (vget (cactus_prev cs) i) (\<lambda>p. Inr (v + p)) else Inr v)"

definition cactus_threshold :: "Config \<Rightarrow> u32" where
  "cactus_threshold cfg =
     (if cactus_prev_enable cfg then word_of_int (cactus_th cfg) * 2 else word_of_int (cactus_th cfg))"

definition cactus_track_max :: "Config \<Rightarrow> u32 \<Rightarrow> u32 \<Rightarrow> u32 \<Rightarrow> ChannelState \<Rightarrow> ChannelState res" where
  "cactus_track_max cfg rank cactus_idx counter_val cs =
     (if tref_enable cfg = 1 \<and> tref_mode cfg = 1
      then bindE (vget (cactus_tref_max_counter_idx cs) (uint rank)) (\<lambda>max_idx.
           bindE (if max_idx \<ge> 0 then cactus_val cfg cs max_idx else Inr 0) (\<lambda>max_val.
           if max_idx < 0 \<or> counter_val > max_val
           then bindE (vset (cactus_tref_max_counter_idx cs) (uint rank) (sint cactus_idx)) (\<lambda>m.
                Inr (cs\<lparr>cactus_tref_max_counter_idx := m\<rparr>))
           else Inr cs))
      else Inr cs)"

definition cactus_alert :: "Config \<Rightarrow> u32 \<Rightarrow> u32 \<Rightarrow> u64 \<Rightarrow> ChannelState \<Rightarrow> ChannelState res" where
  "cactus_alert cfg rank cactus_idx clk cs =
     bindE (vget (cactus_alert_pending cs) (uint rank)) (\<lambda>pending.
     bindE (vget (cactus_rfm_inflight cs) (uint rank)) (\<lambda>inflight.
     bindE (vget (cactus_acts_since_rfm cs) (uint rank)) (\<lambda>acts.
     if pending \<or> inflight \<or> acts < ABO_delay_acts cfg then Inr cs
     else
       bindE (vset (cactus_alert_pending cs) (uint rank) True) (\<lambda>ap.
       bindE (vset (cactus_last_alert_clk cs) (uint rank) clk) (\<lambda>lc.
       bindE (vset (cactus_pending_counter_idx cs) (uint rank) (sint cactus_idx)) (\<lambda>pc.
       Inr (c_stat_inc ''num_alerts''
         (cs\<lparr>cactus_alert_pending := ap, cactus_last_alert_clk := lc, cactus_pending_counter_idx := pc\<rparr>))))))))"

definition cactus_preact :: "Config \<Rightarrow> u32 \<Rightarrow> u32 \<Rightarrow> u32 \<Rightarrow> u32 \<Rightarrow> u64 \<Rightarrow> ChannelState \<Rightarrow> ChannelState res" where
  "cactus_preact cfg rank bankgroup bank rowid clk cs =
     bindE (get_cactus_idx cfg cs rank bankgroup bank rowid) (\<lambda>cactus_idx.
     bindE (vupd (cactus cs) (uint cactus_idx) (\<lambda>v. v + 1)) (\<lambda>ctrs.
     let cs = cs\<lparr>cactus := ctrs\<rparr> in
     if cactus_mode cfg = 0 then Inr cs
     else
       bindE (cactus_val cfg cs (uint cactus_idx)) (\<lambda>counter_val.
       bindE (cactus_track_max cfg rank cactus_idx counter_val cs) (\<lambda>cs.
       if counter_val \<ge> cactus_threshold cfg then cactus_alert cfg rank cactus_idx clk cs else Inr cs))))"

definition cactus_mitig_counter :: "Config \<Rightarrow> int \<Rightarrow> u32 \<Rightarrow> ChannelState \<Rightarrow> ChannelState res" where
  "cactus_mitig_counter cfg rank cactus_idx cs =
     (if cactus_mode cfg = 0 then Inr cs
      else
        bindE (for_rank cfg (\<lambda>j k cs.
            bindE (get_cactus_row_idx cfg cs (word_of_int rank) (word_of_int j) (word_of_int k) cactus_idx) (\<lambda>row.
            upd_bank rank j k (bank_cactus_mitig cfg row) cs)) cs) (\<lambda>cs.
        bindE (roll_counter cactus_idx (cactus cs, cactus_prev cs)) (\<lambda>(cur, prev).
        let cs = cs\<lparr>cactus := cur, cactus_prev := prev\<rparr> in
        bindE (vget (cactus_tref_max_counter_idx cs) rank) (\<lambda>m.
        if m = sint cactus_idx
        then bindE (vset (cactus_tref_max_counter_idx cs) rank (-1)) (\<lambda>ms.
             Inr (cs\<lparr>cactus_tref_max_counter_idx := ms\<rparr>))
        else Inr cs))))"

definition cactus_mitig :: "Config \<Rightarrow> int \<Rightarrow> ChannelState \<Rightarrow> ChannelState res" where
  "cactus_mitig cfg rank cs =
     (if cactus_mode cfg = 0 then Inr cs
      else bindE (vget (cactus_pending_counter_idx cs) rank) (\<lambda>cactus_idx.
        if cactus_idx < 0 then Inr cs
        else bindE (cactus_mitig_counter cfg rank (word_of_int cactus_idx) cs) (\<lambda>cs.
             bindE (vset (cactus_pending_counter_idx cs) rank (-1)) (\<lambda>pc.
             Inr (cs\<lparr>cactus_pending_counter_idx := pc\<rparr>)))))"

text \<open>What both kinds of opportunistic mitigation do when they make the RFM of an alert superfluous.\<close>

definition cancel_alert :: "int \<Rightarrow> ChannelState \<Rightarrow> ChannelState res" where
  "cancel_alert rank cs =
     bindE (vset (cactus_alert_pending cs) rank False) (\<lambda>ap.
     bindE (vset (cactus_rfm_inflight cs) rank False) (\<lambda>ri.
     bindE (vset (cactus_acts_since_rfm cs) rank 0) (\<lambda>ac.
     Inr (c_stat_inc ''num_tref_rfmab_skips'' (RankNeedRFM rank False
       (cs\<lparr>cactus_alert_pending := ap, cactus_rfm_inflight := ri, cactus_acts_since_rfm := ac\<rparr>))))))"

definition cactus_tref_mitig :: "Config \<Rightarrow> int \<Rightarrow> ChannelState \<Rightarrow> ChannelState res" where
  "cactus_tref_mitig cfg rank cs =
     (if cactus_mode cfg = 0 \<or> tref_enable cfg = 0 \<or> tref_mode cfg \<noteq> 0 then Inr cs
      else
        bindE (vget (cactus_pending_counter_idx cs) rank) (\<lambda>pc.
        if pc < 0 then Inr cs
        else
          bindE (vget (cactus_alert_pending cs) rank) (\<lambda>ap.
          bindE (vget (cactus_rfm_inflight cs) rank) (\<lambda>ri.
          if \<not> ap \<and> \<not> ri then Inr cs
          else bindE (cactus_mitig cfg rank cs) (\<lambda>cs. cancel_alert rank cs)))))"

definition cactus_tref_max_mitig :: "Config \<Rightarrow> int \<Rightarrow> ChannelState \<Rightarrow> ChannelState res" where
  "cactus_tref_max_mitig cfg rank cs =
     (if cactus_mode cfg = 0 \<or> tref_enable cfg = 0 \<or> tref_mode cfg \<noteq> 1 \<or> tref_interval cfg \<le> 0 then Inr cs
      else
        bindE (vupd (cactus_tref_refab_count cs) rank (\<lambda>n. n + 1)) (\<lambda>rc.
        let cs = cs\<lparr>cactus_tref_refab_count := rc\<rparr> in
        bindE (vget rc rank) (\<lambda>n.
        if n smod tref_interval cfg \<noteq> 0 then Inr cs
        else
          bindE (vget (cactus_tref_max_counter_idx cs) rank) (\<lambda>max_idx.
          if max_idx < 0 then Inr cs
          else
            bindE (cactus_val cfg cs max_idx) (\<lambda>max_val.
            if max_val = 0 then Inr cs
            else
              bindE (cactus_mitig_counter cfg rank (word_of_int max_idx) cs) (\<lambda>cs.
              bindE (vget (cactus_pending_counter_idx cs) rank) (\<lambda>pc.
              bindE (if pc = max_idx
                     then bindE (vset (cactus_pending_counter_idx cs) rank (-1)) (\<lambda>pcs.
                          cancel_alert rank (cs\<lparr>cactus_pending_counter_idx := pcs\<rparr>))
                     else Inr cs) (\<lambda>cs.
              Inr (c_stat_inc ''num_tref_max_mitigs'' cs))))))))) "

definition cactus_refresh :: "Config \<Rightarrow> int \<Rightarrow> bool \<Rightarrow> ChannelState \<Rightarrow> ChannelState res" where
  "cactus_refresh cfg rank should_reset cs =
     (if cactus_mode cfg = 0 \<or> \<not> should_reset then Inr cs
      else
        let factor = word_of_int (cactus_reset cfg) :: u32; chunks = word_of_int (refchunks cfg) :: u32;
            cs = c_stat_inc (cactus_resets_stat cs) cs in
        bindE (udiv chunks factor) (\<lambda>d.
        bindE (umod (c_ref_idx cs) d) (\<lambda>factored_ref_idx.
        bindE (udiv (cactus_size cs) chunks) (\<lambda>q.
        let rows_per_ref = factor * q;
            reset_begin = word_of_int rank * cactus_size cs + factored_ref_idx * rows_per_ref;
            reset_end = reset_begin + rows_per_ref in
        bindE (roll_range reset_begin rows_per_ref (cactus cs, cactus_prev cs)) (\<lambda>(cur, prev).
        let cs = cs\<lparr>cactus := cur, cactus_prev := prev\<rparr> in
        bindE (vget (cactus_tref_max_counter_idx cs) rank) (\<lambda>max_idx.
        if max_idx \<ge> 0 \<and> (word_of_int max_idx :: u32) \<ge> reset_begin \<and> (word_of_int max_idx :: u32) < reset_end
        then bindE (vset (cactus_tref_max_counter_idx cs) rank (-1)) (\<lambda>ms.
             Inr (cs\<lparr>cactus_tref_max_counter_idx := ms\<rparr>))
        else Inr cs))))))"

section \<open>ABACUS\<close>

text \<open>\<open>0x1ull << bank_idx\<close>.\<close>

definition bank_mask :: "u32 \<Rightarrow> u64 res" where
  "bank_mask i = shl64 1 (uint i)"

definition abacus_count :: "u64 \<Rightarrow> ABACUS_Entry \<Rightarrow> ABACUS_Entry" where
  "abacus_count m x = (if sav x AND m = 0 then x\<lparr>sav := sav x OR m\<rparr> else x\<lparr>rac := rac x + 1, sav := m\<rparr>)"

definition abacus_preact :: "Config \<Rightarrow> u32 \<Rightarrow> u32 \<Rightarrow> u32 \<Rightarrow> u32 \<Rightarrow> ChannelState \<Rightarrow> ChannelState res" where
  "abacus_preact cfg rank bankgroup bank rowid cs =
     (if abacus_mode cfg = 0 then Inr cs
      else
        bindE (bank_mask (bank_idx cfg rank bankgroup bank)) (\<lambda>m.
        bindE (vupd (abacus_table cs) (uint rowid) (abacus_count m)) (\<lambda>tb.
        let cs = cs\<lparr>abacus_table := tb\<rparr> in
        bindE (vget tb (uint rowid)) (\<lambda>x.
        if rac x \<ge> word_of_int (abacus_th cfg)
        then bindE (for_channel cfg (\<lambda>i j k. upd_bank i j k (\<lambda>b. Inr (insert_drfm cfg b rowid))) cs) (\<lambda>cs.
             Inr (cs\<lparr>abacus_q := abacus_q cs @ [rowid]\<rparr>))
        else Inr cs))))"

definition abacus_mitig :: "Config \<Rightarrow> ChannelState \<Rightarrow> ChannelState res" where
  "abacus_mitig cfg cs =
     (if abacus_mode cfg = 0 then Inr cs
      else case abacus_q cs of
        [] \<Rightarrow> Inr cs
      | rowid # q \<Rightarrow>
          bindE (vset (abacus_table cs) (uint rowid) \<lparr>rac = 0, sav = 0\<rparr>) (\<lambda>tb.
          Inr (cs\<lparr>abacus_table := tb, abacus_q := q\<rparr>)))"

definition abacus_refresh :: "Config \<Rightarrow> bool \<Rightarrow> ChannelState \<Rightarrow> ChannelState res" where
  "abacus_refresh cfg should_reset cs =
     (if abacus_mode cfg = 0 \<or> \<not> should_reset then Inr cs
      else
        let chunks = word_of_int (refchunks cfg) :: u32 in
        bindE (umod (c_ref_idx cs) chunks) (\<lambda>start.
        bindE (udiv (abacus_entries cs) chunks) (\<lambda>abacus_rows_per_ref.
        bindE (forE (uint abacus_rows_per_ref) (\<lambda>i tb.
            vset tb (uint (start * abacus_rows_per_ref + word_of_int i)) \<lparr>rac = 0, sav = 0\<rparr>) (abacus_table cs)) (\<lambda>tb.
        Inr (c_stat_inc (abacus_resets_stat cs) (cs\<lparr>abacus_table := tb\<rparr>))))))"

end
