(* ===== verification/Channel_Cmd.thy ===== *)
theory Channel_Cmd
  imports Channel_Track
begin

unbundle bit_operations_syntax

text \<open>
  channel_state.cc, part three: which command a channel can issue for a request, the execution of
  a command on its banks and trackers, the update of the timing of the banks, and the alert pins.
  The \<open>const\<close> methods that change the object through \<open>const_cast\<close> return the new state.
\<close>

section \<open>The next command\<close>

text \<open>When the write-back queue starts and stops being drained.\<close>

definition hydra_drain :: "Config \<Rightarrow> ChannelState \<Rightarrow> ChannelState" where
  "hydra_drain cfg cs =
     (let cs = (if int (length (hydra_wb_q cs)) \<ge> uint (word_of_int (hydra_wbq_size cfg) :: u64)
                   \<and> \<not> hydra_wb_draining cs \<and> hydra_rd_q cs = []
                then cs\<lparr>hydra_wb_draining := True\<rparr> else cs)
      in if hydra_wb_q cs = [] then cs\<lparr>hydra_wb_draining := False\<rparr> else cs)"

definition hydra_queue :: "ChannelState \<Rightarrow> Command list" where
  "hydra_queue cs = (if hydra_wb_draining cs then hydra_wb_q cs else hydra_rd_q cs)"

definition hydra_pop :: "ChannelState \<Rightarrow> ChannelState" where
  "hydra_pop cs =
     (if hydra_wb_draining cs then cs\<lparr>hydra_wb_q := tl (hydra_wb_q cs)\<rparr> else cs\<lparr>hydra_rd_q := tl (hydra_rd_q cs)\<rparr>)"

definition GetReadyHydraCommand :: "Config \<Rightarrow> u64 \<Rightarrow> ChannelState \<Rightarrow> (Command \<times> ChannelState) res" where
  "GetReadyHydraCommand cfg clk cs =
     (let cs = hydra_drain cfg cs
      in case hydra_queue cs of
           [] \<Rightarrow> Inr (Command_default, cs)
         | cmd # _ \<Rightarrow>
             bindE (bank_at cs (Rank cmd) (Bankgroup cmd) (Bank cmd)) (\<lambda>b.
             bindE (bank_GetReadyCommand cfg b cmd clk) (\<lambda>ready_cmd.
             bindE (if cmd_type ready_cmd = ACTIVATE then ActivationWindowOk cfg cs (Rank ready_cmd) clk else Inr True) (\<lambda>ok.
             if \<not> ok then Inr (Command_default, cs)
             else if IsValid ready_cmd \<and> IsReadWrite ready_cmd then Inr (ready_cmd, hydra_pop cs)
             else Inr (ready_cmd, cs)))))"

text \<open>
  The loops of \<open>GetReadyCommand\<close> over the banks a command addresses: \<open>Inl\<close> is the early return
  with the command that has to come first, \<open>Inr\<close> the last answer and the number of ready banks.
\<close>

fun ready_loop ::
    "Config \<Rightarrow> ChannelState \<Rightarrow> Command \<Rightarrow> u64 \<Rightarrow> (int \<times> int) list \<Rightarrow> Command \<Rightarrow> int \<Rightarrow> (Command + Command \<times> int) res" where
  "ready_loop cfg cs cmd clk [] ready_cmd num_ready = Inr (Inr (ready_cmd, num_ready))"
| "ready_loop cfg cs cmd clk ((j, k) # jks) ready_cmd num_ready =
     bindE (bank_at cs (Rank cmd) j k) (\<lambda>b.
     bindE (bank_GetReadyCommand cfg b cmd clk) (\<lambda>rc.
     if \<not> IsValid rc then ready_loop cfg cs cmd clk jks rc num_ready
     else if cmd_type rc \<noteq> cmd_type cmd
     then Inr (Inl (rc\<lparr>cmd_addr := mk_Address (-1) (Rank cmd) j k (-1) (-1)\<rparr>))
     else ready_loop cfg cs cmd clk jks rc (num_ready + 1)))"

definition all_ready ::
    "Config \<Rightarrow> ChannelState \<Rightarrow> Command \<Rightarrow> u64 \<Rightarrow> (int \<times> int) list \<Rightarrow> int \<Rightarrow> Command res" where
  "all_ready cfg cs cmd clk jks n =
     bindE (ready_loop cfg cs cmd clk jks Command_default 0) (\<lambda>r.
     case r of Inl rc \<Rightarrow> Inr rc
     | Inr (rc, num_ready) \<Rightarrow> Inr (if num_ready = n then rc else Command_default))"

definition banks_of_rank :: "Config \<Rightarrow> (int \<times> int) list" where
  "banks_of_rank cfg = [(int j, int k). j \<leftarrow> [0..<nat (bankgroups cfg)], k \<leftarrow> [0..<nat (banks_per_group cfg)]]"

definition banks_of_set :: "Config \<Rightarrow> int \<Rightarrow> (int \<times> int) list" where
  "banks_of_set cfg bank = [(int j, bank). j \<leftarrow> [0..<nat (bankgroups cfg)]]"

text \<open>Whether the row count of the activated row is in the Hydra cache, or on its way out of it.\<close>

definition hydra_gate :: "Config \<Rightarrow> Command \<Rightarrow> ChannelState \<Rightarrow> (bool \<times> ChannelState) res" where
  "hydra_gate cfg cmd cs =
     (if hydra_mode cfg = 1
      then bindE (bank_at cs (Rank cmd) (Bankgroup cmd) (Bank cmd)) (\<lambda>b.
           bindE (hydra_check_rcc cfg cmd b (c_env cs)) (\<lambda>(rcc_state, e).
           let cs = cs\<lparr>c_env := e\<rparr> in
           if rcc_state = -1 then Inr (HydraRead (Rank cmd) (Bankgroup cmd) (Bank cmd) (Row cmd) cs)
           else if rcc_state \<noteq> 0
           then bindE (AddressMapping cfg (word_of_int rcc_state)) (\<lambda>a.
                case HydraRead (Rank cmd) (Bankgroup cmd) (Bank cmd) (Row cmd) cs of (f1, cs) \<Rightarrow>
                case HydraRead (a_rank a) (a_bankgroup a) (a_bank a) (a_row a) cs of (f2, cs) \<Rightarrow>
                Inr (f1 \<and> f2, HydraWB (a_rank a) (a_bankgroup a) (a_bank a) (a_row a) cs))
           else Inr (True, cs)))
      else Inr (True, cs))"

definition channel_PreACT :: "Config \<Rightarrow> Command \<Rightarrow> u64 \<Rightarrow> ChannelState \<Rightarrow> (bool \<times> ChannelState) res" where
  "channel_PreACT cfg cmd clk cs =
     (let r = word_of_int (Rank cmd); g = word_of_int (Bankgroup cmd); k = word_of_int (Bank cmd);
          row = word_of_int (Row cmd) in
      bindE (bank_at cs (Rank cmd) (Bankgroup cmd) (Bank cmd)) (\<lambda>b.
      bindE (PreACT cfg cmd (b, c_env cs)) (\<lambda>(second, b, e).
      bindE (set_bank (cs\<lparr>c_env := e\<rparr>) (Rank cmd) (Bankgroup cmd) (Bank cmd) b) (\<lambda>cs.
      bindE (dream_preact cfg r g k row cs) (\<lambda>cs.
      bindE (cactus_preact cfg r g k row clk cs) (\<lambda>cs.
      bindE (abacus_preact cfg r g k row cs) (\<lambda>cs.
      Inr (second, cs))))))))"

definition launch_drfm :: "Config \<Rightarrow> Command \<Rightarrow> ChannelState \<Rightarrow> ChannelState res" where
  "launch_drfm cfg cmd cs =
     bindE (upd_bank (Rank cmd) (Bankgroup cmd) (Bank cmd) (\<lambda>b. Inr (MarkDRFMIssued b)) cs) (\<lambda>cs.
     if drfm_mode cfg = 1 then Inr (BankNeedDRFM (Rank cmd) (Bankgroup cmd) (Bank cmd) True cs)
     else if drfm_mode cfg = 2 then Inr (BanksetNeedDRFM (Rank cmd) (Bank cmd) True cs)
     else if drfm_mode cfg = 3 then Inr (RankNeedDRFM (Rank cmd) True cs)
     else Inl AbruptExit)"

text \<open>
  The selection logic that runs before an activation is returned: a full sampler (eagerly, before
  the activation is counted; lazily, after) launches a DRFM instead, and a Hydra count that is
  not cached holds the activation back (\<open>None\<close>).
\<close>

definition select_drfm ::
    "Config \<Rightarrow> Command \<Rightarrow> u64 \<Rightarrow> BankState \<Rightarrow> ChannelState \<Rightarrow> (bool option \<times> ChannelState) res" where
  "select_drfm cfg cmd clk bank_s cs =
     (let first = IsSamplerFull cfg bank_s;
          drfm_launch = (if drfm_policy cfg = 0 then first else False) in
      if \<not> drfm_launch \<or> drfm_policy cfg = 1
      then bindE (hydra_gate cfg cmd cs) (\<lambda>(is_inflight, cs).
           if \<not> is_inflight then Inr (None, cs)
           else bindE (channel_PreACT cfg cmd clk cs) (\<lambda>(second, cs).
                Inr (Some (if drfm_policy cfg = 1 then second else drfm_launch), cs)))
      else Inr (Some drfm_launch, cs))"

definition gate_activate :: "Config \<Rightarrow> Command \<Rightarrow> Command \<Rightarrow> u64 \<Rightarrow> ChannelState \<Rightarrow> (Command \<times> ChannelState) res" where
  "gate_activate cfg cmd ready_cmd clk cs =
     bindE (ActivationWindowOk cfg cs (Rank ready_cmd) clk) (\<lambda>ok.
     if \<not> ok then Inr (Command_default, cs)
     else
       bindE (bank_at cs (Rank cmd) (Bankgroup cmd) (Bank cmd)) (\<lambda>bank_s.
       bindE (select_drfm cfg cmd clk bank_s cs) (\<lambda>(launch, cs).
       case launch of
         None \<Rightarrow> Inr (Command_default, cs)
       | Some True \<Rightarrow> bindE (launch_drfm cfg cmd cs) (\<lambda>cs. Inr (Command_default, cs))
       | Some False \<Rightarrow> Inr (ready_cmd, cs))))"

definition GetReadyCommand :: "Config \<Rightarrow> Command \<Rightarrow> u64 \<Rightarrow> ChannelState \<Rightarrow> (Command \<times> ChannelState) res" where
  "GetReadyCommand cfg cmd clk cs =
     (if IsRankCMD cmd
      then bindE (all_ready cfg cs cmd clk (banks_of_rank cfg) (banks cfg)) (\<lambda>rc. Inr (rc, cs))
      else if IsSbCMD cmd
      then bindE (all_ready cfg cs cmd clk (banks_of_set cfg (Bank cmd)) (bankgroups cfg)) (\<lambda>rc. Inr (rc, cs))
      else if hydra_wb_draining cs \<or> hydra_rd_q cs \<noteq> [] then Inr (Command_default, cs)
      else
        bindE (bank_at cs (Rank cmd) (Bankgroup cmd) (Bank cmd)) (\<lambda>b.
        bindE (bank_GetReadyCommand cfg b cmd clk) (\<lambda>ready_cmd.
        if \<not> IsValid ready_cmd then Inr (Command_default, cs)
        else if cmd_type ready_cmd = RFMsb
        then Inr (Command_default, BanksetNeedRFM (Rank ready_cmd) (Bank ready_cmd) True cs)
        else if cmd_type ready_cmd = RFMab
        then Inr (Command_default, RankNeedRFM (Rank ready_cmd) True cs)
        else if cmd_type ready_cmd = ACTIVATE then gate_activate cfg cmd ready_cmd clk cs
        else Inr (ready_cmd, cs))))"

section \<open>Executing a command\<close>

definition UpdateREFCounter :: "Config \<Rightarrow> Command \<Rightarrow> ChannelState \<Rightarrow> ChannelState res" where
  "UpdateREFCounter cfg cmd cs =
     (let next_ref = (\<lambda>cs. bindE (umod (c_ref_idx cs + 1) (word_of_int (refchunks cfg))) (\<lambda>r. Inr (cs\<lparr>c_ref_idx := r\<rparr>)))
      in if cmd_type cmd = REFsb
         then bindE (umod (c_fgr_counter cs + 1) (word_of_int (2 * banks_per_group cfg))) (\<lambda>f.
              let cs = cs\<lparr>c_fgr_counter := f\<rparr> in if f = 0 then next_ref cs else Inr cs)
         else if cmd_type cmd = REFab
         then let f = (c_fgr_counter cs + 1) mod 2; cs = cs\<lparr>c_fgr_counter := f\<rparr> in
              if fgr cfg \<and> f = 0 \<or> \<not> fgr cfg then next_ref cs else Inr cs
         else Inl AbruptExit)"

definition get_channel :: "Config \<Rightarrow> u64 \<Rightarrow> int res" where
  "get_channel cfg hex = bindE (shr64 hex (shift_bits cfg)) (\<lambda>x. addr_field x (ch_pos cfg) (ch_mask cfg))"

definition refresh_resets :: "Config \<Rightarrow> ChannelState \<Rightarrow> Command \<Rightarrow> bool res" where
  "refresh_resets cfg cs cmd =
     (if cmd_type cmd = REFab then Inr True
      else if cmd_type cmd = REFsb
      then bindE (umod (c_fgr_counter cs + 1) (word_of_int (2 * banks_per_group cfg))) (\<lambda>r. Inr (r = 7))
      else Inr False)"

definition trackers_refresh :: "Config \<Rightarrow> Command \<Rightarrow> ChannelState \<Rightarrow> ChannelState res" where
  "trackers_refresh cfg cmd cs =
     bindE (refresh_resets cfg cs cmd) (\<lambda>should_reset.
     bindE (dream_refresh cfg should_reset cs) (\<lambda>cs.
     bindE (cactus_refresh cfg (Rank cmd) should_reset cs) (\<lambda>cs.
     abacus_refresh cfg should_reset cs)))"

definition rank_rfm_done :: "Config \<Rightarrow> Command \<Rightarrow> ChannelState \<Rightarrow> ChannelState res" where
  "rank_rfm_done cfg cmd cs =
     (let cs = RankNeedRFM (Rank cmd) False cs in
      if cmd_type cmd = RFMab
      then bindE (vget (cactus_rfm_inflight cs) (Rank cmd)) (\<lambda>inflight.
           if inflight
           then bindE (cactus_mitig cfg (Rank cmd) cs) (\<lambda>cs.
                bindE (vset (cactus_rfm_inflight cs) (Rank cmd) False) (\<lambda>ri.
                bindE (vset (cactus_acts_since_rfm cs) (Rank cmd) 0) (\<lambda>ac.
                Inr (cs\<lparr>cactus_rfm_inflight := ri, cactus_acts_since_rfm := ac\<rparr>))))
           else Inr cs)
      else Inr cs)"

definition rank_refresh_done :: "Config \<Rightarrow> Command \<Rightarrow> ChannelState \<Rightarrow> ChannelState res" where
  "rank_refresh_done cfg cmd cs =
     bindE (trackers_refresh cfg cmd (RankNeedRefresh (Rank cmd) False cs)) (\<lambda>cs.
     bindE (if cmd_type cmd = REFab
            then bindE (cactus_tref_mitig cfg (Rank cmd) cs) (\<lambda>cs. cactus_tref_max_mitig cfg (Rank cmd) cs)
            else Inr cs) (\<lambda>cs.
     UpdateREFCounter cfg cmd cs))"

definition exec_rank_cmd :: "Config \<Rightarrow> Command \<Rightarrow> ChannelState \<Rightarrow> ChannelState res" where
  "exec_rank_cmd cfg cmd cs =
     bindE (for_rank cfg (\<lambda>j k. upd_bank_env (Rank cmd) j k (bank_UpdateState cfg cmd)) cs) (\<lambda>cs.
     if IsRFM cmd then rank_rfm_done cfg cmd cs
     else if IsRefresh cmd then rank_refresh_done cfg cmd cs
     else if IsDRFM cmd
     then bindE (dream_mitig cfg (RankNeedDRFM (Rank cmd) False cs)) (\<lambda>cs. abacus_mitig cfg cs)
     else if cmd_type cmd = SREF_ENTER
     then bindE (vset (rank_is_sref cs) (Rank cmd) True) (\<lambda>s. Inr (cs\<lparr>rank_is_sref := s\<rparr>))
     else if cmd_type cmd = SREF_EXIT
     then bindE (vset (rank_is_sref cs) (Rank cmd) False) (\<lambda>s. Inr (cs\<lparr>rank_is_sref := s\<rparr>))
     else Inr cs)"

definition exec_sb_cmd :: "Config \<Rightarrow> Command \<Rightarrow> ChannelState \<Rightarrow> ChannelState res" where
  "exec_sb_cmd cfg cmd cs =
     bindE (forE (bankgroups cfg) (\<lambda>j. upd_bank_env (Rank cmd) j (Bank cmd) (bank_UpdateState cfg cmd)) cs) (\<lambda>cs.
     if IsRFM cmd then Inr (BanksetNeedRFM (Rank cmd) (Bank cmd) False cs)
     else if IsDRFM cmd then Inr (BanksetNeedDRFM (Rank cmd) (Bank cmd) False cs)
     else if IsRefresh cmd
     then bindE (trackers_refresh cfg cmd (BanksetNeedRefresh (Rank cmd) (Bank cmd) False cs)) (\<lambda>cs.
          UpdateREFCounter cfg cmd cs)
     else Inr cs)"

definition exec_bank_cmd :: "Config \<Rightarrow> Command \<Rightarrow> ChannelState \<Rightarrow> ChannelState res" where
  "exec_bank_cmd cfg cmd cs =
     bindE (upd_bank_env (Rank cmd) (Bankgroup cmd) (Bank cmd) (bank_UpdateState cfg cmd) cs) (\<lambda>cs.
     if IsRefresh cmd then Inr (BankNeedRefresh (Rank cmd) (Bankgroup cmd) (Bank cmd) False cs)
     else if IsDRFM cmd then Inr (BankNeedDRFM (Rank cmd) (Bankgroup cmd) (Bank cmd) False cs)
     else Inr cs)"

definition track_burst :: "Config \<Rightarrow> u64 \<Rightarrow> ChannelState \<Rightarrow> ChannelState" where
  "track_burst cfg clk cs =
     (let cs = (if clk - last_bus_access_time cs = word_of_int (burst_cycle cfg)
                then cs\<lparr>bursty_access_count := bursty_access_count cs + 1\<rparr>
                else cs\<lparr>c_env := (c_env cs)\<lparr>env_stats :=
                         AddValue (env_stats (c_env cs)) ''bursty_access_count'' (to_int (bursty_access_count cs))\<rparr>,
                       bursty_access_count := 0\<rparr>)
      in cs\<lparr>last_bus_access_time := clk\<rparr>)"

definition UpdateState :: "Config \<Rightarrow> Command \<Rightarrow> u64 \<Rightarrow> ChannelState \<Rightarrow> ChannelState res" where
  "UpdateState cfg cmd clk cs =
     bindE (if IsRankCMD cmd then exec_rank_cmd cfg cmd cs
            else if IsSbCMD cmd then exec_sb_cmd cfg cmd cs
            else exec_bank_cmd cfg cmd cs) (\<lambda>cs.
     Inr (if IsReadWrite cmd then track_burst cfg clk cs else cs))"

section \<open>Alerts\<close>

definition raise_alert :: "u64 \<Rightarrow> ChannelState \<Rightarrow> ChannelState" where
  "raise_alert clk cs = c_stat_inc ''num_alerts'' (cs\<lparr>alert_n := True, last_alert_clk := clk\<rparr>)"

definition TriggerSameBankAlert :: "Config \<Rightarrow> Command \<Rightarrow> u64 \<Rightarrow> ChannelState \<Rightarrow> ChannelState res" where
  "TriggerSameBankAlert cfg cmd clk cs =
     (if alert_n cs \<or> num_acts_abo cs < ABO_delay_acts cfg then Inr cs
      else if alert_mode cfg = 1
      then bindE (bank_at cs (Rank cmd) (Bankgroup cmd) (Bank cmd)) (\<lambda>b.
           bindE (CheckAlert cfg b) (\<lambda>a. Inr (if a then raise_alert clk cs else cs)))
      else Inr cs)"

definition TriggerSameRankAlert :: "Config \<Rightarrow> Command \<Rightarrow> u64 \<Rightarrow> ChannelState \<Rightarrow> ChannelState res" where
  "TriggerSameRankAlert cfg cmd clk cs =
     (if alert_n cs \<or> num_acts_abo cs < ABO_delay_acts cfg then Inr cs
      else for_rank cfg (\<lambda>j k cs.
        if alert_n cs then Inr cs
        else if alert_mode cfg = 1
        then bindE (bank_at cs (Rank cmd) j k) (\<lambda>b.
             bindE (CheckAlert cfg b) (\<lambda>a. Inr (if a then raise_alert clk cs else cs)))
        else Inr cs) cs)"

definition ResetAlert :: "ChannelState \<Rightarrow> ChannelState" where
  "ResetAlert cs = cs\<lparr>alert_n := False, alert_rank := -1\<rparr>"

definition serve_cactus_alert :: "Config \<Rightarrow> u64 \<Rightarrow> int \<Rightarrow> ChannelState \<Rightarrow> ChannelState res" where
  "serve_cactus_alert cfg clk rank cs =
     bindE (vget (cactus_alert_pending cs) rank) (\<lambda>pending.
     bindE (vget (cactus_rfm_inflight cs) rank) (\<lambda>inflight.
     if \<not> pending \<or> inflight then Inr cs
     else
       bindE (vget (cactus_last_alert_clk cs) rank) (\<lambda>t.
       if clk < t + word_of_int (tABO_act cfg) then Inr cs
       else
         let cs = RankNeedRFM rank True cs in
         bindE (vset (cactus_alert_pending cs) rank False) (\<lambda>ap.
         bindE (vset (cactus_rfm_inflight cs) rank True) (\<lambda>ri.
         Inr (cs\<lparr>cactus_alert_pending := ap, cactus_rfm_inflight := ri\<rparr>))))))"

definition channel_ClockTick :: "Config \<Rightarrow> u64 \<Rightarrow> ChannelState \<Rightarrow> ChannelState res" where
  "channel_ClockTick cfg clk cs =
     (let cs = (if alert_n cs \<and> alert_rank cs \<ge> 0 \<and> clk \<ge> last_alert_clk cs + word_of_int (tABO_act cfg)
                then ResetAlert (RankNeedRFM (alert_rank cs) True cs) else cs)
      in if cactus_mode cfg = 0 then Inr cs
         else forE (ranks cfg) (serve_cactus_alert cfg clk) cs)"

section \<open>Timing\<close>

text \<open>\<open>UpdateTiming(cmd_timing.first, clk + cmd_timing.second)\<close> for every entry of a list.\<close>

definition time_bank :: "entries \<Rightarrow> u64 \<Rightarrow> int \<Rightarrow> int \<Rightarrow> int \<Rightarrow> ChannelState \<Rightarrow> ChannelState res" where
  "time_bank ts clk r j k =
     foldE (\<lambda>(ct, d). upd_bank r j k (\<lambda>b. bank_UpdateTiming b ct (clk + word_of_int d))) ts"

definition UpdateSameBankset :: "Config \<Rightarrow> Address \<Rightarrow> entries \<Rightarrow> u64 \<Rightarrow> ChannelState \<Rightarrow> ChannelState res" where
  "UpdateSameBankset cfg a ts clk =
     forE (bankgroups cfg) (\<lambda>j. time_bank ts clk (a_rank a) j (a_bank a))"

definition UpdateOtherBanksets :: "Config \<Rightarrow> Address \<Rightarrow> entries \<Rightarrow> u64 \<Rightarrow> ChannelState \<Rightarrow> ChannelState res" where
  "UpdateOtherBanksets cfg a ts clk =
     for_channel cfg (\<lambda>i j k cs. if k = a_bank a then Inr cs else time_bank ts clk i j k cs)"

definition UpdateSameBankTiming :: "Config \<Rightarrow> Address \<Rightarrow> entries \<Rightarrow> u64 \<Rightarrow> ChannelState \<Rightarrow> ChannelState res" where
  "UpdateSameBankTiming cfg a ts clk = time_bank ts clk (a_rank a) (a_bankgroup a) (a_bank a)"

definition UpdateOtherBanksSameBankgroupTiming ::
    "Config \<Rightarrow> Address \<Rightarrow> entries \<Rightarrow> u64 \<Rightarrow> ChannelState \<Rightarrow> ChannelState res" where
  "UpdateOtherBanksSameBankgroupTiming cfg a ts clk =
     forE (banks_per_group cfg) (\<lambda>k cs.
       if k \<noteq> a_bank a then time_bank ts clk (a_rank a) (a_bankgroup a) k cs else Inr cs)"

definition UpdateOtherBankgroupsSameRankTiming ::
    "Config \<Rightarrow> Address \<Rightarrow> entries \<Rightarrow> u64 \<Rightarrow> ChannelState \<Rightarrow> ChannelState res" where
  "UpdateOtherBankgroupsSameRankTiming cfg a ts clk =
     for_rank cfg (\<lambda>j k cs. if j \<noteq> a_bankgroup a then time_bank ts clk (a_rank a) j k cs else Inr cs)"

definition UpdateOtherRanksTiming :: "Config \<Rightarrow> Address \<Rightarrow> entries \<Rightarrow> u64 \<Rightarrow> ChannelState \<Rightarrow> ChannelState res" where
  "UpdateOtherRanksTiming cfg a ts clk =
     for_channel cfg (\<lambda>i j k cs. if i \<noteq> a_rank a then time_bank ts clk i j k cs else Inr cs)"

definition UpdateSameRankTiming :: "Config \<Rightarrow> Address \<Rightarrow> entries \<Rightarrow> u64 \<Rightarrow> ChannelState \<Rightarrow> ChannelState res" where
  "UpdateSameRankTiming cfg a ts clk = for_rank cfg (\<lambda>j k. time_bank ts clk (a_rank a) j k)"

definition count_act :: "Config \<Rightarrow> Command \<Rightarrow> u64 \<Rightarrow> ChannelState \<Rightarrow> ChannelState res" where
  "count_act cfg cmd clk cs =
     (let cs = cs\<lparr>num_acts_abo := num_acts_abo cs + 1\<rparr> in
      bindE (if cactus_mode cfg \<noteq> 0 then vupd (cactus_acts_since_rfm cs) (Rank cmd) (\<lambda>n. n + 1)
             else Inr (cactus_acts_since_rfm cs)) (\<lambda>ac.
      UpdateActivationTimes cfg (Rank cmd) clk (cs\<lparr>cactus_acts_since_rfm := ac\<rparr>)))"

definition time_bank_cmd :: "Config \<Rightarrow> Command \<Rightarrow> u64 \<Rightarrow> ChannelState \<Rightarrow> ChannelState res" where
  "time_bank_cmd cfg cmd clk cs =
     (let a = cmd_addr cmd; ct = cmd_type cmd in
      bindE (UpdateSameBankTiming cfg a (timing cfg same_bank ct) clk cs) (\<lambda>cs.
      bindE (UpdateOtherBanksSameBankgroupTiming cfg a (timing cfg other_banks_same_bankgroup ct) clk cs) (\<lambda>cs.
      bindE (UpdateOtherBankgroupsSameRankTiming cfg a (timing cfg other_bankgroups_same_rank ct) clk cs) (\<lambda>cs.
      UpdateOtherRanksTiming cfg a (timing cfg other_ranks ct) clk cs))))"

text \<open>The switch of \<open>UpdateTiming\<close>; its first cases fall through into one another.\<close>

definition UpdateTiming :: "Config \<Rightarrow> Command \<Rightarrow> u64 \<Rightarrow> ChannelState \<Rightarrow> ChannelState res" where
  "UpdateTiming cfg cmd clk cs =
     (let ct = cmd_type cmd; a = cmd_addr cmd in
      if ct \<in> {ACTIVATE, READ_PRECHARGE, WRITE_PRECHARGE, PRECHARGE, PREab, PREsb, READ, WRITE, REFRESH_BANK, DRFMb}
      then bindE (if ct = ACTIVATE then count_act cfg cmd clk cs else Inr cs) (\<lambda>cs.
           bindE (if ct \<in> {ACTIVATE, READ_PRECHARGE, WRITE_PRECHARGE, PRECHARGE, PREab, PREsb}
                  then TriggerSameBankAlert cfg cmd clk cs else Inr cs) (\<lambda>cs.
           time_bank_cmd cfg cmd clk cs))
      else if ct \<in> {RFMab, REFab, DRFMab, SREF_ENTER, SREF_EXIT}
      then let cs = (if ct = RFMab then cs\<lparr>num_acts_abo := 0\<rparr> else cs) in
           bindE (if ct = RFMab \<or> ct = REFab then TriggerSameRankAlert cfg cmd clk cs else Inr cs) (\<lambda>cs.
           UpdateSameRankTiming cfg a (timing cfg same_rank ct) clk cs)
      else if ct \<in> {REFsb, RFMsb, DRFMsb}
      then bindE (TriggerSameRankAlert cfg cmd clk cs) (\<lambda>cs.
           bindE (UpdateSameBankset cfg a (timing cfg same_bankset ct) clk cs) (\<lambda>cs.
           UpdateOtherBanksets cfg a (timing cfg other_banksets ct) clk cs))
      else Inl AbruptExit)"

definition UpdateTimingAndStates :: "Config \<Rightarrow> Command \<Rightarrow> u64 \<Rightarrow> ChannelState \<Rightarrow> ChannelState res" where
  "UpdateTimingAndStates cfg cmd clk cs =
     bindE (UpdateState cfg cmd clk cs) (\<lambda>cs. UpdateTiming cfg cmd clk cs)"

end
