(* ===== verification/Channel_Banks.thy ===== *)
theory Channel_Banks
  imports Channel_Cmd
begin

text \<open>
  The shape of a channel and the loops over its banks. A position is a triple (rank, bank group,
  bank); every loop of channel_state.cc over banks is a fold over a list of distinct positions
  whose body changes one bank, so one lemma gives the effect of all of them. \<open>vE\<close> is partial
  correctness, for the facts that hold of a run only if it does not fault.
\<close>

section \<open>Partial correctness\<close>

definition vE :: "'a res \<Rightarrow> ('a \<Rightarrow> bool) \<Rightarrow> bool" where
  "vE m P = (case m of Inl e \<Rightarrow> True | Inr x \<Rightarrow> P x)"

named_theorems v_intro \<open>partial-correctness rules, used as introduction rules\<close>

lemma vE_simps [simp]: "vE (Inl e) P" "vE (Inr x) P = P x"
  by (simp_all add: vE_def)

lemma vE_D: "vE m P \<Longrightarrow> m = Inr x \<Longrightarrow> P x"
  by simp

lemma vE_I: "(\<And>x. m = Inr x \<Longrightarrow> P x) \<Longrightarrow> vE m P"
  by (cases m) auto

lemma vE_bindE [v_intro]: "vE m Q \<Longrightarrow> (\<And>x. Q x \<Longrightarrow> vE (f x) P) \<Longrightarrow> vE (bindE m f) P"
  by (cases m) auto

lemma vE_bind_any: "(\<And>x. m = Inr x \<Longrightarrow> vE (f x) P) \<Longrightarrow> vE (bindE m f) P"
  by (cases m) auto

text \<open>The same rule with premises that hold, so that rules with fewer premises are tried first.\<close>

lemma vE_bind_else: "True \<Longrightarrow> True \<Longrightarrow> (\<And>x. m = Inr x \<Longrightarrow> vE (f x) P) \<Longrightarrow> vE (bindE m f) P"
  by (rule vE_bind_any)

lemma vE_if [simp]: "vE (if b then m else n) P = (if b then vE m P else vE n P)"
  by simp

lemma vE_mono: "vE m P \<Longrightarrow> (\<And>x. P x \<Longrightarrow> Q x) \<Longrightarrow> vE m Q"
  by (cases m) auto

lemma vE_foldE:
  assumes "I s" "\<And>x s. x \<in> set xs \<Longrightarrow> I s \<Longrightarrow> vE (f x s) I"
  shows "vE (foldE f xs s) I"
  using assms by (induction xs arbitrary: s) (auto intro: vE_bindE)

lemma vE_forE:
  assumes "I s" "\<And>i s. 0 \<le> i \<Longrightarrow> i < n \<Longrightarrow> I s \<Longrightarrow> vE (f i s) I"
  shows "vE (forE n f s) I"
  unfolding forE_def by (rule vE_foldE) (use assms in auto)

lemma okE_vE: "okE m P \<Longrightarrow> vE m P"
  by (cases m) auto

section \<open>Positions\<close>

type_synonym pos = "int \<times> int \<times> int"

definition positions :: "Config \<Rightarrow> pos set" where
  "positions cfg = {(i, j, k). 0 \<le> i \<and> i < ranks cfg \<and> 0 \<le> j \<and> j < bankgroups cfg \<and> 0 \<le> k \<and> k < banks_per_group cfg}"

definition chan_shape :: "Config \<Rightarrow> ChannelState \<Rightarrow> bool" where
  "chan_shape cfg cs \<longleftrightarrow> length (bank_states cs) = nat (ranks cfg) \<and>
     (\<forall>rs\<in>set (bank_states cs). length rs = nat (bankgroups cfg) \<and>
       (\<forall>bs\<in>set rs. length bs = nat (banks_per_group cfg)))"

definition the_bank :: "ChannelState \<Rightarrow> pos \<Rightarrow> BankState" where
  "the_bank cs = (\<lambda>(i, j, k). bank_states cs ! nat i ! nat j ! nat k)"

definition put_bank :: "pos \<Rightarrow> BankState \<Rightarrow> ChannelState \<Rightarrow> ChannelState" where
  "put_bank = (\<lambda>(i, j, k) b cs. cs\<lparr>bank_states := (bank_states cs)[nat i :=
     (bank_states cs ! nat i)[nat j := (bank_states cs ! nat i ! nat j)[nat k := b]]]\<rparr>)"

lemma shape_lengths:
  assumes "chan_shape cfg cs" "i < length (bank_states cs)"
  shows "length (bank_states cs ! i) = nat (bankgroups cfg)"
    "j < length (bank_states cs ! i) \<Longrightarrow> length (bank_states cs ! i ! j) = nat (banks_per_group cfg)"
proof -
  have "bank_states cs ! i \<in> set (bank_states cs)" using assms(2) by simp
  then have *: "length (bank_states cs ! i) = nat (bankgroups cfg)"
    "\<forall>bs\<in>set (bank_states cs ! i). length bs = nat (banks_per_group cfg)"
    using assms(1) unfolding chan_shape_def by blast+
  then show "length (bank_states cs ! i) = nat (bankgroups cfg)" by blast
  show "j < length (bank_states cs ! i) \<Longrightarrow> length (bank_states cs ! i ! j) = nat (banks_per_group cfg)"
    using *(2) by simp
qed

lemma shape_in:
  assumes "chan_shape cfg cs" "(i, j, k) \<in> positions cfg"
  shows "inrange i (bank_states cs)" "inrange j (bank_states cs ! nat i)"
    "inrange k (bank_states cs ! nat i ! nat j)"
proof -
  have r: "nat i < length (bank_states cs)" using assms by (auto simp: chan_shape_def positions_def)
  note l = shape_lengths [OF assms(1) r]
  have "nat j < length (bank_states cs ! nat i)" using assms(2) l(1) by (auto simp: positions_def)
  note j = l(1) l(2) [OF this]
  then show "inrange i (bank_states cs)" "inrange j (bank_states cs ! nat i)"
    "inrange k (bank_states cs ! nat i ! nat j)"
    using assms j by (auto simp: chan_shape_def positions_def inrange_def)
qed

lemma bank_at_pos:
  "chan_shape cfg cs \<Longrightarrow> (i, j, k) \<in> positions cfg \<Longrightarrow> bank_at cs i j k = Inr (the_bank cs (i, j, k))"
  using shape_in [of cfg cs i j k] by (simp add: bank_at_def the_bank_def)

lemma set_bank_pos:
  "chan_shape cfg cs \<Longrightarrow> (i, j, k) \<in> positions cfg \<Longrightarrow> set_bank cs i j k b = Inr (put_bank (i, j, k) b cs)"
  using shape_in [of cfg cs i j k] by (simp add: set_bank_def put_bank_def)

lemma put_bank_shape:
  assumes "chan_shape cfg cs" "p \<in> positions cfg"
  shows "chan_shape cfg (put_bank p b cs)"
proof -
  obtain i j k where p: "p = (i, j, k)" by (cases p)
  note s = inrange_nat [OF shape_in(1)] inrange_nat [OF shape_in(2)] inrange_nat [OF shape_in(3)]
  have "nat i < length (bank_states cs)" "nat j < length (bank_states cs ! nat i)"
    using assms p s by blast+
  moreover from this have "length (bank_states cs ! nat i ! nat j) = nat (banks_per_group cfg)"
    "length (bank_states cs ! nat i) = nat (bankgroups cfg)"
    using shape_lengths [OF assms(1)] by blast+
  ultimately show ?thesis
    using assms(1) unfolding p put_bank_def chan_shape_def prod.case
    by (auto dest!: set_update_subset_insert [THEN subsetD] dest: bspec [OF _ nth_mem])
qed

lemma the_bank_put:
  assumes "chan_shape cfg cs" "p \<in> positions cfg" "q \<in> positions cfg"
  shows "the_bank (put_bank p b cs) q = (if q = p then b else the_bank cs q)"
proof -
  obtain i j k where p: "p = (i, j, k)" by (cases p)
  obtain i' j' k' where q: "q = (i', j', k')" by (cases q)
  note s = inrange_nat [OF shape_in(1)] inrange_nat [OF shape_in(2)] inrange_nat [OF shape_in(3)]
  have "nat i < length (bank_states cs)" "nat j < length (bank_states cs ! nat i)"
    "nat k < length (bank_states cs ! nat i ! nat j)"
    using assms p s by blast+
  moreover have "0 \<le> i" "0 \<le> j" "0 \<le> k" "0 \<le> i'" "0 \<le> j'" "0 \<le> k'"
    using assms p q by (auto simp: positions_def)
  ultimately show ?thesis by (auto simp: p q put_bank_def the_bank_def nth_list_update)
qed

lemma put_bank_frame [simp]:
  "c_env (put_bank p b cs) = c_env cs" "(put_bank p b cs)\<lparr>bank_states := x\<rparr> = cs\<lparr>bank_states := x\<rparr>"
  by (cases p; simp add: put_bank_def)+

lemma upd_bank_pos:
  assumes "chan_shape cfg cs" "(i, j, k) \<in> positions cfg"
  shows "upd_bank i j k f cs = bindE (f (the_bank cs (i, j, k))) (\<lambda>b. Inr (put_bank (i, j, k) b cs))"
  using assms by (simp add: upd_bank_def bank_at_pos set_bank_pos cong: bindE_cong)

lemma shape_env [simp]: "chan_shape cfg (cs\<lparr>c_env := e\<rparr>) = chan_shape cfg cs"
  by (simp add: chan_shape_def)

lemma the_bank_env [simp]: "the_bank (cs\<lparr>c_env := e\<rparr>) = the_bank cs"
  by (simp add: the_bank_def fun_eq_iff)

lemma upd_bank_env_pos:
  assumes "chan_shape cfg cs" "(i, j, k) \<in> positions cfg"
  shows "upd_bank_env i j k f cs =
    bindE (f (the_bank cs (i, j, k), c_env cs)) (\<lambda>(b, e). Inr (put_bank (i, j, k) b (cs\<lparr>c_env := e\<rparr>)))"
proof -
  have "set_bank (cs\<lparr>c_env := e\<rparr>) i j k b = Inr (put_bank (i, j, k) b (cs\<lparr>c_env := e\<rparr>))" for e b
    using assms by (intro set_bank_pos) simp_all
  then show ?thesis using assms by (simp add: upd_bank_env_def bank_at_pos)
qed

section \<open>Loops over banks\<close>

text \<open>Only banks and the environment differ.\<close>

definition bank_frame :: "ChannelState \<Rightarrow> ChannelState \<Rightarrow> bool" where
  "bank_frame cs cs' \<longleftrightarrow> (\<exists>bss e. cs' = cs\<lparr>bank_states := bss, c_env := e\<rparr>)"

definition only_bank :: "Config \<Rightarrow> pos \<Rightarrow> ChannelState \<Rightarrow> ChannelState \<Rightarrow> bool" where
  "only_bank cfg p cs cs' \<longleftrightarrow> bank_frame cs cs' \<and> chan_shape cfg cs' \<and>
     (\<forall>q\<in>positions cfg. q \<noteq> p \<longrightarrow> the_bank cs' q = the_bank cs q)"

lemma bank_frame_refl [simp]: "bank_frame cs cs"
  unfolding bank_frame_def by (intro exI [of _ "bank_states cs"] exI [of _ "c_env cs"]) simp

lemma bank_frame_trans: "bank_frame a b \<Longrightarrow> bank_frame b c \<Longrightarrow> bank_frame a c"
proof -
  assume "bank_frame a b" "bank_frame b c"
  then obtain x e y f where "b = a\<lparr>bank_states := x, c_env := e\<rparr>" "c = b\<lparr>bank_states := y, c_env := f\<rparr>"
    unfolding bank_frame_def by blast
  then have "c = a\<lparr>bank_states := y, c_env := f\<rparr>" by simp
  then show ?thesis unfolding bank_frame_def by blast
qed

lemma bank_frame_put: "bank_frame cs (put_bank p b (cs\<lparr>c_env := e\<rparr>))"
proof -
  have "put_bank p b (cs\<lparr>c_env := e\<rparr>) = cs\<lparr>bank_states := bank_states (put_bank p b cs), c_env := e\<rparr>"
    by (cases p) (simp add: put_bank_def)
  then show ?thesis unfolding bank_frame_def by blast
qed

lemma only_bank_put:
  assumes "chan_shape cfg cs" "p \<in> positions cfg"
  shows "only_bank cfg p cs (put_bank p b (cs\<lparr>c_env := e\<rparr>))" "only_bank cfg p cs (put_bank p b cs)"
proof -
  have "only_bank cfg p cs (put_bank p b (cs\<lparr>c_env := e\<rparr>))" for e
    using assms by (simp add: only_bank_def bank_frame_put put_bank_shape the_bank_put [of cfg])
  from this [of e] this [of "c_env cs"]
  show "only_bank cfg p cs (put_bank p b (cs\<lparr>c_env := e\<rparr>))" "only_bank cfg p cs (put_bank p b cs)" by simp_all
qed

lemma fold_banks:
  assumes "chan_shape cfg cs" "distinct ps" "set ps \<subseteq> positions cfg"
    and body: "\<And>p cs'. p \<in> set ps \<Longrightarrow> bank_frame cs cs' \<Longrightarrow> chan_shape cfg cs' \<Longrightarrow>
      the_bank cs' p = the_bank cs p \<Longrightarrow> okE (f p cs') (\<lambda>cs''. only_bank cfg p cs' cs'' \<and> Q p (the_bank cs'' p))"
  shows "okE (foldE f ps cs) (\<lambda>cs'. bank_frame cs cs' \<and> chan_shape cfg cs' \<and>
    (\<forall>q\<in>positions cfg. if q \<in> set ps then Q q (the_bank cs' q) else the_bank cs' q = the_bank cs q))"
  using assms
proof (induction ps arbitrary: cs)
  case Nil
  then show ?case by simp
next
  case (Cons p ps)
  obtain c1 where c1: "f p cs = Inr c1" "only_bank cfg p cs c1" "Q p (the_bank c1 p)"
    using Cons.prems(1) Cons.prems(4) [of p cs] by (auto simp: okE_iff)
  have fr: "bank_frame cs c1" "chan_shape cfg c1" using c1(2) by (auto simp: only_bank_def)
  have same: "the_bank c1 q = the_bank cs q" if "q \<in> set ps" for q
    using that Cons.prems(2,3) c1(2) by (auto simp: only_bank_def)
  have "okE (foldE f ps c1) (\<lambda>cs'. bank_frame c1 cs' \<and> chan_shape cfg cs' \<and>
    (\<forall>q\<in>positions cfg. if q \<in> set ps then Q q (the_bank cs' q) else the_bank cs' q = the_bank c1 q))"
  proof (rule Cons.IH)
    fix q cs'
    assume "q \<in> set ps" "bank_frame c1 cs'" "chan_shape cfg cs'" "the_bank cs' q = the_bank c1 q"
    then show "okE (f q cs') (\<lambda>cs''. only_bank cfg q cs' cs'' \<and> Q q (the_bank cs'' q))"
      using Cons.prems(4) [of q cs'] fr same by (auto intro: bank_frame_trans)
  qed (use fr Cons.prems in auto)
  then obtain c2 where c2: "foldE f ps c1 = Inr c2" "bank_frame c1 c2" "chan_shape cfg c2"
    "\<forall>q\<in>positions cfg. if q \<in> set ps then Q q (the_bank c2 q) else the_bank c2 q = the_bank c1 q"
    by (auto simp: okE_iff)
  have "if q \<in> set (p # ps) then Q q (the_bank c2 q) else the_bank c2 q = the_bank cs q" if "q \<in> positions cfg" for q
    using that c2(4) c1(2,3) Cons.prems(2) by (auto simp: only_bank_def split: if_splits)
  with c1(1) c2(1-3) fr show ?case by (auto intro: bank_frame_trans)
qed

text \<open>The nested loops are folds over positions.\<close>

definition rank_list :: "Config \<Rightarrow> int \<Rightarrow> pos list" where
  "rank_list cfg i = map (\<lambda>(j, k). (i, j, k)) (banks_of_rank cfg)"

definition all_list :: "Config \<Rightarrow> pos list" where
  "all_list cfg = concat (map (\<lambda>i. rank_list cfg (int i)) [0..<nat (ranks cfg)])"

lemma foldE_concat: "foldE f (concat xss) = foldE (\<lambda>xs. foldE f xs) xss"
proof
  show "foldE f (concat xss) s = foldE (\<lambda>xs. foldE f xs) xss s" for s
    by (induction xss arbitrary: s) (simp_all add: foldE_append)
qed

lemma foldE_map: "foldE f (map g xs) = foldE (\<lambda>x. f (g x)) xs"
proof
  show "foldE f (map g xs) s = foldE (\<lambda>x. f (g x)) xs s" for s
    by (induction xs arbitrary: s) simp_all
qed

lemma for_rank_fold: "for_rank cfg f cs = foldE (\<lambda>(i, j, k). f j k) (rank_list cfg i) cs"
  unfolding for_rank_def forE_def rank_list_def banks_of_rank_def
  by (simp add: map_concat foldE_concat foldE_map comp_def)

lemma for_channel_fold: "for_channel cfg f cs = foldE (\<lambda>(i, j, k). f i j k) (all_list cfg) cs"
proof -
  have "foldE (\<lambda>(i, j, k). f i j k) (rank_list cfg i) = for_rank cfg (f i)" for i
  proof
    fix s
    have "foldE (\<lambda>(i, j, k). f i j k) (rank_list cfg i) s = foldE (\<lambda>(i', j, k). f i j k) (rank_list cfg i) s"
      by (rule foldE_cong) (auto simp: rank_list_def)
    then show "foldE (\<lambda>(i, j, k). f i j k) (rank_list cfg i) s = for_rank cfg (f i) s"
      by (simp add: for_rank_fold [of _ _ _ i])
  qed
  then show ?thesis by (simp add: for_channel_def forE_def all_list_def foldE_concat foldE_map)
qed

lemma banks_of_rank_props:
  "set (banks_of_rank cfg) = {(j, k). 0 \<le> j \<and> j < bankgroups cfg \<and> 0 \<le> k \<and> k < banks_per_group cfg}"
  "distinct (banks_of_rank cfg)"
  "length (banks_of_rank cfg) = nat (bankgroups cfg) * nat (banks_per_group cfg)"
proof -
  have prod: "banks_of_rank cfg = List.product (map int [0..<nat (bankgroups cfg)]) (map int [0..<nat (banks_per_group cfg)])"
    by (simp add: banks_of_rank_def product_concat_map comp_def)
  have img: "set (map int [0..<nat n]) = {x. 0 \<le> x \<and> x < n}" for n
  proof
    show "{x. 0 \<le> x \<and> x < n} \<subseteq> set (map int [0..<nat n])"
    proof
      fix x assume "x \<in> {x. 0 \<le> x \<and> x < n}"
      then have "x = int (nat x)" "nat x \<in> set [0..<nat n]" by auto
      then show "x \<in> set (map int [0..<nat n])" by (metis image_eqI set_map)
    qed
  qed auto
  show "set (banks_of_rank cfg) = {(j, k). 0 \<le> j \<and> j < bankgroups cfg \<and> 0 \<le> k \<and> k < banks_per_group cfg}"
    unfolding prod set_product img by auto
  show "distinct (banks_of_rank cfg)" unfolding prod by (rule distinct_product) (auto simp: distinct_map)
  show "length (banks_of_rank cfg) = nat (bankgroups cfg) * nat (banks_per_group cfg)" unfolding prod by simp
qed

lemma rank_list_props:
  "set (rank_list cfg i) = {(i', j, k). i' = i \<and> 0 \<le> j \<and> j < bankgroups cfg \<and> 0 \<le> k \<and> k < banks_per_group cfg}"
  "distinct (rank_list cfg i)"
  unfolding rank_list_def
  by (auto simp: banks_of_rank_props distinct_map inj_on_def image_iff)

lemma all_list_props: "set (all_list cfg) = positions cfg" "distinct (all_list cfg)"
proof -
  show "set (all_list cfg) = positions cfg"
  proof
    show "positions cfg \<subseteq> set (all_list cfg)"
    proof
      fix p assume p: "p \<in> positions cfg"
      then obtain i j k where "p = (i, j, k)" "0 \<le> i" "i < ranks cfg" by (auto simp: positions_def)
      with p have "p \<in> set (rank_list cfg (int (nat i)))" "nat i \<in> {0..<nat (ranks cfg)}"
        by (auto simp: rank_list_props positions_def)
      then show "p \<in> set (all_list cfg)" unfolding all_list_def set_concat set_map set_upt by blast
    qed
  qed (auto simp: all_list_def rank_list_props positions_def)
  have "distinct (concat (map (\<lambda>i. rank_list cfg (int i)) [0..<n]))" for n
    by (induction n) (auto simp: rank_list_props)
  then show "distinct (all_list cfg)" by (simp add: all_list_def)
qed

end
