(* ===== verification/Channel_Frame.thy ===== *)
theory Channel_Frame
  imports Channel_Banks
begin

text \<open>
  Which parts of a channel an operation leaves alone. \<open>chan_base\<close> is the contract of a property of
  the channel that statistics, request queues, the other trackers and every change of a bank that
  keeps its earliest times cannot break. With the operations of CACTUS (\<open>chan_ops\<close>), every operation
  but the timing update is shown to keep the property, and with \<open>chan_ops_any\<close> the timing
  update too. \<open>chan_frame\<close> and \<open>chan_frame_any\<close> are the cases where no member of CACTUS matters.
\<close>

section \<open>Operations that leave the timing alone\<close>

definition kept :: "BankState \<times> Env \<Rightarrow> BankState \<times> Env \<Rightarrow> bool" where
  "kept s s' \<longleftrightarrow> cmd_timing (fst s') = cmd_timing (fst s)"

named_theorems kept_intro \<open>operations of a bank that keep its timing\<close>

lemma kept_refl [simp]: "kept s s"
  by (simp add: kept_def)

lemma kept_trans: "kept s t \<Longrightarrow> kept t u \<Longrightarrow> kept s u"
  by (simp add: kept_def)

lemma kept_then:
  "vE m (kept s) \<Longrightarrow> (\<And>t. kept s t \<Longrightarrow> vE (f t) (kept t)) \<Longrightarrow> vE (bindE m f) (kept s)"
  by (rule vE_bindE, assumption) (auto intro: vE_mono kept_trans)

lemma drfm_push_kept: "vE (drfm_push_asserted cfg b w) (\<lambda>b'. cmd_timing b' = cmd_timing b)"
  by (auto simp: drfm_push_asserted_def drfm_push_def intro!: vE_bind_any)

lemma mint_kept: "vE (mint_preact cfg w s) (kept s)"
  by (cases s) (auto simp: mint_preact_def kept_def Let_def rand_def drfm_push_asserted_def drfm_push_def bindE_assoc
      intro!: vE_bind_any)

lemma para_kept: "vE (para_preact cfg w s) (kept s)"
  by (cases s) (auto simp: para_preact_def kept_def Let_def rand_def drfm_push_asserted_def drfm_push_def bindE_assoc
      intro!: vE_bind_any)

lemma graphene_count_kept: "kept s (graphene_count w s)"
  by (cases s) (simp add: graphene_count_def kept_def Let_def)

lemma graphene_kept: "vE (graphene_preact cfg w s) (kept s)"
proof (cases "graphene_mode cfg = 0")
  case False
  obtain b e where g: "graphene_count w s = (b, e)" by force
  with graphene_count_kept [of s w] have "cmd_timing b = cmd_timing (fst s)" by (simp add: kept_def)
  with False g show ?thesis
    by (cases s) (auto simp: graphene_preact_def kept_def drfm_push_asserted_def drfm_push_def bindE_assoc
        intro!: vE_bind_any split: option.split)
qed (cases s, simp add: graphene_preact_def)

lemma hydra_count_kept: "vE (hydra_count cfg cmd w i s) (kept s)"
  by (cases s) (auto simp: hydra_count_def kept_def intro!: vE_bind_any)

lemma hydra_split_kept: "vE (hydra_split cfg i s) (kept s)"
  by (cases s) (auto simp: hydra_split_def kept_def intro!: vE_bind_any)

lemma hydra_kept: "vE (hydra_preact cfg cmd s) (kept s)"
  unfolding hydra_preact_def Let_def
  by (cases s) (auto simp del: bindE_simps simp: kept_def [of "(_, _)" "(_, _)"] drfm_push_asserted_def drfm_push_def
      bindE_assoc intro!: vE_bind_any kept_then [OF hydra_count_kept] kept_then [OF hydra_split_kept])

lemma PreACT_kept: "vE (PreACT cfg cmd s) (\<lambda>(f, s'). kept s s')"
proof -
  have v: "vE (bindE (mint_preact cfg w s) (\<lambda>s. bindE (para_preact cfg w s) (\<lambda>s.
    bindE (graphene_preact cfg w s) (hydra_preact cfg cmd)))) (kept s)" for w
    by (intro kept_then [OF mint_kept] kept_then [OF para_kept] kept_then [OF graphene_kept] hydra_kept)
  have eq: "PreACT cfg cmd s = bindE (bindE (mint_preact cfg (word_of_int (Row cmd)) s) (\<lambda>s.
    bindE (para_preact cfg (word_of_int (Row cmd)) s) (\<lambda>s. bindE (graphene_preact cfg (word_of_int (Row cmd)) s)
    (hydra_preact cfg cmd)))) (\<lambda>s. Inr (IsSamplerFull cfg (fst s), s))"
    by (simp add: PreACT_def Let_def bindE_assoc case_prod_beta')
  show ?thesis unfolding eq by (rule vE_bindE [OF v]) simp
qed

lemma drfm_mitig_kept: "kept s (snd (drfm_mitig s))"
  by (cases s) (auto simp: drfm_mitig_def kept_def Let_def split: option.split)

lemma mode_mitig_kept: "kept s (mode_mitig m s)"
  by (simp add: mode_mitig_def drfm_mitig_kept)

lemma graphene_mitig_kept: "vE (graphene_mitig cfg s) (kept s)"
  using drfm_mitig_kept [of s]
  by (auto simp: graphene_mitig_def kept_def intro!: vE_bind_any split: prod.split option.split)

lemma hydra_mitig_kept: "vE (hydra_mitig cfg s) (kept s)"
  using drfm_mitig_kept [of s]
  by (auto simp: hydra_mitig_def kept_def intro!: vE_bind_any split: prod.split)

lemma moat_mitig_kept: "vE (moat_mitig cfg b) (\<lambda>b'. cmd_timing b' = cmd_timing b)"
  by (auto simp: moat_mitig_def Let_def intro!: vE_bind_any)

lemma exec_rfmsb_kept: "vE (exec_rfmsb cfg s) (kept s)"
  by (cases s) (simp add: exec_rfmsb_def kept_def)

lemma exec_rfmab_kept: "vE (exec_rfmab cfg s) (kept s)"
  by (cases s) (auto simp: exec_rfmab_def exec_rfmsb_def kept_def intro!: vE_bindE [OF moat_mitig_kept])

lemma exec_drfm_kept: "vE (exec_drfm cfg s) (kept s)"
proof -
  let ?s = "mode_mitig (para_mode cfg) (mode_mitig (mint_mode cfg) (mode_mitig (dream_mode cfg) s))"
  have "vE (bindE (graphene_mitig cfg ?s) (\<lambda>s. bindE (hydra_mitig cfg s) (\<lambda>s.
      case mode_mitig (abacus_mode cfg) s of (b, e) \<Rightarrow> exec_rfmab cfg (b\<lparr>drfm_issued := False\<rparr>, e)))) (kept ?s)"
  proof (intro kept_then [OF graphene_mitig_kept] kept_then [OF hydra_mitig_kept])
    fix t :: "BankState \<times> Env"
    obtain b e where m: "mode_mitig (abacus_mode cfg) t = (b, e)" by force
    have "kept t (b\<lparr>drfm_issued := False\<rparr>, e)" using mode_mitig_kept [of t "abacus_mode cfg"] by (simp add: m kept_def)
    then have "vE (exec_rfmab cfg (b\<lparr>drfm_issued := False\<rparr>, e)) (kept t)"
      by (blast intro: vE_mono [OF exec_rfmab_kept] kept_trans)
    then show "vE (case mode_mitig (abacus_mode cfg) t of (b, e) \<Rightarrow>
      exec_rfmab cfg (b\<lparr>drfm_issued := False\<rparr>, e)) (kept t)" by (simp add: m)
  qed
  moreover have "kept s ?s" by (blast intro: mode_mitig_kept kept_trans)
  ultimately show ?thesis unfolding exec_drfm_def by (auto elim!: vE_mono intro: kept_trans)
qed

lemma refresh_rows_kept: "vE (refresh_rows cfg s) (kept s)"
  unfolding refresh_rows_def
  by (rule vE_forE) (auto simp: refresh_one_def kept_def Let_def intro!: vE_bind_any)

lemma graphene_refresh_kept: "vE (graphene_refresh cfg s) (kept s)"
  by (cases s) (auto simp: graphene_refresh_def kept_def intro!: vE_bind_any)

lemma hydra_refresh_kept: "vE (hydra_refresh cfg s) (kept s)"
  by (cases s) (auto simp: hydra_refresh_def kept_def intro!: vE_bind_any)

lemma exec_refresh_kept: "vE (exec_refresh cfg s) (kept s)"
proof -
  obtain b e where s: "s = (b, e)" by force
  define b1 where "b1 = b\<lparr>b_fgr_counter := (b_fgr_counter b + 1) mod 2,
    raa_ctr := raa_ctr b - min (raa_ctr b) (ref_raa_decrement cfg)\<rparr>"
  let ?s = "(b1\<lparr>acts_counter := 0\<rparr>, e)"
  have "vE (bindE (graphene_refresh cfg ?s) (\<lambda>s. bindE (hydra_refresh cfg s) (\<lambda>(b, e).
    bindE (refresh_rows cfg (moat_refresh cfg b, e)) (\<lambda>(b, e).
    bindE (umod (b_ref_idx b + word_of_int (rows_refreshed cfg)) (word_of_int (rows cfg))) (\<lambda>r.
    Inr (b\<lparr>b_ref_idx := r\<rparr>, e)))))) (kept ?s)"
  proof (intro kept_then [OF graphene_refresh_kept] kept_then [OF hydra_refresh_kept], clarify)
    fix b e
    have "kept (b, e) (moat_refresh cfg b, e)" by (simp add: moat_refresh_def kept_def)
    then show "vE (bindE (refresh_rows cfg (moat_refresh cfg b, e)) (\<lambda>(b, e).
      bindE (umod (b_ref_idx b + word_of_int (rows_refreshed cfg)) (word_of_int (rows cfg))) (\<lambda>r.
      Inr (b\<lparr>b_ref_idx := r\<rparr>, e)))) (kept (b, e))"
      by (intro vE_bindE [OF refresh_rows_kept]) (auto simp: kept_def intro!: vE_bind_any)
  qed
  moreover have "kept (b, e) = kept ?s" by (simp add: kept_def b1_def fun_eq_iff)
  moreover have "kept ?s (b1, e)" by (simp add: kept_def)
  ultimately show ?thesis
    unfolding s exec_refresh_def prod.case Let_def by (simp add: b1_def [symmetric])
qed

lemma exec_activate_kept: "vE (exec_activate cfg cmd s) (kept s)"
proof -
  have m: "vE (moat_act cfg w b) (\<lambda>b'. cmd_timing b' = cmd_timing b)" for w b
    by (auto simp: moat_act_def intro!: vE_bind_any)
  show ?thesis
    by (cases s) (auto simp: exec_activate_def kept_def drfm_post_act_def Let_def intro!: vE_bind_any dest!: vE_D [OF m])
qed

lemma bank_UpdateState_kept: "vE (bank_UpdateState cfg cmd s) (kept s)"
proof -
  obtain b e where s: "s = (b, e)" by force
  define B where "B = (if cmd_type cmd \<noteq> SIZE then b\<lparr>last_cmd := cmd\<rparr> else b)"
  have B: "kept (b, e) = kept (B, e)" by (simp add: kept_def B_def fun_eq_iff)
  note execs = exec_refresh_kept [of cfg "(B, e)"] exec_drfm_kept [of cfg "(B, e)"] exec_rfmab_kept [of cfg "(B, e)"]
    exec_rfmsb_kept [of cfg "(B, e)"] exec_activate_kept [of cfg cmd "(B, e)"]
  show ?thesis
    unfolding s bank_UpdateState_def prod.case B_def [symmetric] Let_def B
    using execs by (cases "b_state B") (auto simp: kept_def)
qed

lemma cactus_mitig_kept: "vE (bank_cactus_mitig cfg w b) (\<lambda>b'. cmd_timing b' = cmd_timing b)"
proof -
  have r: "vE (refresh_row w b) (\<lambda>b'. cmd_timing b' = cmd_timing b)" for w b
    by (auto simp: refresh_row_def intro!: vE_bind_any)
  show ?thesis unfolding bank_cactus_mitig_def
    by (intro vE_bindE [where Q = "\<lambda>b'. cmd_timing b' = cmd_timing b"]) (auto elim!: vE_mono intro!: r [THEN vE_mono])
qed

lemma drfm_flags_kept [simp]:
  "cmd_timing (insert_drfm cfg b w) = cmd_timing b" "cmd_timing (MarkDRFMIssued b) = cmd_timing b"
  by (simp_all add: insert_drfm_def drfm_push_def MarkDRFMIssued_def)

section \<open>Banks of a channel\<close>

lemma bank_at_Inr:
  assumes "chan_shape cfg cs" "bank_at cs i j k = Inr b"
  shows "(i, j, k) \<in> positions cfg" "b = the_bank cs (i, j, k)"
proof -
  have r: "inrange i (bank_states cs)" "inrange j (bank_states cs ! nat i)" "inrange k (bank_states cs ! nat i ! nat j)"
    using assms(2) by (auto simp: bank_at_def bindE_Inr_iff vget_Inr_iff)
  have l: "length (bank_states cs ! nat i) = nat (bankgroups cfg)"
    "length (bank_states cs ! nat i ! nat j) = nat (banks_per_group cfg)"
    using shape_lengths [OF assms(1)] inrange_nat [OF r(1)] inrange_nat [OF r(2)] by blast+
  show p: "(i, j, k) \<in> positions cfg"
    using r l assms(1) by (auto simp: positions_def inrange_def chan_shape_def split: if_splits)
  show "b = the_bank cs (i, j, k)" using assms bank_at_pos [OF assms(1) p] by simp
qed

lemma bank_at_env [simp]: "bank_at (cs\<lparr>c_env := e\<rparr>) i j k = bank_at cs i j k"
  by (simp add: bank_at_def)

section \<open>The contract\<close>

locale chan_base =
  fixes cfg :: Config and I :: "ChannelState \<Rightarrow> bool"
  assumes fields [simp]:
    "I (cs\<lparr>c_env := x0\<rparr>) = I cs"
    "I (cs\<lparr>rank_idle_cycles := x1\<rparr>) = I cs"
    "I (cs\<lparr>hydra_wb_draining := x2\<rparr>) = I cs"
    "I (cs\<lparr>last_bus_access_time := x3\<rparr>) = I cs"
    "I (cs\<lparr>bursty_access_count := x4\<rparr>) = I cs"
    "I (cs\<lparr>rank_is_sref := x5\<rparr>) = I cs"
    "I (cs\<lparr>c_ref_idx := x8\<rparr>) = I cs"
    "I (cs\<lparr>c_fgr_counter := x9\<rparr>) = I cs"
    "I (cs\<lparr>alert_n := x10\<rparr>) = I cs"
    "I (cs\<lparr>last_alert_clk := x11\<rparr>) = I cs"
    "I (cs\<lparr>alert_rank := x12\<rparr>) = I cs"
    "I (cs\<lparr>num_acts_abo := x13\<rparr>) = I cs"
    "I (cs\<lparr>tusc := x14\<rparr>) = I cs"
    "I (cs\<lparr>tusc_prev := x15\<rparr>) = I cs"
    "I (cs\<lparr>tusc_q := x16\<rparr>) = I cs"
    "I (cs\<lparr>abacus_table := x26\<rparr>) = I cs"
    "I (cs\<lparr>abacus_q := x27\<rparr>) = I cs"
    and needs [simp]: "I cs \<Longrightarrow> I (RankNeedRFM r n cs)" "I cs \<Longrightarrow> I (BanksetNeedRFM r k n cs)"
    "I cs \<Longrightarrow> I (BankNeedDRFM r j k n cs)" "I cs \<Longrightarrow> I (BanksetNeedDRFM r k n cs)" "I cs \<Longrightarrow> I (RankNeedDRFM r n cs)"
    "I cs \<Longrightarrow> I (RankNeedRefresh r n cs)" "I cs \<Longrightarrow> I (BanksetNeedRefresh r k n cs)"
    "I cs \<Longrightarrow> I (BankNeedRefresh r j k n cs)"
    and hydra_gate_frame: "I cs \<Longrightarrow> vE (hydra_gate cfg cmd cs) (\<lambda>r. I (snd r))"
    and hydra_pop_frame: "I cs \<Longrightarrow> I (hydra_pop cs)"
    and set_frame: "I cs \<Longrightarrow> bank_at cs i j k = Inr b \<Longrightarrow> cmd_timing b' = cmd_timing b \<Longrightarrow> vE (set_bank cs i j k b') I"
begin

lemma frame_then:
  "vE m I \<Longrightarrow> (\<And>t. I t \<Longrightarrow> vE (f t) I) \<Longrightarrow> vE (bindE m f) I"
  by (rule vE_bindE)

lemma upd_bank_frame:
  assumes "\<And>b. vE (f b) (\<lambda>b'. cmd_timing b' = cmd_timing b)" "I cs"
  shows "vE (upd_bank i j k f cs) I"
  unfolding upd_bank_def using assms(2) by (auto intro!: vE_bind_any set_frame dest: vE_D [OF assms(1)])

lemma upd_bank_env_frame:
  assumes "\<And>s. vE (f s) (kept s)" "I cs"
  shows "vE (upd_bank_env i j k f cs) I"
  unfolding upd_bank_env_def
  using assms(2) by (auto intro!: vE_bind_any set_frame dest: vE_D [OF assms(1)] simp: kept_def)

lemma stat_frame [simp]: "I (c_stat_inc s cs) = I cs"
  by (simp add: c_stat_inc_def)

lemma for_rank_frame:
  assumes "\<And>j k cs. I cs \<Longrightarrow> vE (f j k cs) I" "I cs"
  shows "vE (for_rank cfg f cs) I"
  unfolding for_rank_def by (intro vE_forE) (use assms in auto)

lemma for_channel_frame:
  assumes "\<And>i j k cs. I cs \<Longrightarrow> vE (f i j k cs) I" "I cs"
  shows "vE (for_channel cfg f cs) I"
  unfolding for_channel_def by (intro vE_forE for_rank_frame) (use assms in auto)

lemma insert_drfm_frame:
  "I cs \<Longrightarrow> vE (upd_bank i j k (\<lambda>b. Inr (insert_drfm cfg b w)) cs) I"
  by (rule upd_bank_frame) simp_all

lemma dream_insert_frame: "I cs \<Longrightarrow> vE (dream_insert_bank cfg t i j k cs) I"
  unfolding dream_insert_bank_def by (rule vE_forE) (auto intro!: vE_bind_else insert_drfm_frame)

lemma dream_preact_frame: "I cs \<Longrightarrow> vE (dream_preact cfg r j k w cs) I"
  unfolding dream_preact_def Let_def
  by (auto intro!: vE_bind_else frame_then [OF for_channel_frame [OF dream_insert_frame]])

lemma abacus_preact_frame: "I cs \<Longrightarrow> vE (abacus_preact cfg r j k w cs) I"
  unfolding abacus_preact_def Let_def
  by (auto intro!: vE_bind_else frame_then [OF for_channel_frame [OF insert_drfm_frame]])

lemma mitig_frame:
  assumes "I cs"
  shows "vE (dream_mitig cfg cs) I" "vE (abacus_mitig cfg cs) I"
  unfolding dream_mitig_def abacus_mitig_def using assms by (auto intro!: vE_bind_else split: list.split)

lemma UpdateState_bank_frame:
  "I cs \<Longrightarrow> vE (upd_bank_env i j k (bank_UpdateState cfg cmd) cs) I"
  by (rule upd_bank_env_frame [OF bank_UpdateState_kept])

lemma launch_drfm_frame: "I cs \<Longrightarrow> vE (launch_drfm cfg cmd cs) I"
  unfolding launch_drfm_def by (auto intro!: frame_then [OF upd_bank_frame])

lemma GetReadyHydraCommand_frame:
  "I cs \<Longrightarrow> vE (GetReadyHydraCommand cfg clk cs) (\<lambda>r. I (snd r))"
proof -
  have d: "I (hydra_drain cfg cs) = I cs" by (simp add: hydra_drain_def Let_def)
  show "I cs \<Longrightarrow> vE (GetReadyHydraCommand cfg clk cs) (\<lambda>r. I (snd r))"
    unfolding GetReadyHydraCommand_def Let_def by (auto simp: d intro!: vE_bind_any hydra_pop_frame split: list.split)
qed

lemma alerts_frame:
  assumes "I cs"
  shows "vE (TriggerSameBankAlert cfg cmd clk cs) I"
    "vE (TriggerSameRankAlert cfg cmd clk cs) I"
  unfolding TriggerSameBankAlert_def TriggerSameRankAlert_def raise_alert_def
  using assms by (auto intro!: vE_bind_any for_rank_frame)

lemma refresh_frame:
  assumes "I cs"
  shows "vE (dream_refresh cfg b cs) I" "vE (abacus_refresh cfg b cs) I" "vE (UpdateREFCounter cfg cmd cs) I"
  unfolding dream_refresh_def abacus_refresh_def UpdateREFCounter_def Let_def
  using assms by (auto intro!: vE_bind_else)

end

text \<open>With the operations of CACTUS, every operation but the timing update is covered.\<close>

locale chan_ops = chan_base +
  assumes cactus_keeps:
    "I cs \<Longrightarrow> vE (cactus_preact cfg w1 w2 w3 w clk cs) I"
    "I cs \<Longrightarrow> vE (cactus_refresh cfg r b cs) I"
    "I cs \<Longrightarrow> vE (rank_rfm_done cfg cmd cs) I"
    "I cs \<Longrightarrow> vE (cactus_tref_mitig cfg r cs) I"
    "I cs \<Longrightarrow> vE (cactus_tref_max_mitig cfg r cs) I"
    "I cs \<Longrightarrow> vE (serve_cactus_alert cfg clk r cs) I"
begin

lemma trackers_refresh_frame: "I cs \<Longrightarrow> vE (trackers_refresh cfg cmd cs) I"
  unfolding trackers_refresh_def
  by (auto intro!: vE_bind_else frame_then [OF refresh_frame(1)] frame_then [OF cactus_keeps(2)] refresh_frame(2))

lemma rank_refresh_frame: "I cs \<Longrightarrow> vE (rank_refresh_done cfg cmd cs) I"
proof -
  have "vE (if c then bindE (cactus_tref_mitig cfg r cs) (\<lambda>cs. cactus_tref_max_mitig cfg r cs) else Inr cs) I"
    if "I cs" for c r cs
    using that by (auto intro!: frame_then [OF cactus_keeps(4)] cactus_keeps(5))
  then show "I cs \<Longrightarrow> vE (rank_refresh_done cfg cmd cs) I"
    unfolding rank_refresh_done_def
    by (intro frame_then [OF trackers_refresh_frame] frame_then refresh_frame(3)) simp_all
qed

lemma UpdateState_frame: "I cs \<Longrightarrow> vE (UpdateState cfg cmd clk cs) I"
proof -
  assume c: "I cs"
  have "vE (exec_rank_cmd cfg cmd cs) I"
    unfolding exec_rank_cmd_def using c
    by (intro frame_then [OF for_rank_frame [OF UpdateState_bank_frame]])
      (auto intro!: vE_bind_else cactus_keeps(3) rank_refresh_frame frame_then [OF mitig_frame(1)] mitig_frame(2))
  moreover have "vE (exec_sb_cmd cfg cmd cs) I"
    unfolding exec_sb_cmd_def using c
    by (intro frame_then [OF vE_forE [OF _ UpdateState_bank_frame]])
      (auto intro!: vE_bind_else frame_then [OF trackers_refresh_frame] refresh_frame(3))
  moreover have "vE (exec_bank_cmd cfg cmd cs) I"
    unfolding exec_bank_cmd_def using c by (auto intro!: frame_then [OF UpdateState_bank_frame])
  ultimately show ?thesis
    unfolding UpdateState_def by (intro frame_then) (auto simp: track_burst_def Let_def)
qed

lemma channel_PreACT_frame: "I cs \<Longrightarrow> vE (channel_PreACT cfg cmd clk cs) (\<lambda>r. I (snd r))"
proof -
  assume c: "I cs"
  have set: "vE (set_bank (cs\<lparr>c_env := e\<rparr>) i j k b') I"
    if "bank_at cs i j k = Inr b" "PreACT cfg cmd (b, c_env cs) = Inr (f, b', e)" for i j k b f b' e
    using vE_D [OF PreACT_kept that(2)] that(1)
    by (intro set_frame) (use c in \<open>simp_all add: kept_def\<close>)
  show ?thesis
    unfolding channel_PreACT_def Let_def
    by (auto intro!: vE_bind_any)
      (rule vE_D [OF abacus_preact_frame [OF vE_D [OF cactus_keeps(1) [OF vE_D [OF dream_preact_frame [OF vE_D [OF set]]]]]]])
qed

lemma select_drfm_frame:
  "I cs \<Longrightarrow> vE (select_drfm cfg cmd clk b cs) (\<lambda>r. I (snd r))"
  unfolding select_drfm_def Let_def
  by (auto intro!: vE_bindE [OF hydra_gate_frame] vE_bindE [OF channel_PreACT_frame] split: prod.split)

lemma gate_activate_frame:
  "I cs \<Longrightarrow> vE (gate_activate cfg cmd rc clk cs) (\<lambda>r. I (snd r))"
  unfolding gate_activate_def
  by (auto intro!: vE_bind_else vE_bindE [OF select_drfm_frame] vE_bindE [OF launch_drfm_frame] split: option.split bool.split)

lemma GetReadyCommand_frame:
  "I cs \<Longrightarrow> vE (GetReadyCommand cfg cmd clk cs) (\<lambda>r. I (snd r))"
  unfolding GetReadyCommand_def by (auto intro!: vE_bind_any gate_activate_frame)

lemma channel_ClockTick_frame: "I cs \<Longrightarrow> vE (channel_ClockTick cfg clk cs) I"
  unfolding channel_ClockTick_def ResetAlert_def Let_def
  by (auto intro!: vE_forE cactus_keeps(6))

end

text \<open>With no condition on the banks and the activation windows, the timing update is covered too.\<close>

locale chan_ops_any = chan_ops +
  assumes windows [simp]: "I (cs\<lparr>four_aw := w\<rparr>) = I cs" "I (cs\<lparr>thirty_two_aw := w\<rparr>) = I cs"
    and any_bank: "I cs \<Longrightarrow> vE (set_bank cs i j k b') I"
    and acts_keeps: "I cs \<Longrightarrow> vupd (cactus_acts_since_rfm cs) i f = Inr ac \<Longrightarrow> I (cs\<lparr>cactus_acts_since_rfm := ac\<rparr>)"
begin

lemma time_bank_frame: "I cs \<Longrightarrow> vE (time_bank ts clk r j k cs) I"
  unfolding time_bank_def upd_bank_def by (rule vE_foldE) (auto intro!: vE_bind_any any_bank)

lemma time_bank_cmd_frame: "I cs \<Longrightarrow> vE (time_bank_cmd cfg cmd clk cs) I"
  unfolding time_bank_cmd_def Let_def UpdateSameBankTiming_def UpdateOtherBanksSameBankgroupTiming_def
    UpdateOtherBankgroupsSameRankTiming_def UpdateOtherRanksTiming_def
  by (intro frame_then vE_forE for_rank_frame for_channel_frame) (auto intro!: time_bank_frame)

lemma count_act_frame: "I cs \<Longrightarrow> vE (count_act cfg cmd clk cs) I"
proof -
  assume c: "I cs"
  have "I (cs\<lparr>num_acts_abo := n, cactus_acts_since_rfm := ac\<rparr>)"
    if "vupd (cactus_acts_since_rfm cs) i f = Inr ac" for n ac i f
    using acts_keeps [of "cs\<lparr>num_acts_abo := n\<rparr>"] c that by simp
  with c show ?thesis
    unfolding count_act_def Let_def UpdateActivationTimes_def by (auto intro!: vE_bind_any)
qed

lemma vE_branch: "vE m P \<Longrightarrow> vE n P \<Longrightarrow> vE (if b then m else n) P"
  by simp

lemma UpdateTiming_frame: "I cs \<Longrightarrow> vE (UpdateTiming cfg cmd clk cs) I"
proof -
  assume c: "I cs"
  have b: "vE (UpdateSameBankset cfg a ts clk cs) I" "vE (UpdateOtherBanksets cfg a ts clk cs) I"
    "vE (UpdateSameRankTiming cfg a ts clk cs) I" if "I cs" for a ts cs
    using that unfolding UpdateSameBankset_def UpdateOtherBanksets_def UpdateSameRankTiming_def
    by (auto intro!: vE_forE for_channel_frame for_rank_frame time_bank_frame)
  have act: "vE (if p then count_act cfg cmd clk cs else Inr cs) I"
    "vE (if p then TriggerSameBankAlert cfg cmd clk cs else Inr cs) I"
    "vE (if p then TriggerSameRankAlert cfg cmd clk cs else Inr cs) I" if "I cs" for p cs
    using that by (simp_all add: count_act_frame alerts_frame)
  show ?thesis
    unfolding UpdateTiming_def Let_def
    by (intro vE_branch frame_then act time_bank_cmd_frame b alerts_frame(2)) (simp_all add: c)
qed

lemma UpdateTimingAndStates_frame: "I cs \<Longrightarrow> vE (UpdateTimingAndStates cfg cmd clk cs) I"
  unfolding UpdateTimingAndStates_def by (intro frame_then [OF UpdateState_frame] UpdateTiming_frame)

end

section \<open>Properties that CACTUS cannot break\<close>

locale chan_frame = chan_base +
  assumes cactus_fields [simp]:
    "I (cs\<lparr>cactus := x17\<rparr>) = I cs"
    "I (cs\<lparr>cactus_prev := x18\<rparr>) = I cs"
    "I (cs\<lparr>cactus_pending_counter_idx := x19\<rparr>) = I cs"
    "I (cs\<lparr>cactus_alert_pending := x20\<rparr>) = I cs"
    "I (cs\<lparr>cactus_last_alert_clk := x21\<rparr>) = I cs"
    "I (cs\<lparr>cactus_rfm_inflight := x22\<rparr>) = I cs"
    "I (cs\<lparr>cactus_acts_since_rfm := x23\<rparr>) = I cs"
    "I (cs\<lparr>cactus_tref_refab_count := x24\<rparr>) = I cs"
    "I (cs\<lparr>cactus_tref_max_counter_idx := x25\<rparr>) = I cs"
begin

lemma cactus_track_max_frame: "I cs \<Longrightarrow> vE (cactus_track_max cfg r w v cs) I"
  unfolding cactus_track_max_def by (auto intro!: vE_bind_else)

lemma cactus_alert_frame: "I cs \<Longrightarrow> vE (cactus_alert cfg r w clk cs) I"
  unfolding cactus_alert_def by (auto intro!: vE_bind_else)

lemma cactus_preact_frame: "I cs \<Longrightarrow> vE (cactus_preact cfg r j k w clk cs) I"
  unfolding cactus_preact_def Let_def
  by (auto intro!: vE_bind_else frame_then [OF cactus_track_max_frame] cactus_alert_frame)

lemma mitig_counter_frame: "I cs \<Longrightarrow> vE (cactus_mitig_counter cfg r w cs) I"
  unfolding cactus_mitig_counter_def Let_def
  by (auto intro!: vE_bind_else frame_then [OF for_rank_frame] upd_bank_frame [OF cactus_mitig_kept])

lemma cactus_mitig_frame: "I cs \<Longrightarrow> vE (cactus_mitig cfg r cs) I"
  unfolding cactus_mitig_def by (auto intro!: vE_bind_else frame_then [OF mitig_counter_frame])

lemma cancel_alert_frame: "I cs \<Longrightarrow> vE (cancel_alert r cs) I"
  unfolding cancel_alert_def by (auto intro!: vE_bind_else)

lemma tref_mitig_frame: "I cs \<Longrightarrow> vE (cactus_tref_mitig cfg r cs) I"
  unfolding cactus_tref_mitig_def by (auto intro!: vE_bind_else frame_then [OF cactus_mitig_frame] cancel_alert_frame)

lemma tref_max_mitig_frame: "I cs \<Longrightarrow> vE (cactus_tref_max_mitig cfg r cs) I"
proof -
  have fin: "vE (bindE (if c then bindE (vset (cactus_pending_counter_idx cs) r (-1)) (\<lambda>pcs.
               cancel_alert r (cs\<lparr>cactus_pending_counter_idx := pcs\<rparr>))
             else Inr cs) (\<lambda>cs. Inr (c_stat_inc n cs))) I" if "I cs" for c n cs
    using that by (intro frame_then) (auto intro!: vE_bind_else cancel_alert_frame)
  show "I cs \<Longrightarrow> vE (cactus_tref_max_mitig cfg r cs) I"
    unfolding cactus_tref_max_mitig_def Let_def
    by (auto simp del: vE_if intro!: vE_bind_else fin frame_then [OF mitig_counter_frame] split: if_split)
qed

lemma rank_rfm_frame: "I cs \<Longrightarrow> vE (rank_rfm_done cfg cmd cs) I"
  unfolding rank_rfm_done_def Let_def by (auto intro!: vE_bind_else frame_then [OF cactus_mitig_frame])

lemma cactus_refresh_frame: "I cs \<Longrightarrow> vE (cactus_refresh cfg r b cs) I"
  unfolding cactus_refresh_def Let_def by (auto intro!: vE_bind_else)

lemma serve_alert_frame: "I cs \<Longrightarrow> vE (serve_cactus_alert cfg clk r cs) I"
  unfolding serve_cactus_alert_def Let_def by (auto intro!: vE_bind_any)

end

sublocale chan_frame \<subseteq> chan_ops
  by unfold_locales (use cactus_preact_frame cactus_refresh_frame rank_rfm_frame tref_mitig_frame tref_max_mitig_frame serve_alert_frame in blast)+

locale chan_frame_any = chan_frame +
  assumes windows_free [simp]: "I (cs\<lparr>four_aw := w\<rparr>) = I cs" "I (cs\<lparr>thirty_two_aw := w\<rparr>) = I cs"
    and free_bank: "I cs \<Longrightarrow> vE (set_bank cs i j k b') I"

sublocale chan_frame_any \<subseteq> chan_ops_any
  by unfold_locales (use free_bank in auto)

end
