(* ===== verification/Channel_Timing.thy ===== *)
theory Channel_Timing
  imports Channel_Frame
begin

unbundle bit_operations_syntax

text \<open>
  The timing of a channel. \<open>imposed\<close> says which distances a command imposes on the bank at a
  position; \<open>UpdateTiming\<close> is shown to do exactly that to every bank, nothing else in the channel
  changes the earliest times, and so every command of a run comes no earlier than every command
  before it demands. The same run relation gives the four-activation window.
\<close>

section \<open>The operations that leave the timing alone\<close>

definition same_time :: "Config \<Rightarrow> ChannelState \<Rightarrow> ChannelState \<Rightarrow> bool" where
  "same_time cfg cs cs' \<longleftrightarrow>
     (chan_shape cfg cs \<longrightarrow> chan_shape cfg cs' \<and>
       (\<forall>p\<in>positions cfg. cmd_timing (the_bank cs' p) = cmd_timing (the_bank cs p))) \<and>
     four_aw cs' = four_aw cs \<and> thirty_two_aw cs' = thirty_two_aw cs"

lemma same_time_refl [simp]: "same_time cfg cs cs"
  by (simp add: same_time_def)

lemma same_time_trans: "same_time cfg a b \<Longrightarrow> same_time cfg b c \<Longrightarrow> same_time cfg a c"
  by (auto simp: same_time_def)

lemma same_time_frame [simp]:
  "same_time cfg cs (cs'\<lparr>c_env := x0\<rparr>) = same_time cfg cs cs'"
  "same_time cfg cs (cs'\<lparr>rank_idle_cycles := x1\<rparr>) = same_time cfg cs cs'"
  "same_time cfg cs (cs'\<lparr>hydra_wb_draining := x2\<rparr>) = same_time cfg cs cs'"
  "same_time cfg cs (cs'\<lparr>last_bus_access_time := x3\<rparr>) = same_time cfg cs cs'"
  "same_time cfg cs (cs'\<lparr>bursty_access_count := x4\<rparr>) = same_time cfg cs cs'"
  "same_time cfg cs (cs'\<lparr>rank_is_sref := x5\<rparr>) = same_time cfg cs cs'"
  "same_time cfg cs (cs'\<lparr>refresh_q := x6\<rparr>) = same_time cfg cs cs'"
  "same_time cfg cs (cs'\<lparr>rfm_q := x7\<rparr>) = same_time cfg cs cs'"
  "same_time cfg cs (cs'\<lparr>hydra_rd_q := x8\<rparr>) = same_time cfg cs cs'"
  "same_time cfg cs (cs'\<lparr>hydra_wb_q := x9\<rparr>) = same_time cfg cs cs'"
  "same_time cfg cs (cs'\<lparr>c_ref_idx := x10\<rparr>) = same_time cfg cs cs'"
  "same_time cfg cs (cs'\<lparr>c_fgr_counter := x11\<rparr>) = same_time cfg cs cs'"
  "same_time cfg cs (cs'\<lparr>alert_n := x12\<rparr>) = same_time cfg cs cs'"
  "same_time cfg cs (cs'\<lparr>last_alert_clk := x13\<rparr>) = same_time cfg cs cs'"
  "same_time cfg cs (cs'\<lparr>alert_rank := x14\<rparr>) = same_time cfg cs cs'"
  "same_time cfg cs (cs'\<lparr>num_acts_abo := x15\<rparr>) = same_time cfg cs cs'"
  "same_time cfg cs (cs'\<lparr>tusc := x16\<rparr>) = same_time cfg cs cs'"
  "same_time cfg cs (cs'\<lparr>tusc_prev := x17\<rparr>) = same_time cfg cs cs'"
  "same_time cfg cs (cs'\<lparr>tusc_q := x18\<rparr>) = same_time cfg cs cs'"
  "same_time cfg cs (cs'\<lparr>cactus := x19\<rparr>) = same_time cfg cs cs'"
  "same_time cfg cs (cs'\<lparr>cactus_prev := x20\<rparr>) = same_time cfg cs cs'"
  "same_time cfg cs (cs'\<lparr>cactus_pending_counter_idx := x21\<rparr>) = same_time cfg cs cs'"
  "same_time cfg cs (cs'\<lparr>cactus_alert_pending := x22\<rparr>) = same_time cfg cs cs'"
  "same_time cfg cs (cs'\<lparr>cactus_last_alert_clk := x23\<rparr>) = same_time cfg cs cs'"
  "same_time cfg cs (cs'\<lparr>cactus_rfm_inflight := x24\<rparr>) = same_time cfg cs cs'"
  "same_time cfg cs (cs'\<lparr>cactus_acts_since_rfm := x25\<rparr>) = same_time cfg cs cs'"
  "same_time cfg cs (cs'\<lparr>cactus_tref_refab_count := x26\<rparr>) = same_time cfg cs cs'"
  "same_time cfg cs (cs'\<lparr>cactus_tref_max_counter_idx := x27\<rparr>) = same_time cfg cs cs'"
  "same_time cfg cs (cs'\<lparr>abacus_table := x28\<rparr>) = same_time cfg cs cs'"
  "same_time cfg cs (cs'\<lparr>abacus_q := x29\<rparr>) = same_time cfg cs cs'"
  by (simp_all add: same_time_def chan_shape_def the_bank_def case_prod_beta')

lemma put_bank_same:
  assumes "chan_shape cfg cs \<Longrightarrow> p \<in> positions cfg" "chan_shape cfg cs \<Longrightarrow> cmd_timing b = cmd_timing (the_bank cs p)"
  shows "same_time cfg cs (put_bank p b cs)"
  using assms put_bank_shape [of cfg cs p b] the_bank_put [of cfg cs p _ b]
  by (cases p) (auto simp: same_time_def put_bank_def)

lemma set_bank_same:
  assumes "bank_at cs i j k = Inr b" "cmd_timing b' = cmd_timing b"
  shows "vE (set_bank cs i j k b') (same_time cfg cs)"
proof (rule vE_I)
  fix cs' assume "set_bank cs i j k b' = Inr cs'"
  then have "cs' = put_bank (i, j, k) b' cs"
    by (auto simp: set_bank_def put_bank_def bindE_Inr_iff vget_Inr_iff vset_Inr_iff)
  then show "same_time cfg cs cs'"
    using assms by (auto intro!: put_bank_same dest: bank_at_Inr)
qed

lemma hydra_same_time [simp]:
  "same_time cfg cs (HydraWB r j k w cs') = same_time cfg cs cs'"
  "same_time cfg cs (snd (HydraRead r j k w cs')) = same_time cfg cs cs'"
  by (simp_all add: HydraWB_def HydraRead_def)

interpretation same: chan_frame cfg "same_time cfg c0" for cfg c0
proof
  show "vE (set_bank cs i j k b') (same_time cfg c0)"
    if "same_time cfg c0 cs" "bank_at cs i j k = Inr b" "cmd_timing b' = cmd_timing b" for cs i j k and b b' :: BankState
    using that set_bank_same [of cs i j k b b' cfg] by (auto elim!: vE_mono intro: same_time_trans)
  show "vE (hydra_gate cfg cmd cs) (\<lambda>r. same_time cfg c0 (snd r))" if "same_time cfg c0 cs" for cmd cs
    using that unfolding hydra_gate_def Let_def case_prod_beta'
    by (auto intro!: vE_bind_any)
qed (simp_all add: hydra_pop_def need_rfm_def RankNeedRFM_def BanksetNeedRFM_def BankNeedDRFM_def BanksetNeedDRFM_def
    RankNeedDRFM_def RankNeedRefresh_def BanksetNeedRefresh_def BankNeedRefresh_def)

lemmas UpdateState_same = same.UpdateState_frame
lemmas GetReadyCommand_same = same.GetReadyCommand_frame
lemmas GetReadyHydraCommand_same = same.GetReadyHydraCommand_frame
lemmas channel_ClockTick_same = same.channel_ClockTick_frame
lemmas alerts_same = same.alerts_frame

section \<open>What a command imposes\<close>

text \<open>The relation between the address of a command and a bank selects one of the tables.\<close>

definition bank_scope :: "Address \<Rightarrow> pos \<Rightarrow> TimingScope" where
  "bank_scope a = (\<lambda>(i, j, k).
     if i \<noteq> a_rank a then other_ranks
     else if j \<noteq> a_bankgroup a then other_bankgroups_same_rank
     else if k \<noteq> a_bank a then other_banks_same_bankgroup
     else same_bank)"

definition imposed :: "Config \<Rightarrow> Command \<Rightarrow> pos \<Rightarrow> entries" where
  "imposed cfg cmd = (\<lambda>(i, j, k).
     let a = cmd_addr cmd; ct = cmd_type cmd in
     if ct \<in> {REFab, RFMab, DRFMab, SREF_ENTER, SREF_EXIT} then (if i = a_rank a then timing cfg same_rank ct else [])
     else if ct \<in> {REFsb, RFMsb, DRFMsb}
     then (if k \<noteq> a_bank a then timing cfg other_banksets ct
           else if i = a_rank a then timing cfg same_bankset ct else [])
     else timing cfg (bank_scope a (i, j, k)) ct)"

definition time_entries :: "entries \<Rightarrow> u64 \<Rightarrow> BankState \<Rightarrow> BankState" where
  "time_entries ts clk b = b\<lparr>cmd_timing := fold (\<lambda>(ct, d) xs.
     xs[cmd_index ct := max (xs ! cmd_index ct) (clk + word_of_int d)]) ts (cmd_timing b)\<rparr>"

definition timed :: "Config \<Rightarrow> ChannelState \<Rightarrow> bool" where
  "timed cfg cs \<longleftrightarrow> chan_shape cfg cs \<and> (\<forall>p\<in>positions cfg. length (cmd_timing (the_bank cs p)) = 18)"

lemma timing_valid: "(ct, d) \<in> set (timing cfg sc c) \<Longrightarrow> ct \<noteq> SIZE"
proof -
  have "list_all (\<lambda>e. fst e \<noteq> SIZE) (timing cfg sc c)"
    by (cases c; cases sc; simp add: rw_entries_def precharges_def to_each_def)
  then show "(ct, d) \<in> set (timing cfg sc c) \<Longrightarrow> ct \<noteq> SIZE" by (auto simp: list_all_iff)
qed

lemma fold_entries_length [simp]:
  "length (fold (\<lambda>(ct, d) xs. xs[cmd_index ct := max (xs ! cmd_index ct) (clk + word_of_int d)]) ts xs) = length xs"
  by (induction ts arbitrary: xs) (auto simp: case_prod_beta')

lemma time_entries_simps [simp]:
  "time_entries [] clk b = b" "length (cmd_timing (time_entries ts clk b)) = length (cmd_timing b)"
  by (simp_all add: time_entries_def)

lemma time_bank_pos:
  assumes "chan_shape cfg cs" "(i, j, k) \<in> positions cfg" "length (cmd_timing (the_bank cs (i, j, k))) = 18"
    and "\<forall>(ct, d)\<in>set ts. ct \<noteq> SIZE"
  shows "time_bank ts clk i j k cs = Inr (put_bank (i, j, k) (time_entries ts clk (the_bank cs (i, j, k))) cs)"
  using assms
proof (induction ts arbitrary: cs)
  case Nil
  note r = shape_in [OF Nil(1,2)]
  from inrange_nat [OF r(1)] inrange_nat [OF r(2)] show ?case
    by (simp add: time_bank_def put_bank_def the_bank_def)
next
  case (Cons x ts)
  obtain ct d where x: "x = (ct, d)" by force
  let ?b = "the_bank cs (i, j, k)"
  let ?b' = "?b\<lparr>cmd_timing := (cmd_timing ?b)[cmd_index ct := max (cmd_timing ?b ! cmd_index ct) (clk + word_of_int d)]\<rparr>"
  have "bank_UpdateTiming ?b ct (clk + word_of_int d) = Inr ?b'"
    using Cons.prems cmd_index_less [of ct] by (simp add: x bank_UpdateTiming_def inrange_def)
  then have 1: "upd_bank i j k (\<lambda>b. bank_UpdateTiming b ct (clk + word_of_int d)) cs = Inr (put_bank (i, j, k) ?b' cs)"
    using Cons.prems by (simp add: upd_bank_pos)
  have 2: "the_bank (put_bank (i, j, k) ?b' cs) (i, j, k) = ?b'" using Cons.prems by (simp add: the_bank_put)
  have 3: "put_bank (i, j, k) b (put_bank (i, j, k) c cs) = put_bank (i, j, k) b cs" for b c
    using shape_in [OF Cons.prems(1,2)] by (simp add: put_bank_def inrange_nat)
  have "time_bank ts clk i j k (put_bank (i, j, k) ?b' cs)
    = Inr (put_bank (i, j, k) (time_entries ts clk ?b') (put_bank (i, j, k) ?b' cs))"
    using Cons.IH [of "put_bank (i, j, k) ?b' cs"] Cons.prems 2 by (simp add: put_bank_shape)
  with 1 show ?case by (simp add: time_bank_def x 3) (simp add: time_entries_def)
qed

text \<open>A loop that times the banks of a list of positions with entries that depend on the position.\<close>

lemma time_loop:
  assumes "timed cfg cs" "distinct ps" "set ps \<subseteq> positions cfg"
    and "\<And>p cs. p \<in> set ps \<Longrightarrow> f p cs = time_bank (ts p) clk (fst p) (fst (snd p)) (snd (snd p)) cs"
    and "\<And>p. p \<in> set ps \<Longrightarrow> \<forall>(ct, d)\<in>set (ts p). ct \<noteq> SIZE"
  shows "okE (foldE f ps cs) (\<lambda>cs'. bank_frame cs cs' \<and> timed cfg cs' \<and>
    (\<forall>q\<in>positions cfg. the_bank cs' q = (if q \<in> set ps then time_entries (ts q) clk (the_bank cs q) else the_bank cs q)))"
proof -
  have "okE (foldE f ps cs) (\<lambda>cs'. bank_frame cs cs' \<and> chan_shape cfg cs' \<and> (\<forall>q\<in>positions cfg.
    if q \<in> set ps then the_bank cs' q = time_entries (ts q) clk (the_bank cs q) else the_bank cs' q = the_bank cs q))"
  proof (rule fold_banks)
    fix p cs'
    assume p: "p \<in> set ps" "chan_shape cfg cs'" "the_bank cs' p = the_bank cs p"
    obtain i j k where ijk: "p = (i, j, k)" by (cases p)
    have pos: "p \<in> positions cfg" using p assms(3) by auto
    have "length (cmd_timing (the_bank cs p)) = 18" using assms(1) pos by (simp add: timed_def)
    then have "f p cs' = Inr (put_bank p (time_entries (ts p) clk (the_bank cs p)) cs')"
      using time_bank_pos [of cfg cs' i j k "ts p" clk] assms(4) [of p cs'] assms(5) [of p] p pos by (simp add: ijk)
    then show "okE (f p cs') (\<lambda>cs''. only_bank cfg p cs' cs'' \<and> the_bank cs'' p = time_entries (ts p) clk (the_bank cs p))"
      using only_bank_put(2) [OF p(2) pos] p(2) pos by (simp add: the_bank_put)
  qed (use assms in \<open>auto simp: timed_def\<close>)
  then show ?thesis
    by (rule okE_mono) (use assms(1) in \<open>auto simp: timed_def split: if_splits\<close>)
qed

definition timed_by :: "Config \<Rightarrow> (pos \<Rightarrow> bool) \<Rightarrow> entries \<Rightarrow> u64 \<Rightarrow> ChannelState \<Rightarrow> ChannelState \<Rightarrow> bool" where
  "timed_by cfg S ts clk cs cs' \<longleftrightarrow> bank_frame cs cs' \<and> timed cfg cs' \<and>
     (\<forall>q\<in>positions cfg. the_bank cs' q = (if S q then time_entries ts clk (the_bank cs q) else the_bank cs q))"

lemma time_loop_if:
  assumes "timed cfg cs" "distinct ps" "set ps \<subseteq> positions cfg"
    and f: "\<And>i j k cs. (i, j, k) \<in> set ps \<Longrightarrow>
      f (i, j, k) cs = (if c (i, j, k) then time_bank (timing cfg sc ct) clk i j k cs else Inr cs)"
    and S: "\<And>q. q \<in> positions cfg \<Longrightarrow> S q \<longleftrightarrow> q \<in> set ps \<and> c q"
  shows "okE (foldE f ps cs) (timed_by cfg S (timing cfg sc ct) clk cs)"
proof -
  define ts where "ts p = (if c p then timing cfg sc ct else [])" for p
  have "okE (foldE f ps cs) (\<lambda>cs'. bank_frame cs cs' \<and> timed cfg cs' \<and>
    (\<forall>q\<in>positions cfg. the_bank cs' q = (if q \<in> set ps then time_entries (ts q) clk (the_bank cs q) else the_bank cs q)))"
  proof (rule time_loop [OF assms(1-3)])
    show "f p cs = time_bank (ts p) clk (fst p) (fst (snd p)) (snd (snd p)) cs" if "p \<in> set ps" for p cs
      using f [of "fst p" "fst (snd p)" "snd (snd p)" cs] that by (simp add: ts_def time_bank_def)
    show "\<forall>(ct, d)\<in>set (ts p). ct \<noteq> SIZE" for p by (auto simp: ts_def dest: timing_valid split: if_splits)
  qed
  then show ?thesis by (rule okE_mono) (auto simp: timed_by_def ts_def S)
qed

definition cmd_pos_ok :: "Config \<Rightarrow> Command \<Rightarrow> bool" where
  "cmd_pos_ok cfg cmd \<longleftrightarrow> 0 \<le> Rank cmd \<and> Rank cmd < ranks cfg \<and>
     (cmd_type cmd \<notin> {REFab, RFMab, DRFMab, SREF_ENTER, SREF_EXIT} \<longrightarrow> 0 \<le> Bank cmd \<and> Bank cmd < banks_per_group cfg) \<and>
     (cmd_type cmd \<notin> {REFab, RFMab, DRFMab, SREF_ENTER, SREF_EXIT, REFsb, RFMsb, DRFMsb} \<longrightarrow>
       0 \<le> Bankgroup cmd \<and> Bankgroup cmd < bankgroups cfg)"

definition ints :: "int \<Rightarrow> int list" where
  "ints n = map int [0..<nat n]"

lemma forE_list: "forE n f cs = foldE f (ints n) cs"
  by (simp add: forE_def foldE_map ints_def)

lemma ints_props: "set (ints n) = {x. 0 \<le> x \<and> x < n}" "distinct (ints n)"
proof -
  have "x \<in> set (ints n)" if "0 \<le> x" "x < n" for x
  proof -
    have "x = int (nat x)" "nat x \<in> set [0..<nat n]" using that by auto
    then show ?thesis unfolding ints_def by (metis image_eqI set_map)
  qed
  then show "set (ints n) = {x. 0 \<le> x \<and> x < n}" by (auto simp: ints_def)
  show "distinct (ints n)" by (simp add: ints_def distinct_map)
qed

lemma same_bank_timed:
  assumes "timed cfg cs" "(a_rank a, a_bankgroup a, a_bank a) \<in> positions cfg"
  shows "okE (UpdateSameBankTiming cfg a (timing cfg sc ct) clk cs)
    (timed_by cfg (\<lambda>(i, j, k). i = a_rank a \<and> j = a_bankgroup a \<and> k = a_bank a) (timing cfg sc ct) clk cs)"
proof -
  have eq: "UpdateSameBankTiming cfg a (timing cfg sc ct) clk cs
    = foldE (\<lambda>(i, j, k). time_bank (timing cfg sc ct) clk i j k) [(a_rank a, a_bankgroup a, a_bank a)] cs"
    by (simp add: UpdateSameBankTiming_def bindE_def split: sum.split)
  show ?thesis unfolding eq by (rule time_loop_if [OF assms(1), where c = "\<lambda>_. True"]) (use assms in auto)
qed

lemma other_banks_timed:
  assumes "timed cfg cs" "(a_rank a, a_bankgroup a, a_bank a) \<in> positions cfg"
  shows "okE (UpdateOtherBanksSameBankgroupTiming cfg a (timing cfg sc ct) clk cs)
    (timed_by cfg (\<lambda>(i, j, k). i = a_rank a \<and> j = a_bankgroup a \<and> k \<noteq> a_bank a) (timing cfg sc ct) clk cs)"
proof -
  have eq: "UpdateOtherBanksSameBankgroupTiming cfg a (timing cfg sc ct) clk cs
    = foldE (\<lambda>(i, j, k) cs. if k \<noteq> a_bank a then time_bank (timing cfg sc ct) clk i j k cs else Inr cs)
        (map (\<lambda>k. (a_rank a, a_bankgroup a, k)) (ints (banks_per_group cfg))) cs"
    by (simp only: UpdateOtherBanksSameBankgroupTiming_def forE_list foldE_map prod.case)
  show ?thesis unfolding eq
    by (rule time_loop_if [OF assms(1), where c = "\<lambda>(i, j, k). k \<noteq> a_bank a"])
      (use assms(2) in \<open>auto simp: positions_def distinct_map inj_on_def ints_props\<close>)
qed

lemma other_groups_timed:
  assumes "timed cfg cs" "0 \<le> a_rank a" "a_rank a < ranks cfg"
  shows "okE (UpdateOtherBankgroupsSameRankTiming cfg a (timing cfg sc ct) clk cs)
    (timed_by cfg (\<lambda>(i, j, k). i = a_rank a \<and> j \<noteq> a_bankgroup a) (timing cfg sc ct) clk cs)"
  and "okE (UpdateSameRankTiming cfg a (timing cfg sc ct) clk cs)
    (timed_by cfg (\<lambda>(i, j, k). i = a_rank a) (timing cfg sc ct) clk cs)"
  unfolding UpdateOtherBankgroupsSameRankTiming_def UpdateSameRankTiming_def for_rank_fold [of _ _ _ "a_rank a"]
  by (rule time_loop_if [OF assms(1), where c = "\<lambda>(i, j, k). j \<noteq> a_bankgroup a"],
      use assms in \<open>auto simp: rank_list_props positions_def\<close>)
    (rule time_loop_if [OF assms(1), where c = "\<lambda>_. True"],
      use assms in \<open>auto simp: rank_list_props positions_def\<close>)

lemma other_ranks_timed:
  assumes "timed cfg cs"
  shows "okE (UpdateOtherRanksTiming cfg a (timing cfg sc ct) clk cs)
    (timed_by cfg (\<lambda>(i, j, k). i \<noteq> a_rank a) (timing cfg sc ct) clk cs)"
  and "okE (UpdateOtherBanksets cfg a (timing cfg sc ct) clk cs)
    (timed_by cfg (\<lambda>(i, j, k). k \<noteq> a_bank a) (timing cfg sc ct) clk cs)"
  unfolding UpdateOtherRanksTiming_def UpdateOtherBanksets_def for_channel_fold
  by (rule time_loop_if [OF assms(1), where c = "\<lambda>(i, j, k). i \<noteq> a_rank a"],
      use assms in \<open>auto simp: all_list_props\<close>)
    (rule time_loop_if [OF assms(1), where c = "\<lambda>(i, j, k). k \<noteq> a_bank a"],
      use assms in \<open>auto simp: all_list_props\<close>)

lemma same_bankset_timed:
  assumes "timed cfg cs" "0 \<le> a_rank a" "a_rank a < ranks cfg" "0 \<le> a_bank a" "a_bank a < banks_per_group cfg"
  shows "okE (UpdateSameBankset cfg a (timing cfg sc ct) clk cs)
    (timed_by cfg (\<lambda>(i, j, k). i = a_rank a \<and> k = a_bank a) (timing cfg sc ct) clk cs)"
proof -
  have eq: "UpdateSameBankset cfg a (timing cfg sc ct) clk cs
    = foldE (\<lambda>(i, j, k). time_bank (timing cfg sc ct) clk i j k)
        (map (\<lambda>j. (a_rank a, j, a_bank a)) (ints (bankgroups cfg))) cs"
    by (simp only: UpdateSameBankset_def forE_list foldE_map prod.case)
  show ?thesis unfolding eq
    by (rule time_loop_if [OF assms(1), where c = "\<lambda>_. True"])
      (use assms in \<open>auto simp: positions_def distinct_map inj_on_def ints_props\<close>)
qed

section \<open>UpdateTiming imposes the distances\<close>

lemma timed_by_then:
  assumes "okE m (timed_by cfg S ts clk cs)" "\<And>cs1. timed_by cfg S ts clk cs cs1 \<Longrightarrow> okE (f cs1) P"
  shows "okE (bindE m f) P"
  using assms by (auto simp: okE_bindE intro: okE_mono)

lemma time_bank_cmd_spec:
  assumes t: "timed cfg cs" and p: "(Rank cmd, Bankgroup cmd, Bank cmd) \<in> positions cfg"
  shows "okE (time_bank_cmd cfg cmd clk cs) (\<lambda>cs'. bank_frame cs cs' \<and> timed cfg cs' \<and> (\<forall>q\<in>positions cfg.
    the_bank cs' q = time_entries (timing cfg (bank_scope (cmd_addr cmd) q) (cmd_type cmd)) clk (the_bank cs q)))"
proof -
  let ?a = "cmd_addr cmd"
  have p': "(a_rank ?a, a_bankgroup ?a, a_bank ?a) \<in> positions cfg" using p by (simp add: cmd_fields)
  then have r: "0 \<le> a_rank ?a" "a_rank ?a < ranks cfg" by (auto simp: positions_def)
  show ?thesis
    unfolding time_bank_cmd_def Let_def
  proof (rule timed_by_then [OF same_bank_timed [OF t p']])
    fix c1 assume c1: "timed_by cfg (\<lambda>(i, j, k). i = a_rank ?a \<and> j = a_bankgroup ?a \<and> k = a_bank ?a)
      (timing cfg same_bank (cmd_type cmd)) clk cs c1"
    then have t1: "timed cfg c1" by (simp add: timed_by_def)
    show "okE (bindE (UpdateOtherBanksSameBankgroupTiming cfg ?a (timing cfg other_banks_same_bankgroup (cmd_type cmd)) clk c1) (\<lambda>cs.
      bindE (UpdateOtherBankgroupsSameRankTiming cfg ?a (timing cfg other_bankgroups_same_rank (cmd_type cmd)) clk cs) (\<lambda>cs.
      UpdateOtherRanksTiming cfg ?a (timing cfg other_ranks (cmd_type cmd)) clk cs)))
      (\<lambda>cs'. bank_frame cs cs' \<and> timed cfg cs' \<and> (\<forall>q\<in>positions cfg.
      the_bank cs' q = time_entries (timing cfg (bank_scope ?a q) (cmd_type cmd)) clk (the_bank cs q)))"
    proof (rule timed_by_then [OF other_banks_timed [OF t1 p']], rule timed_by_then [OF other_groups_timed(1) [OF _ r]])
      fix c2 assume c2: "timed_by cfg (\<lambda>(i, j, k). i = a_rank ?a \<and> j = a_bankgroup ?a \<and> k \<noteq> a_bank ?a)
        (timing cfg other_banks_same_bankgroup (cmd_type cmd)) clk c1 c2"
      then show "timed cfg c2" by (simp add: timed_by_def)
      fix c3 assume c3: "timed_by cfg (\<lambda>(i, j, k). i = a_rank ?a \<and> j \<noteq> a_bankgroup ?a)
        (timing cfg other_bankgroups_same_rank (cmd_type cmd)) clk c2 c3"
      then have t3: "timed cfg c3" by (simp add: timed_by_def)
      show "okE (UpdateOtherRanksTiming cfg ?a (timing cfg other_ranks (cmd_type cmd)) clk c3)
        (\<lambda>cs'. bank_frame cs cs' \<and> timed cfg cs' \<and> (\<forall>q\<in>positions cfg.
        the_bank cs' q = time_entries (timing cfg (bank_scope ?a q) (cmd_type cmd)) clk (the_bank cs q)))"
      proof (rule okE_mono [OF other_ranks_timed(1) [OF t3]])
        fix c4 assume c4: "timed_by cfg (\<lambda>(i, j, k). i \<noteq> a_rank ?a) (timing cfg other_ranks (cmd_type cmd)) clk c3 c4"
        show "bank_frame cs c4 \<and> timed cfg c4 \<and> (\<forall>q\<in>positions cfg.
          the_bank c4 q = time_entries (timing cfg (bank_scope ?a q) (cmd_type cmd)) clk (the_bank cs q))"
          using c1 c2 c3 c4 unfolding timed_by_def
          by (auto simp: bank_scope_def intro: bank_frame_trans)
      qed
    qed
  qed
qed

lemma time_entries_cong: "cmd_timing b = cmd_timing b' \<Longrightarrow> cmd_timing (time_entries ts clk b) = cmd_timing (time_entries ts clk b')"
  by (simp add: time_entries_def)

lemma same_timed: "same_time cfg cs cs' \<Longrightarrow> timed cfg cs \<Longrightarrow> timed cfg cs'"
  by (auto simp: same_time_def timed_def)

text \<open>The post-state times every bank by what the command imposes on it.\<close>

definition imposes :: "Config \<Rightarrow> Command \<Rightarrow> u64 \<Rightarrow> ChannelState \<Rightarrow> ChannelState \<Rightarrow> bool" where
  "imposes cfg cmd clk cs cs' \<longleftrightarrow> timed cfg cs' \<and> (\<forall>q\<in>positions cfg.
     cmd_timing (the_bank cs' q) = cmd_timing (time_entries (imposed cfg cmd q) clk (the_bank cs q)))"

lemma imposes_after_same:
  assumes "timed cfg cs" "same_time cfg cs c1" "imposes cfg cmd clk c1 c2"
  shows "imposes cfg cmd clk cs c2"
  using assms unfolding imposes_def same_time_def timed_def by (metis time_entries_cong)

lemma count_act_banks: "vE (count_act cfg cmd clk cs) (\<lambda>cs'. bank_states cs' = bank_states cs)"
  unfolding count_act_def UpdateActivationTimes_def Let_def by (auto intro!: vE_bind_any)

lemma timed_banks: "bank_states cs' = bank_states cs \<Longrightarrow> timed cfg cs' = timed cfg cs \<and> the_bank cs' = the_bank cs"
  by (auto simp: timed_def chan_shape_def the_bank_def fun_eq_iff)

lemma UpdateTiming_bank_cmd:
  assumes t: "timed cfg cs" and c: "cmd_pos_ok cfg cmd"
    and ct: "cmd_type cmd \<in> {ACTIVATE, READ_PRECHARGE, WRITE_PRECHARGE, PRECHARGE, PREab, PREsb, READ, WRITE, REFRESH_BANK, DRFMb}"
  shows "vE (UpdateTiming cfg cmd clk cs) (imposes cfg cmd clk cs)"
proof -
  have nr: "cmd_type cmd \<notin> {REFab, RFMab, DRFMab, SREF_ENTER, SREF_EXIT}" "cmd_type cmd \<notin> {REFsb, RFMsb, DRFMsb}"
    "cmd_type cmd \<notin> {REFab, RFMab, DRFMab, SREF_ENTER, SREF_EXIT, REFsb, RFMsb, DRFMsb}"
    using ct by (cases "cmd_type cmd"; simp)+
  have p: "(Rank cmd, Bankgroup cmd, Bank cmd) \<in> positions cfg"
    using c nr unfolding cmd_pos_ok_def positions_def by blast
  have imp: "imposed cfg cmd q = timing cfg (bank_scope (cmd_addr cmd) q) (cmd_type cmd)" for q
    unfolding imposed_def Let_def if_not_P [OF nr(1)] if_not_P [OF nr(2)] by (cases q) simp
  have fin: "vE (time_bank_cmd cfg cmd clk c1) (imposes cfg cmd clk cs)"
    if 0: "bank_states c0 = bank_states cs" and 1: "same_time cfg c0 c1" for c0 c1
  proof -
    note b = timed_banks [OF 0, of cfg]
    have t1: "timed cfg c1" using same_timed [OF 1] b t by blast
    have "cmd_timing (the_bank c1 q) = cmd_timing (the_bank cs q)" if "q \<in> positions cfg" for q
      using 1 b t that by (auto simp: same_time_def timed_def)
    then have "cmd_timing (time_entries ts clk (the_bank c1 q)) = cmd_timing (time_entries ts clk (the_bank cs q))"
      if "q \<in> positions cfg" for q ts using that by (intro time_entries_cong) blast
    then show ?thesis
      by (intro vE_mono [OF okE_vE [OF time_bank_cmd_spec [OF t1 p]]]) (simp add: imposes_def imp)
  qed
  have act: "vE (if cmd_type cmd = ACTIVATE then count_act cfg cmd clk cs else Inr cs) (\<lambda>c0. bank_states c0 = bank_states cs)"
    by (simp add: count_act_banks)
  have alert: "vE (if b then TriggerSameBankAlert cfg cmd clk c0 else Inr c0) (same_time cfg c0)" for b c0
    by (simp add: alerts_same)
  have "vE (bindE (if cmd_type cmd = ACTIVATE then count_act cfg cmd clk cs else Inr cs) (\<lambda>cs.
    bindE (if b then TriggerSameBankAlert cfg cmd clk cs else Inr cs) (\<lambda>cs. time_bank_cmd cfg cmd clk cs)))
    (imposes cfg cmd clk cs)" for b
    by (rule vE_bindE [OF act]) (rule vE_bindE [OF alert], rule fin)
  then show ?thesis unfolding UpdateTiming_def Let_def if_P [OF ct] .
qed

lemma timed_by_imposes:
  assumes "timed cfg cs" "same_time cfg cs c1" "okE m (timed_by cfg S ts clk c1)"
    and "\<And>q. q \<in> positions cfg \<Longrightarrow> imposed cfg cmd q = (if S q then ts else [])"
  shows "vE m (imposes cfg cmd clk cs)"
proof (rule vE_mono [OF okE_vE [OF assms(3)]])
  fix c2 assume "timed_by cfg S ts clk c1 c2"
  then have "imposes cfg cmd clk c1 c2" using assms(4) by (simp add: timed_by_def imposes_def)
  then show "imposes cfg cmd clk cs c2" by (rule imposes_after_same [OF assms(1,2)])
qed

lemma UpdateTiming_rank_cmd:
  assumes t: "timed cfg cs" and c: "cmd_pos_ok cfg cmd" and ct: "cmd_type cmd \<in> {RFMab, REFab, DRFMab, SREF_ENTER, SREF_EXIT}"
  shows "vE (UpdateTiming cfg cmd clk cs) (imposes cfg cmd clk cs)"
proof -
  have nb: "cmd_type cmd \<notin> {ACTIVATE, READ_PRECHARGE, WRITE_PRECHARGE, PRECHARGE, PREab, PREsb, READ, WRITE, REFRESH_BANK, DRFMb}"
    using ct by (cases "cmd_type cmd"; simp)
  let ?c = "if cmd_type cmd = RFMab then cs\<lparr>num_acts_abo := 0\<rparr> else cs"
  have s: "vE (if b then TriggerSameRankAlert cfg cmd clk ?c else Inr ?c) (same_time cfg cs)" for b
    by (simp add: alerts_same)
  have r: "0 \<le> a_rank (cmd_addr cmd)" "a_rank (cmd_addr cmd) < ranks cfg" using c by (auto simp: cmd_pos_ok_def Rank_def)
  have imp: "imposed cfg cmd q = (if case q of (i, j, k) \<Rightarrow> i = a_rank (cmd_addr cmd) then timing cfg same_rank (cmd_type cmd) else [])" for q
    using ct by (cases q) (simp add: imposed_def Let_def insert_commute)
  have "vE (UpdateSameRankTiming cfg (cmd_addr cmd) (timing cfg same_rank (cmd_type cmd)) clk c1) (imposes cfg cmd clk cs)"
    if "same_time cfg cs c1" for c1
    by (rule timed_by_imposes [OF t that other_groups_timed(2) [OF same_timed [OF that t] r] imp])
  then show ?thesis
    unfolding UpdateTiming_def Let_def if_not_P [OF nb] if_P [OF ct] by (rule vE_bindE [OF s])
qed

lemma UpdateTiming_sb_cmd:
  assumes t: "timed cfg cs" and c: "cmd_pos_ok cfg cmd" and ct: "cmd_type cmd \<in> {REFsb, RFMsb, DRFMsb}"
  shows "vE (UpdateTiming cfg cmd clk cs) (imposes cfg cmd clk cs)"
proof -
  let ?a = "cmd_addr cmd"
  have nb: "cmd_type cmd \<notin> {ACTIVATE, READ_PRECHARGE, WRITE_PRECHARGE, PRECHARGE, PREab, PREsb, READ, WRITE, REFRESH_BANK, DRFMb}"
    "cmd_type cmd \<notin> {RFMab, REFab, DRFMab, SREF_ENTER, SREF_EXIT}" "cmd_type cmd \<notin> {REFab, RFMab, DRFMab, SREF_ENTER, SREF_EXIT}"
    using ct by (cases "cmd_type cmd"; simp)+
  have r: "0 \<le> a_rank ?a" "a_rank ?a < ranks cfg" "0 \<le> a_bank ?a" "a_bank ?a < banks_per_group cfg"
    using c nb unfolding cmd_pos_ok_def cmd_fields by blast+
  have imp: "imposed cfg cmd q = (if snd (snd q) \<noteq> a_bank ?a then timing cfg other_banksets (cmd_type cmd)
      else if fst q = a_rank ?a then timing cfg same_bankset (cmd_type cmd) else [])" for q
    unfolding imposed_def Let_def if_not_P [OF nb(3)] if_P [OF ct] by (cases q) simp
  have fin: "vE (bindE (UpdateSameBankset cfg ?a (timing cfg same_bankset (cmd_type cmd)) clk c1) (\<lambda>cs.
      UpdateOtherBanksets cfg ?a (timing cfg other_banksets (cmd_type cmd)) clk cs)) (imposes cfg cmd clk cs)"
    if s: "same_time cfg cs c1" for c1
  proof (rule vE_bindE [OF okE_vE [OF same_bankset_timed [OF same_timed [OF s t] r]]])
    fix c2 assume c2: "timed_by cfg (\<lambda>(i, j, k). i = a_rank ?a \<and> k = a_bank ?a) (timing cfg same_bankset (cmd_type cmd)) clk c1 c2"
    then have t2: "timed cfg c2" by (simp add: timed_by_def)
    show "vE (UpdateOtherBanksets cfg ?a (timing cfg other_banksets (cmd_type cmd)) clk c2) (imposes cfg cmd clk cs)"
    proof (rule vE_mono [OF okE_vE [OF other_ranks_timed(2) [OF t2]]])
      fix c3 assume "timed_by cfg (\<lambda>(i, j, k). k \<noteq> a_bank ?a) (timing cfg other_banksets (cmd_type cmd)) clk c2 c3"
      with c2 have "imposes cfg cmd clk c1 c3" unfolding imposes_def imp timed_by_def by (auto split: if_splits)
      then show "imposes cfg cmd clk cs c3" by (rule imposes_after_same [OF t s])
    qed
  qed
  show ?thesis
    unfolding UpdateTiming_def Let_def if_not_P [OF nb(1)] if_not_P [OF nb(2)] if_P [OF ct]
    by (rule vE_bindE [OF alerts_same(2) [OF same_time_refl]]) (rule fin)
qed

lemma UpdateTiming_imposes:
  assumes "timed cfg cs" "cmd_pos_ok cfg cmd"
  shows "vE (UpdateTiming cfg cmd clk cs) (imposes cfg cmd clk cs)"
  using UpdateTiming_bank_cmd [OF assms] UpdateTiming_rank_cmd [OF assms] UpdateTiming_sb_cmd [OF assms]
  by (cases "cmd_type cmd") (simp_all add: UpdateTiming_def)

lemma time_list_ge:
  assumes "\<forall>(ct, d)\<in>set ts. ct \<noteq> SIZE" "length (cmd_timing b) = 18" "ct \<noteq> SIZE"
  shows "cmd_timing b ! cmd_index ct \<le> cmd_timing (time_entries ts clk b) ! cmd_index ct"
    "(ct, d) \<in> set ts \<Longrightarrow> clk + word_of_int d \<le> cmd_timing (time_entries ts clk b) ! cmd_index ct"
proof -
  have step: "time_entries ((c, e) # ts) clk b = time_entries ts clk
      (b\<lparr>cmd_timing := (cmd_timing b)[cmd_index c := max (cmd_timing b ! cmd_index c) (clk + word_of_int e)]\<rparr>)" for c e ts b
    by (simp add: time_entries_def)
  have "cmd_timing b ! cmd_index ct \<le> cmd_timing (time_entries ts clk b) ! cmd_index ct \<and>
    ((ct, d) \<in> set ts \<longrightarrow> clk + word_of_int d \<le> cmd_timing (time_entries ts clk b) ! cmd_index ct)"
    using assms
  proof (induction ts arbitrary: b)
    case (Cons x ts)
    obtain c e where x: "x = (c, e)" by force
    let ?b = "b\<lparr>cmd_timing := (cmd_timing b)[cmd_index c := max (cmd_timing b ! cmd_index c) (clk + word_of_int e)]\<rparr>"
    have "cmd_timing b ! cmd_index ct \<le> cmd_timing ?b ! cmd_index ct"
      "ct = c \<Longrightarrow> clk + word_of_int e \<le> cmd_timing ?b ! cmd_index ct"
      using Cons.prems(2,3) cmd_index_less [of ct] by (cases "ct = c"; simp add: cmd_index_inj)+
    moreover have "cmd_timing ?b ! cmd_index ct \<le> cmd_timing (time_entries ts clk ?b) ! cmd_index ct"
      "(ct, d) \<in> set ts \<longrightarrow> clk + word_of_int d \<le> cmd_timing (time_entries ts clk ?b) ! cmd_index ct"
      using Cons.IH [of ?b] Cons.prems by auto
    ultimately show ?case unfolding x step by (auto intro: order.trans)
  qed simp
  then show "cmd_timing b ! cmd_index ct \<le> cmd_timing (time_entries ts clk b) ! cmd_index ct"
    "(ct, d) \<in> set ts \<Longrightarrow> clk + word_of_int d \<le> cmd_timing (time_entries ts clk b) ! cmd_index ct" by blast+
qed

lemma imposed_valid: "\<forall>(ct, d)\<in>set (imposed cfg cmd q). ct \<noteq> SIZE"
  by (cases q) (auto simp: imposed_def Let_def simp del: timing.simps dest: timing_valid split: if_splits)

end
