(* ===== verification/Channel_Run.thy ===== *)
theory Channel_Run
  imports Channel_Timing
begin

unbundle bit_operations_syntax

text \<open>
  Runs of a channel: the commands it issues one after the other, each one the answer of
  \<open>GetReadyCommand\<close> (or of \<open>GetReadyHydraCommand\<close>) executed by \<open>UpdateTimingAndStates\<close>, with the
  other operations of the channel in between. Two protocol theorems hold of every run: each
  command respects the distance that each earlier command imposes on every bank whose readiness
  was asked for, and a rank never sees more than four activations in a window of tFAW.
\<close>

section \<open>Which banks a command was checked on\<close>

definition checked :: "Command \<Rightarrow> pos \<Rightarrow> bool" where
  "checked cmd = (\<lambda>(i, j, k). i = Rank cmd \<and>
     (if cmd_type cmd \<in> {REFab, RFMab, DRFMab, SREF_ENTER} then True
      else if cmd_type cmd \<in> {REFsb, RFMsb, DRFMsb} then k = Bank cmd
      else j = Bankgroup cmd \<and> k = Bank cmd))"

definition geometry_ok :: "Config \<Rightarrow> bool" where
  "geometry_ok cfg \<longleftrightarrow> 0 < ranks cfg \<and> 0 < bankgroups cfg \<and> 0 < banks_per_group cfg \<and>
     banks cfg = bankgroups cfg * banks_per_group cfg"

lemma required_group:
  assumes "required_type cfg b req = Inr rt" "rt \<noteq> SIZE" "IsRankCMD req \<or> IsSbCMD req"
  shows "rt = cmd_type req \<or> rt = PREab \<or> rt = PREsb"
  using assms
  by (cases "b_state b"; cases "cmd_type req";
      simp add: required_type_def required_closed_def required_open_def required_sref_def cmd_kinds split: if_splits)

lemma required_single:
  assumes "required_type cfg b req = Inr rt" "rt \<noteq> SIZE" "\<not> IsRankCMD req" "\<not> IsSbCMD req"
  shows "rt \<notin> {REFab, DRFMab, SREF_ENTER, REFsb, DRFMsb}"
  using assms
  by (cases "b_state b"; cases "cmd_type req";
      simp add: required_type_def required_closed_def required_open_def required_sref_def cmd_kinds split: if_splits)

definition bank_ready :: "Config \<Rightarrow> ChannelState \<Rightarrow> Command \<Rightarrow> u64 \<Rightarrow> int \<times> int \<Rightarrow> bool" where
  "bank_ready cfg cs cmd clk = (\<lambda>(j, k). \<exists>b rc. bank_at cs (Rank cmd) j k = Inr b \<and>
     bank_GetReadyCommand cfg b cmd clk = Inr rc \<and> IsValid rc \<and> cmd_type rc = cmd_type cmd)"

lemma ready_loop_cases:
  assumes "ready_loop cfg cs cmd clk jks rc0 n = Inr r"
  shows "case r of
      Inl rc \<Rightarrow> \<exists>j k b rc'. (j, k) \<in> set jks \<and> bank_at cs (Rank cmd) j k = Inr b \<and>
        bank_GetReadyCommand cfg b cmd clk = Inr rc' \<and> IsValid rc' \<and> cmd_type rc' \<noteq> cmd_type cmd \<and>
        rc = rc'\<lparr>cmd_addr := mk_Address (-1) (Rank cmd) j k (-1) (-1)\<rparr>
    | Inr (rc, m) \<Rightarrow> m \<le> n + int (length jks) \<and>
        (m = n + int (length jks) \<longrightarrow> (\<forall>p\<in>set jks. bank_ready cfg cs cmd clk p) \<and>
          (if jks = [] then rc = rc0 else rc = mk_Command (cmd_type cmd) (cmd_addr cmd) (hex_addr cmd)))"
  using assms
proof (induction cfg cs cmd clk jks rc0 n rule: ready_loop.induct)
  case (1 cfg cs cmd clk rc n)
  then show ?case by auto
next
  case (2 cfg cs cmd clk j k jks rc0 n)
  obtain b rc where b: "bank_at cs (Rank cmd) j k = Inr b" "bank_GetReadyCommand cfg b cmd clk = Inr rc"
    using "2.prems" by (auto simp: bindE_Inr_iff)
  show ?case
  proof (cases "IsValid rc")
    case False
    then have "ready_loop cfg cs cmd clk jks rc n = Inr r" using "2.prems" b by simp
    from "2.IH"(1) [OF b False this] show ?thesis
      by (cases r) (auto split: prod.splits if_splits)
  next
    case v: True
    show ?thesis
    proof (cases "cmd_type rc = cmd_type cmd")
      case False
      with "2.prems" b v have "r = Inl (rc\<lparr>cmd_addr := mk_Address (-1) (Rank cmd) j k (-1) (-1)\<rparr>)" by simp
      with b v False show ?thesis by auto
    next
      case True
      then have l: "ready_loop cfg cs cmd clk jks rc (n + 1) = Inr r" using "2.prems" b v by simp
      have br: "bank_ready cfg cs cmd clk (j, k)" using b v True by (auto simp: bank_ready_def)
      obtain rt where "rc = mk_Command rt (cmd_addr cmd) (hex_addr cmd)" using GetReady_valid [OF b(2) v] by metis
      with True have "rc = mk_Command (cmd_type cmd) (cmd_addr cmd) (hex_addr cmd)" by simp
      with "2.IH"(2) [OF b _ _ l] v True br show ?thesis
        by (cases r) (auto split: prod.splits if_splits)
    qed
  qed
qed

lemma bank_ready_pos:
  assumes "chan_shape cfg cs" "bank_ready cfg cs cmd clk (j, k)"
  shows "(Rank cmd, j, k) \<in> positions cfg"
    "cmd_timing (the_bank cs (Rank cmd, j, k)) ! cmd_index (cmd_type cmd) \<le> clk"
proof -
  obtain b rc where b: "bank_at cs (Rank cmd) j k = Inr b" "bank_GetReadyCommand cfg b cmd clk = Inr rc"
    "IsValid rc" "cmd_type rc = cmd_type cmd" using assms(2) by (auto simp: bank_ready_def)
  note p = bank_at_Inr [OF assms(1) b(1)]
  show "(Rank cmd, j, k) \<in> positions cfg" by (rule p(1))
  show "cmd_timing (the_bank cs (Rank cmd, j, k)) ! cmd_index (cmd_type cmd) \<le> clk"
    using GetReady_valid [OF b(2,3)] b(4) p(2) by (metis mk_Command_sel(1))
qed

text \<open>What is known of a command that the channel declares ready.\<close>

definition ready_ok :: "Config \<Rightarrow> ChannelState \<Rightarrow> Command \<Rightarrow> u64 \<Rightarrow> bool" where
  "ready_ok cfg cs cmd clk \<longleftrightarrow> cmd_pos_ok cfg cmd \<and>
     (\<forall>p\<in>positions cfg. checked cmd p \<longrightarrow> cmd_timing (the_bank cs p) ! cmd_index (cmd_type cmd) \<le> clk) \<and>
     (cmd_type cmd = ACTIVATE \<longrightarrow> ActivationWindowOk cfg cs (Rank cmd) clk = Inr True)"

lemma ready_ok_single:
  assumes s: "chan_shape cfg cs" and b: "bank_at cs i j k = Inr b" and g: "bank_GetReadyCommand cfg b req clk = Inr rc"
    and v: "IsValid rc" and c: "cmd_type cmd = cmd_type rc" "Rank cmd = i" "Bankgroup cmd = j" "Bank cmd = k"
    and t: "cmd_type cmd \<notin> {REFab, RFMab, DRFMab, SREF_ENTER}" "cmd_type cmd \<notin> {REFsb, RFMsb, DRFMsb}"
    and w: "cmd_type cmd = ACTIVATE \<Longrightarrow> ActivationWindowOk cfg cs (Rank cmd) clk = Inr True"
  shows "ready_ok cfg cs cmd clk"
proof -
  note p = bank_at_Inr [OF s b]
  have "cmd_timing (the_bank cs (i, j, k)) ! cmd_index (cmd_type cmd) \<le> clk"
    using GetReady_valid [OF g v] p(2) c(1) by (metis mk_Command_sel(1))
  moreover have "checked cmd q \<Longrightarrow> q = (i, j, k)" for q
    using t c by (cases q) (simp add: checked_def)
  moreover have "cmd_pos_ok cfg cmd" using p(1) c by (simp add: cmd_pos_ok_def positions_def)
  ultimately show ?thesis using w by (auto simp: ready_ok_def)
qed

lemma all_ready_ok:
  assumes s: "chan_shape cfg cs" and a: "all_ready cfg cs req clk jks (int (length jks)) = Inr cmd" and v: "IsValid cmd"
    and grp: "IsRankCMD req \<or> IsSbCMD req"
    and jks: "\<And>j k. (Rank req, j, k) \<in> positions cfg \<Longrightarrow> checked req (Rank req, j, k) \<Longrightarrow> (j, k) \<in> set jks"
    and ct: "cmd_type req \<in> {REFab, RFMab, DRFMab, SREF_ENTER} \<or>
      cmd_type req \<in> {REFsb, RFMsb, DRFMsb} \<and> (\<forall>(j, k)\<in>set jks. k = Bank req)"
  shows "ready_ok cfg cs cmd clk"
proof -
  obtain r where r: "ready_loop cfg cs req clk jks Command_default 0 = Inr r"
    "(case r of Inl rc \<Rightarrow> Inr rc | Inr (rc, m) \<Rightarrow> Inr (if m = int (length jks) then rc else Command_default)) = (Inr cmd :: Command res)"
    using a by (auto simp: all_ready_def bindE_Inr_iff)
  note l = ready_loop_cases [OF r(1)]
  show ?thesis
  proof (cases r)
    case (Inl rc)
    then obtain j k b rc' where b: "bank_at cs (Rank req) j k = Inr b" "bank_GetReadyCommand cfg b req clk = Inr rc'"
      "IsValid rc'" "cmd_type rc' \<noteq> cmd_type req" "cmd = rc'\<lparr>cmd_addr := mk_Address (-1) (Rank req) j k (-1) (-1)\<rparr>"
      using l r(2) by auto
    obtain rt where "required_type cfg b req = Inr rt" "rt \<noteq> SIZE" "cmd_type rc' = rt"
      using GetReady_valid [OF b(2,3)] by (metis mk_Command_sel(1))
    with required_group [OF _ _ grp] b(4) have "cmd_type rc' = PREab \<or> cmd_type rc' = PREsb" by blast
    then show ?thesis
      by (intro ready_ok_single [OF s b(1-3)]) (auto simp: b(5) cmd_fields)
  next
    case (Inr x)
    then obtain rc m where x: "r = Inr (rc, m)" by (cases x) auto
    have m: "m = int (length jks)" "rc = cmd" using r(2) v x by (auto split: if_splits)
    then have br: "\<forall>p\<in>set jks. bank_ready cfg cs req clk p" and
      cmd: "cmd = mk_Command (cmd_type req) (cmd_addr req) (hex_addr req)" "jks \<noteq> []"
      using l x v by (auto split: if_splits)
    have eqs: "Rank cmd = Rank req" "Bank cmd = Bank req" "Bankgroup cmd = Bankgroup req" "cmd_type cmd = cmd_type req"
      "checked cmd = checked req" by (auto simp: cmd(1) cmd_fields checked_def)
    obtain j k where jk: "(j, k) \<in> set jks" using cmd(2) by (cases jks) auto
    note p = bank_ready_pos(1) [OF s br [rule_format, OF jk]]
    have "cmd_pos_ok cfg cmd" using p ct jk unfolding cmd_pos_ok_def eqs positions_def by auto
    moreover have "cmd_timing (the_bank cs q) ! cmd_index (cmd_type req) \<le> clk" if qp: "q \<in> positions cfg" and qc: "checked req q" for q
    proof -
      obtain j k where q: "q = (Rank req, j, k)" using qc by (cases q) (auto simp: checked_def)
      show ?thesis using bank_ready_pos(2) [OF s br [rule_format, OF jks]] qp qc unfolding q by blast
    qed
    moreover have "cmd_type req \<noteq> ACTIVATE" using ct by auto
    ultimately show ?thesis unfolding ready_ok_def eqs by blast
  qed
qed

lemma gate_activate_valid:
  assumes "gate_activate cfg req rc clk cs = Inr (cmd, c1)" "IsValid cmd"
  shows "cmd = rc \<and> ActivationWindowOk cfg cs (Rank rc) clk = Inr True"
proof -
  obtain ok where ok: "ActivationWindowOk cfg cs (Rank rc) clk = Inr ok"
    using assms(1) by (cases "ActivationWindowOk cfg cs (Rank rc) clk") (auto simp: gate_activate_def)
  show ?thesis
  proof (cases ok)
    case True
    then obtain b launch c2 where sel: "select_drfm cfg req clk b cs = Inr (launch, c2)"
      and res: "(case launch of None \<Rightarrow> Inr (Command_default, c2)
        | Some True \<Rightarrow> bindE (launch_drfm cfg req c2) (\<lambda>cs. Inr (Command_default, cs))
        | Some False \<Rightarrow> Inr (rc, c2)) = (Inr (cmd, c1) :: (Command \<times> ChannelState) res)"
      using assms(1) ok unfolding gate_activate_def by (fastforce elim!: bindE_InrE)
    with assms(2) ok True show ?thesis by (auto simp: bindE_Inr_iff split: option.splits bool.splits)
  qed (use assms ok in \<open>auto simp: gate_activate_def\<close>)
qed

lemma all_ready_request:
  assumes "all_ready cfg cs req clk jks n = Inr cmd" "IsValid cmd" "jks \<noteq> []"
  shows "cmd_type req \<noteq> PREab \<and> cmd_type req \<noteq> PREsb \<and> cmd_type req \<noteq> SREF_EXIT"
proof -
  obtain jk rest where j: "jks = jk # rest" using assms(3) by (cases jks) auto
  obtain b rc where "bank_GetReadyCommand cfg b req clk = Inr rc"
    using assms(1) unfolding all_ready_def j by (cases jk) (auto simp: bindE_Inr_iff)
  then show ?thesis
    by (cases "b_state b") (auto simp: bank_GetReadyCommand_def bindE_Inr_iff required_type_def required_closed_def
        required_open_def required_sref_def)
qed

lemma GetReadyCommand_ready_ok:
  assumes s: "chan_shape cfg cs" and g: "geometry_ok cfg"
    and r: "GetReadyCommand cfg req clk cs = Inr (cmd, c1)" and v: "IsValid cmd"
  shows "ready_ok cfg cs cmd clk"
proof -
  consider (rank) "IsRankCMD req" | (sb) "\<not> IsRankCMD req" "IsSbCMD req" | (bank) "\<not> IsRankCMD req" "\<not> IsSbCMD req" by blast
  then show ?thesis
  proof cases
    case rank
    let ?l = "banks_of_rank cfg"
    have ne: "?l \<noteq> []" and len: "banks cfg = int (length ?l)"
      using g banks_of_rank_props(3) [of cfg] by (auto simp: geometry_ok_def)
    have a: "all_ready cfg cs req clk ?l (int (length ?l)) = Inr cmd"
      using r rank len by (auto simp: GetReadyCommand_def bindE_Inr_iff)
    have "cmd_type req \<in> {REFab, RFMab, DRFMab, SREF_ENTER}"
      using all_ready_request [OF a v ne] rank by (auto simp: IsRankCMD_def)
    then show ?thesis
      by (intro all_ready_ok [OF s a v]) (use rank in \<open>auto simp: banks_of_rank_props positions_def\<close>)
  next
    case sb
    let ?l = "banks_of_set cfg (Bank req)"
    have set: "set ?l = {(j, k). 0 \<le> j \<and> j < bankgroups cfg \<and> k = Bank req}"
      using ints_props(1) [of "bankgroups cfg"] by (auto simp: banks_of_set_def ints_def)
    have ne: "?l \<noteq> []" and len: "bankgroups cfg = int (length ?l)"
      using g by (auto simp: geometry_ok_def banks_of_set_def)
    have a: "all_ready cfg cs req clk ?l (int (length ?l)) = Inr cmd"
      using r sb len by (auto simp: GetReadyCommand_def bindE_Inr_iff)
    have "cmd_type req \<in> {REFsb, RFMsb, DRFMsb}"
      using all_ready_request [OF a v ne] sb by (auto simp: IsSbCMD_def)
    then show ?thesis
      by (intro all_ready_ok [OF s a v]) (use sb in \<open>auto simp: set positions_def checked_def\<close>)
  next
    case bank
    then obtain b rc where b: "bank_at cs (Rank req) (Bankgroup req) (Bank req) = Inr b"
      "bank_GetReadyCommand cfg b req clk = Inr rc" "IsValid rc"
      and rc: "cmd_type rc \<noteq> RFMsb" "cmd_type rc \<noteq> RFMab"
        "cmd_type rc = ACTIVATE \<and> gate_activate cfg req rc clk cs = Inr (cmd, c1) \<or> cmd_type rc \<noteq> ACTIVATE \<and> rc = cmd"
      using r v by (auto simp: GetReadyCommand_def bindE_Inr_iff split: if_splits)
    have cmd: "cmd = rc" "cmd_type rc = ACTIVATE \<Longrightarrow> ActivationWindowOk cfg cs (Rank rc) clk = Inr True"
      using rc gate_activate_valid [OF _ v] by blast+
    obtain rt where rt: "required_type cfg b req = Inr rt" "rt \<noteq> SIZE" "rc = mk_Command rt (cmd_addr req) (hex_addr req)"
      using GetReady_valid [OF b(2,3)] by metis
    have "rt \<notin> {REFab, DRFMab, SREF_ENTER, REFsb, DRFMsb}" by (rule required_single [OF rt(1,2) bank])
    with rc(1,2) rt(3) cmd show ?thesis
      by (intro ready_ok_single [OF s b]) (auto simp: cmd_fields)
  qed
qed

lemma GetReadyHydraCommand_ready_ok:
  assumes s: "chan_shape cfg cs" and r: "GetReadyHydraCommand cfg clk cs = Inr (cmd, c1)" and v: "IsValid cmd" "\<not> IsRFM cmd"
    and q: "\<forall>c\<in>set (hydra_queue (hydra_drain cfg cs)). IsReadWrite c"
  shows "ready_ok cfg cs cmd clk"
proof -
  define c where "c = hydra_drain cfg cs"
  obtain d where d: "c = cs\<lparr>hydra_wb_draining := d\<rparr>"
  proof
    show "c = cs\<lparr>hydra_wb_draining := hydra_wb_draining c\<rparr>" by (simp add: c_def hydra_drain_def Let_def)
  qed
  have "IsFAWReady c i clk = IsFAWReady cs i clk" "Is32AWReady c i clk = Is32AWReady cs i clk" for i
    by (simp_all add: d IsFAWReady_def Is32AWReady_def)
  then have c: "bank_at c i j k = bank_at cs i j k" "ActivationWindowOk cfg c i clk = ActivationWindowOk cfg cs i clk" for i j k
    by (simp_all only: ActivationWindowOk_def) (simp add: d bank_at_def)
  obtain req rest where req: "hydra_queue c = req # rest"
    using r v(1) by (cases "hydra_queue c") (auto simp: GetReadyHydraCommand_def c_def Let_def)
  have "req \<in> set (hydra_queue c)" unfolding req by simp
  then have rw: "IsReadWrite req" using q by (auto simp: c_def)
  obtain b where b: "bank_at cs (Rank req) (Bankgroup req) (Bank req) = Inr b" "bank_GetReadyCommand cfg b req clk = Inr cmd"
    "cmd_type cmd = ACTIVATE \<Longrightarrow> ActivationWindowOk cfg cs (Rank cmd) clk = Inr True"
    using r v(1) unfolding GetReadyHydraCommand_def Let_def c_def [symmetric] req list.case c
    by (auto simp: bindE_Inr_iff split: if_splits)
  obtain rt where rt: "required_type cfg b req = Inr rt" "rt \<noteq> SIZE" "cmd = mk_Command rt (cmd_addr req) (hex_addr req)"
    using GetReady_valid [OF b(2) v(1)] by metis
  have "\<not> IsRankCMD req" "\<not> IsSbCMD req" using rw by (auto simp: cmd_kinds)
  from required_single [OF rt(1,2) this] v(2) rt(3) b(3) show ?thesis
    by (intro ready_ok_single [OF s b(1,2) v(1)]) (auto simp: cmd_fields IsRFM_def)
qed

section \<open>The activation windows\<close>

definition window_inv :: "nat \<Rightarrow> int \<Rightarrow> u64 list \<Rightarrow> u64 list \<Rightarrow> bool" where
  "window_inv n d ts w \<longleftrightarrow> length w \<le> n \<and> length w \<le> length ts \<and>
     w = map (\<lambda>t. t + word_of_int d) (drop (length ts - length w) ts) \<and>
     (\<forall>i<length ts - length w. unat (ts ! i) + nat d \<le> unat (last ts)) \<and>
     (\<forall>i. i + n < length ts \<longrightarrow> unat (ts ! i) + nat d \<le> unat (ts ! (i + n)))"

lemma unat_plus_int:
  assumes "0 \<le> d" "unat (t :: u64) + nat d < 2 ^ 64"
  shows "unat (t + word_of_int d) = unat t + nat d"
proof -
  have "nat d < 2 ^ 64" using assms(2) by (rule le_less_trans [rotated]) simp
  then have "d < 2 ^ 64" using assms(1) by (simp add: nat_less_iff)
  then have "uint (word_of_int d :: u64) = d"
    using assms(1) by (simp add: uint_word_of_int take_bit_int_eq_self)
  then have "unat (word_of_int d :: u64) = nat d" by (simp only: unat_eq_nat_uint)
  then show ?thesis using assms(2) unat_add_lem [of t "word_of_int d"] by simp
qed

lemma window_step:
  assumes inv: "window_inv n d ts w" and ready: "window_ready n w t" and mono: "\<forall>s\<in>set ts. s \<le> t"
    and small: "\<forall>s\<in>set ts. unat s + nat d < 2 ^ 64" and "0 \<le> d" "0 < n"
  shows "window_inv n d (ts @ [t]) (window_add t d w)"
proof -
  let ?k = "length ts - length w"
  have w: "length w \<le> n" "length w \<le> length ts" "w = map (\<lambda>t. t + word_of_int d) (drop ?k ts)"
    and old: "\<And>i. i < ?k \<Longrightarrow> unat (ts ! i) + nat d \<le> unat (last ts)"
    and gap: "\<And>i. i + n < length ts \<Longrightarrow> unat (ts ! i) + nat d \<le> unat (ts ! (i + n))"
    using inv by (auto simp: window_inv_def)
  have old': "unat (ts ! i) + nat d \<le> unat t" if "i < ?k" for i
  proof -
    have "ts \<noteq> []" using that by auto
    then have "last ts \<le> t" using mono by simp
    with old [OF that] show ?thesis by (simp add: word_le_nat_alt)
  qed
  have front: "unat x = unat (ts ! ?k) + nat d \<and> ?k < length ts" if "w = x # xs" for x xs
  proof -
    have k: "?k < length ts" using that w(2) by auto
    then have "x = ts ! ?k + word_of_int d" using w(3) that by (simp add: Cons_nth_drop_Suc [symmetric])
    with k small assms(5) show ?thesis by (simp add: unat_plus_int)
  qed
  have new: "unat (ts ! i) + nat d \<le> unat t" if "i + n = length ts" for i
  proof (cases "i < ?k")
    case False
    then have "length w = n" "i = ?k" using that w(1,2) by auto
    with \<open>0 < n\<close> obtain x xs where x: "w = x # xs" by (cases w) auto
    with ready \<open>length w = n\<close> have "x \<le> t" by (auto simp: window_ready_def)
    with front [OF x] \<open>i = ?k\<close> show ?thesis by (simp add: word_le_nat_alt)
  qed (rule old')
  have gap': "unat ((ts @ [t]) ! i) + nat d \<le> unat ((ts @ [t]) ! (i + n))" if "i + n < length (ts @ [t])" for i
    using that gap [of i] new [of i] \<open>0 < n\<close> by (cases "i + n = length ts") (auto simp: nth_append)
  have intro: ?thesis if k: "k \<le> length ts" "window_add t d w = map (\<lambda>t. t + word_of_int d) (drop k ts) @ [t + word_of_int d]"
    "length ts - k < n" "\<And>i. i < k \<Longrightarrow> unat (ts ! i) + nat d \<le> unat t" for k
  proof -
    have len: "length (window_add t d w) = Suc (length ts - k)" unfolding k(2) by simp
    have dk: "length (ts @ [t]) - length (window_add t d w) = k" using k(1) len by simp
    have i: "unat ((ts @ [t]) ! i) + nat d \<le> unat (last (ts @ [t]))" if "i < k" for i
      using k(4) [OF that] k(1) that by (simp add: nth_append)
    show ?thesis unfolding window_inv_def dk
      using len k(1-3) i gap' by simp
  qed
  show ?thesis
  proof (cases w)
    case Nil
    show ?thesis by (rule intro [of "length ts"]) (use Nil old' \<open>0 < n\<close> in \<open>simp_all add: window_add_def\<close>)
  next
    case (Cons x xs)
    show ?thesis
    proof (cases "x \<le> t")
      case True
      have f: "unat (ts ! ?k) + nat d \<le> unat t" "?k < length ts" using front [OF Cons] True by (simp_all add: word_le_nat_alt)
      have "xs = map (\<lambda>t. t + word_of_int d) (drop (Suc ?k) ts)"
        using w(3) Cons f(2) by (simp add: Cons_nth_drop_Suc [symmetric])
      moreover have "unat (ts ! i) + nat d \<le> unat t" if "i < Suc ?k" for i
        using old' [of i] f(1) that by (cases "i = ?k") auto
      moreover have "length ts - Suc ?k < n" using f(2) w(1,2) Cons by auto
      ultimately show ?thesis using Cons True f(2) by (intro intro [of "Suc ?k"]) (simp_all add: window_add_def)
    next
      case False
      then have "length w < n" using ready Cons w(1) by (auto simp: window_ready_def)
      moreover have "window_add t d w = w @ [t + word_of_int d]" using Cons False by (simp add: window_add_def)
      ultimately show ?thesis using w old' by (intro intro [of ?k]) simp_all
    qed
  qed
qed

text \<open>How a command changes the windows: an activation enters its time, nothing else does.\<close>

definition aw_eq :: "ChannelState \<Rightarrow> ChannelState \<Rightarrow> bool" where
  "aw_eq cs cs' \<longleftrightarrow> four_aw cs' = four_aw cs \<and> thirty_two_aw cs' = thirty_two_aw cs"

lemma aw_eq_simps [simp]: "aw_eq cs cs" "aw_eq cs (cs\<lparr>num_acts_abo := n\<rparr>)"
  by (simp_all add: aw_eq_def)

lemma aw_eq_trans: "aw_eq a b \<Longrightarrow> aw_eq b c \<Longrightarrow> aw_eq a c"
  by (simp add: aw_eq_def)

lemma same_time_aw: "same_time cfg cs cs' \<Longrightarrow> aw_eq cs cs'"
  by (simp add: same_time_def aw_eq_def)

lemma time_bank_aw: "aw_eq c0 cs \<Longrightarrow> vE (time_bank ts clk i j k cs) (aw_eq c0)"
proof -
  have "vE (upd_bank i j k f cs) (aw_eq c0)" if "aw_eq c0 cs" for f cs
    using that by (auto simp: upd_bank_def set_bank_def aw_eq_def intro!: vE_bind_any)
  then show "aw_eq c0 cs \<Longrightarrow> vE (time_bank ts clk i j k cs) (aw_eq c0)"
    unfolding time_bank_def by (intro vE_foldE) auto
qed

lemma time_loops_aw:
  assumes "aw_eq c0 cs"
  shows "vE (UpdateSameBankTiming cfg a ts clk cs) (aw_eq c0)" "vE (UpdateSameBankset cfg a ts clk cs) (aw_eq c0)"
    "vE (UpdateOtherBanksets cfg a ts clk cs) (aw_eq c0)" "vE (UpdateOtherBanksSameBankgroupTiming cfg a ts clk cs) (aw_eq c0)"
    "vE (UpdateOtherBankgroupsSameRankTiming cfg a ts clk cs) (aw_eq c0)" "vE (UpdateOtherRanksTiming cfg a ts clk cs) (aw_eq c0)"
    "vE (UpdateSameRankTiming cfg a ts clk cs) (aw_eq c0)"
  unfolding UpdateSameBankTiming_def UpdateSameBankset_def UpdateOtherBanksets_def UpdateOtherBanksSameBankgroupTiming_def
    UpdateOtherBankgroupsSameRankTiming_def UpdateOtherRanksTiming_def UpdateSameRankTiming_def for_channel_def for_rank_def
  using assms by (auto intro!: vE_forE time_bank_aw)

lemma time_bank_cmd_aw: "aw_eq c0 cs \<Longrightarrow> vE (time_bank_cmd cfg cmd clk cs) (aw_eq c0)"
  unfolding time_bank_cmd_def Let_def
  by (intro vE_bindE [OF time_loops_aw(1)] vE_bindE [OF time_loops_aw(4)] vE_bindE [OF time_loops_aw(5)] time_loops_aw(6))

lemma alerts_aw:
  assumes "aw_eq c0 cs"
  shows "vE (TriggerSameBankAlert cfg cmd clk cs) (aw_eq c0)" "vE (TriggerSameRankAlert cfg cmd clk cs) (aw_eq c0)"
  by (rule vE_mono [OF alerts_same(1) [OF same_time_refl]], rule aw_eq_trans [OF assms same_time_aw], assumption)
    (rule vE_mono [OF alerts_same(2) [OF same_time_refl]], rule aw_eq_trans [OF assms same_time_aw], assumption)

definition entered :: "Config \<Rightarrow> Command \<Rightarrow> u64 \<Rightarrow> ChannelState \<Rightarrow> ChannelState \<Rightarrow> bool" where
  "entered cfg cmd clk cs cs' \<longleftrightarrow> inrange (Rank cmd) (four_aw cs) \<and> four_aw cs' =
     (four_aw cs)[nat (Rank cmd) := window_add clk (tFAW cfg) (four_aw cs ! nat (Rank cmd))]"

lemma count_act_entered: "vE (count_act cfg cmd clk cs) (entered cfg cmd clk cs)"
  unfolding count_act_def UpdateActivationTimes_def Let_def entered_def
  by (auto intro!: vE_bind_any simp: vupd_Inr_iff)

lemma UpdateTiming_windows:
  "vE (UpdateTiming cfg cmd clk cs) (\<lambda>cs'.
     if cmd_type cmd = ACTIVATE then entered cfg cmd clk cs cs' else four_aw cs' = four_aw cs)"
proof (cases "cmd_type cmd = ACTIVATE")
  case True
  have rest: "vE (bindE (TriggerSameBankAlert cfg cmd clk c1) (\<lambda>cs. time_bank_cmd cfg cmd clk cs)) (aw_eq c1)" for c1
    by (intro vE_bindE [OF alerts_aw(1)] time_bank_cmd_aw) simp_all
  have "vE (bindE (count_act cfg cmd clk cs) (\<lambda>cs. bindE (TriggerSameBankAlert cfg cmd clk cs)
      (\<lambda>cs. time_bank_cmd cfg cmd clk cs))) (entered cfg cmd clk cs)"
    by (rule vE_bindE [OF count_act_entered], rule vE_mono [OF rest]) (simp add: aw_eq_def entered_def)
  with True show ?thesis by (simp add: UpdateTiming_def)
next
  case False
  have "vE (UpdateTiming cfg cmd clk cs) (aw_eq cs)"
    unfolding UpdateTiming_def Let_def using False
    by (auto intro!: vE_bindE [OF alerts_aw(1)] vE_bindE [OF alerts_aw(2)] vE_bindE [OF time_loops_aw(2)]
        time_loops_aw time_bank_cmd_aw)
  with False show ?thesis by (auto elim!: vE_mono simp: aw_eq_def)
qed

section \<open>Runs\<close>

text \<open>
  One step of a channel, with the command it issues and its clock, if any; the controller may change
  the statistics between asking and issuing, and its other members at any time. Hydra's own requests
  are assumed not to meet an RFM threshold: for them \<open>GetReadyHydraCommand\<close> would return the RFM
  command itself.
\<close>

inductive chan_step :: "Config \<Rightarrow> ChannelState \<Rightarrow> (Command \<times> u64) option \<Rightarrow> ChannelState \<Rightarrow> bool" for cfg where
  issue: "GetReadyCommand cfg req clk cs = Inr (cmd, c1) \<Longrightarrow> IsValid cmd \<Longrightarrow>
    UpdateTimingAndStates cfg cmd clk (c1\<lparr>c_env := e\<rparr>) = Inr c2 \<Longrightarrow> chan_step cfg cs (Some (cmd, clk)) c2"
| issue_hydra: "GetReadyHydraCommand cfg clk cs = Inr (cmd, c1) \<Longrightarrow> IsValid cmd \<Longrightarrow> \<not> IsRFM cmd \<Longrightarrow>
    (\<forall>c\<in>set (hydra_queue (hydra_drain cfg cs)). IsReadWrite c) \<Longrightarrow>
    UpdateTimingAndStates cfg cmd clk (c1\<lparr>c_env := e\<rparr>) = Inr c2 \<Longrightarrow> chan_step cfg cs (Some (cmd, clk)) c2"
| ask: "GetReadyCommand cfg req clk cs = Inr (cmd, c1) \<Longrightarrow> chan_step cfg cs None c1"
| ask_hydra: "GetReadyHydraCommand cfg clk cs = Inr (cmd, c1) \<Longrightarrow> chan_step cfg cs None c1"
| tick: "channel_ClockTick cfg clk cs = Inr c1 \<Longrightarrow> chan_step cfg cs None c1"
| need_rank: "chan_step cfg cs None (RankNeedRefresh r True cs)"
| need_set: "chan_step cfg cs None (BanksetNeedRefresh r k True cs)"
| need_bank: "chan_step cfg cs None (BankNeedRefresh r j k True cs)"
| others: "chan_step cfg cs None (cs\<lparr>c_env := e, rank_idle_cycles := n\<rparr>)"

definition event_list :: "'a option \<Rightarrow> 'a list" where
  "event_list ev = (case ev of None \<Rightarrow> [] | Some e \<Rightarrow> [e])"

inductive chan_run :: "Config \<Rightarrow> ChannelState \<Rightarrow> (Command \<times> u64) list \<Rightarrow> ChannelState \<Rightarrow> bool" for cfg cs0 where
  start: "chan_run cfg cs0 [] cs0"
| step: "chan_run cfg cs0 tr c1 \<Longrightarrow> chan_step cfg c1 ev c2 \<Longrightarrow> chan_run cfg cs0 (tr @ event_list ev) c2"

definition keeps_distance :: "Config \<Rightarrow> Command \<times> u64 \<Rightarrow> Command \<times> u64 \<Rightarrow> bool" where
  "keeps_distance cfg e1 e2 \<longleftrightarrow> (\<forall>p\<in>positions cfg. checked (fst e2) p \<longrightarrow>
     (\<forall>d. (cmd_type (fst e2), d) \<in> set (imposed cfg (fst e1) p) \<longrightarrow> snd e1 + word_of_int d \<le> snd e2))"

text \<open>What a step does to timing and windows.\<close>

definition issues :: "Config \<Rightarrow> ChannelState \<Rightarrow> Command \<Rightarrow> u64 \<Rightarrow> ChannelState \<Rightarrow> bool" where
  "issues cfg cs cmd clk cs' \<longleftrightarrow> ready_ok cfg cs cmd clk \<and> imposes cfg cmd clk cs cs' \<and>
     (if cmd_type cmd = ACTIVATE then entered cfg cmd clk cs cs' else four_aw cs' = four_aw cs)"

lemma issue_effect:
  assumes t: "timed cfg cs" and r: "ready_ok cfg cs cmd clk" and s: "same_time cfg cs c1"
    and u: "UpdateTimingAndStates cfg cmd clk c1 = Inr c3"
  shows "issues cfg cs cmd clk c3"
proof -
  obtain c2 where c2: "UpdateState cfg cmd clk c1 = Inr c2" "UpdateTiming cfg cmd clk c2 = Inr c3"
    using u by (auto simp: UpdateTimingAndStates_def bindE_Inr_iff)
  have s2: "same_time cfg cs c2" by (rule vE_D [OF UpdateState_same [OF s] c2(1)])
  have "imposes cfg cmd clk c2 c3"
    by (rule vE_D [OF UpdateTiming_imposes c2(2)]) (use same_timed [OF s2 t] r in \<open>auto simp: ready_ok_def\<close>)
  then have "imposes cfg cmd clk cs c3" by (rule imposes_after_same [OF t s2])
  moreover have "four_aw c2 = four_aw cs" using s2 by (simp add: same_time_def)
  ultimately show ?thesis
    using vE_D [OF UpdateTiming_windows c2(2)] r by (simp add: issues_def entered_def split: if_splits)
qed

lemma chan_step_effect:
  assumes "chan_step cfg cs ev cs'" "timed cfg cs" "geometry_ok cfg"
  shows "case ev of None \<Rightarrow> same_time cfg cs cs' | Some (cmd, clk) \<Rightarrow> issues cfg cs cmd clk cs'"
  using assms
proof (induction rule: chan_step.induct)
  case (issue req clk cs cmd c1 e c2)
  have "same_time cfg cs (c1\<lparr>c_env := e\<rparr>)" using vE_D [OF GetReadyCommand_same [OF same_time_refl] issue(1)] by simp
  moreover have "ready_ok cfg cs cmd clk"
    by (rule GetReadyCommand_ready_ok [OF _ issue(5) issue(1,2)]) (use issue(4) in \<open>simp add: timed_def\<close>)
  ultimately show ?case using issue_effect [OF issue(4) _ _ issue(3)] by simp
next
  case (issue_hydra clk cs cmd c1 e c2)
  have "same_time cfg cs (c1\<lparr>c_env := e\<rparr>)" using vE_D [OF GetReadyHydraCommand_same [OF same_time_refl] issue_hydra(1)] by simp
  moreover have "ready_ok cfg cs cmd clk"
    by (rule GetReadyHydraCommand_ready_ok [OF _ issue_hydra(1-4)]) (use issue_hydra(6) in \<open>simp add: timed_def\<close>)
  ultimately show ?case using issue_effect [OF issue_hydra(6) _ _ issue_hydra(5)] by simp
next
  case (ask req clk cs cmd c1)
  then show ?case using vE_D [OF GetReadyCommand_same [OF same_time_refl] ask(1)] by simp
next
  case (ask_hydra clk cs cmd c1)
  then show ?case using vE_D [OF GetReadyHydraCommand_same [OF same_time_refl] ask_hydra(1)] by simp
next
  case (tick clk cs c1)
  then show ?case using vE_D [OF channel_ClockTick_same [OF same_time_refl] tick(1)] by simp
qed simp_all

text \<open>Every distance imposed so far is a lower bound of the earliest times.\<close>

definition bounded :: "Config \<Rightarrow> (Command \<times> u64) list \<Rightarrow> ChannelState \<Rightarrow> bool" where
  "bounded cfg tr cs \<longleftrightarrow> (\<forall>e\<in>set tr. \<forall>p\<in>positions cfg. \<forall>(ct, d)\<in>set (imposed cfg (fst e) p).
     snd e + word_of_int d \<le> cmd_timing (the_bank cs p) ! cmd_index ct)"

lemma bounded_same: "same_time cfg cs cs' \<Longrightarrow> timed cfg cs \<Longrightarrow> bounded cfg tr cs \<Longrightarrow> bounded cfg tr cs'"
  by (auto simp: bounded_def same_time_def timed_def)

lemma imposes_mono:
  assumes "timed cfg cs" "imposes cfg cmd clk cs cs'" "p \<in> positions cfg" "ct \<noteq> SIZE"
  shows "cmd_timing (the_bank cs p) ! cmd_index ct \<le> cmd_timing (the_bank cs' p) ! cmd_index ct"
    "(ct, d) \<in> set (imposed cfg cmd p) \<Longrightarrow> clk + word_of_int d \<le> cmd_timing (the_bank cs' p) ! cmd_index ct"
  using assms time_list_ge [OF imposed_valid [of cfg cmd p] _ assms(4), of "the_bank cs p", where clk = clk]
  by (auto simp: imposes_def timed_def)

lemma bounded_imposes:
  assumes t: "timed cfg cs" and i: "imposes cfg cmd clk cs cs'" and b: "bounded cfg tr cs"
  shows "bounded cfg (tr @ [(cmd, clk)]) cs'"
  unfolding bounded_def
proof (intro ballI, clarify)
  fix c t p q r ct d
  assume e: "(c, t) \<in> set (tr @ [(cmd, clk)])" and p: "(p, q, r) \<in> positions cfg"
    and d: "(ct, d) \<in> set (imposed cfg (fst (c, t)) (p, q, r))"
  have ct: "ct \<noteq> SIZE" using imposed_valid [of cfg c "(p, q, r)"] d by auto
  note m = imposes_mono [OF t i p ct]
  show "snd (c, t) + word_of_int d \<le> cmd_timing (the_bank cs' (p, q, r)) ! cmd_index ct"
  proof (cases "(c, t) \<in> set tr")
    case True
    with b p d have "t + word_of_int d \<le> cmd_timing (the_bank cs (p, q, r)) ! cmd_index ct"
      by (fastforce simp: bounded_def)
    with m(1) show ?thesis by auto
  next
    case False
    with e d m(2) [of d] show ?thesis by auto
  qed
qed

lemma chan_run_respects:
  assumes "chan_run cfg cs0 tr cs" "timed cfg cs0" "geometry_ok cfg"
  shows "timed cfg cs \<and> bounded cfg tr cs \<and> sorted_wrt (keeps_distance cfg) tr"
  using assms
proof (induction rule: chan_run.induct)
  case start
  then show ?case by (simp add: bounded_def)
next
  case (step tr c1 ev c2)
  then have IH: "timed cfg c1" "bounded cfg tr c1" "sorted_wrt (keeps_distance cfg) tr" by auto
  note eff = chan_step_effect [OF step(2) IH(1) step.prems(2)]
  show ?case
  proof (cases ev)
    case None
    with eff IH show ?thesis by (simp add: event_list_def bounded_same same_timed)
  next
    case (Some e)
    obtain cmd clk where e: "e = (cmd, clk)" by force
    have iss: "ready_ok cfg c1 cmd clk" "imposes cfg cmd clk c1 c2" using eff Some e by (auto simp: issues_def)
    have "keeps_distance cfg x (cmd, clk)" if "x \<in> set tr" for x
      using IH(2) iss(1) that unfolding keeps_distance_def bounded_def ready_ok_def by (fastforce intro: order.trans)
    with IH iss bounded_imposes [OF IH(1) iss(2) IH(2)] show ?thesis
      by (simp add: Some e event_list_def sorted_wrt_append) (simp add: imposes_def)
  qed
qed

text \<open>The times of the activations of a rank.\<close>

definition acts :: "int \<Rightarrow> (Command \<times> u64) list \<Rightarrow> u64 list" where
  "acts r tr = map snd (filter (\<lambda>e. cmd_type (fst e) = ACTIVATE \<and> Rank (fst e) = r) tr)"

definition clocks_ok :: "Config \<Rightarrow> (Command \<times> u64) list \<Rightarrow> bool" where
  "clocks_ok cfg tr \<longleftrightarrow> sorted (map snd tr) \<and> (\<forall>e\<in>set tr. unat (snd e) + nat (tFAW cfg) < 2 ^ 64)"

lemma window_ok_ready:
  "ActivationWindowOk cfg cs r clk = Inr True \<Longrightarrow> window_ready 4 (four_aw cs ! nat r) clk"
  by (auto simp: ActivationWindowOk_def IsFAWReady_def bindE_Inr_iff vget_Inr_iff split: if_splits)

lemma chan_run_windows:
  assumes "chan_run cfg cs0 tr cs" "timed cfg cs0" "geometry_ok cfg" "0 \<le> tFAW cfg"
    and "\<forall>w\<in>set (four_aw cs0). w = []" "clocks_ok cfg tr"
  shows "\<forall>r. inrange r (four_aw cs) \<longrightarrow> window_inv 4 (tFAW cfg) (acts r tr) (four_aw cs ! nat r)"
  using assms
proof (induction rule: chan_run.induct)
  case start
  then have "inrange r (four_aw cs0) \<Longrightarrow> four_aw cs0 ! nat r = []" for r by (auto simp: inrange_def nat_less_iff)
  then show ?case by (simp add: window_inv_def acts_def)
next
  case (step tr c1 ev c2)
  then have ck: "clocks_ok cfg tr" by (auto simp: clocks_ok_def sorted_append)
  then have IH: "inrange r (four_aw c1) \<Longrightarrow> window_inv 4 (tFAW cfg) (acts r tr) (four_aw c1 ! nat r)" for r
    using step by blast
  have "timed cfg c1" using chan_run_respects [OF step(1)] step.prems by blast
  note eff = chan_step_effect [OF step(2) this step.prems(2)]
  show ?case
  proof (cases "\<exists>cmd clk. ev = Some (cmd, clk) \<and> cmd_type cmd = ACTIVATE")
    case False
    then have "four_aw c2 = four_aw c1" "acts r (tr @ event_list ev) = acts r tr" for r
      using eff by (auto simp: same_time_def issues_def acts_def event_list_def split: option.splits)
    with IH show ?thesis by simp
  next
    case True
    then obtain cmd clk where ev: "ev = Some (cmd, clk)" and a: "cmd_type cmd = ACTIVATE" by blast
    have en: "entered cfg cmd clk c1 c2" and ok: "ActivationWindowOk cfg c1 (Rank cmd) clk = Inr True"
      using eff ev a by (auto simp: issues_def ready_ok_def)
    have tr: "acts r (tr @ event_list ev) = acts r tr @ (if r = Rank cmd then [clk] else [])" for r
      using a by (auto simp: acts_def ev event_list_def)
    have set: "\<forall>s\<in>set (acts r tr). s \<le> clk \<and> unat s + nat (tFAW cfg) < 2 ^ 64" for r
      using step.prems(5) by (auto simp: acts_def clocks_ok_def ev event_list_def sorted_append)
    have "window_inv 4 (tFAW cfg) (acts (Rank cmd) tr @ [clk]) (window_add clk (tFAW cfg) (four_aw c1 ! nat (Rank cmd)))"
      using IH [of "Rank cmd"] en window_ok_ready [OF ok] set step.prems(3)
      by (intro window_step) (auto simp: entered_def)
    then show ?thesis
      using IH en unfolding tr by (auto simp: entered_def inrange_def nth_list_update)
  qed
qed

section \<open>A scripted run\<close>

text \<open>A channel with the four banks of \<open>tiny_cfg\<close>, and the run that answers a list of requests.\<close>

definition tiny_chan :: ChannelState where
  "tiny_chan = \<lparr>c_env = tiny_env, rank_idle_cycles = [0], hydra_wb_draining = False, c_channel = 0,
     last_bus_access_time = 0, bursty_access_count = 0, rank_is_sref = [False],
     bank_states = [[[tiny_bank, tiny_bank], [tiny_bank, tiny_bank]]],
     refresh_q = [], rfm_q = [], hydra_rd_q = [], hydra_wb_q = [], c_ref_idx = 0, c_fgr_counter = 0,
     four_aw = [[]], thirty_two_aw = [[]],
     alert_n = False, last_alert_clk = 0, alert_rank = -1, num_acts_abo = 0,
     dream_resets_stat = [], tusc = replicate 16 0, tusc_prev = replicate 16 0, random_masks = [0, 0, 0, 0],
     tusc_size = 16, tusc_q = [],
     cactus_resets_stat = [], cactus = replicate 16 0, cactus_prev = replicate 16 0,
     cactus_row_perms = [], cactus_inv_row_perms = [],
     cactus_size = 16, cactus_pending_counter_idx = [-1], cactus_alert_pending = [False],
     cactus_last_alert_clk = [0], cactus_rfm_inflight = [False], cactus_acts_since_rfm = [0],
     cactus_tref_refab_count = [0], cactus_tref_max_counter_idx = [-1],
     abacus_table = [], abacus_q = [], abacus_entries = 0, abacus_resets_stat = []\<rparr>"

fun issue_all :: "Config \<Rightarrow> (Command \<times> u64) list \<Rightarrow> ChannelState \<Rightarrow> ((Command \<times> u64) list \<times> ChannelState) res" where
  "issue_all cfg [] cs = Inr ([], cs)"
| "issue_all cfg ((req, clk) # reqs) cs =
     bindE (GetReadyCommand cfg req clk cs) (\<lambda>(cmd, c1).
     bindE (checkE AssertFailed (IsValid cmd)) (\<lambda>_.
     bindE (UpdateTimingAndStates cfg cmd clk c1) (\<lambda>c2.
     bindE (issue_all cfg reqs c2) (\<lambda>(tr, c3). Inr ((cmd, clk) # tr, c3)))))"

lemma chan_run_append: "chan_run cfg c1 tr2 c2 \<Longrightarrow> chan_run cfg c0 tr1 c1 \<Longrightarrow> chan_run cfg c0 (tr1 @ tr2) c2"
proof (induction rule: chan_run.induct)
  case (step tr c1 ev c2)
  then show ?case using chan_run.step [of cfg c0 "tr1 @ tr" c1 ev c2] by simp
qed simp

lemma issue_all_run: "issue_all cfg reqs cs = Inr (tr, cs') \<Longrightarrow> chan_run cfg cs tr cs'"
proof (induction cfg reqs cs arbitrary: tr rule: issue_all.induct)
  case (1 cfg cs)
  then show ?case by (simp add: chan_run.start)
next
  case (2 cfg req clk reqs cs)
  then obtain cmd c1 c2 tr' where g: "GetReadyCommand cfg req clk cs = Inr (cmd, c1)" "IsValid cmd"
    "UpdateTimingAndStates cfg cmd clk c1 = Inr c2" and r: "issue_all cfg reqs c2 = Inr (tr', cs')" "tr = (cmd, clk) # tr'"
    by (auto simp: bindE_Inr_iff)
  have "chan_run cfg cs [(cmd, clk)] c2"
    using chan_run.step [OF chan_run.start chan_step.issue [OF g(1,2), of "c_env c1" c2]] g(3) by (simp add: event_list_def)
  from chan_run_append [OF "2.IH" [OF g(1) refl _ g(3) r(1)] this] g(2) r(2) show ?case by simp
qed

lemma tiny_chan_ok: "timed tiny_cfg tiny_chan" "geometry_ok tiny_cfg" "four_aw tiny_chan = [[]]"
proof -
  have "p \<in> positions tiny_cfg \<Longrightarrow> the_bank tiny_chan p = tiny_bank" for p
    by (auto simp: positions_def the_bank_def tiny_chan_def nth_Cons' split: prod.splits)
  then show "timed tiny_cfg tiny_chan"
    by (simp add: timed_def chan_shape_def) (simp add: tiny_chan_def tiny_bank_def)
qed (simp_all add: geometry_ok_def tiny_chan_def)

definition req_at :: "CommandType \<Rightarrow> int \<Rightarrow> int \<Rightarrow> int \<Rightarrow> Command" where
  "req_at ct bg ba row = mk_Command ct (mk_Address 0 0 bg ba row 0) 0"

lemma tiny_read_run:
  "okE (issue_all tiny_cfg [(req_at READ 0 0 3, 5), (req_at READ 0 0 3, 44)] tiny_chan) (\<lambda>(tr, cs).
     tr = [(req_at ACTIVATE 0 0 3, 5), (req_at READ 0 0 3, 44)])"
  by code_simp

lemma tiny_act_run:
  "okE (issue_all tiny_cfg [(req_at READ 0 0 3, 5), (req_at READ 1 0 3, 13), (req_at READ 0 1 3, 21),
      (req_at READ 1 1 3, 29), (req_at READ 0 0 4, 82), (req_at READ 0 0 4, 121)] tiny_chan) (\<lambda>(tr, cs).
     tr = [(req_at ACTIVATE 0 0 3, 5), (req_at ACTIVATE 1 0 3, 13), (req_at ACTIVATE 0 1 3, 21),
       (req_at ACTIVATE 1 1 3, 29), (req_at PRECHARGE 0 0 4, 82), (req_at ACTIVATE 0 0 4, 121)] \<and> length (four_aw cs) = 1)"
  by code_simp

section \<open>The protocol theorems\<close>

text \<open>
  Timing safety of a channel: in every run, every command that is issued comes at or after the
  earliest time that each earlier command of the run imposes on it, for every bank the readiness
  of the command was checked on (its own bank; all banks of the rank or bank set for refresh, RFM
  and DRFM commands), whatever refreshes, alerts and tracker operations happen in between.
\<close>

theorem issued_commands_respect_timing:
  assumes "chan_run cfg cs0 tr cs" "timed cfg cs0" "geometry_ok cfg"
    and "i < j" "j < length tr" "p \<in> positions cfg" "checked (fst (tr ! j)) p"
    and "(cmd_type (fst (tr ! j)), d) \<in> set (imposed cfg (fst (tr ! i)) p)"
  shows "snd (tr ! i) + word_of_int d \<le> snd (tr ! j)"
proof -
  have "sorted_wrt (keeps_distance cfg) tr" using chan_run_respects [OF assms(1-3)] by blast
  then have "keeps_distance cfg (tr ! i) (tr ! j)" using assms(4,5) by (rule sorted_wrt_nth_less)
  then show ?thesis using assms(6-8) by (auto simp: keeps_distance_def)
qed

theorem issued_commands_respect_timing_witness:
  "okE (issue_all tiny_cfg [(req_at READ 0 0 3, 5), (req_at READ 0 0 3, 44)] tiny_chan) (\<lambda>(tr, cs).
     chan_run tiny_cfg tiny_chan tr cs \<and> cmd_type (fst (tr ! 1)) = READ \<and>
     (READ, 39) \<in> set (imposed tiny_cfg (fst (tr ! 0)) (0, 0, 0)) \<and> snd (tr ! 0) + 39 \<le> snd (tr ! 1))"
proof (rule okE_mono [OF tiny_read_run], clarify)
  fix cs
  let ?tr = "[(req_at ACTIVATE 0 0 3, 5), (req_at READ 0 0 3, 44)] :: (Command \<times> u64) list"
  assume r: "issue_all tiny_cfg [(req_at READ 0 0 3, 5), (req_at READ 0 0 3, 44)] tiny_chan = Inr (?tr, cs)"
  note run = issue_all_run [OF this]
  have p: "(0, 0, 0) \<in> positions tiny_cfg" "checked (fst (?tr ! 1)) (0, 0, 0)"
    by (simp_all add: positions_def checked_def req_at_def cmd_fields)
  have imp: "(cmd_type (fst (?tr ! 1)), 39) \<in> set (imposed tiny_cfg (fst (?tr ! 0)) (0, 0, 0))"
    by (simp add: imposed_def bank_scope_def req_at_def rw_entries_def activate_to_read_def IsGDDR_def IsHBM_def)
  show "chan_run tiny_cfg tiny_chan ?tr cs \<and> cmd_type (fst (?tr ! 1)) = READ \<and>
     (READ, 39) \<in> set (imposed tiny_cfg (fst (?tr ! 0)) (0, 0, 0)) \<and> snd (?tr ! 0) + 39 \<le> snd (?tr ! 1)"
    using issued_commands_respect_timing [OF run tiny_chan_ok(1,2), of 0 1, OF _ _ p imp] run imp by (simp add: req_at_def)
qed

text \<open>
  The four-activation window: in every run that starts with empty windows and whose clocks do not
  decrease (and stay below the range of the clock), any two activations of a rank that are four
  activations apart are at least tFAW cycles apart.
\<close>

theorem four_activation_window:
  assumes "chan_run cfg cs0 tr cs" "timed cfg cs0" "geometry_ok cfg" "0 \<le> tFAW cfg"
    and "\<forall>w\<in>set (four_aw cs0). w = []" "clocks_ok cfg tr"
    and "inrange r (four_aw cs)" "i + 4 < length (acts r tr)"
  shows "unat (acts r tr ! i) + nat (tFAW cfg) \<le> unat (acts r tr ! (i + 4))"
  using chan_run_windows [OF assms(1-6)] assms(7,8) by (auto simp: window_inv_def)

theorem four_activation_window_witness:
  "okE (issue_all tiny_cfg [(req_at READ 0 0 3, 5), (req_at READ 1 0 3, 13), (req_at READ 0 1 3, 21),
      (req_at READ 1 1 3, 29), (req_at READ 0 0 4, 82), (req_at READ 0 0 4, 121)] tiny_chan) (\<lambda>(tr, cs).
     chan_run tiny_cfg tiny_chan tr cs \<and> acts 0 tr = [5, 13, 21, 29, 121] \<and>
     unat (acts 0 tr ! 0) + 32 \<le> unat (acts 0 tr ! 4))"
proof (rule okE_mono [OF tiny_act_run], clarify)
  fix cs
  let ?tr = "[(req_at ACTIVATE 0 0 3, 5), (req_at ACTIVATE 1 0 3, 13), (req_at ACTIVATE 0 1 3, 21),
       (req_at ACTIVATE 1 1 3, 29), (req_at PRECHARGE 0 0 4, 82), (req_at ACTIVATE 0 0 4, 121)] :: (Command \<times> u64) list"
  assume r: "issue_all tiny_cfg [(req_at READ 0 0 3, 5), (req_at READ 1 0 3, 13), (req_at READ 0 1 3, 21),
      (req_at READ 1 1 3, 29), (req_at READ 0 0 4, 82), (req_at READ 0 0 4, 121)] tiny_chan = Inr (?tr, cs)"
    and l: "length (four_aw cs) = 1"
  note run = issue_all_run [OF r]
  have a: "acts 0 ?tr = [5, 13, 21, 29, 121]" by (simp add: acts_def req_at_def cmd_fields)
  have ck: "clocks_ok tiny_cfg ?tr" by (simp add: clocks_ok_def)
  have "unat (acts 0 ?tr ! 0) + nat (tFAW tiny_cfg) \<le> unat (acts 0 ?tr ! (0 + 4))"
    by (rule four_activation_window [OF run tiny_chan_ok(1,2) _ _ ck])
      (simp_all add: tiny_chan_ok l a inrange_def)
  with run a show "chan_run tiny_cfg tiny_chan ?tr cs \<and> acts 0 ?tr = [5, 13, 21, 29, 121] \<and>
     unat (acts 0 ?tr ! 0) + 32 \<le> unat (acts 0 ?tr ! 4)" by simp
qed

section \<open>Where the timing table and its use differ\<close>



end
