(* ===== verification/Channel_Init.thy ===== *)
theory Channel_Init
  imports Channel_Run
begin

text \<open>
  The constructors of the bank and the channel state establish the invariants of the other
  theories: for the configurations they are meant for they raise no error, and the banks they make
  are well-formed, closed and free of timing constraints.
\<close>

section \<open>Banks\<close>

text \<open>At most one tracker is switched on, and its table has entries.\<close>

definition tracker_cfg_ok :: "Config \<Rightarrow> bool" where
  "tracker_cfg_ok cfg \<longleftrightarrow>
     (graphene_mode cfg = 1 \<longrightarrow> tRAS cfg + tRP cfg \<noteq> 0 \<and> (word_of_int (graphene_th cfg) :: u64) \<noteq> 0) \<and>
     (hydra_mode cfg \<noteq> 0 \<longrightarrow> hydra_mode cfg = 1 \<and> 0 < hydra_gct_size cfg \<and>
        dream_mode cfg \<noteq> 1 \<and> mint_mode cfg \<noteq> 1 \<and> para_mode cfg \<noteq> 1 \<and> graphene_mode cfg \<noteq> 1) \<and>
     (moat_mode cfg \<noteq> 0 \<longrightarrow> moat_mode cfg = 1 \<and> hydra_mode cfg \<noteq> 1 \<and>
        dream_mode cfg \<noteq> 1 \<and> mint_mode cfg \<noteq> 1 \<and> para_mode cfg \<noteq> 1 \<and> graphene_mode cfg \<noteq> 1)"

definition fresh_bank :: "Config \<Rightarrow> BankState \<Rightarrow> bool" where
  "fresh_bank cfg b \<longleftrightarrow> bank_wf cfg b \<and> b_state b = CLOSED \<and> cmd_timing b = replicate 18 0"

lemma InitHistoStat_ok: "0 \<le> a \<Longrightarrow> a \<le> b \<Longrightarrow> 0 < n \<Longrightarrow> okE (InitHistoStat st nm a b n) (\<lambda>_. True)"
  by (simp add: InitHistoStat_def)

lemma mk_BankState_ok:
  assumes "0 < rows cfg" "tracker_cfg_ok cfg"
  shows "okE (mk_BankState cfg b0 i j k e) (\<lambda>(b, e). fresh_bank cfg b)"
proof -
  have h: "okE (InitHistoStat st ''acts_per_row_per_trefw'' 0 65 65) (\<lambda>_. True)" for st
    by (rule InitHistoStat_ok) simp_all
  have r: "vec_of (rows cfg) 0 = Inr (replicate (nat (rows cfg)) 0)" using assms(1) by (simp add: vec_of_ok)
  show ?thesis
    unfolding mk_BankState_def r bindE_simps Let_def okE_bindE
    by (rule okE_mono [OF h])
      (use assms in \<open>auto simp: okE_bindE tracker_cfg_ok_def fresh_bank_def bank_wf_def vec_of_ok idiv_def\<close>)
qed

section \<open>The array of banks\<close>

lemma forE_append:
  fixes f :: "int \<Rightarrow> 'e \<Rightarrow> ('x \<times> 'e) res"
  assumes "\<And>i e. 0 \<le> i \<Longrightarrow> i < n \<Longrightarrow> okE (f i e) (\<lambda>(x, e). P x)"
  shows "okE (forE n (\<lambda>i (xs, e). bindE (f i e) (\<lambda>(x, e). Inr (xs @ [x], e))) ([], e))
    (\<lambda>(xs, e). length xs = nat n \<and> (\<forall>x\<in>set xs. P x))"
proof (rule forE_inv [where I = "\<lambda>i (xs, e). length xs = nat i \<and> (\<forall>x\<in>set xs. P x)"])
  fix i and s :: "'x list \<times> 'e"
  assume i: "0 \<le> i" "i < n" and s: "case s of (xs, e) \<Rightarrow> length xs = nat i \<and> (\<forall>x\<in>set xs. P x)"
  obtain xs e where s': "s = (xs, e)" by (cases s)
  have "okE (bindE (f i e) (\<lambda>(x, e). Inr (xs @ [x], e))) (\<lambda>(xs, e). length xs = nat (i + 1) \<and> (\<forall>x\<in>set xs. P x))"
    unfolding okE_bindE using i s s' by (intro okE_mono [OF assms [OF i]]) (auto simp: nat_add_distrib)
  then show "okE (case s of (xs, e) \<Rightarrow> bindE (f i e) (\<lambda>(x, e). Inr (xs @ [x], e)))
      (\<lambda>(xs, e). length xs = nat (i + 1) \<and> (\<forall>x\<in>set xs. P x))"
    by (simp add: s')
qed auto

definition fresh_banks :: "Config \<Rightarrow> BankState list list list \<Rightarrow> bool" where
  "fresh_banks cfg bss \<longleftrightarrow> length bss = nat (ranks cfg) \<and>
     (\<forall>rs\<in>set bss. length rs = nat (bankgroups cfg) \<and>
       (\<forall>bs\<in>set rs. length bs = nat (banks_per_group cfg) \<and> (\<forall>b\<in>set bs. fresh_bank cfg b)))"

lemma mk_banks_ok:
  assumes "0 < rows cfg" "tracker_cfg_ok cfg"
  shows "okE (mk_banks cfg b0 e) (\<lambda>(bss, e). fresh_banks cfg bss)"
  unfolding mk_banks_def mk_banks_of_group_def fresh_banks_def
  by (intro forE_append mk_BankState_ok assms)

lemma fresh_banks_at:
  assumes "fresh_banks cfg (bank_states cs)"
  shows "chan_shape cfg cs" "p \<in> positions cfg \<Longrightarrow> fresh_bank cfg (the_bank cs p)"
proof -
  show "chan_shape cfg cs" using assms by (auto simp: fresh_banks_def chan_shape_def)
  assume p: "p \<in> positions cfg"
  then obtain i j k where i: "p = (i, j, k)" "nat i < nat (ranks cfg)" "nat j < nat (bankgroups cfg)" "nat k < nat (banks_per_group cfg)"
    by (cases p) (auto simp: positions_def)
  then have "bank_states cs ! nat i \<in> set (bank_states cs)" using assms by (auto simp: fresh_banks_def)
  moreover from this i have "bank_states cs ! nat i ! nat j \<in> set (bank_states cs ! nat i)" using assms by (auto simp: fresh_banks_def)
  moreover from calculation have "length (bank_states cs ! nat i ! nat j) = nat (banks_per_group cfg)"
    using assms by (simp add: fresh_banks_def)
  then have "the_bank cs p \<in> set (bank_states cs ! nat i ! nat j)" using i by (simp add: the_bank_def)
  ultimately show "fresh_bank cfg (the_bank cs p)" using assms by (auto simp: fresh_banks_def)
qed

section \<open>Draws and tables\<close>

lemma mk_random_masks_ok:
  assumes "sz \<noteq> 0"
  shows "okE (mk_random_masks cfg sz e) (\<lambda>(ms, e).
    length ms = nat (uint (word_of_int (ranks cfg * bankgroups cfg * banks_per_group cfg * dream_k cfg) :: u32)) \<and>
    (\<forall>m\<in>set ms. m < sz))"
proof -
  have lt: "x mod sz < sz" for x using assms by (simp add: word_less_def uint_mod word_neq_0_conv)
  show ?thesis
    unfolding mk_random_masks_def
    by (rule forE_inv [where I = "\<lambda>i (ms, e). length ms = nat i \<and> (\<forall>m\<in>set ms. m < sz)"])
      (use assms lt in \<open>auto split: prod.splits simp: nat_add_distrib\<close>)
qed

lemma uint_small: "0 \<le> x \<Longrightarrow> x < 2 ^ 31 \<Longrightarrow> uint (word_of_int x :: u32) = x"
  by (simp add: uint_word_of_int take_bit_int_eq_self)

end
