(* ===== verification/Channel_Index.thy ===== *)
theory Channel_Index
  imports Channel_Init
begin

unbundle bit_operations_syntax

text \<open>
  The index maps between rows and shared counters. DREAM and CACTUS both count several rows in one
  counter and, when the counter is hot, mitigate the rows it stands for; \<open>counter_map\<close> is the
  contract that makes this sound: the row that was counted is one of the rows the counter is
  mapped back to. It is discharged for the three policies of DREAM and the two of CACTUS, the
  random one for the permutations that the constructor draws.
\<close>

locale counter_map =
  fixes good :: "'b \<Rightarrow> bool"
    and row_in :: "'b \<Rightarrow> 'r \<Rightarrow> bool"
    and counter_of :: "'b \<Rightarrow> 'r \<Rightarrow> 'c res"
    and rows_of :: "'b \<Rightarrow> 'c \<Rightarrow> 'r res list"
    and ctr_in :: "'b \<Rightarrow> 'c \<Rightarrow> bool"
  assumes counter_total: "good b \<Longrightarrow> row_in b r \<Longrightarrow> okE (counter_of b r) (ctr_in b)"
    and counter_covers: "good b \<Longrightarrow> row_in b r \<Longrightarrow> counter_of b r = Inr c \<Longrightarrow> Inr r \<in> set (rows_of b c)"
begin

text \<open>The rows that share a counter are among the rows it is mapped back to, so there are not more of them.\<close>

lemma sharing_bounded:
  assumes "good b" "finite R" "\<forall>r\<in>R. row_in b r \<and> counter_of b r = Inr c"
  shows "card R \<le> length (rows_of b c)"
proof -
  have "Inr ` R \<subseteq> set (rows_of b c)" using assms counter_covers by auto
  then have "card (Inr ` R :: 'r res set) \<le> card (set (rows_of b c))" by (intro card_mono) auto
  moreover have "card (Inr ` R :: 'r res set) = card R" by (rule card_image) auto
  ultimately show ?thesis using card_length [of "rows_of b c"] by linarith
qed

text \<open>Hence counting in the counter of each row of a group reaches every row of the group.\<close>

lemma mitigation_covers:
  assumes "good b" "row_in b r"
  shows "okE (counter_of b r) (\<lambda>c. ctr_in b c \<and> Inr r \<in> set (rows_of b c))"
  using counter_total [OF assms] counter_covers [OF assms] by (auto simp: okE_iff)

end

section \<open>Indices of banks\<close>

definition total :: "Config \<Rightarrow> int" where
  "total cfg = ranks cfg * bankgroups cfg * banks_per_group cfg"

definition bidx :: "Config \<Rightarrow> pos \<Rightarrow> int" where
  "bidx cfg = (\<lambda>(i, j, k). (i * bankgroups cfg + j) * banks_per_group cfg + k)"

text \<open>All tables fit into the positive range of \<open>int\<close>.\<close>

definition index_ok :: "Config \<Rightarrow> bool" where
  "index_ok cfg \<longleftrightarrow> geometry_ok cfg \<and> 0 < rows cfg \<and> total cfg * rows cfg < 2 ^ 31"

lemma bidx_less:
  assumes "p \<in> positions cfg"
  shows "0 \<le> bidx cfg p" "bidx cfg p < total cfg"
proof -
  obtain i j k where p: "p = (i, j, k)" by (cases p)
  have b: "0 \<le> i" "i < ranks cfg" "0 \<le> j" "j < bankgroups cfg" "0 \<le> k" "k < banks_per_group cfg"
    using assms by (auto simp: p positions_def)
  show "0 \<le> bidx cfg p" using b by (simp add: p bidx_def)
  have "i * bankgroups cfg + j + 1 \<le> ranks cfg * bankgroups cfg"
    using b mult_right_mono [of "i + 1" "ranks cfg" "bankgroups cfg"] by (simp add: algebra_simps)
  then have "(i * bankgroups cfg + j + 1) * banks_per_group cfg \<le> total cfg"
    using b unfolding total_def by (intro mult_right_mono) auto
  then show "bidx cfg p < total cfg" using b by (simp add: p bidx_def algebra_simps)
qed

lemma index_bounds:
  assumes "index_ok cfg"
  shows "0 < total cfg" "total cfg < 2 ^ 31" "0 < rows cfg" "rows cfg < 2 ^ 31" "ranks cfg * rows cfg < 2 ^ 31"
    "\<lbrakk>0 \<le> b; b < total cfg; 0 \<le> r; r < rows cfg\<rbrakk> \<Longrightarrow> b * rows cfg + r < total cfg * rows cfg"
    "\<lbrakk>0 \<le> i; i < ranks cfg; 0 \<le> r; r < rows cfg\<rbrakk> \<Longrightarrow> i * rows cfg + r < ranks cfg * rows cfg"
proof -
  have g: "0 < ranks cfg" "0 < bankgroups cfg" "0 < banks_per_group cfg" "0 < rows cfg" "total cfg * rows cfg < 2 ^ 31"
    using assms by (auto simp: index_ok_def geometry_ok_def)
  show t: "0 < total cfg" using g by (simp add: total_def)
  show "0 < rows cfg" by (rule g)
  show "total cfg < 2 ^ 31" using g(5) mult_left_mono [of 1 "rows cfg" "total cfg"] g(4) t by linarith
  show "rows cfg < 2 ^ 31" using g(5) mult_right_mono [of 1 "total cfg" "rows cfg"] g(4) t by linarith
  have "1 \<le> bankgroups cfg * banks_per_group cfg" using mult_pos_pos [OF g(2,3)] by linarith
  then have "ranks cfg \<le> total cfg"
    using mult_left_mono [of 1 "bankgroups cfg * banks_per_group cfg" "ranks cfg"] g(1) by (simp add: total_def mult.assoc)
  then show "ranks cfg * rows cfg < 2 ^ 31" using mult_right_mono [of "ranks cfg" "total cfg" "rows cfg"] g(4,5) by linarith
  show "b * rows cfg + r < total cfg * rows cfg" if "0 \<le> b" "b < total cfg" "0 \<le> r" "r < rows cfg"
    using mult_right_mono [of "b + 1" "total cfg" "rows cfg"] that by (simp add: algebra_simps)
  show "i * rows cfg + r < ranks cfg * rows cfg" if "0 \<le> i" "i < ranks cfg" "0 \<le> r" "r < rows cfg"
    using mult_right_mono [of "i + 1" "ranks cfg" "rows cfg"] that by (simp add: algebra_simps)
qed

lemma bank_idx_word:
  "bank_idx cfg (word_of_int i) (word_of_int j) (word_of_int k) = word_of_int (bidx cfg (i, j, k))"
  "get_cactus_bank_idx cfg (word_of_int i) (word_of_int j) (word_of_int k) = word_of_int (bidx cfg (i, j, k))"
  by (simp_all add: bank_idx_def get_cactus_bank_idx_def bidx_def algebra_simps)

lemma bank_idx_uint:
  assumes "index_ok cfg" "(i, j, k) \<in> positions cfg"
  shows "uint (bank_idx cfg (word_of_int i) (word_of_int j) (word_of_int k)) = bidx cfg (i, j, k)"
    "uint (get_cactus_bank_idx cfg (word_of_int i) (word_of_int j) (word_of_int k)) = bidx cfg (i, j, k)"
  using bidx_less [OF assms(2)] index_bounds(2) [OF assms(1)] by (simp_all add: bank_idx_word uint_small)

section \<open>The row permutations\<close>

text \<open>Slice \<open>b\<close> of the two tables: a permutation of the rows and its inverse.\<close>

definition slice_inverse :: "Config \<Rightarrow> u32 list \<Rightarrow> u32 list \<Rightarrow> int \<Rightarrow> bool" where
  "slice_inverse cfg perms invs b \<longleftrightarrow>
     (\<forall>r. 0 \<le> r \<longrightarrow> r < rows cfg \<longrightarrow>
       (let c = uint (invs ! nat (b * rows cfg + r)) in c < rows cfg \<and> uint (perms ! nat (b * rows cfg + c)) = r)) \<and>
     (\<forall>c. 0 \<le> c \<longrightarrow> c < rows cfg \<longrightarrow>
       (let r = uint (perms ! nat (b * rows cfg + c)) in r < rows cfg \<and> uint (invs ! nat (b * rows cfg + r)) = c))"

lemma slice_inverseI:
  assumes "rows cfg = int n" "b * rows cfg = int off"
    and "\<And>k. k < n \<Longrightarrow> uint (invs ! (off + k)) < int n \<and> uint (perms ! (off + unat (invs ! (off + k)))) = int k"
    and "\<And>k. k < n \<Longrightarrow> uint (perms ! (off + k)) < int n \<and> uint (invs ! (off + unat (perms ! (off + k)))) = int k"
  shows "slice_inverse cfg perms invs b"
proof -
  have idx: "nat (b * int n + int k) = off + k" "nat (b * int n + uint w) = off + unat w" for k and w :: u32
    unfolding assms(1) [symmetric] assms(2) by (simp_all add: nat_add_distrib)
  have k: "\<exists>k. r = int k \<and> k < n" if "0 \<le> r" "r < rows cfg" for r
    using that assms(1) by (intro exI [of _ "nat r"]) auto
  show ?thesis
    unfolding slice_inverse_def Let_def
    using assms(1,3,4) by (auto dest!: k simp: idx)
qed

definition perms_wf :: "Config \<Rightarrow> u32 list \<Rightarrow> u32 list \<Rightarrow> bool" where
  "perms_wf cfg perms invs \<longleftrightarrow> length perms = nat (total cfg * rows cfg) \<and> length invs = nat (total cfg * rows cfg) \<and>
     (\<forall>b. 0 \<le> b \<longrightarrow> b < total cfg \<longrightarrow> slice_inverse cfg perms invs b)"

lemma uint_less_int: "uint (w :: 'a::len word) < int n \<longleftrightarrow> unat w < n"
  by (simp only: uint_nat of_nat_less_iff)

lemma uint_less_rows:
  assumes "uint (w :: 'a::len word) < n"
  shows "unat w < nat n"
proof -
  have "int (unat w) < n" using assms by (simp only: uint_nat)
  then show ?thesis by linarith
qed

lemma iota_props:
  assumes "rows cfg < 2 ^ 31" "0 < rows cfg"
  shows "length (iota (rows cfg)) = nat (rows cfg)" "distinct (iota (rows cfg))"
    "w \<in> set (iota (rows cfg)) \<longleftrightarrow> uint w < rows cfg"
proof -
  show "length (iota (rows cfg)) = nat (rows cfg)" by (simp add: iota_def)
  have u: "uint (word_of_nat i :: u32) = int i" if "i < nat (rows cfg)" for i
    using that assms uint_small [of "int i"] by simp
  show "distinct (iota (rows cfg))"
    unfolding iota_def distinct_map by (auto intro!: inj_onI dest: arg_cong [where f = uint] simp: u)
  show "w \<in> set (iota (rows cfg)) \<longleftrightarrow> uint w < rows cfg"
  proof
    assume "uint w < rows cfg"
    then have "unat w < nat (rows cfg)" by (rule uint_less_rows)
    then show "w \<in> set (iota (rows cfg))" unfolding iota_def set_map by (intro image_eqI [of _ _ "unat w"]) simp_all
  qed (auto simp: iota_def u)
qed

lemma put_slice_nth:
  assumes "off + length xs \<le> length v"
  obtains v' where "put_slice v off xs = Inr v'" "length v' = length v"
    "\<And>i. i < length v \<Longrightarrow> v' ! i = (if off \<le> i \<and> i < off + length xs then xs ! (i - off) else v ! i)"
proof
  let ?v = "take off v @ xs @ drop (off + length xs) v"
  show "put_slice v off xs = Inr ?v" "length ?v = length v" using assms by (auto simp: put_slice_def)
  show "?v ! i = (if off \<le> i \<and> i < off + length xs then xs ! (i - off) else v ! i)" if "i < length v" for i
    using assms that by (auto simp: nth_append)
qed

text \<open>The inner loop writes the inverse of a permutation into its slice.\<close>

lemma invert_loop:
  fixes perms invs :: "u32 list"
  assumes len: "length perms = length invs" "off + n \<le> length invs" and n: "n < 2 ^ 31"
    and perm: "\<And>i. i < n \<Longrightarrow> uint (perms ! (off + i)) < int n"
      "\<And>i j. i < n \<Longrightarrow> j < n \<Longrightarrow> perms ! (off + i) = perms ! (off + j) \<Longrightarrow> i = j"
  shows "okE (forE (int n) (\<lambda>c invs. bindE (vget perms (int off + c)) (\<lambda>r. vset invs (int off + uint r) (word_of_int c))) invs)
    (\<lambda>invs'. length invs' = length invs \<and> (\<forall>i<n. uint (invs' ! (off + nat (uint (perms ! (off + i))))) = int i) \<and>
      (\<forall>i<length invs. i < off \<or> off + n \<le> i \<longrightarrow> invs' ! i = invs ! i))"
proof (rule forE_inv [where I = "\<lambda>c invs'. length invs' = length invs \<and>
    (\<forall>i. int i < c \<longrightarrow> uint (invs' ! (off + nat (uint (perms ! (off + i))))) = int i) \<and>
    (\<forall>i<length invs. i < off \<or> off + n \<le> i \<longrightarrow> invs' ! i = invs ! i)"])
  fix c invs'
  assume c: "0 \<le> c" "c < int n" and I: "length invs' = length invs \<and>
    (\<forall>i. int i < c \<longrightarrow> uint (invs' ! (off + nat (uint (perms ! (off + i))))) = int i) \<and>
    (\<forall>i<length invs. i < off \<or> off + n \<le> i \<longrightarrow> invs' ! i = invs ! i)"
  define k where "k = nat c"
  have k: "c = int k" "k < n" using c by (auto simp: k_def)
  define r where "r = nat (uint (perms ! (off + k)))"
  have r: "uint (perms ! (off + k)) = int r" "r < n" using perm(1) [OF k(2)] by (simp_all add: r_def uint_less_int)
  have g: "vget perms (int off + c) = Inr (perms ! (off + k))"
    using len k by (simp add: vget_def nat_add_distrib flip: of_nat_add)
  have s: "vset invs' (int off + int r) (word_of_int c) = Inr (invs'[off + r := word_of_int c])"
    using len r I by (simp add: vset_def flip: of_nat_add)
  have uc: "uint (word_of_int c :: u32) = int k" using k n uint_small [of c] by simp
  have ne: "off + nat (uint (perms ! (off + i))) \<noteq> off + r" if "i < k" for i
    using perm(2) [of i k] that k(2) unfolding r_def by (auto simp: word_unat_eq_iff)
  have "uint (invs'[off + r := word_of_int c] ! (off + nat (uint (perms ! (off + i))))) = int i" if "int i < c + 1" for i
  proof (cases "i = k")
    case True
    then show ?thesis using len I r uc by (simp add: r_def [symmetric])
  next
    case False
    then have "i < k" using that k(1) by simp
    with ne [OF this] have "off + r \<noteq> off + nat (uint (perms ! (off + i)))" by simp
    with I k(1) \<open>i < k\<close> show ?thesis by (simp only: nth_list_update_neq) simp
  qed
  moreover have "invs'[off + r := word_of_int c] ! i = invs ! i" if "i < length invs" "i < off \<or> off + n \<le> i" for i
    using that I r(2) by auto
  ultimately show "okE (bindE (vget perms (int off + c)) (\<lambda>r. vset invs' (int off + uint r) (word_of_int c)))
    (\<lambda>invs'. length invs' = length invs \<and>
      (\<forall>i. int i < c + 1 \<longrightarrow> uint (invs' ! (off + nat (uint (perms ! (off + i))))) = int i) \<and>
      (\<forall>i<length invs. i < off \<or> off + n \<le> i \<longrightarrow> invs' ! i = invs ! i))"
    using I by (simp add: g r(1) s)
qed (auto simp: max_def)

lemma mk_perm_wf:
  assumes c: "index_ok cfg" and b: "0 \<le> b" "b < total cfg" and sh: "\<And>k xs. mset (shuffle k xs) = mset xs"
    and len: "length perms = nat (total cfg * rows cfg)" "length invs = nat (total cfg * rows cfg)"
    and old: "\<And>b'. 0 \<le> b' \<Longrightarrow> b' < b \<Longrightarrow> slice_inverse cfg perms invs b'"
  shows "okE (mk_perm cfg shuffle b (perms, invs)) (\<lambda>(perms', invs'). length perms' = nat (total cfg * rows cfg) \<and>
    length invs' = nat (total cfg * rows cfg) \<and> (\<forall>b'. 0 \<le> b' \<longrightarrow> b' < b + 1 \<longrightarrow> slice_inverse cfg perms' invs' b'))"
proof -
  note ib = index_bounds [OF c]
  define n where "n = nat (rows cfg)"
  define off where "off = nat (b * rows cfg)"
  have n: "rows cfg = int n" "0 < n" "n < 2 ^ 31" using ib(3,4) by (auto simp: n_def nat_less_iff)
  have off: "b * rows cfg = int off" using b ib(3) by (simp add: off_def)
  have "(b + 1) * rows cfg \<le> total cfg * rows cfg" using b ib(3) by (intro mult_right_mono) auto
  then have "int off + int n \<le> total cfg * rows cfg" using off n(1) by (simp add: algebra_simps)
  then have fits: "off + n \<le> nat (total cfg * rows cfg)" by linarith
  have "int off < 2 ^ 31" using \<open>int off + int n \<le> total cfg * rows cfg\<close> c by (simp add: index_ok_def)
  then have uoff: "uint (word_of_int b * word_of_int (rows cfg) :: u32) = int off"
    using uint_small [of "int off"] off by (simp flip: of_int_mult)
  then have noff: "unat (word_of_int b * word_of_int (rows cfg) :: u32) = off" by (simp add: unat_eq_nat_uint)
  have urows: "uint (word_of_int (rows cfg) :: u32) = int n" using ib(3,4) n(1) uint_small [of "rows cfg"] by simp
  define perm where "perm = (if cactus_policy cfg = 1 then shuffle b (iota (rows cfg)) else iota (rows cfg))"
  have "mset perm = mset (iota (rows cfg))" by (simp add: perm_def sh)
  then have perm: "length perm = n" "distinct perm" "set perm = set (iota (rows cfg))"
    using iota_props [OF ib(4,3)] by (auto simp: n_def dest: mset_eq_length mset_eq_setD mset_eq_imp_distinct_iff)
  have mem: "w \<in> set perm \<longleftrightarrow> unat w < n" for w
    using iota_props(3) [OF ib(4,3), of w] perm(3) n(1) uint_less_int [of w n] by simp
  obtain perms' where ps: "put_slice perms off perm = Inr perms'" "length perms' = length perms"
    and pn: "\<And>i. i < length perms \<Longrightarrow> perms' ! i = (if off \<le> i \<and> i < off + n then perm ! (i - off) else perms ! i)"
    using put_slice_nth [of off perm perms] fits len perm(1) by metis
  have pnth: "perms' ! (off + i) = perm ! i" if "i < n" for i using pn [of "off + i"] that fits len by simp
  have "okE (forE (int n) (\<lambda>c invs. bindE (vget perms' (int off + c)) (\<lambda>r. vset invs (int off + uint r) (word_of_int c))) invs)
    (\<lambda>invs'. length invs' = length invs \<and> (\<forall>i<n. uint (invs' ! (off + nat (uint (perms' ! (off + i))))) = int i) \<and>
      (\<forall>i<length invs. i < off \<or> off + n \<le> i \<longrightarrow> invs' ! i = invs ! i))"
  proof (rule invert_loop)
    show "uint (perms' ! (off + i)) < int n" if "i < n" for i
      using mem [of "perm ! i"] nth_mem [of i perm] that perm(1) by (simp add: pnth uint_less_int)
    show "i = j" if "i < n" "j < n" "perms' ! (off + i) = perms' ! (off + j)" for i j
      using that perm(1,2) by (simp add: pnth nth_eq_iff_index_eq)
  qed (use ps len fits n in auto)
  then obtain invs' where iv: "forE (int n) (\<lambda>c invs. bindE (vget perms' (int off + c)) (\<lambda>r. vset invs (int off + uint r) (word_of_int c))) invs = Inr invs'"
    "length invs' = length invs" "\<And>i. i < n \<Longrightarrow> uint (invs' ! (off + unat (perm ! i))) = int i"
    "\<And>i. i < length invs \<Longrightarrow> i < off \<or> off + n \<le> i \<Longrightarrow> invs' ! i = invs ! i"
    by (auto simp: okE_iff pnth)
  have run: "mk_perm cfg shuffle b (perms, invs) = Inr (perms', invs')"
    using ps(1) iv(1) by (simp add: mk_perm_def perm_def [symmetric] uoff noff urows)
  have new: "slice_inverse cfg perms' invs' b"
  proof -
    have c_of: "\<exists>i<n. perm ! i = w" if "unat w < n" for w
      using mem [of w] that perm(1) by (auto simp: in_set_conv_nth)
    have 1: "uint (invs' ! (off + k)) < int n \<and> uint (perms' ! (off + unat (invs' ! (off + k)))) = int k" if kn: "k < n" for k
    proof -
      have uk: "unat (word_of_nat k :: u32) = k" using kn n(3) uint_small [of "int k"] by (simp add: unat_eq_nat_uint)
      obtain i where i: "i < n" "perm ! i = word_of_nat k" using c_of [of "word_of_nat k"] uk kn by auto
      have "uint (invs' ! (off + k)) = int i" using iv(3) [OF i(1)] i(2) uk by simp
      then have "unat (invs' ! (off + k)) = i" by (simp add: unat_eq_nat_uint)
      with \<open>uint (invs' ! (off + k)) = int i\<close> i pnth [OF i(1)] uk show ?thesis by (simp add: uint_nat)
    qed
    have 2: "uint (perms' ! (off + k)) < int n \<and> uint (invs' ! (off + unat (perms' ! (off + k)))) = int k" if "k < n" for k
      using iv(3) [OF that] pnth [OF that] mem [of "perm ! k"] nth_mem [of k perm] that perm(1) by (simp add: uint_less_int)
    show ?thesis by (rule slice_inverseI [OF n(1) off]) (use 1 2 in blast)+
  qed
  have "slice_inverse cfg perms' invs' b'" if b': "0 \<le> b'" "b' < b" for b'
  proof -
    have "(b' + 1) * rows cfg \<le> b * rows cfg" using b' ib(3) by (intro mult_right_mono) auto
    then have lt: "b' * rows cfg + x < int off" if "0 \<le> x" "x < rows cfg" for x using that off by (simp add: algebra_simps)
    have same: "perms' ! nat (b' * rows cfg + x) = perms ! nat (b' * rows cfg + x) \<and>
        invs' ! nat (b' * rows cfg + x) = invs ! nat (b' * rows cfg + x)" if "0 \<le> x" "x < rows cfg" for x
    proof -
      have "nat (b' * rows cfg + x) < off" using lt [OF that] b' ib(3) that by (simp add: nat_less_iff)
      moreover from this have "nat (b' * rows cfg + x) < length perms" "nat (b' * rows cfg + x) < length invs"
        using fits len by linarith+
      ultimately show ?thesis using pn iv(4) by simp
    qed
    show ?thesis
      using old [OF b'] same unfolding slice_inverse_def Let_def by simp
  qed
  then have "slice_inverse cfg perms' invs' b'" if "0 \<le> b'" "b' < b + 1" for b'
    using new that by (cases "b' = b") auto
  with run ps(2) iv(2) len show ?thesis by simp
qed

lemma mk_perms_wf:
  assumes c: "index_ok cfg" and sh: "\<And>k xs. mset (shuffle k xs) = mset xs"
  shows "okE (mk_perms cfg shuffle) (\<lambda>(perms, invs). perms_wf cfg perms invs)"
proof -
  note ib = index_bounds [OF c]
  let ?N = "nat (total cfg * rows cfg)"
  have "0 \<le> total cfg * rows cfg" "total cfg * rows cfg < 2 ^ 31" using c ib(1,3) by (auto simp: index_ok_def)
  moreover have "total_banks cfg * word_of_int (rows cfg) = word_of_int (total cfg * rows cfg)"
    by (simp add: total_banks_def total_def)
  ultimately have size: "unat (total_banks cfg * word_of_int (rows cfg)) = ?N"
    using uint_small [of "total cfg * rows cfg"] by (simp add: unat_eq_nat_uint)
  have banks: "uint (total_banks cfg) = total cfg"
    using uint_small [of "total cfg"] ib(1,2) by (simp add: total_banks_def total_def)
  show ?thesis unfolding mk_perms_def Let_def size banks
  proof (rule forE_inv [where I = "\<lambda>b (perms, invs). length perms = ?N \<and> length invs = ?N \<and>
      (\<forall>b'. 0 \<le> b' \<longrightarrow> b' < b \<longrightarrow> slice_inverse cfg perms invs b')"])
    fix b s
    assume b: "0 \<le> b" "b < total cfg" and I: "case s of (perms, invs) \<Rightarrow> length perms = ?N \<and> length invs = ?N \<and>
      (\<forall>b'. 0 \<le> b' \<longrightarrow> b' < b \<longrightarrow> slice_inverse cfg perms invs b')"
    obtain perms invs where s: "s = (perms, invs)" by force
    show "okE (mk_perm cfg shuffle b s) (\<lambda>(perms, invs). length perms = ?N \<and> length invs = ?N \<and>
      (\<forall>b'. 0 \<le> b' \<longrightarrow> b' < b + 1 \<longrightarrow> slice_inverse cfg perms invs b'))"
      unfolding s by (rule mk_perm_wf [OF c b sh]) (use I s in auto)
  qed (use ib(1) in \<open>auto simp: perms_wf_def\<close>)
qed

section \<open>CACTUS: one row of every bank per counter\<close>

definition cactus_map_ok :: "Config \<Rightarrow> ChannelState \<Rightarrow> bool" where
  "cactus_map_ok cfg cs \<longleftrightarrow> index_ok cfg \<and> cactus_size cs = word_of_int (rows cfg) \<and>
     (cactus_policy cfg = 0 \<or> cactus_policy cfg = 1 \<and> perms_wf cfg (cactus_row_perms cs) (cactus_inv_row_perms cs))"

definition cactus_counter :: "Config \<times> ChannelState \<times> pos \<Rightarrow> int \<Rightarrow> u32 res" where
  "cactus_counter = (\<lambda>(cfg, cs, (i, j, k)) r.
     get_cactus_idx cfg cs (word_of_int i) (word_of_int j) (word_of_int k) (word_of_int r))"

definition cactus_rows :: "Config \<times> ChannelState \<times> pos \<Rightarrow> u32 \<Rightarrow> int res list" where
  "cactus_rows = (\<lambda>(cfg, cs, (i, j, k)) c.
     [bindE (get_cactus_row_idx cfg cs (word_of_int i) (word_of_int j) (word_of_int k) c) (\<lambda>r. Inr (uint r))])"

text \<open>A counter of a rank lies in the rank's part of the table.\<close>

definition cactus_in :: "Config \<times> ChannelState \<times> pos \<Rightarrow> u32 \<Rightarrow> bool" where
  "cactus_in = (\<lambda>(cfg, cs, (i, j, k)) c. i * rows cfg \<le> uint c \<and> uint c < (i + 1) * rows cfg)"

definition cactus_good :: "Config \<times> ChannelState \<times> pos \<Rightarrow> bool" where
  "cactus_good = (\<lambda>(cfg, cs, p). cactus_map_ok cfg cs \<and> p \<in> positions cfg)"

lemma cactus_index_round_trip:
  assumes c: "cactus_map_ok cfg cs" and p: "(i, j, k) \<in> positions cfg" and r: "row_ok cfg r"
  obtains w where "get_cactus_idx cfg cs (word_of_int i) (word_of_int j) (word_of_int k) (word_of_int r) = Inr w"
    "i * rows cfg \<le> uint w" "uint w < (i + 1) * rows cfg"
    "get_cactus_row_idx cfg cs (word_of_int i) (word_of_int j) (word_of_int k) w = Inr (word_of_int r)"
proof -
  have ok: "index_ok cfg" and sz: "cactus_size cs = word_of_int (rows cfg)" using c by (auto simp: cactus_map_ok_def)
  note ib = index_bounds [OF ok]
  have i: "0 \<le> i" "i < ranks cfg" and r: "0 \<le> r" "r < rows cfg" using p r by (auto simp: positions_def row_ok_def)
  have off: "word_of_int i * cactus_size cs + word_of_int x = (word_of_int (i * rows cfg + x) :: u32)" for x by (simp add: sz)
  have u: "uint (word_of_int (i * rows cfg + x) :: u32) = i * rows cfg + x" if "0 \<le> x" "x < rows cfg" for x
    using ib(5) ib(7) [OF i that] i that ib(3) by (intro uint_small) auto
  have local: "(word_of_int (i * rows cfg + x) :: u32) - word_of_int i * cactus_size cs = word_of_int x" for x by (simp add: sz)
  show ?thesis
  proof (cases "cactus_policy cfg = 0")
    case True
    show ?thesis
    proof (rule that [of "word_of_int (i * rows cfg + r)"])
      show "get_cactus_idx cfg cs (word_of_int i) (word_of_int j) (word_of_int k) (word_of_int r) = Inr (word_of_int (i * rows cfg + r))"
        using True by (simp add: get_cactus_idx_def sz)
      show "get_cactus_row_idx cfg cs (word_of_int i) (word_of_int j) (word_of_int k) (word_of_int (i * rows cfg + r)) = Inr (word_of_int r)"
        using True local [of r] by (simp add: get_cactus_row_idx_def)
    qed (use u [OF r] r in \<open>auto simp: algebra_simps\<close>)
  next
    case False
    then have pol: "cactus_policy cfg = 1" and wf: "perms_wf cfg (cactus_row_perms cs) (cactus_inv_row_perms cs)"
      using c by (auto simp: cactus_map_ok_def)
    let ?b = "bidx cfg (i, j, k)"
    note b = bidx_less [OF p]
    have ix: "uint (get_cactus_bank_idx cfg (word_of_int i) (word_of_int j) (word_of_int k) * word_of_int (rows cfg) + word_of_int x) = ?b * rows cfg + x"
      if "0 \<le> x" "x < rows cfg" for x
    proof -
      have "?b * rows cfg + x < 2 ^ 31" using ib(6) [OF b that] ok by (simp add: index_ok_def)
      moreover have "0 \<le> ?b * rows cfg + x" using b ib(3) that by simp
      ultimately show ?thesis using uint_small [of "?b * rows cfg + x"] by (simp add: bank_idx_word)
    qed
    have rng: "inrange (?b * rows cfg + x) (cactus_row_perms cs)" "inrange (?b * rows cfg + x) (cactus_inv_row_perms cs)"
      if "0 \<le> x" "x < rows cfg" for x
      using ib(6) [OF b that] b ib(1,3) that wf by (simp_all add: perms_wf_def inrange_def)
    define cw where "cw = cactus_inv_row_perms cs ! nat (?b * rows cfg + r)"
    have sl: "uint cw < rows cfg" "uint (cactus_row_perms cs ! nat (?b * rows cfg + uint cw)) = r"
      using wf b r unfolding perms_wf_def slice_inverse_def Let_def cw_def by blast+
    have cw: "0 \<le> uint cw" "word_of_int (uint cw) = cw" by simp_all
    show ?thesis
    proof (rule that [of "word_of_int (i * rows cfg + uint cw)"])
      show "get_cactus_idx cfg cs (word_of_int i) (word_of_int j) (word_of_int k) (word_of_int r) = Inr (word_of_int (i * rows cfg + uint cw))"
        using pol False by (simp add: get_cactus_idx_def ix [OF r] rng [OF r] cw_def [symmetric] sz)
      show "get_cactus_row_idx cfg cs (word_of_int i) (word_of_int j) (word_of_int k) (word_of_int (i * rows cfg + uint cw)) = Inr (word_of_int r)"
        using pol False local [of "uint cw"] ix [OF cw(1) sl(1)] rng(1) [OF cw(1) sl(1)] sl(2)
        by (simp add: get_cactus_row_idx_def) (metis word_of_int_uint)
    qed (use u [OF cw(1) sl(1)] sl(1) in \<open>auto simp: algebra_simps\<close>)
  qed
qed

definition row_of_bank :: "Config \<times> ChannelState \<times> pos \<Rightarrow> int \<Rightarrow> bool" where
  "row_of_bank b r = row_ok (fst b) r"

interpretation cactus_map: counter_map cactus_good row_of_bank cactus_counter cactus_rows cactus_in
proof
  fix b :: "Config \<times> ChannelState \<times> pos" and r
  assume "cactus_good b" "row_of_bank b r"
  then obtain cfg cs i j k where b: "b = (cfg, cs, (i, j, k))" and
    h: "cactus_map_ok cfg cs" "(i, j, k) \<in> positions cfg" "row_ok cfg r"
    by (cases b) (auto simp: cactus_good_def row_of_bank_def)
  obtain w where w: "get_cactus_idx cfg cs (word_of_int i) (word_of_int j) (word_of_int k) (word_of_int r) = Inr w"
    "i * rows cfg \<le> uint w" "uint w < (i + 1) * rows cfg"
    "get_cactus_row_idx cfg cs (word_of_int i) (word_of_int j) (word_of_int k) w = Inr (word_of_int r)"
    by (rule cactus_index_round_trip [OF h])
  show "okE (cactus_counter b r) (cactus_in b)" using w by (simp add: b cactus_counter_def cactus_in_def)
  have "uint (word_of_int r :: u32) = r"
    using h index_bounds(4) [of cfg] by (intro uint_small) (auto simp: cactus_map_ok_def row_ok_def)
  then show "Inr r \<in> set (cactus_rows b c)" if "cactus_counter b r = Inr c" for c
    using w that by (simp add: b cactus_counter_def cactus_rows_def)
qed

section \<open>DREAM: \<open>dream_k\<close> rows of a bank per counter\<close>

text \<open>
  The rows are divided evenly among the counters; the staggered policy needs no more banks than
  counters, the random one a power of two of them and masks drawn below it.
\<close>

definition dream_map_ok :: "Config \<Rightarrow> ChannelState \<Rightarrow> bool" where
  "dream_map_ok cfg cs \<longleftrightarrow> index_ok cfg \<and> rows cfg < 2 ^ 30 \<and> 0 < dream_k cfg \<and>
     rows cfg = dream_k cfg * uint (tusc_size cs) \<and>
     (dream_policy cfg = 0 \<or>
      dream_policy cfg = 1 \<and> total cfg \<le> uint (tusc_size cs) \<or>
      dream_policy cfg = 2 \<and> (\<exists>n. uint (tusc_size cs) = 2 ^ n) \<and> total cfg * dream_k cfg < 2 ^ 31 \<and>
        length (random_masks cs) = nat (total cfg * dream_k cfg) \<and> (\<forall>m\<in>set (random_masks cs). m < tusc_size cs))"

definition dream_counter :: "Config \<times> ChannelState \<times> pos \<Rightarrow> int \<Rightarrow> u32 res" where
  "dream_counter = (\<lambda>(cfg, cs, (i, j, k)) r.
     get_tusc_idx cfg cs (word_of_int i) (word_of_int j) (word_of_int k) (word_of_int r))"

definition dream_rows :: "Config \<times> ChannelState \<times> pos \<Rightarrow> u32 \<Rightarrow> int res list" where
  "dream_rows = (\<lambda>(cfg, cs, (i, j, k)) c. map (\<lambda>l.
     bindE (get_row_idx cfg cs (word_of_int i) (word_of_int j) (word_of_int k) c (word_of_int l)) (\<lambda>r. Inr (uint r)))
     (ints (dream_k cfg)))"

definition dream_in :: "Config \<times> ChannelState \<times> pos \<Rightarrow> u32 \<Rightarrow> bool" where
  "dream_in = (\<lambda>(cfg, cs, p) c. c < tusc_size cs)"

definition dream_good :: "Config \<times> ChannelState \<times> pos \<Rightarrow> bool" where
  "dream_good = (\<lambda>(cfg, cs, p). dream_map_ok cfg cs \<and> p \<in> positions cfg)"

text \<open>The arithmetic of the staggered policy.\<close>

lemma stagger_round_trip:
  fixes T r b k :: int
  assumes "0 < T" "0 < k" "0 \<le> r" "r < k * T" "0 \<le> b" "b \<le> T"
  shows "\<exists>l. 0 \<le> l \<and> l < k \<and> ((r mod T - b + T) mod T + b + l * T) mod (k * T) = r"
proof -
  define e where "e = (r mod T - b + T) div T"
  have e: "(r mod T - b + T) mod T + b = r mod T + (1 - e) * T"
    unfolding e_def by (simp add: minus_div_mult_eq_mod [symmetric] algebra_simps)
  define l where "l = (r div T - (1 - e)) mod k"
  obtain q where q: "l = r div T - (1 - e) + q * k"
    unfolding l_def by (metis add.commute add_diff_cancel_left' diff_add_cancel minus_div_mult_eq_mod mult_minus_left uminus_add_conv_diff)
  have "(r mod T - b + T) mod T + b + l * T = r + q * (k * T)"
    unfolding e q using div_mult_mod_eq [of r T] by (simp add: algebra_simps)
  then have "((r mod T - b + T) mod T + b + l * T) mod (k * T) = r"
    using assms by (simp add: mod_mult_self1 mult.commute)
  moreover have "0 \<le> l" "l < k" using assms(2) by (simp_all add: l_def)
  ultimately show ?thesis by blast
qed

lemma dream_bounds:
  assumes "dream_map_ok cfg cs" "row_ok cfg r"
  shows "0 < dream_k cfg" "uint (word_of_int (dream_k cfg) :: u32) = dream_k cfg" "uint (word_of_int r :: u32) = r"
    "0 < uint (tusc_size cs)" "uint (tusc_size cs) \<le> rows cfg" "uint (word_of_int (rows cfg) :: u32) = rows cfg"
    "(word_of_int (dream_k cfg) :: u32) \<noteq> 0"
proof -
  have k: "0 < dream_k cfg" "rows cfg = dream_k cfg * uint (tusc_size cs)" "rows cfg < 2 ^ 30" and r: "0 \<le> r" "r < rows cfg"
    and T: "0 < rows cfg"
    using assms by (auto simp: dream_map_ok_def row_ok_def)
  show "0 < dream_k cfg" by (rule k)
  show t: "0 < uint (tusc_size cs)" using T k(1,2) zero_less_mult_pos by fastforce
  have "dream_k cfg \<le> rows cfg" using k t mult_left_mono [of 1 "uint (tusc_size cs)" "dream_k cfg"] by simp
  then have "dream_k cfg < 2 ^ 31" "r < 2 ^ 31" "rows cfg < 2 ^ 31" using k(3) r by auto
  then show uk: "uint (word_of_int (dream_k cfg) :: u32) = dream_k cfg" and "uint (word_of_int r :: u32) = r"
    and "uint (word_of_int (rows cfg) :: u32) = rows cfg"
    using k(1) r(1) T by (simp_all add: uint_small)
  show "(word_of_int (dream_k cfg) :: u32) \<noteq> 0" using uk k(1) by auto
  show "uint (tusc_size cs) \<le> rows cfg" using k(1,2) t mult_right_mono [of 1 "dream_k cfg" "uint (tusc_size cs)"] by simp
qed

text \<open>Splitting a row into its group and its place in the group.\<close>

lemma dream_group:
  assumes "dream_map_ok cfg cs" "row_ok cfg r"
  defines "g \<equiv> (word_of_int r :: u32) div word_of_int (dream_k cfg)"
  shows "g < tusc_size cs" "g * word_of_int (dream_k cfg) + word_of_int (r mod dream_k cfg) = word_of_int r"
proof -
  note b = dream_bounds [OF assms(1,2)]
  have r: "0 \<le> r" "r < dream_k cfg * uint (tusc_size cs)" using assms(1,2) by (auto simp: dream_map_ok_def row_ok_def)
  have ug: "uint g = r div dream_k cfg" by (simp add: g_def uint_div b)
  then have "g = word_of_int (r div dream_k cfg)" by (metis word_of_int_uint)
  then show "g * word_of_int (dream_k cfg) + word_of_int (r mod dream_k cfg) = word_of_int r"
    by (metis div_mult_mod_eq of_int_add of_int_mult)
  have "r div dream_k cfg < uint (tusc_size cs)"
  proof (rule ccontr)
    assume "\<not> r div dream_k cfg < uint (tusc_size cs)"
    then have "dream_k cfg * uint (tusc_size cs) \<le> dream_k cfg * (r div dream_k cfg)" using b(1) by simp
    then show False using r(2) mult_div_mod_eq [of "dream_k cfg" r] pos_mod_sign [OF b(1), of r] by linarith
  qed
  then show "g < tusc_size cs" using ug by (simp add: word_less_def)
qed

text \<open>What every policy gives: the row is mapped to a counter of the table and back.\<close>

definition dream_returns :: "Config \<Rightarrow> ChannelState \<Rightarrow> pos \<Rightarrow> int \<Rightarrow> bool" where
  "dream_returns cfg cs = (\<lambda>(i, j, k) r.
     \<exists>c l. get_tusc_idx cfg cs (word_of_int i) (word_of_int j) (word_of_int k) (word_of_int r) = Inr c \<and> c < tusc_size cs \<and>
       0 \<le> l \<and> l < dream_k cfg \<and>
       get_row_idx cfg cs (word_of_int i) (word_of_int j) (word_of_int k) c (word_of_int l) = Inr (word_of_int r))"

lemma dream_direct:
  assumes "dream_map_ok cfg cs" "dream_policy cfg = 0" "row_ok cfg r"
  shows "dream_returns cfg cs p r"
proof -
  note b = dream_bounds [OF assms(1,3)] and g = dream_group [OF assms(1,3)]
  obtain i j k where p: "p = (i, j, k)" by (cases p)
  have "get_tusc_idx cfg cs rank bg ba (word_of_int r) = Inr (word_of_int r div word_of_int (dream_k cfg))" for rank bg ba
    using b(7) assms(2) by (simp add: get_tusc_idx_def)
  moreover have "get_row_idx cfg cs rank bg ba (word_of_int r div word_of_int (dream_k cfg)) (word_of_int (r mod dream_k cfg)) =
    Inr (word_of_int r)" for rank bg ba
    using g(2) assms(2) by (simp add: get_row_idx_def)
  ultimately show ?thesis
    using g(1) b(1) by (auto simp: dream_returns_def p intro!: exI [of _ "r mod dream_k cfg"])
qed

lemma dream_random:
  assumes "dream_map_ok cfg cs" "dream_policy cfg = 2" "row_ok cfg r" "p \<in> positions cfg"
  shows "dream_returns cfg cs p r"
proof -
  note b = dream_bounds [OF assms(1,3)] and g = dream_group [OF assms(1,3)]
  obtain i j k where p: "p = (i, j, k)" by (cases p)
  let ?l = "r mod dream_k cfg" and ?idx = "bank_idx cfg (word_of_int i) (word_of_int j) (word_of_int k)"
  have l: "0 \<le> ?l" "?l < dream_k cfg" using b(1) by auto
  obtain n where ok: "index_ok cfg" "uint (tusc_size cs) = 2 ^ n" "total cfg * dream_k cfg < 2 ^ 31"
    "length (random_masks cs) = nat (total cfg * dream_k cfg)" "\<forall>m\<in>set (random_masks cs). m < tusc_size cs"
    using assms(1,2) by (auto simp: dream_map_ok_def)
  note t = index_bounds [OF ok(1)] and bi = bidx_less [OF assms(4)]
  have m: "(word_of_int r :: u32) mod word_of_int (dream_k cfg) = word_of_int ?l"
    by (rule word_uint_eqI) (use l b(2,3) uint_small [of ?l] ok(3) dream_bounds(2) [OF assms(1,3)] in
      \<open>simp add: uint_mod uint_word_of_int take_bit_int_eq_self unsigned_less\<close>)
  define x where "x = bidx cfg p + ?l * total cfg"
  have "total cfg * (?l + 1) \<le> total cfg * dream_k cfg" using l t(1) by (intro mult_left_mono) auto
  then have x: "0 \<le> x" "x < total cfg * dream_k cfg"
    using bi l t(1) by (simp_all add: x_def algebra_simps)
  have "?idx + word_of_int ?l * total_banks cfg = word_of_int x"
    by (simp add: bank_idx_word total_banks_def total_def x_def p)
  then have ux: "uint (?idx + word_of_int ?l * total_banks cfg) = x" using x ok(3) uint_small [of x] by simp
  define w where "w = random_masks cs ! nat x"
  have vg: "vget (random_masks cs) x = Inr w" using x ok(4) by (simp add: vget_def inrange_def w_def)
  have wT: "w < tusc_size cs" using x ok(4,5) by (auto simp: w_def)
  let ?g = "(word_of_int r :: u32) div word_of_int (dream_k cfg)"
  have "take_bit n (uint ?g) = uint ?g" "take_bit n (uint w) = uint w"
    using g(1) wT ok(2) by (auto simp: take_bit_int_eq_self_iff word_less_def)
  then have "take_bit n (uint (?g XOR w)) = uint (?g XOR w)" by (simp add: uint_xor)
  then have "?g XOR w < tusc_size cs" using ok(2) by (simp add: take_bit_int_eq_self_iff word_less_def)
  moreover have "get_tusc_idx cfg cs (word_of_int i) (word_of_int j) (word_of_int k) (word_of_int r) = Inr (?g XOR w)"
    using b(7) assms(2) by (simp add: get_tusc_idx_def m ux vg)
  moreover have "get_row_idx cfg cs (word_of_int i) (word_of_int j) (word_of_int k) (?g XOR w) (word_of_int ?l) = Inr (word_of_int r)"
    using assms(2) g(2) by (simp add: get_row_idx_def ux vg xor.assoc)
  ultimately show ?thesis using l by (auto simp: dream_returns_def p)
qed

lemma dream_staggered:
  assumes "dream_map_ok cfg cs" "dream_policy cfg = 1" "row_ok cfg r" "p \<in> positions cfg"
  shows "dream_returns cfg cs p r"
proof -
  note b = dream_bounds [OF assms(1,3)]
  obtain i j k where p: "p = (i, j, k)" by (cases p)
  let ?idx = "bank_idx cfg (word_of_int i) (word_of_int j) (word_of_int k)" and ?T = "uint (tusc_size cs)" and ?b = "bidx cfg p"
  have ok: "index_ok cfg" "total cfg \<le> ?T" "rows cfg = dream_k cfg * ?T" "rows cfg < 1073741824"
    using assms(1,2) by (auto simp: dream_map_ok_def)
  note t = index_bounds [OF ok(1)] and bi = bidx_less [OF assms(4)]
  have r: "0 \<le> r" "r < dream_k cfg * ?T" using assms(3) ok(3) by (auto simp: row_ok_def)
  have small: "uint (word_of_int x :: u32) = x" if "0 \<le> x" "x < 4294967296" for x
    using that by (simp add: uint_word_of_int take_bit_int_eq_self)
  have nz: "tusc_size cs \<noteq> 0" using b(4) by auto
  define c where "c = (r mod ?T - ?b + ?T) mod ?T"
  have c: "0 \<le> c" "c < ?T" using b(4) by (auto simp: c_def)
  have rm: "0 \<le> r mod ?T" "r mod ?T < ?T" using b(4) by auto
  have um: "(word_of_int r :: u32) mod tusc_size cs = word_of_int (r mod ?T)"
    by (rule word_uint_eqI) (use b(3,5) ok(4) rm small [of "r mod ?T"] in \<open>simp add: uint_mod\<close>)
  have ib: "?idx = word_of_int ?b" by (simp add: bank_idx_word p)
  have s: "(word_of_int (r mod ?T) - word_of_int ?b + tusc_size cs :: u32) = word_of_int (r mod ?T - ?b + ?T)" by simp
  have us: "uint (word_of_int (r mod ?T - ?b + ?T) :: u32) = r mod ?T - ?b + ?T"
    by (rule small) (use rm bi ok(2,4) b(5) in linarith)+
  have wc: "(word_of_int (r mod ?T - ?b + ?T) :: u32) mod tusc_size cs = word_of_int c"
    by (rule word_uint_eqI) (use c b(5) ok(4) small [of c] us in \<open>simp add: uint_mod c_def\<close>)
  have idx: "get_tusc_idx cfg cs (word_of_int i) (word_of_int j) (word_of_int k) (word_of_int r) = Inr (word_of_int c)"
    using b(7) nz assms(2) by (simp add: get_tusc_idx_def um ib s wc del: of_int_add of_int_diff)
  have lt: "word_of_int c < tusc_size cs" using c small [of c] b(5) ok(4) by (simp add: word_less_def)
  obtain l where l: "0 \<le> l" "l < dream_k cfg" "(c + ?b + l * ?T) mod rows cfg = r"
    using stagger_round_trip [OF b(4,1) r, of ?b] bi ok(2,3) by (auto simp: c_def)
  have "(l + 1) * ?T \<le> dream_k cfg * ?T" using l b(4) by (intro mult_right_mono) auto
  then have "l * ?T + ?T \<le> rows cfg" by (simp only: ok(3) distrib_right mult_1)
  then have "c + ?b + l * ?T < 4294967296" using c bi ok(2,4) b(5) by linarith
  moreover have "0 \<le> c + ?b + l * ?T" using c bi l by simp
  ultimately have x: "0 \<le> c + ?b + l * ?T" "c + ?b + l * ?T < 4294967296" by blast+
  have wl: "(word_of_int c + word_of_int ?b + word_of_int l * tusc_size cs :: u32) = word_of_int (c + ?b + l * ?T)" by simp
  have "(word_of_int (c + ?b + l * ?T) :: u32) mod word_of_int (rows cfg) = word_of_int r"
    by (rule word_uint_eqI) (use l(3) b(3,6) small [OF x] in \<open>simp add: uint_mod del: of_int_add of_int_mult\<close>)
  moreover have "(word_of_int (rows cfg) :: u32) \<noteq> 0" using b(6) t(3) by auto
  ultimately have "get_row_idx cfg cs (word_of_int i) (word_of_int j) (word_of_int k) (word_of_int c) (word_of_int l) = Inr (word_of_int r)"
    using assms(2) by (simp add: get_row_idx_def ib wl del: of_int_add of_int_mult)
  then show ?thesis using idx lt l by (auto simp: dream_returns_def p)
qed

lemma dream_round_trip:
  assumes "dream_map_ok cfg cs" "p \<in> positions cfg" "row_ok cfg r"
  shows "dream_returns cfg cs p r"
proof -
  consider "dream_policy cfg = 0" | "dream_policy cfg = 1" | "dream_policy cfg = 2"
    using assms(1) by (auto simp: dream_map_ok_def)
  then show ?thesis using assms by cases (simp_all add: dream_direct dream_staggered dream_random)
qed

interpretation dream_map: counter_map dream_good row_of_bank dream_counter dream_rows dream_in
proof
  fix b :: "Config \<times> ChannelState \<times> pos" and r
  assume "dream_good b" "row_of_bank b r"
  then obtain cfg cs i j k where b: "b = (cfg, cs, (i, j, k))" and
    h: "dream_map_ok cfg cs" "(i, j, k) \<in> positions cfg" "row_ok cfg r"
    by (cases b) (auto simp: dream_good_def row_of_bank_def)
  obtain c l where w: "get_tusc_idx cfg cs (word_of_int i) (word_of_int j) (word_of_int k) (word_of_int r) = Inr c" "c < tusc_size cs"
    "0 \<le> l" "l < dream_k cfg" "get_row_idx cfg cs (word_of_int i) (word_of_int j) (word_of_int k) c (word_of_int l) = Inr (word_of_int r)"
    using dream_round_trip [OF h] by (auto simp: dream_returns_def)
  show "okE (dream_counter b r) (dream_in b)" using w by (simp add: b dream_counter_def dream_in_def)
  have "l \<in> set (ints (dream_k cfg))" using w(3,4) by (simp add: ints_props(1))
  then show "Inr r \<in> set (dream_rows b c')" if "dream_counter b r = Inr c'" for c'
    using w that dream_bounds(3) [OF h(1,3)] by (auto simp: b dream_counter_def dream_rows_def intro!: image_eqI [of _ _ l])
qed

section \<open>The maps of a constructed channel\<close>

lemma bindE_InrD: "bindE m f = Inr y \<Longrightarrow> \<exists>x. m = Inr x \<and> f x = Inr y"
  by (cases m) auto

definition construct_ok :: "Config \<Rightarrow> bool" where
  "construct_ok cfg \<longleftrightarrow> index_ok cfg \<and> tracker_cfg_ok cfg \<and> 0 < dream_k cfg \<and> dream_k cfg \<le> rows cfg"

definition fresh_chan :: "Config \<Rightarrow> ChannelState \<Rightarrow> bool" where
  "fresh_chan cfg cs \<longleftrightarrow> fresh_banks cfg (bank_states cs) \<and> four_aw cs = replicate (nat (ranks cfg)) [] \<and>
     refresh_q cs = [] \<and> rfm_q cs = [] \<and> hydra_rd_q cs = [] \<and> hydra_wb_q cs = [] \<and>
     length (rank_idle_cycles cs) = nat (ranks cfg) \<and> rank_is_sref cs = replicate (nat (ranks cfg)) False \<and>
     cactus_alert_pending cs = replicate (nat (ranks cfg)) False \<and> cactus_rfm_inflight cs = replicate (nat (ranks cfg)) False"

lemma mk_ChannelState_ok:
  assumes c: "construct_ok cfg" and sh: "\<And>k xs. mset (shuffle k xs) = mset xs"
  shows "okE (mk_ChannelState cfg shuffle b0 cs0 ch e) (fresh_chan cfg)"
proof -
  have k: "index_ok cfg" "tracker_cfg_ok cfg" "0 < dream_k cfg" "dream_k cfg \<le> rows cfg" "0 < rows cfg" "rows cfg < 2 ^ 31"
    "0 < ranks cfg"
    using c index_bounds [of cfg] by (auto simp: construct_ok_def index_ok_def geometry_ok_def)
  define T where "T = rows cfg div dream_k cfg"
  have T: "0 < T" "T < 2 ^ 31"
    using k pos_imp_zdiv_pos_iff [of "dream_k cfg" "rows cfg"] zdiv_mono2 [of "rows cfg" 1 "dream_k cfg"] by (auto simp: T_def)
  have vr: "vec_of (ranks cfg) 0 = Inr (replicate (nat (ranks cfg)) 0)" and vT: "vec_of T 0 = Inr (replicate (nat T) 0)"
    using k(7) T by (simp_all add: vec_of_ok)
  have dv: "idiv (rows cfg) (dream_k cfg) = Inr T" using k by (simp add: T_def)
  have "uint (word_of_nat (length (replicate (nat T) (0::u32))) :: u32) = T" using T uint_small [of T] by simp
  then have nz: "(word_of_nat (length (replicate (nat T) (0::u32))) :: u32) \<noteq> 0" using T by auto
  show ?thesis
    unfolding mk_ChannelState_def Let_def vr dv bindE_simps vT okE_bindE
    apply (rule okE_mono [OF mk_banks_ok [OF k(5,2)]], clarify)
    apply (subst okE_bindE, rule okE_mono [OF mk_random_masks_ok [OF nz]], clarify)
    apply (subst okE_bindE, rule okE_mono [OF mk_perms_wf [where shuffle = shuffle, OF k(1) sh]])
    apply (simp add: fresh_chan_def split: prod.splits)
    done
qed

lemma mk_ChannelState_parts:
  assumes "mk_ChannelState cfg shuffle b0 cs0 ch e = Inr cs"
  obtains ts e1 e2 where "idiv (rows cfg) (dream_k cfg) = Inr ts" "vec_of ts 0 = Inr (tusc cs)"
    "tusc_size cs = word_of_nat (length (tusc cs))" "mk_random_masks cfg (tusc_size cs) e1 = Inr (random_masks cs, e2)"
    "mk_perms cfg shuffle = Inr (cactus_row_perms cs, cactus_inv_row_perms cs)" "cactus_size cs = word_of_int (rows cfg)"
  using assms that unfolding mk_ChannelState_def Let_def
  by (auto dest!: bindE_InrD split: prod.splits)

lemma mk_cactus_map_ok:
  assumes "index_ok cfg" "cactus_policy cfg = 0 \<or> cactus_policy cfg = 1" "\<And>k xs. mset (shuffle k xs) = mset xs"
    "mk_ChannelState cfg shuffle b0 cs0 ch e = Inr cs"
  shows "cactus_map_ok cfg cs"
proof -
  have "perms_wf cfg (cactus_row_perms cs) (cactus_inv_row_perms cs)" "cactus_size cs = word_of_int (rows cfg)"
    using mk_perms_wf [where shuffle = shuffle, OF assms(1,3)] by (auto intro: mk_ChannelState_parts [OF assms(4)])
  then show ?thesis using assms(1,2) by (auto simp: cactus_map_ok_def)
qed

definition dream_cfg_ok :: "Config \<Rightarrow> bool" where
  "dream_cfg_ok cfg \<longleftrightarrow> index_ok cfg \<and> rows cfg < 2 ^ 30 \<and> 0 < dream_k cfg \<and> rows cfg mod dream_k cfg = 0 \<and>
     total cfg * dream_k cfg < 2 ^ 31 \<and> dream_policy cfg \<in> {0, 1, 2} \<and>
     (dream_policy cfg = 1 \<longrightarrow> total cfg \<le> rows cfg div dream_k cfg) \<and>
     (dream_policy cfg = 2 \<longrightarrow> (\<exists>n. rows cfg div dream_k cfg = 2 ^ n))"

lemma mk_dream_map_ok:
  assumes c: "dream_cfg_ok cfg" and mk: "mk_ChannelState cfg shuffle b0 cs0 ch e = Inr cs"
  shows "dream_map_ok cfg cs"
proof -
  obtain ts e1 e2 where ts: "idiv (rows cfg) (dream_k cfg) = Inr ts" "vec_of ts 0 = Inr (tusc cs)"
    "tusc_size cs = word_of_nat (length (tusc cs))" "mk_random_masks cfg (tusc_size cs) e1 = Inr (random_masks cs, e2)"
    by (rule mk_ChannelState_parts [OF mk])
  have k: "index_ok cfg" "0 < dream_k cfg" "rows cfg mod dream_k cfg = 0" "0 < rows cfg" "rows cfg < 2 ^ 30"
    using c by (auto simp: dream_cfg_ok_def index_ok_def)
  define T where "T = rows cfg div dream_k cfg"
  have T: "rows cfg = dream_k cfg * T" using k(3) unfolding T_def by fastforce
  then have "0 < T" using k(2,4) zero_less_mult_pos by fastforce
  then have "T \<le> rows cfg" using mult_right_mono [of 1 "dream_k cfg" T] k(2) T by simp
  have "ts = T" using ts(1) k by (simp add: T_def)
  then have "tusc cs = replicate (nat T) (0 :: u32)" using ts(2) \<open>0 < T\<close> vec_of_ok [of T 0] by (metis Inr_inject less_imp_le)
  then have "tusc_size cs = word_of_int T" using ts(3) \<open>0 < T\<close> by simp
  moreover have "T < 2 ^ 31" using \<open>T \<le> rows cfg\<close> k(5) by simp
  ultimately have uT: "uint (tusc_size cs) = T" using uint_small [of T] \<open>0 < T\<close> by simp
  have "0 \<le> total cfg * dream_k cfg" "total cfg * dream_k cfg < 2 ^ 31"
    using c index_bounds(1) [OF k(1)] k(2) by (auto simp: dream_cfg_ok_def)
  then have n: "uint (word_of_int (ranks cfg * bankgroups cfg * banks_per_group cfg * dream_k cfg) :: u32) = total cfg * dream_k cfg"
    using uint_small [of "total cfg * dream_k cfg"] by (simp add: total_def)
  have "tusc_size cs \<noteq> 0" using uT \<open>0 < T\<close> by auto
  then have m: "length (random_masks cs) = nat (total cfg * dream_k cfg)" "\<forall>m\<in>set (random_masks cs). m < tusc_size cs"
    using mk_random_masks_ok [of "tusc_size cs" cfg e1] unfolding ts(4) n by simp_all
  show ?thesis
    using c m k(5) T unfolding dream_map_ok_def uT dream_cfg_ok_def T_def [symmetric] by auto
qed

section \<open>Properties\<close>

text \<open>
  C33. The constructor of the channel state raises no error for a sensible configuration and
  establishes what every run needs: the array of banks has the shape of the configuration, every
  bank is well-formed, closed and free of timing constraints, and the activation windows, the
  queues and the alert flags are empty.
\<close>

theorem constructed_channel_is_fresh:
  assumes "construct_ok cfg" "\<And>k xs. mset (shuffle k xs) = mset xs"
  shows "\<exists>cs. mk_ChannelState cfg shuffle b0 cs0 ch e = Inr cs \<and> timed cfg cs \<and>
    (\<forall>p\<in>positions cfg. bank_wf cfg (the_bank cs p) \<and> b_state (the_bank cs p) = CLOSED \<and>
      cmd_timing (the_bank cs p) = replicate 18 0) \<and>
    four_aw cs = replicate (nat (ranks cfg)) [] \<and> refresh_q cs = [] \<and> rfm_q cs = [] \<and>
    cactus_alert_pending cs = replicate (nat (ranks cfg)) False \<and> cactus_rfm_inflight cs = replicate (nat (ranks cfg)) False"
proof -
  obtain cs where cs: "mk_ChannelState cfg shuffle b0 cs0 ch e = Inr cs" "fresh_chan cfg cs"
    using mk_ChannelState_ok [where shuffle = shuffle, OF assms, of b0 cs0 ch e] by (auto simp: okE_iff)
  then have "fresh_banks cfg (bank_states cs)" by (simp add: fresh_chan_def)
  note f = fresh_banks_at [OF this, unfolded fresh_bank_def]
  with cs show ?thesis by (auto simp: fresh_chan_def timed_def)
qed

lemma tiny_construct_ok: "construct_ok tiny_cfg"
  by code_simp

theorem constructed_channel_is_fresh_witness:
  "\<exists>cs. mk_ChannelState tiny_cfg (\<lambda>_. rev) tiny_bank tiny_chan 0 tiny_env = Inr cs \<and> timed tiny_cfg cs \<and> four_aw cs = [[]]"
  using constructed_channel_is_fresh [where shuffle = "\<lambda>_. rev", OF tiny_construct_ok, of tiny_bank tiny_chan 0 tiny_env]
  by auto

text \<open>
  C34. CACTUS, both policies: in a channel built by the constructor, the counter that an activation
  of a row is counted in lies in the table of the row's rank, and the row that the mitigation of
  that counter refreshes in the same bank is the activated row. For the random policy this needs of
  \<open>std::shuffle\<close> only that it permutes its range.
\<close>

theorem cactus_counter_identifies_row:
  assumes "index_ok cfg" "cactus_policy cfg = 0 \<or> cactus_policy cfg = 1" "\<And>k xs. mset (shuffle k xs) = mset xs"
    and "mk_ChannelState cfg shuffle b0 cs0 ch e = Inr cs"
    and "(i, j, k) \<in> positions cfg" "row_ok cfg r"
  shows "\<exists>w. get_cactus_idx cfg cs (word_of_int i) (word_of_int j) (word_of_int k) (word_of_int r) = Inr w \<and>
    i * rows cfg \<le> uint w \<and> uint w < (i + 1) * rows cfg \<and>
    get_cactus_row_idx cfg cs (word_of_int i) (word_of_int j) (word_of_int k) w = Inr (word_of_int r)"
  by (rule cactus_index_round_trip [OF mk_cactus_map_ok [OF assms(1-4)] assms(5,6)]) blast

definition tiny_random :: Config where
  "tiny_random = tiny_cfg\<lparr>cactus_policy := 1, dream_policy := 2\<rparr>"

lemma tiny_random_ok:
  "construct_ok tiny_random" "index_ok tiny_random" "dream_cfg_ok tiny_random" "(0, 1, 1) \<in> positions tiny_random" "row_ok tiny_random 3"
  "cactus_policy tiny_random = 1"
proof -
  show "construct_ok tiny_random" by code_simp
  then show "index_ok tiny_random" by (simp add: construct_ok_def)
  then show "dream_cfg_ok tiny_random"
    by (auto simp: dream_cfg_ok_def tiny_random_def total_def tiny_cfg_def intro!: exI [of _ 4])
qed (simp_all add: positions_def row_ok_def tiny_random_def)

theorem cactus_counter_identifies_row_witness:
  "\<exists>cs w. mk_ChannelState tiny_random (\<lambda>_. rev) tiny_bank tiny_chan 0 tiny_env = Inr cs \<and>
     get_cactus_idx tiny_random cs 0 1 1 3 = Inr w \<and> uint w < 16 \<and> get_cactus_row_idx tiny_random cs 0 1 1 w = Inr 3"
proof -
  obtain cs where mk: "mk_ChannelState tiny_random (\<lambda>_. rev) tiny_bank tiny_chan 0 tiny_env = Inr cs"
    using mk_ChannelState_ok [where shuffle = "\<lambda>_. rev", OF tiny_random_ok(1), of tiny_bank tiny_chan 0 tiny_env]
    by (auto simp: okE_iff)
  have "rows tiny_random = 16" by (simp add: tiny_random_def)
  then show ?thesis
    using mk cactus_counter_identifies_row [where shuffle = "\<lambda>_. rev" and r = 3, OF tiny_random_ok(2) disjI2 [OF tiny_random_ok(6)] _ mk tiny_random_ok(4,5)]
    by auto
qed

text \<open>
  C35. DREAM, all three policies: in a channel built by the constructor, the counter of an activated
  row lies in the table, and the row is one of the \<open>dream_k\<close> rows of its bank for which a hot counter
  inserts mitigation requests.
\<close>

theorem dream_counter_covers_row:
  assumes "dream_cfg_ok cfg" "mk_ChannelState cfg shuffle b0 cs0 ch e = Inr cs" "(i, j, k) \<in> positions cfg" "row_ok cfg r"
  shows "\<exists>c l. get_tusc_idx cfg cs (word_of_int i) (word_of_int j) (word_of_int k) (word_of_int r) = Inr c \<and> c < tusc_size cs \<and>
    0 \<le> l \<and> l < dream_k cfg \<and>
    get_row_idx cfg cs (word_of_int i) (word_of_int j) (word_of_int k) c (word_of_int l) = Inr (word_of_int r)"
  using dream_round_trip [OF mk_dream_map_ok [OF assms(1,2)] assms(3,4)] by (simp add: dream_returns_def)

theorem dream_counter_covers_row_witness:
  "\<exists>cs c l. mk_ChannelState tiny_random (\<lambda>_. rev) tiny_bank tiny_chan 0 tiny_env = Inr cs \<and>
     get_tusc_idx tiny_random cs 0 1 1 3 = Inr c \<and> c < tusc_size cs \<and>
     0 \<le> l \<and> l < dream_k tiny_random \<and> get_row_idx tiny_random cs 0 1 1 c (word_of_int l) = Inr 3"
proof -
  obtain cs where mk: "mk_ChannelState tiny_random (\<lambda>_. rev) tiny_bank tiny_chan 0 tiny_env = Inr cs"
    using mk_ChannelState_ok [where shuffle = "\<lambda>_. rev", OF tiny_random_ok(1), of tiny_bank tiny_chan 0 tiny_env]
    by (auto simp: okE_iff)
  show ?thesis
    using mk dream_counter_covers_row [OF tiny_random_ok(3) mk tiny_random_ok(4,5)] by auto
qed

end
