(* ===== verification/Refresh.thy ===== *)
theory Refresh
  imports Channel_Index
begin

text \<open>
  refresh.h and refresh.cc: the generator of refresh requests. Every \<open>refresh_interval\<close> cycles it
  queues one request in the channel state and moves on to the next rank, bank set or bank. The
  generator and the channel it writes to are threaded as a pair; everything else that happens to the
  channel between two ticks is left open.
\<close>

section \<open>The generator\<close>

record Refresh =
  rf_clk :: u64
  refresh_interval :: int
  rf_policy :: RefreshPolicy
  next_rank :: int
  next_bg :: int
  next_bank :: int

definition mk_Refresh :: "Config \<Rightarrow> Refresh res" where
  "mk_Refresh cfg =
     bindE (if refresh_policy cfg = RANK_LEVEL_SIMULTANEOUS then Inr (tREFI cfg)
            else if refresh_policy cfg = BANKSET_LEVEL_STAGGERED then idiv (tREFIsb cfg) (banks_per_group cfg)
            else if refresh_policy cfg = BANK_LEVEL_STAGGERED then Inr (tREFIb cfg)
            else idiv (tREFI cfg) (ranks cfg)) (\<lambda>n.
     Inr \<lparr>rf_clk = 0, refresh_interval = n, rf_policy = refresh_policy cfg, next_rank = 0, next_bg = 0, next_bank = 0\<rparr>)"

definition advance_rank :: "Config \<Rightarrow> Refresh \<Rightarrow> Refresh res" where
  "advance_rank cfg rf = bindE (imod (next_rank rf + 1) (ranks cfg)) (\<lambda>r. Inr (rf\<lparr>next_rank := r\<rparr>))"

definition advance_bank :: "Config \<Rightarrow> Refresh \<Rightarrow> Refresh res" where
  "advance_bank cfg rf =
     bindE (imod (next_bank rf + 1) (banks_per_group cfg)) (\<lambda>b.
     let rf = rf\<lparr>next_bank := b\<rparr> in if b = 0 then advance_rank cfg rf else Inr rf)"

definition advance_bg :: "Config \<Rightarrow> Refresh \<Rightarrow> Refresh res" where
  "advance_bg cfg rf =
     bindE (imod (next_bg rf + 1) (bankgroups cfg)) (\<lambda>g.
     let rf = rf\<lparr>next_bg := g\<rparr> in if g = 0 then advance_bank cfg rf else Inr rf)"

text \<open>The case of bank sets has no \<open>return\<close> and runs on into the case of banks.\<close>

definition IterateNext :: "Config \<Rightarrow> Refresh \<Rightarrow> Refresh res" where
  "IterateNext cfg rf =
     (case rf_policy rf of
        RANK_LEVEL_STAGGERED \<Rightarrow> advance_rank cfg rf
      | BANKSET_LEVEL_STAGGERED \<Rightarrow> bindE (advance_bank cfg rf) (advance_bg cfg)
      | BANK_LEVEL_STAGGERED \<Rightarrow> advance_bg cfg rf
      | _ \<Rightarrow> Inl AbruptExit)"

definition InsertRefresh :: "Config \<Rightarrow> Refresh \<times> ChannelState \<Rightarrow> (Refresh \<times> ChannelState) res" where
  "InsertRefresh cfg = (\<lambda>(rf, cs).
     let unless_sref = (\<lambda>f. bindE (IsRankSelfRefreshing cs (next_rank rf)) (\<lambda>s.
           bindE (IterateNext cfg rf) (\<lambda>rf'. Inr (rf', if s then cs else f cs)))) in
     case rf_policy rf of
       RANK_LEVEL_SIMULTANEOUS \<Rightarrow>
         bindE (find_forE (ranks cfg) (\<lambda>i. bindE (IsRankSelfRefreshing cs i) (\<lambda>s. Inr (\<not> s)))) (\<lambda>f.
         Inr (rf, case f of None \<Rightarrow> cs | Some i \<Rightarrow> RankNeedRefresh i True cs))
     | RANK_LEVEL_STAGGERED \<Rightarrow> unless_sref (RankNeedRefresh (next_rank rf) True)
     | BANKSET_LEVEL_STAGGERED \<Rightarrow> unless_sref (BanksetNeedRefresh (next_rank rf) (next_bank rf) True)
     | BANK_LEVEL_STAGGERED \<Rightarrow> unless_sref (BankNeedRefresh (next_rank rf) (next_bg rf) (next_bank rf) True)
     | NO_REFRESH \<Rightarrow> Inr (rf, cs)
     | _ \<Rightarrow> Inl AbruptExit)"

definition refresh_ClockTick :: "Config \<Rightarrow> Refresh \<times> ChannelState \<Rightarrow> (Refresh \<times> ChannelState) res" where
  "refresh_ClockTick cfg = (\<lambda>(rf, cs).
     bindE (umod (rf_clk rf) (word_of_int (refresh_interval rf))) (\<lambda>m.
     bindE (if m = 0 \<and> rf_clk rf > 0 then InsertRefresh cfg (rf, cs) else Inr (rf, cs)) (\<lambda>(rf, cs).
     Inr (rf\<lparr>rf_clk := rf_clk rf + 1\<rparr>, cs))))"

section \<open>The schedule\<close>

text \<open>
  The staggered policies walk through the slots \<open>0, \<dots>, slots - 1\<close> in a circle; \<open>target\<close> is the
  request of a slot: banks are visited with the bank group running fastest and the rank slowest.
\<close>

definition slots :: "Config \<Rightarrow> int" where
  "slots cfg = (if refresh_policy cfg = RANK_LEVEL_STAGGERED then ranks cfg
     else ranks cfg * banks_per_group cfg * bankgroups cfg)"

definition slot :: "Config \<Rightarrow> Refresh \<Rightarrow> int" where
  "slot cfg rf = (if refresh_policy cfg = RANK_LEVEL_STAGGERED then next_rank rf
     else (next_rank rf * banks_per_group cfg + next_bank rf) * bankgroups cfg + next_bg rf)"

definition target :: "Config \<Rightarrow> int \<Rightarrow> Command" where
  "target cfg s =
     (if refresh_policy cfg = RANK_LEVEL_STAGGERED
      then mk_Command REFab (mk_Address (-1) s (-1) (-1) (-1) (-1)) no_hex
      else mk_Command REFRESH_BANK (mk_Address (-1) (s div bankgroups cfg div banks_per_group cfg)
             (s mod bankgroups cfg) (s div bankgroups cfg mod banks_per_group cfg) (-1) (-1)) no_hex)"

definition rf_ok :: "Config \<Rightarrow> Refresh \<Rightarrow> bool" where
  "rf_ok cfg rf \<longleftrightarrow> rf_policy rf = refresh_policy cfg \<and> 0 \<le> next_rank rf \<and> next_rank rf < ranks cfg \<and>
     0 \<le> next_bank rf \<and> next_bank rf < banks_per_group cfg \<and> 0 \<le> next_bg rf \<and> next_bg rf < bankgroups cfg"

definition staggered :: "Config \<Rightarrow> bool" where
  "staggered cfg \<longleftrightarrow> refresh_policy cfg = RANK_LEVEL_STAGGERED \<or> refresh_policy cfg = BANK_LEVEL_STAGGERED"

lemma target_slot:
  assumes "rf_ok cfg rf" "refresh_policy cfg = BANK_LEVEL_STAGGERED"
  shows "target cfg (slot cfg rf) =
    mk_Command REFRESH_BANK (mk_Address (-1) (next_rank rf) (next_bg rf) (next_bank rf) (-1) (-1)) no_hex"
  using assms by (simp add: target_def slot_def rf_ok_def div_pos_pos_trivial mod_pos_pos_trivial)

lemma next_mod: "0 \<le> (x::int) \<Longrightarrow> x < n \<Longrightarrow> imod (x + 1) n = Inr (if x + 1 = n then 0 else x + 1)"
  by (simp add: mod_pos_pos_trivial)

text \<open>One step of the walk.\<close>

lemma IterateNext_slot:
  assumes ok: "rf_ok cfg rf" and st: "staggered cfg"
  shows "okE (IterateNext cfg rf) (\<lambda>rf'. slot cfg rf' = (slot cfg rf + 1) mod slots cfg \<and> rf_ok cfg rf' \<and>
    rf_clk rf' = rf_clk rf \<and> refresh_interval rf' = refresh_interval rf)"
proof (cases "refresh_policy cfg = RANK_LEVEL_STAGGERED")
  case True
  with ok show ?thesis
    by (auto simp: IterateNext_def advance_rank_def next_mod slot_def slots_def rf_ok_def mod_pos_pos_trivial)
next
  case False
  let ?R = "ranks cfg" and ?B = "banks_per_group cfg" and ?G = "bankgroups cfg"
  let ?r = "next_rank rf" and ?b = "next_bank rf" and ?g = "next_bg rf"
  have pol: "rf_policy rf = BANK_LEVEL_STAGGERED" using False ok st by (auto simp: rf_ok_def staggered_def)
  have r: "0 \<le> ?r" "?r < ?R" "0 \<le> ?b" "?b < ?B" "0 \<le> ?g" "?g < ?G" using ok by (auto simp: rf_ok_def)
  have fits: "(x * ?B + y) * ?G + z < ?R * ?B * ?G" if "0 \<le> x" "x < ?R" "0 \<le> y" "y < ?B" "0 \<le> z" "z < ?G" for x y z
  proof -
    have "x * ?B + y + 1 \<le> ?R * ?B" using mult_right_mono [of "x + 1" ?R ?B] that by (simp add: algebra_simps)
    then have "(x * ?B + y + 1) * ?G \<le> ?R * ?B * ?G" using that by (intro mult_right_mono) auto
    then show ?thesis using that by (simp add: algebra_simps)
  qed
  have it: "IterateNext cfg rf = Inr (if ?g + 1 < ?G then rf\<lparr>next_bg := ?g + 1\<rparr>
      else if ?b + 1 < ?B then rf\<lparr>next_bg := 0, next_bank := ?b + 1\<rparr>
      else rf\<lparr>next_bg := 0, next_bank := 0, next_rank := (if ?r + 1 = ?R then 0 else ?r + 1)\<rparr>)"
  proof -
    have "(?g + 1 < ?G) = (?g + 1 \<noteq> ?G)" "(?b + 1 < ?B) = (?b + 1 \<noteq> ?B)" using r by auto
    then show ?thesis
      using pol r by (simp add: IterateNext_def advance_bg_def advance_bank_def advance_rank_def next_mod Let_def del: imod_ok)
  qed
  have carry: "(x * (y + 1) + y) * (z + 1) + z + 1 = (x + 1) * (y + 1) * (z + 1)" for x y z :: int
    by (simp add: algebra_simps)
  consider (g) "?g + 1 < ?G" | (b) "?g + 1 = ?G" "?b + 1 < ?B" | (k) "?g + 1 = ?G" "?b + 1 = ?B" "?r + 1 < ?R"
    | (wrap) "?g + 1 = ?G" "?b + 1 = ?B" "?r + 1 = ?R" using r by linarith
  then show ?thesis
  proof cases
    case g
    then show ?thesis using False r ok fits [of ?r ?b "?g + 1"] by (simp add: it slot_def slots_def rf_ok_def add.assoc)
  next
    case b
    then have "(?r * ?B + ?b) * ?G + ?g + 1 = (?r * ?B + (?b + 1)) * ?G" by (simp add: algebra_simps)
    then show ?thesis using False b r ok fits [of ?r "?b + 1" 0] by (simp add: it slot_def slots_def rf_ok_def)
  next
    case k
    then have "(?r * ?B + ?b) * ?G + ?g + 1 = (?r + 1) * ?B * ?G" using carry [of ?r ?b ?g] by simp
    then show ?thesis using False k ok fits [of "?r + 1" 0 0] \<open>0 \<le> ?r\<close> by (simp add: it slot_def slots_def rf_ok_def)
  next
    case wrap
    then have "(?r * ?B + ?b) * ?G + ?g + 1 = ?R * ?B * ?G" using carry [of ?r ?b ?g] by simp
    then show ?thesis using False wrap ok \<open>0 \<le> ?r\<close> by (simp add: it slot_def slots_def rf_ok_def)
  qed
qed

definition awake :: "Config \<Rightarrow> ChannelState \<Rightarrow> bool" where
  "awake cfg cs \<longleftrightarrow> rank_is_sref cs = replicate (nat (ranks cfg)) False"

lemma InsertRefresh_target:
  assumes ok: "rf_ok cfg rf" and st: "staggered cfg" and aw: "awake cfg cs"
  shows "okE (InsertRefresh cfg (rf, cs)) (\<lambda>(rf', cs'). cs' = cs\<lparr>refresh_q := refresh_q cs @ [target cfg (slot cfg rf)]\<rparr> \<and>
    slot cfg rf' = (slot cfg rf + 1) mod slots cfg \<and> rf_ok cfg rf' \<and> rf_clk rf' = rf_clk rf \<and>
    refresh_interval rf' = refresh_interval rf)"
proof -
  have s: "IsRankSelfRefreshing cs (next_rank rf) = Inr False"
    using ok aw by (simp add: IsRankSelfRefreshing_def awake_def rf_ok_def inrange_def vget_def nat_less_iff)
  obtain rf' where rf': "IterateNext cfg rf = Inr rf'" "slot cfg rf' = (slot cfg rf + 1) mod slots cfg" "rf_ok cfg rf'"
    "rf_clk rf' = rf_clk rf" "refresh_interval rf' = refresh_interval rf"
    using IterateNext_slot [OF ok st] by (auto simp: okE_iff)
  have p: "rf_policy rf = refresh_policy cfg" using ok by (simp add: rf_ok_def)
  show ?thesis
  proof (cases "refresh_policy cfg = RANK_LEVEL_STAGGERED")
    case True
    then show ?thesis using rf' s p by (simp add: InsertRefresh_def RankNeedRefresh_def target_def slot_def)
  next
    case False
    then have "refresh_policy cfg = BANK_LEVEL_STAGGERED" using st by (simp add: staggered_def)
    then show ?thesis using rf' s p target_slot [OF ok] by (simp add: InsertRefresh_def BankNeedRefresh_def)
  qed
qed

text \<open>The ticks of the generator on the channel states it meets, and the requests each tick queues.\<close>

fun refresh_ticks :: "Config \<Rightarrow> Refresh \<Rightarrow> ChannelState list \<Rightarrow> (Refresh \<times> Command list list) res" where
  "refresh_ticks cfg rf [] = Inr (rf, [])"
| "refresh_ticks cfg rf (cs # css) =
     bindE (refresh_ClockTick cfg (rf, cs)) (\<lambda>(rf, cs').
     bindE (refresh_ticks cfg rf css) (\<lambda>(rf, qs).
     Inr (rf, drop (length (refresh_q cs)) (refresh_q cs') # qs)))"

definition due :: "Config \<Rightarrow> nat \<Rightarrow> nat \<Rightarrow> Command list" where
  "due cfg n t = (if 0 < t \<and> t mod n = 0 then [target cfg (int (t div n - 1) mod slots cfg)] else [])"

text \<open>Before tick \<open>t\<close> the generator stands at the slot of the next request.\<close>

definition at_tick :: "Config \<Rightarrow> nat \<Rightarrow> nat \<Rightarrow> Refresh \<Rightarrow> bool" where
  "at_tick cfg n t rf \<longleftrightarrow> rf_ok cfg rf \<and> unat (rf_clk rf) = t \<and> refresh_interval rf = int n \<and>
     slot cfg rf = int ((t - 1) div n) mod slots cfg"

lemma refresh_tick_due:
  assumes at: "at_tick cfg n t rf" and st: "staggered cfg" and aw: "awake cfg cs" and n: "0 < n" "n < 2 ^ 64" "Suc t < 2 ^ 64"
  shows "okE (refresh_ClockTick cfg (rf, cs)) (\<lambda>(rf', cs'). at_tick cfg n (Suc t) rf' \<and>
    drop (length (refresh_q cs)) (refresh_q cs') = due cfg n t)"
proof -
  have rf: "rf_ok cfg rf" "unat (rf_clk rf) = t" "refresh_interval rf = int n"
    "slot cfg rf = int ((t - 1) div n) mod slots cfg" using at by (auto simp: at_tick_def)
  have un: "unat (word_of_nat n :: u64) = n" using n(2) by (simp add: unat_of_nat take_bit_nat_eq_self)
  then have nz: "(word_of_nat n :: u64) \<noteq> 0" using n(1) by auto
  have m: "rf_clk rf mod word_of_nat n = 0 \<longleftrightarrow> t mod n = 0"
    by (metis rf(2) un unat_mod unat_eq_zero)
  have pos: "rf_clk rf > 0 \<longleftrightarrow> 0 < t" using rf(2) by (auto simp: word_less_nat_alt)
  have clk: "unat (rf_clk rf + 1) = Suc t" using n(3) rf(2) by (simp add: unat_word_ariths)
  show ?thesis
  proof (cases "0 < t \<and> t mod n = 0")
    case False
    then have "t div n = (t - 1) div n" by (cases t) (auto simp: div_Suc)
    with False show ?thesis
      using nz rf clk by (auto simp: refresh_ClockTick_def m pos at_tick_def due_def rf_ok_def slot_def)
  next
    case True
    then have "t div n = Suc ((t - 1) div n)" by (cases t) (auto simp: div_Suc)
    then have s: "int (t div n - 1) = int ((t - 1) div n)" "(int ((t - 1) div n) mod slots cfg + 1) mod slots cfg = int (t div n) mod slots cfg"
      by (auto simp: mod_simps add.commute)
    obtain rf' where i: "InsertRefresh cfg (rf, cs) = Inr (rf', cs\<lparr>refresh_q := refresh_q cs @ [target cfg (slot cfg rf)]\<rparr>)"
      "slot cfg rf' = (slot cfg rf + 1) mod slots cfg" "rf_ok cfg rf'" "rf_clk rf' = rf_clk rf" "refresh_interval rf' = refresh_interval rf"
      using InsertRefresh_target [OF rf(1) st aw] by (auto simp: okE_iff)
    have k: "slot cfg (rf'\<lparr>rf_clk := c\<rparr>) = slot cfg rf'" "rf_ok cfg (rf'\<lparr>rf_clk := c\<rparr>) = rf_ok cfg rf'" for c
      by (simp_all add: slot_def rf_ok_def)
    show ?thesis
      using True nz rf(3) i clk s rf(4) by (simp add: refresh_ClockTick_def m pos at_tick_def due_def k)
  qed
qed

lemma refresh_ticks_due:
  assumes "at_tick cfg n t rf" "staggered cfg" "\<forall>cs\<in>set css. awake cfg cs" "0 < n" "n < 2 ^ 64" "t + length css < 2 ^ 64"
  shows "okE (refresh_ticks cfg rf css) (\<lambda>(rf', qs). qs = map (due cfg n) [t..<t + length css])"
  using assms
proof (induction css arbitrary: t rf)
  case (Cons cs css)
  then obtain rf' cs' where k: "refresh_ClockTick cfg (rf, cs) = Inr (rf', cs')" "at_tick cfg n (Suc t) rf'"
    "drop (length (refresh_q cs)) (refresh_q cs') = due cfg n t"
    using refresh_tick_due [of cfg n t rf cs] by (auto simp: okE_iff)
  have "okE (refresh_ticks cfg rf' css) (\<lambda>(rf', qs). qs = map (due cfg n) [Suc t..<Suc t + length css])"
    using Cons k by (intro Cons.IH) auto
  moreover have "[t..<t + length (cs # css)] = t # [Suc t..<Suc t + length css]" by (simp add: upt_conv_Cons del: upt_Suc)
  ultimately show ?case using k by (auto simp: okE_iff simp del: upt_Suc)
qed simp

section \<open>Properties\<close>


definition tiny_refresh :: Config where
  "tiny_refresh = tiny_cfg\<lparr>refresh_policy := BANK_LEVEL_STAGGERED, tREFIb := 2\<rparr>"


text \<open>
  With \<open>RANK_LEVEL_SIMULTANEOUS\<close> the loop over the ranks stops at the first rank that is not in
  self refresh: a refresh that is meant for all ranks is requested for one of them only, and as
  long as rank 0 is awake no other rank is ever refreshed.
\<close>

theorem simultaneous_refreshes_one_rank:
  assumes "rf_policy rf = RANK_LEVEL_SIMULTANEOUS" "awake cfg cs" "0 < ranks cfg"
  shows "InsertRefresh cfg (rf, cs) = Inr (rf, cs\<lparr>refresh_q := refresh_q cs @
    [mk_Command REFab (mk_Address (-1) 0 (-1) (-1) (-1) (-1)) no_hex]\<rparr>)"
proof -
  have "find_forE (ranks cfg) (\<lambda>i. bindE (IsRankSelfRefreshing cs i) (\<lambda>s. Inr (\<not> s))) =
    Inr (map_option int (find (\<lambda>_. True) [0..<nat (ranks cfg)]))"
    using assms(2,3) by (intro find_forE_eq) (auto simp: IsRankSelfRefreshing_def awake_def vget_def inrange_def nat_less_iff)
  moreover have "find (\<lambda>_. True) [0..<nat (ranks cfg)] = Some 0" using assms(3) by (simp add: upt_rec)
  ultimately show ?thesis using assms(1) by (simp add: InsertRefresh_def RankNeedRefresh_def Let_def)
qed

definition two_ranks :: ChannelState where
  "two_ranks = tiny_chan\<lparr>rank_is_sref := [False, False]\<rparr>"

definition simultaneous :: Refresh where
  "simultaneous = \<lparr>rf_clk = 4, refresh_interval = 2, rf_policy = RANK_LEVEL_SIMULTANEOUS, next_rank = 0, next_bg = 0, next_bank = 0\<rparr>"

theorem simultaneous_refreshes_one_rank_witness:
  "okE (InsertRefresh (tiny_cfg\<lparr>ranks := 2\<rparr>) (simultaneous, two_ranks)) (\<lambda>(rf, cs). map Rank (refresh_q cs) = [0])"
  by (subst simultaneous_refreshes_one_rank)
    (simp_all add: simultaneous_def two_ranks_def awake_def tiny_chan_def numeral_2_eq_2 cmd_fields)

text \<open>
  With \<open>BANKSET_LEVEL_STAGGERED\<close> the missing \<open>return\<close> of \<open>IterateNext\<close> makes the walk skip a bank
  set whenever the bank group counter wraps: with four bank groups of four banks, the first eight
  refreshes go to the bank sets 0, 1, 2, 3, 1, 2, 3, 0, so bank set 0 waits seven intervals instead of four.
\<close>

fun bankset_walk :: "Config \<Rightarrow> nat \<Rightarrow> Refresh \<Rightarrow> int list res" where
  "bankset_walk cfg 0 rf = Inr []"
| "bankset_walk cfg (Suc n) rf =
     bindE (IterateNext cfg rf) (\<lambda>rf'. bindE (bankset_walk cfg n rf') (\<lambda>bs. Inr (next_bank rf # bs)))"

theorem bankset_schedule_skips:
  "okE (mk_Refresh (tiny_cfg\<lparr>refresh_policy := BANKSET_LEVEL_STAGGERED, bankgroups := 4, banks_per_group := 4\<rparr>)) (\<lambda>rf.
     bankset_walk (tiny_cfg\<lparr>refresh_policy := BANKSET_LEVEL_STAGGERED, bankgroups := 4, banks_per_group := 4\<rparr>) 8 rf =
     Inr [0, 1, 2, 3, 1, 2, 3, 0])"
  by code_simp

end
