(* ===== verification/Command_Queue.thy ===== *)
theory Command_Queue
  imports Refresh
begin

text \<open>
  command_queue.h and command_queue.cc: the queues of read and write commands of a channel, one per
  bank or one per rank, the round robin that picks the next command to issue, and the draining of
  refresh and RFM requests. The methods also change the channel state they refer to (through
  its \<open>const\<close> reference: statistics, trackers, queues of requests), which is threaded along.
\<close>

section \<open>The state\<close>

datatype QueueStructure = PER_RANK | PER_BANK | QueueStructure_SIZE

record CommandQueue =
  rank_q_empty :: "bool list"
  q_structure :: QueueStructure
  q_queues :: "Command list list"
  ref_q_indices :: "int set"
  is_in_ref :: bool
  rfm_q_indices :: "int set"
  is_in_rfm :: bool
  num_queues :: int
  queue_size :: u64
  queue_idx :: int
  q_clk :: u64

text \<open>An unknown structure ends the program; a negative \<open>ranks\<close> or number of queues is a huge size.\<close>

definition mk_CommandQueue :: "Config \<Rightarrow> CommandQueue res" where
  "mk_CommandQueue cfg =
     bindE (vec_of (ranks cfg) True) (\<lambda>em.
     bindE (if queue_structure cfg = ''PER_BANK'' then Inr (PER_BANK, banks cfg * ranks cfg)
            else if queue_structure cfg = ''PER_RANK'' then Inr (PER_RANK, ranks cfg)
            else Inl AbruptExit) (\<lambda>(s, n).
     bindE (checkE Thrown (0 \<le> n \<and> (n = 0 \<or> 0 \<le> cmd_queue_size cfg))) (\<lambda>_.
     Inr \<lparr>rank_q_empty = em, q_structure = s, q_queues = replicate (nat n) [], ref_q_indices = {}, is_in_ref = False,
       rfm_q_indices = {}, is_in_rfm = False, num_queues = n, queue_size = word_of_int (cmd_queue_size cfg),
       queue_idx = 0, q_clk = 0\<rparr>)))"

section \<open>Access to the queues\<close>

definition GetQueueIndex :: "Config \<Rightarrow> CommandQueue \<Rightarrow> int \<Rightarrow> int \<Rightarrow> int \<Rightarrow> int" where
  "GetQueueIndex cfg cq rank bankgroup bank =
     (if q_structure cq = PER_RANK then rank
      else rank * banks cfg + bankgroup * banks_per_group cfg + bank)"

definition GetQueue :: "Config \<Rightarrow> CommandQueue \<Rightarrow> int \<Rightarrow> int \<Rightarrow> int \<Rightarrow> Command list res" where
  "GetQueue cfg cq rank bankgroup bank = vget (q_queues cq) (GetQueueIndex cfg cq rank bankgroup bank)"

definition set_queue :: "Config \<Rightarrow> Command \<Rightarrow> Command list \<Rightarrow> CommandQueue \<Rightarrow> CommandQueue res" where
  "set_queue cfg cmd q cq =
     bindE (vset (q_queues cq) (GetQueueIndex cfg cq (Rank cmd) (Bankgroup cmd) (Bank cmd)) q) (\<lambda>qs.
     Inr (cq\<lparr>q_queues := qs\<rparr>))"

definition WillAcceptCommand :: "Config \<Rightarrow> CommandQueue \<Rightarrow> int \<Rightarrow> int \<Rightarrow> int \<Rightarrow> bool res" where
  "WillAcceptCommand cfg cq rank bankgroup bank =
     bindE (GetQueue cfg cq rank bankgroup bank) (\<lambda>q. Inr (length q < unat (queue_size cq)))"

definition QueueEmpty :: "CommandQueue \<Rightarrow> bool" where
  "QueueEmpty cq \<longleftrightarrow> (\<forall>q\<in>set (q_queues cq). q = [])"

definition QueueUsage :: "CommandQueue \<Rightarrow> int" where
  "QueueUsage cq = fold (\<lambda>q usage. usage + int (length q)) (q_queues cq) 0"

definition AddCommand :: "Config \<Rightarrow> Command \<Rightarrow> CommandQueue \<Rightarrow> (bool \<times> CommandQueue) res" where
  "AddCommand cfg cmd cq =
     bindE (GetQueue cfg cq (Rank cmd) (Bankgroup cmd) (Bank cmd)) (\<lambda>q.
     if length q < unat (queue_size cq)
     then bindE (set_queue cfg cmd (q @ [cmd]) cq) (\<lambda>cq.
          bindE (vset (rank_q_empty cq) (Rank cmd) False) (\<lambda>em.
          Inr (True, cq\<lparr>rank_q_empty := em\<rparr>)))
     else Inr (False, cq))"

definition EraseRWCommand :: "Config \<Rightarrow> Command \<Rightarrow> CommandQueue \<Rightarrow> CommandQueue res" where
  "EraseRWCommand cfg cmd cq =
     bindE (GetQueue cfg cq (Rank cmd) (Bankgroup cmd) (Bank cmd)) (\<lambda>q.
     let same = (\<lambda>c. hex_addr cmd = hex_addr c \<and> cmd_type cmd = cmd_type c) in
     if \<exists>c\<in>set q. same c then set_queue cfg cmd (erase_first same q) cq
     else if hex_addr cmd = no_hex then Inr cq
     else Inl ExitFailure)"

definition GetNextQueue :: "CommandQueue \<Rightarrow> (Command list \<times> CommandQueue) res" where
  "GetNextQueue cq =
     (let i = queue_idx cq + 1; i = (if i = num_queues cq then 0 else i) in
      bindE (vget (q_queues cq) i) (\<lambda>q. Inr (q, cq\<lparr>queue_idx := i\<rparr>)))"

section \<open>Which command may go first\<close>

definition same_bank_cmd :: "Command \<Rightarrow> Command \<Rightarrow> bool" where
  "same_bank_cmd c d \<longleftrightarrow> Rank d = Rank c \<and> Bankgroup d = Bankgroup c \<and> Bank d = Bank c"

text \<open>\<open>ahead\<close> are the commands of the queue in front of \<open>cmd\<close>, \<open>behind\<close> those after it.\<close>

definition ArbitratePrecharge :: "Command list \<Rightarrow> Command \<Rightarrow> Command list \<Rightarrow> ChannelState \<Rightarrow> (bool \<times> ChannelState) res" where
  "ArbitratePrecharge ahead cmd behind cs =
     (if \<exists>c\<in>set ahead. same_bank_cmd cmd c then Inr (False, cs)
      else
        bindE (c_OpenRow cs (Rank cmd) (Bankgroup cmd) (Bank cmd)) (\<lambda>open_row.
        let pending_row_hits_exist = (\<exists>c\<in>set (cmd # behind). Row c = open_row \<and> same_bank_cmd cmd c) in
        bindE (c_RowHitCount cs (Rank cmd) (Bankgroup cmd) (Bank cmd)) (\<lambda>n.
        if \<not> pending_row_hits_exist \<or> n \<ge> 4 then Inr (True, c_stat_inc ''num_ondemand_pres'' cs)
        else Inr (False, cs))))"

definition HasRWDependency :: "Command list \<Rightarrow> Command \<Rightarrow> bool" where
  "HasRWDependency ahead cmd \<longleftrightarrow> (\<exists>c\<in>set ahead. IsRead c \<and> Row c = Row cmd \<and> Column c = Column cmd \<and>
     Bank c = Bank cmd \<and> Bankgroup c = Bankgroup cmd)"

fun first_ready ::
    "Config \<Rightarrow> u64 \<Rightarrow> Command list \<Rightarrow> Command list \<Rightarrow> ChannelState \<Rightarrow> (Command \<times> ChannelState) res" where
  "first_ready cfg clk ahead [] cs = Inr (Command_default, cs)"
| "first_ready cfg clk ahead (c # behind) cs =
     bindE (GetReadyHydraCommand cfg clk cs) (\<lambda>(hydra_cmd, cs).
     if IsValid hydra_cmd then Inr (hydra_cmd, cs)
     else
       bindE (GetReadyCommand cfg c clk cs) (\<lambda>(cmd, cs).
       if \<not> IsValid cmd then first_ready cfg clk (ahead @ [c]) behind cs
       else if cmd_type cmd = PRECHARGE
       then bindE (ArbitratePrecharge ahead c behind cs) (\<lambda>(ok, cs).
            if ok then Inr (cmd, cs) else first_ready cfg clk (ahead @ [c]) behind cs)
       else if IsWrite cmd \<and> HasRWDependency ahead c then first_ready cfg clk (ahead @ [c]) behind cs
       else Inr (cmd, cs)))"

definition GetFirstReadyInQueue ::
    "Config \<Rightarrow> CommandQueue \<Rightarrow> Command list \<Rightarrow> ChannelState \<Rightarrow> (Command \<times> ChannelState) res" where
  "GetFirstReadyInQueue cfg cq q cs = first_ready cfg (q_clk cq) [] q cs"

text \<open>The loop of \<open>GetCommandToIssue\<close>: the given number of queues are asked in turn.\<close>

fun issue_loop ::
    "Config \<Rightarrow> nat \<Rightarrow> CommandQueue \<times> ChannelState \<Rightarrow> (Command \<times> CommandQueue \<times> ChannelState) res" where
  "issue_loop cfg 0 (cq, cs) = Inr (Command_default, cq, cs)"
| "issue_loop cfg (Suc n) (cq, cs) =
     bindE (GetNextQueue cq) (\<lambda>(q, cq).
     if is_in_ref cq \<and> queue_idx cq \<in> ref_q_indices cq \<or> is_in_rfm cq \<and> queue_idx cq \<in> rfm_q_indices cq
     then issue_loop cfg n (cq, cs)
     else
       bindE (GetFirstReadyInQueue cfg cq q cs) (\<lambda>(cmd, cs).
       if IsValid cmd
       then bindE (if IsReadWrite cmd then EraseRWCommand cfg cmd cq else Inr cq) (\<lambda>cq. Inr (cmd, cq, cs))
       else issue_loop cfg n (cq, cs)))"

definition GetCommandToIssue ::
    "Config \<Rightarrow> CommandQueue \<times> ChannelState \<Rightarrow> (Command \<times> CommandQueue \<times> ChannelState) res" where
  "GetCommandToIssue cfg s = issue_loop cfg (nat (num_queues (fst s))) s"

section \<open>Refresh and RFM\<close>

text \<open>The queues that a maintenance command blocks, by whether it addresses a rank, a bank set or a bank.\<close>

definition rank_indices :: "Config \<Rightarrow> CommandQueue \<Rightarrow> Command \<Rightarrow> int set res" where
  "rank_indices cfg cq c =
     (if q_structure cq = PER_BANK
      then forE (num_queues cq) (\<lambda>i s. bindE (idiv i (banks cfg)) (\<lambda>r. Inr (if r = Rank c then insert i s else s))) {}
      else Inr {Rank c})"

definition bankset_indices :: "Config \<Rightarrow> CommandQueue \<Rightarrow> Command \<Rightarrow> int set res" where
  "bankset_indices cfg cq c =
     (if q_structure cq = PER_BANK
      then forE (bankgroups cfg) (\<lambda>i s. Inr (insert (GetQueueIndex cfg cq (Rank c) i (Bank c)) s)) {}
      else Inl Thrown)"

definition bank_indices :: "Config \<Rightarrow> CommandQueue \<Rightarrow> Command \<Rightarrow> int set res" where
  "bank_indices cfg cq c =
     (if q_structure cq = PER_BANK then Inr {GetQueueIndex cfg cq (Rank c) (Bankgroup c) (Bank c)}
      else Inl Thrown)"

definition GetRefQIndices :: "Config \<Rightarrow> Command \<Rightarrow> CommandQueue \<Rightarrow> CommandQueue res" where
  "GetRefQIndices cfg ref cq =
     bindE (if cmd_type ref = REFab then rank_indices cfg cq ref
            else if cmd_type ref = REFsb then bankset_indices cfg cq ref
            else bank_indices cfg cq ref) (\<lambda>s.
     Inr (cq\<lparr>ref_q_indices := ref_q_indices cq \<union> s\<rparr>))"

definition GetRFMQIndices :: "Config \<Rightarrow> Command \<Rightarrow> CommandQueue \<Rightarrow> CommandQueue res" where
  "GetRFMQIndices cfg rfm cq =
     bindE (if cmd_type rfm = RFMab \<or> cmd_type rfm = DRFMab then rank_indices cfg cq rfm
            else if cmd_type rfm = RFMsb \<or> cmd_type rfm = DRFMsb then bankset_indices cfg cq rfm
            else bank_indices cfg cq rfm) (\<lambda>s.
     Inr (cq\<lparr>rfm_q_indices := rfm_q_indices cq \<union> s\<rparr>))"

definition FinishRefresh ::
    "Config \<Rightarrow> CommandQueue \<times> ChannelState \<Rightarrow> (Command \<times> CommandQueue \<times> ChannelState) res" where
  "FinishRefresh cfg = (\<lambda>(cq, cs).
     bindE (checkE AssertFailed (\<not> is_in_rfm cq)) (\<lambda>_.
     bindE (PendingRefCommand cs) (\<lambda>ref.
     bindE (if \<not> is_in_ref cq
            then bindE (GetRefQIndices cfg ref cq) (\<lambda>cq. Inr (cq\<lparr>is_in_ref := True\<rparr>))
            else Inr cq) (\<lambda>cq.
     bindE (GetReadyCommand cfg ref (q_clk cq) cs) (\<lambda>(cmd, cs).
     Inr (cmd, if IsRefresh cmd then cq\<lparr>ref_q_indices := {}, is_in_ref := False\<rparr> else cq, cs))))))"

definition FinishRFM ::
    "Config \<Rightarrow> CommandQueue \<times> ChannelState \<Rightarrow> (Command \<times> CommandQueue \<times> ChannelState) res" where
  "FinishRFM cfg = (\<lambda>(cq, cs).
     bindE (checkE AssertFailed (\<not> is_in_ref cq)) (\<lambda>_.
     bindE (PendingRFMCommand cs) (\<lambda>rfm.
     bindE (if \<not> is_in_rfm cq
            then bindE (GetRFMQIndices cfg rfm cq) (\<lambda>cq. Inr (cq\<lparr>is_in_rfm := True\<rparr>))
            else Inr cq) (\<lambda>cq.
     bindE (GetReadyCommand cfg rfm (q_clk cq) cs) (\<lambda>(cmd, cs).
     Inr (cmd, if IsRFM cmd \<or> IsDRFM cmd then cq\<lparr>rfm_q_indices := {}, is_in_rfm := False\<rparr> else cq, cs))))))"

definition queue_ClockTick :: "CommandQueue \<Rightarrow> CommandQueue" where
  "queue_ClockTick cq = cq\<lparr>q_clk := q_clk cq + 1\<rparr>"

end
