(* ===== verification/Controller.thy ===== *)
theory Controller
  imports Command_Queue
begin

text \<open>
  controller.h and controller.cc: the controller of a channel. It takes transactions into a read
  queue and a write buffer (or one unified queue), turns them into commands for the command queue,
  issues at most one command per cycle (two with HBM dual command issue), and returns completed
  transactions. The statistics object of the controller is the one in the environment of the
  channel state.
\<close>

section \<open>The state\<close>

text \<open>A \<open>std::vector\<close> with its capacity: \<open>push_back\<close> on a full vector doubles the capacity.\<close>

record TransQueue =
  tq :: "Transaction list"
  tq_cap :: nat

definition tq_reserve :: "int \<Rightarrow> TransQueue res" where
  "tq_reserve n = (if n < 0 then Inl Thrown else Inr \<lparr>tq = [], tq_cap = nat n\<rparr>)"

definition tq_push :: "Transaction \<Rightarrow> TransQueue \<Rightarrow> TransQueue" where
  "tq_push t v = \<lparr>tq = tq v @ [t], tq_cap = (if length (tq v) < tq_cap v then tq_cap v else max 1 (2 * length (tq v)))\<rparr>"

text \<open>A \<open>std::multimap\<close> as a list of pairs in the order of insertion.\<close>

type_synonym pending = "(u64 \<times> Transaction) list"

definition mm_count :: "u64 \<Rightarrow> pending \<Rightarrow> nat" where
  "mm_count k m = length (filter (\<lambda>e. fst e = k) m)"

record Controller =
  channel_id :: int
  ctl_clk :: u64
  ctl_cs :: ChannelState
  ctl_cq :: CommandQueue
  ctl_rf :: Refresh
  is_unified_queue :: bool
  ctl_unified_queue :: TransQueue
  read_queue :: TransQueue
  write_buffer :: TransQueue
  pending_rd_q :: pending
  pending_wr_q :: pending
  return_queue :: "Transaction list"
  ctl_row_buf_policy :: RowBufPolicy
  last_trans_clk :: u64
  write_draining :: int

definition tq_empty :: TransQueue where
  "tq_empty = \<lparr>tq = [], tq_cap = 0\<rparr>"

definition mk_Controller ::
    "Config \<Rightarrow> (int \<Rightarrow> u32 list \<Rightarrow> u32 list) \<Rightarrow> BankState \<Rightarrow> ChannelState \<Rightarrow> int \<Rightarrow> Env \<Rightarrow> Controller res" where
  "mk_Controller cfg shuffle b0 cs0 ch e =
     bindE (mk_SimpleStats cfg) (\<lambda>st.
     bindE (mk_ChannelState cfg shuffle b0 cs0 ch (e\<lparr>env_stats := st\<rparr>)) (\<lambda>cs.
     bindE (mk_CommandQueue cfg) (\<lambda>cq.
     bindE (mk_Refresh cfg) (\<lambda>rf.
     bindE (if unified_queue cfg then tq_reserve (trans_queue_size cfg) else Inr tq_empty) (\<lambda>uq.
     bindE (if unified_queue cfg then Inr tq_empty else tq_reserve (trans_queue_size cfg)) (\<lambda>rq.
     Inr \<lparr>channel_id = ch, ctl_clk = 0, ctl_cs = cs, ctl_cq = cq, ctl_rf = rf,
       is_unified_queue = unified_queue cfg, ctl_unified_queue = uq, read_queue = rq, write_buffer = rq,
       pending_rd_q = [], pending_wr_q = [], return_queue = [], ctl_row_buf_policy = row_buf_policy cfg,
       last_trans_clk = 0, write_draining = 0\<rparr>))))))"

definition ctl_stats :: "(SimpleStats \<Rightarrow> SimpleStats) \<Rightarrow> Controller \<Rightarrow> Controller" where
  "ctl_stats f ctl = ctl\<lparr>ctl_cs := (ctl_cs ctl)\<lparr>c_env := (c_env (ctl_cs ctl))\<lparr>env_stats := f (env_stats (c_env (ctl_cs ctl)))\<rparr>\<rparr>\<rparr>"

definition ctl_inc :: "string \<Rightarrow> Controller \<Rightarrow> Controller" where
  "ctl_inc name = ctl_stats (\<lambda>st. Increment st name)"

definition ctl_IncrementVec :: "string \<Rightarrow> int \<Rightarrow> Controller \<Rightarrow> Controller res" where
  "ctl_IncrementVec name i ctl =
     bindE (IncrementVec (env_stats (c_env (ctl_cs ctl))) name i) (\<lambda>st. Inr (ctl_stats (\<lambda>_. st) ctl))"

section \<open>Returning transactions\<close>

text \<open>The first completed transaction leaves the queue; \<open>None\<close> is the pair \<open>(-1, -1)\<close>.\<close>

definition ReturnDoneTrans :: "u64 \<Rightarrow> Controller \<Rightarrow> (u64 \<times> bool) option \<times> Controller" where
  "ReturnDoneTrans clk ctl =
     (case find (\<lambda>t. clk \<ge> complete_cycle t) (return_queue ctl) of
        None \<Rightarrow> (None, ctl)
      | Some t \<Rightarrow>
          let ctl = (if t_is_write t then ctl_inc ''num_writes_done'' ctl
                     else ctl_stats (\<lambda>st. AddValue st ''read_latency'' (to_int (ctl_clk ctl - added_cycle t)))
                            (ctl_inc ''num_reads_done'' ctl))
          in (Some (t_addr t, t_is_write t),
              ctl\<lparr>return_queue := erase_first (\<lambda>t. clk \<ge> complete_cycle t) (return_queue ctl)\<rparr>))"

section \<open>Taking transactions\<close>

definition WillAcceptTransaction :: "Controller \<Rightarrow> bool \<Rightarrow> bool" where
  "WillAcceptTransaction ctl is_write =
     (let has_room = (\<lambda>v. length (tq v) < tq_cap v) in
      if is_unified_queue ctl then has_room (ctl_unified_queue ctl)
      else if \<not> is_write then has_room (read_queue ctl)
      else has_room (write_buffer ctl))"

definition push_trans :: "Transaction \<Rightarrow> Controller \<Rightarrow> Controller" where
  "push_trans t ctl =
     (if is_unified_queue ctl then ctl\<lparr>ctl_unified_queue := tq_push t (ctl_unified_queue ctl)\<rparr>
      else if t_is_write t then ctl\<lparr>write_buffer := tq_push t (write_buffer ctl)\<rparr>
      else ctl\<lparr>read_queue := tq_push t (read_queue ctl)\<rparr>)"

definition AddTransaction :: "Transaction \<Rightarrow> Controller \<Rightarrow> Controller" where
  "AddTransaction tr ctl =
     (let tr = tr\<lparr>added_cycle := ctl_clk ctl\<rparr>;
          ctl = ctl_stats (\<lambda>st. AddValue st ''interarrival_latency'' (to_int (ctl_clk ctl - last_trans_clk ctl))) ctl;
          ctl = ctl\<lparr>last_trans_clk := ctl_clk ctl\<rparr>;
          complete = (\<lambda>ctl. ctl\<lparr>return_queue := return_queue ctl @ [tr\<lparr>complete_cycle := ctl_clk ctl + 1\<rparr>]\<rparr>)
      in if t_is_write tr
         then let ctl = (if mm_count (t_addr tr) (pending_wr_q ctl) = 0
                then push_trans tr (ctl\<lparr>pending_wr_q := pending_wr_q ctl @ [(t_addr tr, tr)]\<rparr>)
                else ctl)
              in complete ctl
         else if mm_count (t_addr tr) (pending_wr_q ctl) > 0 then complete ctl
         else let ctl = ctl\<lparr>pending_rd_q := pending_rd_q ctl @ [(t_addr tr, tr)]\<rparr>
              in if mm_count (t_addr tr) (pending_rd_q ctl) = 1 then push_trans tr ctl else ctl)"

section \<open>Scheduling\<close>

definition TransToCommand :: "Config \<Rightarrow> RowBufPolicy \<Rightarrow> Transaction \<Rightarrow> Transaction list \<Rightarrow> Command res" where
  "TransToCommand cfg pol tr behind =
     bindE (AddressMapping cfg (t_addr tr)) (\<lambda>addr.
     let plain = (if t_is_write tr then WRITE else READ);
         closing = (if t_is_write tr then WRITE_PRECHARGE else READ_PRECHARGE) in
     bindE (if pol = CLOSE_PAGE then Inr closing
            else if pol = SOFT_CLOSE_PAGE
            then bindE (find_loopE (\<lambda>i. bindE (AddressMapping cfg (t_addr (behind ! nat i))) (\<lambda>a.
                   Inr (a_row a = a_row addr \<and> a_rank a = a_rank addr \<and> a_bankgroup a = a_bankgroup addr \<and> a_bank a = a_bank addr)))
                   [0..<length behind]) (\<lambda>f. Inr (if f \<noteq> None then plain else closing))
            else Inr plain) (\<lambda>ct.
     Inr (mk_Command ct addr (t_addr tr))))"

text \<open>
  The loop of \<open>ScheduleTransaction\<close> over the chosen queue: the first transaction whose command is
  accepted leaves it; a write that waits for a read of the same address stops the draining.
\<close>

fun schedule_loop ::
    "Config \<Rightarrow> Transaction list \<Rightarrow> Transaction list \<Rightarrow> Controller \<Rightarrow> (Transaction list \<times> Controller) res" where
  "schedule_loop cfg ahead [] ctl = Inr (ahead, ctl)"
| "schedule_loop cfg ahead (t # behind) ctl =
     bindE (TransToCommand cfg (ctl_row_buf_policy ctl) t behind) (\<lambda>cmd.
     bindE (WillAcceptCommand cfg (ctl_cq ctl) (Rank cmd) (Bankgroup cmd) (Bank cmd)) (\<lambda>ok.
     if \<not> ok then schedule_loop cfg (ahead @ [t]) behind ctl
     else if \<not> is_unified_queue ctl \<and> IsWrite cmd \<and> mm_count (t_addr t) (pending_rd_q ctl) > 0
     then Inr (ahead @ t # behind, ctl\<lparr>write_draining := 0\<rparr>)
     else
       let ctl = (if \<not> is_unified_queue ctl \<and> IsWrite cmd then ctl\<lparr>write_draining := write_draining ctl - 1\<rparr> else ctl) in
       bindE (AddCommand cfg cmd (ctl_cq ctl)) (\<lambda>(_, cq).
       Inr (ahead @ behind, ctl\<lparr>ctl_cq := cq\<rparr>))))"

definition start_draining :: "Controller \<Rightarrow> Controller" where
  "start_draining ctl =
     (let n = length (tq (write_buffer ctl)) in
      if write_draining ctl = 0 \<and> \<not> is_unified_queue ctl \<and>
         (n \<ge> tq_cap (write_buffer ctl) \<or> n > 8 \<and> QueueEmpty (ctl_cq ctl))
      then ctl\<lparr>write_draining := int n\<rparr> else ctl)"

definition ScheduleTransaction :: "Config \<Rightarrow> Controller \<Rightarrow> Controller res" where
  "ScheduleTransaction cfg ctl =
     (let ctl = start_draining ctl in
      if is_unified_queue ctl
      then bindE (schedule_loop cfg [] (tq (ctl_unified_queue ctl)) ctl) (\<lambda>(q, ctl).
           Inr (ctl\<lparr>ctl_unified_queue := (ctl_unified_queue ctl)\<lparr>tq := q\<rparr>\<rparr>))
      else if write_draining ctl > 0
      then bindE (schedule_loop cfg [] (tq (write_buffer ctl)) ctl) (\<lambda>(q, ctl).
           Inr (ctl\<lparr>write_buffer := (write_buffer ctl)\<lparr>tq := q\<rparr>\<rparr>))
      else bindE (schedule_loop cfg [] (tq (read_queue ctl)) ctl) (\<lambda>(q, ctl).
           Inr (ctl\<lparr>read_queue := (read_queue ctl)\<lparr>tq := q\<rparr>\<rparr>)))"

section \<open>Issuing\<close>

definition row_hit_stat :: "string \<Rightarrow> string \<Rightarrow> Command \<Rightarrow> Controller \<Rightarrow> Controller res" where
  "row_hit_stat cmds hits cmd ctl =
     (let ctl = ctl_inc cmds ctl in
      bindE (c_RowHitCount (ctl_cs ctl) (Rank cmd) (Bankgroup cmd) (Bank cmd)) (\<lambda>n.
      Inr (if n \<noteq> 0 then ctl_inc hits ctl else ctl)))"

definition UpdateCommandStats :: "Command \<Rightarrow> Controller \<Rightarrow> Controller res" where
  "UpdateCommandStats cmd ctl =
     (case cmd_type cmd of
        READ \<Rightarrow> row_hit_stat ''num_read_cmds'' ''num_read_row_hits'' cmd ctl
      | READ_PRECHARGE \<Rightarrow> row_hit_stat ''num_read_cmds'' ''num_read_row_hits'' cmd ctl
      | WRITE \<Rightarrow> row_hit_stat ''num_write_cmds'' ''num_write_row_hits'' cmd ctl
      | WRITE_PRECHARGE \<Rightarrow> row_hit_stat ''num_write_cmds'' ''num_write_row_hits'' cmd ctl
      | PREab \<Rightarrow> Inr (ctl_inc ''num_preab_cmds'' ctl)
      | PREsb \<Rightarrow> Inr (ctl_inc ''num_presb_cmds'' ctl)
      | ACTIVATE \<Rightarrow> Inr (ctl_inc ''num_act_cmds'' ctl)
      | RFMab \<Rightarrow> Inr (ctl_inc ''num_rfmab_cmds'' ctl)
      | RFMsb \<Rightarrow> Inr (ctl_inc ''num_rfmsb_cmds'' ctl)
      | DRFMab \<Rightarrow> Inr (ctl_inc ''num_drfmab_cmds'' ctl)
      | DRFMsb \<Rightarrow> Inr (ctl_inc ''num_drfmsb_cmds'' ctl)
      | DRFMb \<Rightarrow> Inr (ctl_inc ''num_drfmb_cmds'' ctl)
      | PRECHARGE \<Rightarrow> Inr (ctl_inc ''num_pre_cmds'' ctl)
      | REFab \<Rightarrow> Inr (ctl_inc ''num_refab_cmds'' ctl)
      | REFsb \<Rightarrow> Inr (ctl_inc ''num_refsb_cmds'' ctl)
      | REFRESH_BANK \<Rightarrow> Inr (ctl_inc ''num_refb_cmds'' ctl)
      | SREF_ENTER \<Rightarrow> Inr (ctl_inc ''num_srefe_cmds'' ctl)
      | SREF_EXIT \<Rightarrow> Inr (ctl_inc ''num_srefx_cmds'' ctl)
      | SIZE \<Rightarrow> Inl AbruptExit)"

text \<open>The loop that returns every pending read of an address.\<close>

fun return_reads :: "nat \<Rightarrow> u64 \<Rightarrow> u64 \<Rightarrow> pending \<times> Transaction list \<Rightarrow> (pending \<times> Transaction list) res" where
  "return_reads 0 t h s = Inr s"
| "return_reads (Suc n) t h (pend, ret) =
     (case find (\<lambda>e. fst e = h) pend of
        None \<Rightarrow> Inl OutOfRange
      | Some e \<Rightarrow> return_reads n t h (erase_first (\<lambda>e. fst e = h) pend, ret @ [(snd e)\<lparr>complete_cycle := t\<rparr>]))"

definition finish_access :: "Config \<Rightarrow> Command \<Rightarrow> Controller \<Rightarrow> Controller res" where
  "finish_access cfg cmd ctl =
     (if IsRead cmd \<and> hex_addr cmd \<noteq> no_hex
      then let num_reads = mm_count (hex_addr cmd) (pending_rd_q ctl) in
           if num_reads = 0 then Inl ExitFailure
           else bindE (return_reads num_reads (ctl_clk ctl + word_of_int (read_delay cfg)) (hex_addr cmd)
                  (pending_rd_q ctl, return_queue ctl)) (\<lambda>(pend, ret).
                Inr (ctl\<lparr>pending_rd_q := pend, return_queue := ret\<rparr>))
      else if IsWrite cmd \<and> hex_addr cmd \<noteq> no_hex
      then case find (\<lambda>e. fst e = hex_addr cmd) (pending_wr_q ctl) of
             None \<Rightarrow> Inl ExitFailure
           | Some e \<Rightarrow>
               let ctl = ctl_stats (\<lambda>st. AddValue st ''write_latency''
                     (to_int (ctl_clk ctl - added_cycle (snd e) + word_of_int (write_delay cfg)))) ctl
               in Inr (ctl\<lparr>pending_wr_q := erase_first (\<lambda>e. fst e = hex_addr cmd) (pending_wr_q ctl)\<rparr>)
      else Inr ctl)"

definition IssueCommand :: "Config \<Rightarrow> Command \<Rightarrow> Controller \<Rightarrow> Controller res" where
  "IssueCommand cfg cmd ctl =
     bindE (finish_access cfg cmd ctl) (\<lambda>ctl.
     bindE (UpdateCommandStats cmd ctl) (\<lambda>ctl.
     bindE (UpdateTimingAndStates cfg cmd (ctl_clk ctl) (ctl_cs ctl)) (\<lambda>cs.
     Inr (ctl\<lparr>ctl_cs := cs\<rparr>))))"

section \<open>A clock cycle\<close>

definition on_queue ::
    "(CommandQueue \<times> ChannelState \<Rightarrow> (Command \<times> CommandQueue \<times> ChannelState) res) \<Rightarrow> Controller \<Rightarrow> (Command \<times> Controller) res" where
  "on_queue f ctl = bindE (f (ctl_cq ctl, ctl_cs ctl)) (\<lambda>(cmd, cq, cs). Inr (cmd, ctl\<lparr>ctl_cq := cq, ctl_cs := cs\<rparr>))"

definition tick_generators :: "Config \<Rightarrow> Controller \<Rightarrow> Controller res" where
  "tick_generators cfg ctl =
     bindE (refresh_ClockTick cfg (ctl_rf ctl, ctl_cs ctl)) (\<lambda>(rf, cs).
     bindE (channel_ClockTick cfg (ctl_clk ctl) cs) (\<lambda>cs.
     Inr (ctl\<lparr>ctl_rf := rf, ctl_cs := cs\<rparr>)))"

definition pick_command :: "Config \<Rightarrow> Controller \<Rightarrow> (Command \<times> Controller) res" where
  "pick_command cfg ctl =
     bindE (if is_in_rfm (ctl_cq ctl) then on_queue (FinishRFM cfg) ctl
            else if is_in_ref (ctl_cq ctl) then on_queue (FinishRefresh cfg) ctl
            else if IsRefreshWaiting (ctl_cs ctl) then on_queue (FinishRefresh cfg) ctl
            else if IsRFMWaiting (ctl_cs ctl) then on_queue (FinishRFM cfg) ctl
            else Inr (Command_default, ctl)) (\<lambda>(cmd, ctl).
     if IsValid cmd then Inr (cmd, ctl) else on_queue (GetCommandToIssue cfg) ctl)"

definition issue_second :: "Config \<Rightarrow> Command \<Rightarrow> Controller \<Rightarrow> Controller res" where
  "issue_second cfg cmd ctl =
     (if enable_hbm_dual_cmd cfg
      then bindE (on_queue (GetCommandToIssue cfg) ctl) (\<lambda>(second_cmd, ctl).
           if IsValid second_cmd \<and> IsReadWrite second_cmd \<noteq> IsReadWrite cmd
           then bindE (IssueCommand cfg second_cmd ctl) (\<lambda>ctl. Inr (ctl_inc ''hbm_dual_cmds'' ctl))
           else Inr ctl)
      else Inr ctl)"

definition count_idle :: "Config \<Rightarrow> int \<Rightarrow> Controller \<Rightarrow> Controller res" where
  "count_idle cfg i ctl =
     bindE (IsRankSelfRefreshing (ctl_cs ctl) i) (\<lambda>s.
     if s then ctl_IncrementVec ''sref_cycles'' i ctl
     else
       bindE (IsAllBankIdleInRank cfg (ctl_cs ctl) i) (\<lambda>all_idle.
       bindE (ctl_IncrementVec (if all_idle then ''all_bank_idle_cycles'' else ''rank_active_cycles'') i ctl) (\<lambda>ctl.
       bindE (vupd (rank_idle_cycles (ctl_cs ctl)) i (\<lambda>n. if all_idle then n + 1 else 0)) (\<lambda>ric.
       Inr (ctl\<lparr>ctl_cs := (ctl_cs ctl)\<lparr>rank_idle_cycles := ric\<rparr>\<rparr>)))))"

text \<open>Self-refresh entry and exit: the first rank whose command is ready gets it.\<close>

definition sref_request :: "Config \<Rightarrow> int \<Rightarrow> Controller \<Rightarrow> Command option res" where
  "sref_request cfg i ctl =
     (let cmd = (\<lambda>ct. mk_Command ct (Address_default\<lparr>a_rank := i\<rparr>) no_hex) in
      bindE (IsRankSelfRefreshing (ctl_cs ctl) i) (\<lambda>s.
      bindE (vget (rank_q_empty (ctl_cq ctl)) i) (\<lambda>em.
      if s then Inr (if \<not> em then Some (cmd SREF_EXIT) else None)
      else if \<not> em then Inr None
      else bindE (vget (rank_idle_cycles (ctl_cs ctl)) i) (\<lambda>n.
           Inr (if n \<ge> sref_threshold cfg then Some (cmd SREF_ENTER) else None)))))"

fun sref_loop :: "Config \<Rightarrow> int list \<Rightarrow> Controller \<Rightarrow> Controller res" where
  "sref_loop cfg [] ctl = Inr ctl"
| "sref_loop cfg (i # is) ctl =
     bindE (sref_request cfg i ctl) (\<lambda>r.
     case r of None \<Rightarrow> sref_loop cfg is ctl
     | Some req \<Rightarrow>
         bindE (GetReadyCommand cfg req (ctl_clk ctl) (ctl_cs ctl)) (\<lambda>(cmd, cs).
         let ctl = ctl\<lparr>ctl_cs := cs\<rparr> in
         if IsValid cmd then IssueCommand cfg cmd ctl else sref_loop cfg is ctl))"

definition issue_commands :: "Config \<Rightarrow> Controller \<Rightarrow> (bool \<times> Controller) res" where
  "issue_commands cfg ctl =
     bindE (pick_command cfg ctl) (\<lambda>(cmd, ctl).
     if IsValid cmd
     then bindE (IssueCommand cfg cmd ctl) (\<lambda>ctl. bindE (issue_second cfg cmd ctl) (\<lambda>ctl. Inr (True, ctl)))
     else Inr (False, ctl))"

definition power_updates :: "Config \<Rightarrow> bool \<Rightarrow> Controller \<Rightarrow> Controller res" where
  "power_updates cfg cmd_issued ctl =
     bindE (forE (ranks cfg) (count_idle cfg) ctl) (\<lambda>ctl.
     if enable_self_refresh cfg \<and> \<not> cmd_issued then sref_loop cfg (ints (ranks cfg)) ctl else Inr ctl)"

definition advance_clock :: "Controller \<Rightarrow> Controller" where
  "advance_clock ctl =
     ctl_inc ''num_cycles'' (ctl\<lparr>ctl_clk := ctl_clk ctl + 1, ctl_cq := queue_ClockTick (ctl_cq ctl)\<rparr>)"

definition controller_ClockTick :: "Config \<Rightarrow> Controller \<Rightarrow> Controller res" where
  "controller_ClockTick cfg ctl =
     bindE (tick_generators cfg ctl) (\<lambda>ctl.
     bindE (issue_commands cfg ctl) (\<lambda>(cmd_issued, ctl).
     bindE (power_updates cfg cmd_issued ctl) (\<lambda>ctl.
     bindE (ScheduleTransaction cfg ctl) (\<lambda>ctl.
     Inr (advance_clock ctl)))))"

section \<open>Queries and reports\<close>

definition controller_IsInDRFM :: "Config \<Rightarrow> Controller \<Rightarrow> u64 \<Rightarrow> bool res" where
  "controller_IsInDRFM cfg ctl h =
     bindE (AddressMapping cfg h) (\<lambda>a. c_IsInDRFM (ctl_cs ctl) (a_rank a) (a_bankgroup a) (a_bank a))"

definition controller_IsInREF :: "Config \<Rightarrow> Controller \<Rightarrow> u64 \<Rightarrow> bool res" where
  "controller_IsInREF cfg ctl h =
     bindE (AddressMapping cfg h) (\<lambda>a. c_IsInREF (ctl_cs ctl) (a_rank a) (a_bankgroup a) (a_bank a))"

text \<open>The statistics side of the reports; what they print is not modelled.\<close>

definition controller_stats_res :: "(SimpleStats \<Rightarrow> SimpleStats res) \<Rightarrow> Controller \<Rightarrow> Controller res" where
  "controller_stats_res f ctl =
     bindE (f (env_stats (c_env (ctl_cs ctl)))) (\<lambda>st. Inr (ctl_stats (\<lambda>_. st) ctl))"

definition controller_PrintEpochStats :: "Controller \<Rightarrow> Controller res" where
  "controller_PrintEpochStats ctl = controller_stats_res UpdateEpochStats (ctl_inc ''epoch_num'' ctl)"

definition controller_PrintFinalStats :: "Controller \<Rightarrow> Controller res" where
  "controller_PrintFinalStats ctl = controller_stats_res UpdateFinalStats ctl"

definition controller_ResetStats :: "Controller \<Rightarrow> Controller" where
  "controller_ResetStats = ctl_stats Stats_Reset"

end
