(* ===== verification/Dram_System.thy ===== *)
theory Dram_System
  imports Controller
begin

text \<open>
  dram_system.h, dram_system.cc and memory_system.cc: the memory system that the processor side
  calls. It owns one controller per channel. The calls of the two callbacks are recorded as a list
  of events in the order they are made; a callback does not call back into the memory system. The
  cache of Hydra counters and the generator behind \<open>rand()\<close> are shared by all channels.
\<close>

section \<open>The state\<close>

type_synonym callback_event = "u64 \<times> bool"

record DRAMSystem =
  last_req_clk :: u64
  sys_clk :: u64
  ctrls :: "Controller list"
  shared_rcc :: LRUCache
  shared_rand :: "nat \<Rightarrow> int"
  shared_rand_pos :: nat

text \<open>A controller sees the shared objects through its channel state and leaves its changes in them.\<close>

definition lend :: "DRAMSystem \<Rightarrow> Controller \<Rightarrow> Controller" where
  "lend sys ctl = ctl\<lparr>ctl_cs := (ctl_cs ctl)\<lparr>c_env := (c_env (ctl_cs ctl))
     \<lparr>env_rcc := shared_rcc sys, env_rand := shared_rand sys, env_rand_pos := shared_rand_pos sys\<rparr>\<rparr>\<rparr>"

definition take_back :: "Controller \<Rightarrow> DRAMSystem \<Rightarrow> DRAMSystem" where
  "take_back ctl sys = sys\<lparr>shared_rcc := env_rcc (c_env (ctl_cs ctl)), shared_rand_pos := env_rand_pos (c_env (ctl_cs ctl))\<rparr>"

text \<open>The loop that makes the controllers, which starts from the members that \<open>BaseDRAMSystem\<close> sets.\<close>

definition mk_ctrls ::
    "Config \<Rightarrow> (int \<Rightarrow> int \<Rightarrow> u32 list \<Rightarrow> u32 list) \<Rightarrow> BankState \<Rightarrow> ChannelState \<Rightarrow> Env \<Rightarrow> DRAMSystem res" where
  "mk_ctrls cfg shuffle b0 cs0 e =
     forE (channels cfg) (\<lambda>i sys.
       bindE (mk_Controller cfg (shuffle i) b0 cs0 i
         (e\<lparr>env_rcc := shared_rcc sys, env_rand_pos := shared_rand_pos sys\<rparr>)) (\<lambda>ctl.
       Inr (take_back ctl (sys\<lparr>ctrls := ctrls sys @ [ctl]\<rparr>))))
     \<lparr>last_req_clk = 0, sys_clk = 0, ctrls = [], shared_rcc = env_rcc e, shared_rand = env_rand e,
      shared_rand_pos = env_rand_pos e\<rparr>"

definition mk_JedecDRAMSystem ::
    "Config \<Rightarrow> (int \<Rightarrow> int \<Rightarrow> u32 list \<Rightarrow> u32 list) \<Rightarrow> BankState \<Rightarrow> ChannelState \<Rightarrow> Env \<Rightarrow> DRAMSystem res" where
  "mk_JedecDRAMSystem cfg shuffle b0 cs0 e = (if IsHMC cfg then Inl AbruptExit else mk_ctrls cfg shuffle b0 cs0 e)"

definition GetChannel :: "Config \<Rightarrow> u64 \<Rightarrow> int res" where
  "GetChannel cfg h = bindE (shr64 h (shift_bits cfg)) (\<lambda>x. addr_field x (ch_pos cfg) (ch_mask cfg))"

section \<open>The calls of the processor side\<close>

definition sys_WillAcceptTransaction :: "Config \<Rightarrow> DRAMSystem \<Rightarrow> u64 \<Rightarrow> bool \<Rightarrow> bool res" where
  "sys_WillAcceptTransaction cfg sys h is_write =
     bindE (GetChannel cfg h) (\<lambda>ch. bindE (vget (ctrls sys) ch) (\<lambda>ctl. Inr (WillAcceptTransaction ctl is_write)))"

definition sys_AddTransaction :: "Config \<Rightarrow> u64 \<Rightarrow> bool \<Rightarrow> DRAMSystem \<Rightarrow> (bool \<times> DRAMSystem) res" where
  "sys_AddTransaction cfg h is_write sys =
     bindE (GetChannel cfg h) (\<lambda>ch.
     bindE (vget (ctrls sys) ch) (\<lambda>ctl.
     bindE (checkE AssertFailed (WillAcceptTransaction ctl is_write)) (\<lambda>_.
     bindE (vset (ctrls sys) ch (AddTransaction (mk_Transaction h is_write) ctl)) (\<lambda>cs.
     Inr (True, sys\<lparr>ctrls := cs, last_req_clk := sys_clk sys\<rparr>)))))"

definition sys_IsInDRFM :: "Config \<Rightarrow> DRAMSystem \<Rightarrow> u64 \<Rightarrow> bool res" where
  "sys_IsInDRFM cfg sys h = bindE (GetChannel cfg h) (\<lambda>ch. bindE (vget (ctrls sys) ch) (\<lambda>ctl. controller_IsInDRFM cfg ctl h))"

definition sys_IsInREF :: "Config \<Rightarrow> DRAMSystem \<Rightarrow> u64 \<Rightarrow> bool res" where
  "sys_IsInREF cfg sys h = bindE (GetChannel cfg h) (\<lambda>ch. bindE (vget (ctrls sys) ch) (\<lambda>ctl. controller_IsInREF cfg ctl h))"

text \<open>The loop that hands back every completed transaction of a controller.\<close>

lemma ReturnDoneTrans_shorter:
  assumes "ReturnDoneTrans clk ctl = (Some e, ctl')"
  shows "length (return_queue ctl') < length (return_queue ctl)"
proof -
  obtain t where t: "find (\<lambda>t. clk \<ge> complete_cycle t) (return_queue ctl) = Some t"
    using assms by (auto simp: ReturnDoneTrans_def split: option.splits)
  then have "t \<in> set (return_queue ctl)" "clk \<ge> complete_cycle t" by (auto simp: find_Some_iff)
  from erase_first_split [of t _ "\<lambda>t. clk \<ge> complete_cycle t", OF this]
  have "length (erase_first (\<lambda>t. clk \<ge> complete_cycle t) (return_queue ctl)) < length (return_queue ctl)"
    by force
  then show ?thesis using assms t by (auto simp: ReturnDoneTrans_def Let_def ctl_inc_def ctl_stats_def split: if_splits)
qed

function return_loop :: "u64 \<Rightarrow> Controller \<Rightarrow> callback_event list \<times> Controller" where
  "return_loop clk ctl =
     (case ReturnDoneTrans clk ctl of
        (None, ctl) \<Rightarrow> ([], ctl)
      | (Some e, ctl') \<Rightarrow> (case return_loop clk ctl' of (es, ctl'') \<Rightarrow> (e # es, ctl'')))"
  by pat_completeness auto
termination
  by (relation "measure (\<lambda>(clk, ctl). length (return_queue ctl))") (auto dest: ReturnDoneTrans_shorter [OF sym])

declare return_loop.simps [simp del]

definition sys_PrintEpochStats :: "DRAMSystem \<Rightarrow> DRAMSystem res" where
  "sys_PrintEpochStats sys =
     bindE (foldE (\<lambda>ctl cs. bindE (controller_PrintEpochStats ctl) (\<lambda>ctl. Inr (cs @ [ctl]))) (ctrls sys) []) (\<lambda>cs.
     Inr (sys\<lparr>ctrls := cs\<rparr>))"

definition sys_ResetStats :: "DRAMSystem \<Rightarrow> DRAMSystem" where
  "sys_ResetStats sys = sys\<lparr>ctrls := map controller_ResetStats (ctrls sys)\<rparr>"

definition tick_channel :: "Config \<Rightarrow> nat \<Rightarrow> DRAMSystem \<Rightarrow> DRAMSystem res" where
  "tick_channel cfg i sys =
     bindE (vget (ctrls sys) (int i)) (\<lambda>ctl.
     bindE (controller_ClockTick cfg (lend sys ctl)) (\<lambda>ctl.
     bindE (vset (ctrls sys) (int i) ctl) (\<lambda>cs.
     Inr (take_back ctl (sys\<lparr>ctrls := cs\<rparr>)))))"

definition return_all :: "DRAMSystem \<Rightarrow> callback_event list \<times> DRAMSystem" where
  "return_all sys =
     (let rs = map (return_loop (sys_clk sys)) (ctrls sys)
      in (concat (map fst rs), sys\<lparr>ctrls := map snd rs\<rparr>))"

definition sys_ClockTick :: "Config \<Rightarrow> DRAMSystem \<Rightarrow> (callback_event list \<times> DRAMSystem) res" where
  "sys_ClockTick cfg sys =
     (case return_all sys of (events, sys) \<Rightarrow>
      bindE (foldE (tick_channel cfg) [0..<length (ctrls sys)] sys) (\<lambda>sys.
      let sys = sys\<lparr>sys_clk := sys_clk sys + 1\<rparr> in
      bindE (umod (sys_clk sys) (word_of_int (epoch_period cfg))) (\<lambda>m.
      bindE (if m = 0 then sys_PrintEpochStats sys else Inr sys) (\<lambda>sys.
      Inr (events, sys)))))"

section \<open>The ideal memory system\<close>

record IdealDRAMSystem =
  ideal_clk :: u64
  ideal_latency :: int
  infinite_buffer_q :: "Transaction list"

definition ideal_AddTransaction :: "u64 \<Rightarrow> bool \<Rightarrow> IdealDRAMSystem \<Rightarrow> IdealDRAMSystem" where
  "ideal_AddTransaction h is_write sys =
     sys\<lparr>infinite_buffer_q := infinite_buffer_q sys @ [(mk_Transaction h is_write)\<lparr>added_cycle := ideal_clk sys\<rparr>]\<rparr>"

definition ideal_done :: "IdealDRAMSystem \<Rightarrow> Transaction \<Rightarrow> bool" where
  "ideal_done sys t \<longleftrightarrow> ideal_clk sys - added_cycle t \<ge> word_of_int (ideal_latency sys)"

text \<open>The loop over the buffer: after an erasure the iterator is advanced once more.\<close>

fun ideal_loop :: "(Transaction \<Rightarrow> bool) \<Rightarrow> Transaction list \<Rightarrow> callback_event list \<times> Transaction list" where
  "ideal_loop p [] = ([], [])"
| "ideal_loop p [t] = (if p t then ([(t_addr t, t_is_write t)], []) else ([], [t]))"
| "ideal_loop p (t # u # ts) =
     (if p t then case ideal_loop p ts of (es, q) \<Rightarrow> ((t_addr t, t_is_write t) # es, u # q)
      else case ideal_loop p (u # ts) of (es, q) \<Rightarrow> (es, t # q))"

definition ideal_ClockTick :: "IdealDRAMSystem \<Rightarrow> callback_event list \<times> IdealDRAMSystem" where
  "ideal_ClockTick sys =
     (case ideal_loop (ideal_done sys) (infinite_buffer_q sys) of (es, q) \<Rightarrow>
      (es, sys\<lparr>infinite_buffer_q := q, ideal_clk := ideal_clk sys + 1\<rparr>))"

end
