(* ===== verification/Queue_Run.thy ===== *)
theory Queue_Run
  imports Dram_System
begin

text \<open>
  What the command queue hands out. Every command it returns was declared ready by the channel in the
  state the queue leaves it in, the column commands are commands that were put into it (or requests of
  Hydra), and each of them is taken out once.
\<close>

section \<open>The request queues of the channel\<close>

definition queues_wf :: "Config \<Rightarrow> ChannelState \<Rightarrow> bool" where
  "queues_wf cfg cs \<longleftrightarrow> (\<forall>c\<in>set (hydra_rd_q cs) \<union> set (hydra_wb_q cs). IsReadWrite c \<and> hex_addr c = no_hex) \<and>
     (hydra_mode cfg \<noteq> 1 \<longrightarrow> hydra_rd_q cs = [] \<and> hydra_wb_q cs = []) \<and>
     (\<forall>c\<in>set (refresh_q cs). IsRefresh c) \<and> (\<forall>c\<in>set (rfm_q cs). IsRFM c \<or> IsDRFM c)"

lemma set_bank_queues: "set_bank cs i j k b = Inr cs' \<Longrightarrow> cs' = cs\<lparr>bank_states := bank_states cs'\<rparr>"
  by (auto simp: set_bank_def bindE_Inr_iff)

lemma queues_wf_set_bank:
  assumes "queues_wf cfg cs"
  shows "vE (set_bank cs i j k b) (queues_wf cfg)"
proof (rule vE_I)
  fix cs' assume "set_bank cs i j k b = Inr cs'"
  then have "cs' = cs\<lparr>bank_states := bank_states cs'\<rparr>" by (rule set_bank_queues)
  moreover have "queues_wf cfg (cs\<lparr>bank_states := x\<rparr>)" for x using assms by (simp add: queues_wf_def)
  ultimately show "queues_wf cfg cs'" by metis
qed

lemma need_rfm_wf: "queues_wf cfg cs \<Longrightarrow> IsRFM c \<or> IsDRFM c \<Longrightarrow> queues_wf cfg (need_rfm p c n cs)"
  using set_erase_first [of p "rfm_q cs"] by (auto simp: queues_wf_def need_rfm_def)

interpretation requests: chan_frame_any cfg "queues_wf cfg" for cfg
proof
  have q: "queues_wf cfg (HydraWB r j k w cs)" "queues_wf cfg (snd (HydraRead r j k w cs))"
    if "hydra_mode cfg = 1" "queues_wf cfg cs" for r j k w cs
    using that by (auto simp: queues_wf_def HydraWB_def HydraRead_def cmd_kinds)
  show "vE (hydra_gate cfg cmd cs) (\<lambda>r. queues_wf cfg (snd r))" if "queues_wf cfg cs" for cmd cs
  proof (cases "hydra_mode cfg = 1")
    case True
    have "queues_wf cfg (cs\<lparr>c_env := e\<rparr>)" for e using that by (simp add: queues_wf_def)
    with True show ?thesis
      unfolding hydra_gate_def Let_def case_prod_beta' by (auto intro!: vE_bind_any q)
  qed (use that in \<open>simp add: hydra_gate_def\<close>)
  show "queues_wf cfg (hydra_pop cs)" if "queues_wf cfg cs" for cs
    using that by (cases "hydra_rd_q cs"; cases "hydra_wb_q cs") (auto simp: queues_wf_def hydra_pop_def)
  show "queues_wf cfg (RankNeedRefresh r n cs)" if "queues_wf cfg cs" for r n cs
    using that set_erase_first [of "at_rank r" "refresh_q cs"] by (auto simp: queues_wf_def RankNeedRefresh_def cmd_kinds)
  show "queues_wf cfg (BanksetNeedRefresh r k n cs)" if "queues_wf cfg cs" for r k n cs
    using that set_erase_first [of "at_bankset r k" "refresh_q cs"] by (auto simp: queues_wf_def BanksetNeedRefresh_def cmd_kinds)
  show "queues_wf cfg (BankNeedRefresh r j k n cs)" if "queues_wf cfg cs" for r j k n cs
    using that set_erase_first [of "at_bank r j k" "refresh_q cs"] by (auto simp: queues_wf_def BankNeedRefresh_def cmd_kinds)
qed (rule queues_wf_set_bank, assumption
    | rule need_rfm_wf [folded RankNeedRFM_def]
    | simp add: RankNeedRFM_def BanksetNeedRFM_def BankNeedDRFM_def BanksetNeedDRFM_def RankNeedDRFM_def need_rfm_wf IsRFM_def IsDRFM_def
    | simp add: queues_wf_def)+

text \<open>A property under the contract holds throughout a run.\<close>

context chan_ops_any
begin

lemma step_frame: "chan_step cfg cs ev cs' \<Longrightarrow> I cs \<Longrightarrow> I cs'"
proof (induction rule: chan_step.induct)
  case (issue req clk cs cmd c1 e c2)
  then have "I c1" using vE_D [OF GetReadyCommand_frame issue(1)] by simp
  then show ?case using vE_D [OF UpdateTimingAndStates_frame issue(3)] by simp
next
  case (issue_hydra clk cs cmd c1 e c2)
  then have "I c1" using vE_D [OF GetReadyHydraCommand_frame issue_hydra(1)] by simp
  then show ?case using vE_D [OF UpdateTimingAndStates_frame issue_hydra(5)] by simp
next
  case (ask req clk cs cmd c1)
  then show ?case using vE_D [OF GetReadyCommand_frame ask(1)] by simp
next
  case (ask_hydra clk cs cmd c1)
  then show ?case using vE_D [OF GetReadyHydraCommand_frame ask_hydra(1)] by simp
next
  case (tick clk cs c1)
  then show ?case using vE_D [OF channel_ClockTick_frame tick(1)] by simp
qed simp_all

lemma run_frame: "chan_run cfg cs tr cs' \<Longrightarrow> I cs \<Longrightarrow> I cs'"
  by (induction rule: chan_run.induct) (auto intro: step_frame)

end

lemmas queues_wf_run = requests.run_frame

section \<open>Commands on offer\<close>

lemma quiet_step: "chan_step cfg cs None cs' \<Longrightarrow> chan_run cfg cs [] cs'"
  using chan_run.step [OF chan_run.start, of cfg cs None cs'] by (simp add: event_list_def)

lemma quiet_trans: "chan_run cfg c1 [] c2 \<Longrightarrow> chan_run cfg c2 tr c3 \<Longrightarrow> chan_run cfg c1 tr c3"
  using chan_run_append [of cfg c2 tr c3 c1 "[]"] by simp

lemma quiet_env: "chan_run cfg cs [] (cs\<lparr>c_env := e\<rparr>)"
  using quiet_step [OF chan_step.others [of cfg cs "rank_idle_cycles cs" e]] by simp

text \<open>
  \<open>offered cfg clk cs src cmd cs'\<close>: from \<open>cs\<close> the channel was asked some questions, and the last of them, for the
  request \<open>src\<close> (or for Hydra), was answered with the valid command \<open>cmd\<close>, leaving \<open>cs'\<close> up to statistics.
\<close>

inductive offered :: "Config \<Rightarrow> u64 \<Rightarrow> ChannelState \<Rightarrow> Command option \<Rightarrow> Command \<Rightarrow> ChannelState \<Rightarrow> bool" for cfg clk cs where
  request: "chan_run cfg cs [] c1 \<Longrightarrow> GetReadyCommand cfg req clk c1 = Inr (cmd, c2) \<Longrightarrow> IsValid cmd \<Longrightarrow>
    offered cfg clk cs (Some req) cmd (c2\<lparr>c_env := e\<rparr>)"
| hydra: "chan_run cfg cs [] c1 \<Longrightarrow> GetReadyHydraCommand cfg clk c1 = Inr (cmd, c2) \<Longrightarrow> IsValid cmd \<Longrightarrow>
    offered cfg clk cs None cmd (c2\<lparr>c_env := e\<rparr>)"

inductive_cases offered_requestE: "offered cfg clk cs (Some req) cmd cs'"
inductive_cases offered_hydraE: "offered cfg clk cs None cmd cs'"

lemma offered_valid: "offered cfg clk cs src cmd cs' \<Longrightarrow> IsValid cmd"
  by (erule offered.cases) auto

lemma offered_quiet: "offered cfg clk cs src cmd cs' \<Longrightarrow> chan_run cfg cs [] cs'"
proof (erule offered.cases, goal_cases)
  case (1 c1 req cmd c2 e)
  then show ?case using quiet_trans [OF 1(4) quiet_trans [OF quiet_step [OF chan_step.ask [OF 1(5)]] quiet_env]] by simp
next
  case (2 c1 cmd c2 e)
  then show ?case using quiet_trans [OF 2(4) quiet_trans [OF quiet_step [OF chan_step.ask_hydra [OF 2(5)]] quiet_env]] by simp
qed

lemma offered_after: "chan_run cfg c0 [] cs \<Longrightarrow> offered cfg clk cs src cmd cs' \<Longrightarrow> offered cfg clk c0 src cmd cs'"
  by (erule offered.cases) (auto intro: offered.intros quiet_trans)

lemma offered_request: "chan_run cfg cs [] c1 \<Longrightarrow> GetReadyCommand cfg req clk c1 = Inr (cmd, c2) \<Longrightarrow> IsValid cmd \<Longrightarrow>
    offered cfg clk cs (Some req) cmd c2"
  using offered.request [of cfg cs c1 req clk cmd c2 "c_env c2"] by simp

lemma offered_hydra: "chan_run cfg cs [] c1 \<Longrightarrow> GetReadyHydraCommand cfg clk c1 = Inr (cmd, c2) \<Longrightarrow> IsValid cmd \<Longrightarrow>
    offered cfg clk cs None cmd c2"
  using offered.hydra [of cfg cs c1 clk cmd c2 "c_env c2"] by simp

text \<open>Hydra requests do not run into an RFM threshold.\<close>

definition hydra_cfg_ok :: "Config \<Rightarrow> bool" where
  "hydra_cfg_ok cfg \<longleftrightarrow> hydra_mode cfg \<noteq> 1 \<or> rfm_mode cfg \<noteq> 1 \<and> rfm_mode cfg \<noteq> 2"

lemma hydra_queue_wf:
  assumes "queues_wf cfg cs"
  shows "\<forall>c\<in>set (hydra_queue (hydra_drain cfg cs)). IsReadWrite c \<and> hex_addr c = no_hex"
  using assms by (auto simp: queues_wf_def hydra_queue_def hydra_drain_def Let_def split: if_splits)

lemma hydra_offer:
  assumes w: "queues_wf cfg cs" and g: "GetReadyHydraCommand cfg clk cs = Inr (cmd, c1)" "IsValid cmd"
  obtains req b where "hydra_mode cfg = 1" "IsReadWrite req" "hex_addr req = no_hex" "bank_GetReadyCommand cfg b req clk = Inr cmd"
proof -
  obtain req q where q: "hydra_queue (hydra_drain cfg cs) = req # q"
    using g by (cases "hydra_queue (hydra_drain cfg cs)") (auto simp: GetReadyHydraCommand_def Let_def)
  then have r: "req \<in> set (hydra_queue (hydra_drain cfg cs))" by simp
  then have "hydra_mode cfg = 1"
    using w by (auto simp: queues_wf_def hydra_queue_def hydra_drain_def Let_def split: if_splits)
  moreover obtain b where "bank_GetReadyCommand cfg b req clk = Inr cmd"
    using g q by (auto simp: GetReadyHydraCommand_def Let_def bindE_Inr_iff split: if_splits)
  ultimately show ?thesis using that hydra_queue_wf [OF w] r by blast
qed

lemma hydra_offer_no_rfm:
  assumes "queues_wf cfg cs" "hydra_cfg_ok cfg" "GetReadyHydraCommand cfg clk cs = Inr (cmd, c1)" "IsValid cmd"
  shows "\<not> IsRFM cmd"
proof -
  obtain req b where h: "hydra_mode cfg = 1" "IsReadWrite req" "bank_GetReadyCommand cfg b req clk = Inr cmd"
    using hydra_offer [OF assms(1,3,4)] by metis
  then have m: "rfm_mode cfg \<noteq> 1" "rfm_mode cfg \<noteq> 2" using assms(2) by (auto simp: hydra_cfg_ok_def)
  obtain rt where rt: "required_type cfg b req = Inr rt" "cmd_type cmd = rt"
    using GetReady_valid [OF h(3) assms(4)] by (metis mk_Command_sel(1))
  then show ?thesis
    using m h(2) by (cases "b_state b")
      (auto simp: IsRFM_def required_type_def required_closed_def required_open_def required_sref_def IsReadWrite_def
        IsRead_def IsWrite_def split: if_splits)
qed

text \<open>Issuing what was offered is a step of the channel.\<close>

lemma offered_issue:
  assumes o: "offered cfg clk cs src cmd c1" and w: "queues_wf cfg cs" "hydra_cfg_ok cfg"
    and u: "UpdateTimingAndStates cfg cmd clk (c1\<lparr>c_env := e\<rparr>) = Inr c2"
  shows "chan_run cfg cs [(cmd, clk)] c2"
  using o
proof cases
  case (request c req c' e')
  have "chan_step cfg c (Some (cmd, clk)) c2"
    by (rule chan_step.issue [OF request(4,5), of e]) (use u request(2) in simp)
  with chan_run.step [OF request(3) this] show ?thesis by (simp add: event_list_def)
next
  case (hydra c c' e')
  have wc: "queues_wf cfg c" by (rule queues_wf_run [OF hydra(3) w(1)])
  have "chan_step cfg c (Some (cmd, clk)) c2"
    by (rule chan_step.issue_hydra [OF hydra(4,5), of e])
      (use u hydra(2) hydra_queue_wf [OF wc] hydra_offer_no_rfm [OF wc w(2) hydra(4,5)] in auto)
  with chan_run.step [OF hydra(3) this] show ?thesis by (simp add: event_list_def)
qed

section \<open>What the command queue returns\<close>

definition answers :: "Config \<Rightarrow> u64 \<Rightarrow> Command set \<Rightarrow> ChannelState \<Rightarrow> Command \<Rightarrow> ChannelState \<Rightarrow> bool" where
  "answers cfg clk R cs cmd cs' \<longleftrightarrow>
     (if IsValid cmd then \<exists>src. offered cfg clk cs src cmd cs' \<and> (\<forall>r. src = Some r \<longrightarrow> r \<in> R) else chan_run cfg cs [] cs')"

lemma answers_after: "chan_run cfg c0 [] cs \<Longrightarrow> answers cfg clk R cs cmd cs' \<Longrightarrow> answers cfg clk R c0 cmd cs'"
  by (auto simp: answers_def intro: offered_after quiet_trans split: if_splits)

lemma answers_mono: "answers cfg clk R cs cmd cs' \<Longrightarrow> R \<subseteq> S \<Longrightarrow> answers cfg clk S cs cmd cs'"
  by (auto simp: answers_def split: if_splits)

lemma answers_quiet: "answers cfg clk R cs cmd cs' \<Longrightarrow> chan_run cfg cs [] cs'"
  by (auto simp: answers_def intro: offered_quiet split: if_splits)

lemma ask_answers:
  assumes "GetReadyCommand cfg r clk cs = Inr (cmd, cs')" "r \<in> R"
  shows "answers cfg clk R cs cmd cs'"
  using assms offered_request [OF chan_run.start assms(1)] quiet_step [OF chan_step.ask [OF assms(1)]]
  by (auto simp: answers_def)

lemma Arbitrate_env:
  assumes "ArbitratePrecharge p c q cs = Inr (ok, cs')"
  obtains e where "cs' = cs\<lparr>c_env := e\<rparr>"
proof -
  have "cs' = cs\<lparr>c_env := c_env cs'\<rparr>"
    using assms by (auto simp: ArbitratePrecharge_def Let_def bindE_Inr_iff c_stat_inc_def split: if_splits)
  then show ?thesis by (rule that)
qed

lemma first_ready_answers:
  "first_ready cfg clk p q cs = Inr (cmd, cs') \<Longrightarrow> answers cfg clk (set q) cs cmd cs'"
proof (induction cfg clk p q cs rule: first_ready.induct)
  case (1 cfg clk p cs)
  then show ?case by (simp add: answers_def chan_run.start)
next
  case (2 cfg clk p c q cs)
  obtain h c1 where h: "GetReadyHydraCommand cfg clk cs = Inr (h, c1)" using "2.prems" by (auto simp: bindE_Inr_iff)
  show ?case
  proof (cases "IsValid h")
    case True
    then have "cmd = h" "cs' = c1" using "2.prems" h by auto
    then show ?thesis using True offered_hydra [OF chan_run.start h] by (auto simp: answers_def)
  next
    case hF: False
    note q1 = quiet_step [OF chan_step.ask_hydra [OF h]]
    obtain rc c2 where g: "GetReadyCommand cfg c clk c1 = Inr (rc, c2)"
      using "2.prems" h hF by (auto simp: bindE_Inr_iff)
    have q2: "chan_run cfg cs [] c2" by (rule quiet_trans [OF q1 quiet_step [OF chan_step.ask [OF g]]])
    have skip: "answers cfg clk (set (c # q)) cs cmd cs'" if "answers cfg clk (set q) c2 cmd cs'"
      by (rule answers_after [OF q2 answers_mono [OF that]]) auto
    have ret: "answers cfg clk (set (c # q)) cs rc (c2\<lparr>c_env := e\<rparr>)" if "IsValid rc" for e
      using that offered.request [OF q1 g] by (auto simp: answers_def)
    consider (no) "\<not> IsValid rc" | (pre) "IsValid rc" "cmd_type rc = PRECHARGE"
      | (dep) "IsValid rc" "cmd_type rc \<noteq> PRECHARGE" "IsWrite rc \<and> HasRWDependency p c"
      | (take) "IsValid rc" "cmd_type rc \<noteq> PRECHARGE" "\<not> (IsWrite rc \<and> HasRWDependency p c)" by blast
    then show ?thesis
    proof cases
      case no
      then show ?thesis using "2.prems" h hF g "2.IH"(1) [OF h refl hF g refl] by (intro skip) simp
    next
      case pre
      obtain ok c3 where a: "ArbitratePrecharge p c q c2 = Inr (ok, c3)"
        using "2.prems" h hF g pre by (auto simp: bindE_Inr_iff)
      obtain e where e: "c3 = c2\<lparr>c_env := e\<rparr>" by (rule Arbitrate_env [OF a])
      show ?thesis
      proof (cases ok)
        case True
        then show ?thesis using "2.prems" h hF g pre a e ret [OF pre(1), of e] by simp
      next
        case False
        then have "first_ready cfg clk (p @ [c]) q c3 = Inr (cmd, cs')" using "2.prems" h hF g pre a by simp
        then have "answers cfg clk (set q) c3 cmd cs'" using "2.IH"(2) [OF h refl hF g refl] pre a False by simp
        then show ?thesis using e by (intro skip answers_after [OF quiet_env [of cfg c2 e]]) simp
      qed
    next
      case dep
      then show ?thesis using "2.prems" h hF g "2.IH"(3) [OF h refl hF g refl] by (intro skip) simp
    next
      case take
      then show ?thesis using "2.prems" h hF g ret [OF take(1), of "c_env c2"] by (auto split: if_splits)
    qed
  qed
qed

section \<open>Column commands keep their identity\<close>

lemma required_rw:
  assumes "required_type cfg b req = Inr rt" "rt \<in> {READ, READ_PRECHARGE, WRITE, WRITE_PRECHARGE}"
  shows "rt = cmd_type req"
  using assms by (cases "b_state b")
    (auto simp: required_type_def required_closed_def required_open_def required_sref_def split: if_splits)

lemma Command_eta: "mk_Command (cmd_type c) (cmd_addr c) (hex_addr c) = c"
  by (simp add: mk_Command_def)

lemma bank_ready_rw:
  assumes "bank_GetReadyCommand cfg b req clk = Inr cmd" "IsReadWrite cmd"
  shows "cmd = req"
proof -
  have v: "IsValid cmd" using assms(2) by (auto simp: cmd_kinds)
  obtain rt where rt: "required_type cfg b req = Inr rt" "cmd = mk_Command rt (cmd_addr req) (hex_addr req)"
    using GetReady_valid [OF assms(1) v] by metis
  then have "rt = cmd_type req" using required_rw assms(2) by (auto simp: cmd_kinds)
  with rt(2) show ?thesis by (simp add: Command_eta)
qed

lemma ready_loop_rw:
  assumes "ready_loop cfg cs req clk jks rc n = Inr r" "\<not> IsReadWrite req" "\<not> IsReadWrite rc"
  shows "case r of Inl c \<Rightarrow> \<not> IsReadWrite c | Inr (c, m) \<Rightarrow> \<not> IsReadWrite c"
  using assms
proof (induction cfg cs req clk jks rc n rule: ready_loop.induct)
  case (2 cfg cs req clk j k jks rc n)
  then obtain b c where b: "bank_at cs (Rank req) j k = Inr b" "bank_GetReadyCommand cfg b req clk = Inr c"
    by (auto simp: bindE_Inr_iff)
  then have c: "\<not> IsReadWrite c" using bank_ready_rw "2.prems"(2) by blast
  then have "\<not> IsReadWrite (c\<lparr>cmd_addr := a\<rparr>)" for a by (simp add: cmd_kinds)
  then show ?case using "2.IH" b c "2.prems" by (auto split: if_splits)
qed auto

lemma all_ready_rw:
  assumes "all_ready cfg cs req clk jks n = Inr cmd" "IsRankCMD req \<or> IsSbCMD req"
  shows "\<not> IsReadWrite cmd"
proof -
  have d: "\<not> IsReadWrite Command_default" "\<not> IsReadWrite req" using assms(2) by (auto simp: cmd_kinds)
  obtain r where r: "ready_loop cfg cs req clk jks Command_default 0 = Inr r"
    "(case r of Inl rc \<Rightarrow> Inr rc | Inr (rc, m) \<Rightarrow> Inr (if m = n then rc else Command_default)) = (Inr cmd :: Command res)"
    using assms(1) by (auto simp: all_ready_def bindE_Inr_iff)
  from ready_loop_rw [OF r(1) d(2,1)] r(2) d(1) show ?thesis by (auto split: sum.splits prod.splits if_splits)
qed

lemma GetReadyCommand_rw:
  assumes "GetReadyCommand cfg req clk cs = Inr (cmd, cs')" "IsReadWrite cmd"
  shows "cmd = req"
proof (cases "IsRankCMD req \<or> IsSbCMD req")
  case True
  with assms(1) have "\<not> IsReadWrite cmd"
    by (auto simp: GetReadyCommand_def bindE_Inr_iff dest: all_ready_rw split: if_splits)
  with assms(2) show ?thesis by simp
next
  case False
  then obtain b rc where b: "bank_GetReadyCommand cfg b req clk = Inr rc"
    and rc: "cmd_type rc = ACTIVATE \<and> gate_activate cfg req rc clk cs = Inr (cmd, cs') \<or> rc = cmd"
    using assms by (auto simp: GetReadyCommand_def bindE_Inr_iff cmd_kinds split: if_splits)
  have "rc = cmd" using rc gate_activate_valid [of cfg req rc clk cs cmd cs'] assms(2) by (auto simp: cmd_kinds)
  with bank_ready_rw [OF b] assms(2) show ?thesis by simp
qed

lemma offered_rw:
  assumes "offered cfg clk cs src cmd cs'" "IsReadWrite cmd" "queues_wf cfg cs"
  shows "src = Some cmd \<or> src = None \<and> hex_addr cmd = no_hex"
  using assms(1)
proof cases
  case (request c1 req c2 e)
  then show ?thesis using GetReadyCommand_rw assms(2) by blast
next
  case (hydra c1 c2 e)
  obtain req b where "hex_addr req = no_hex" "bank_GetReadyCommand cfg b req clk = Inr cmd"
    using hydra_offer [OF queues_wf_run [OF hydra(3) assms(3)] hydra(4,5)] by metis
  with bank_ready_rw assms(2) hydra(1) show ?thesis by blast
qed

section \<open>The contents of the queues\<close>

definition key :: "Command \<Rightarrow> u64 \<times> bool" where
  "key c = (hex_addr c, IsWrite c)"

definition queued :: "CommandQueue \<Rightarrow> (u64 \<times> bool) multiset" where
  "queued cq = image_mset key (mset (concat (q_queues cq)))"

definition home :: "Config \<Rightarrow> CommandQueue \<Rightarrow> Command \<Rightarrow> int" where
  "home cfg cq c = GetQueueIndex cfg cq (Rank c) (Bankgroup c) (Bank c)"

definition q_wf :: "Config \<Rightarrow> CommandQueue \<Rightarrow> bool" where
  "q_wf cfg cq \<longleftrightarrow> int (length (q_queues cq)) = num_queues cq \<and>
     (\<forall>i<length (q_queues cq). \<forall>c\<in>set (q_queues cq ! i). home cfg cq c = int i \<and> IsReadWrite c \<and> hex_addr c \<noteq> no_hex)"

lemma mset_concat_update:
  "i < length qs \<Longrightarrow> mset (concat (qs[i := q])) + mset (qs ! i) = mset (concat qs) + mset q"
  by (induction qs arbitrary: i) (auto simp: nth_Cons split: nat.splits)

lemma erase_first_mset:
  "x \<in> set xs \<Longrightarrow> p x \<Longrightarrow> \<exists>y. p y \<and> mset xs = add_mset y (mset (erase_first p xs))"
  by (induction xs) auto

lemma EraseRW_member:
  assumes w: "q_wf cfg cq" and i: "i < length (q_queues cq)" and c: "cmd \<in> set (q_queues cq ! i)"
  shows "okE (EraseRWCommand cfg cmd cq) (\<lambda>cq'. \<exists>qs. cq' = cq\<lparr>q_queues := qs\<rparr> \<and> q_wf cfg cq' \<and> queued cq = add_mset (key cmd) (queued cq'))"
proof -
  let ?p = "\<lambda>c. hex_addr cmd = hex_addr c \<and> cmd_type cmd = cmd_type c" and ?q = "q_queues cq ! i"
  have h: "GetQueueIndex cfg cq (Rank cmd) (Bankgroup cmd) (Bank cmd) = int i" using w i c by (auto simp: q_wf_def home_def)
  have r: "inrange (int i) (q_queues cq)" using i by (simp add: inrange_def)
  let ?cq = "cq\<lparr>q_queues := (q_queues cq)[i := erase_first ?p ?q]\<rparr>"
  have run: "EraseRWCommand cfg cmd cq = Inr ?cq"
    using c r by (auto simp: EraseRWCommand_def GetQueue_def set_queue_def h Let_def)
  obtain y where y: "?p y" "mset ?q = add_mset y (mset (erase_first ?p ?q))"
    using erase_first_mset [OF c, of ?p] by auto
  have "key y = key cmd" using y(1) by (simp add: key_def cmd_kinds)
  moreover have "mset (concat (q_queues cq)) = add_mset y (mset (concat (q_queues ?cq)))"
    using mset_concat_update [OF i, of "erase_first ?p ?q"] y(2) by simp
  ultimately have "queued cq = add_mset (key cmd) (queued ?cq)" by (simp add: queued_def)
  moreover have "home cfg ?cq x = home cfg cq x" for x by (simp add: home_def GetQueueIndex_def)
  then have "q_wf cfg ?cq"
    using w i set_erase_first [of ?p ?q] unfolding q_wf_def by (auto simp: nth_list_update)
  ultimately show ?thesis by (auto simp: run)
qed

lemma EraseRW_foreign:
  assumes "q_wf cfg cq" "hex_addr cmd = no_hex"
  shows "vE (EraseRWCommand cfg cmd cq) (\<lambda>cq'. cq' = cq)"
proof (rule vE_I)
  fix cq' assume e: "EraseRWCommand cfg cmd cq = Inr cq'"
  then obtain q where q: "GetQueue cfg cq (Rank cmd) (Bankgroup cmd) (Bank cmd) = Inr q"
    by (auto simp: EraseRWCommand_def bindE_Inr_iff)
  then have "nat (home cfg cq cmd) < length (q_queues cq)" "q = q_queues cq ! nat (home cfg cq cmd)"
    by (auto simp: GetQueue_def home_def vget_Inr_iff inrange_def nat_less_iff)
  then have "\<forall>c\<in>set q. hex_addr c \<noteq> no_hex" using assms(1) unfolding q_wf_def by blast
  then have n: "\<not> (\<exists>c\<in>set q. hex_addr cmd = hex_addr c \<and> cmd_type cmd = cmd_type c)" using assms(2) by metis
  have "EraseRWCommand cfg cmd cq = Inr cq"
    unfolding EraseRWCommand_def Let_def q bindE_simps if_not_P [OF n] using assms(2) by simp
  with e show "cq' = cq" by simp
qed

text \<open>What a command takes out of the queues when it is issued.\<close>

definition taken :: "Command \<Rightarrow> (u64 \<times> bool) multiset" where
  "taken cmd = (if IsReadWrite cmd \<and> hex_addr cmd \<noteq> no_hex then {#key cmd#} else {#})"

definition turned :: "CommandQueue \<Rightarrow> CommandQueue \<Rightarrow> bool" where
  "turned cq cq' \<longleftrightarrow> cq' = cq\<lparr>queue_idx := queue_idx cq', q_queues := q_queues cq'\<rparr>"

lemma turned_refl [simp]: "turned cq cq"
  by (simp add: turned_def)

lemma turned_trans: "turned a b \<Longrightarrow> turned b c \<Longrightarrow> turned a c"
  unfolding turned_def by (cases a; cases b; cases c) simp

lemma turned_fields:
  assumes "turned cq cq'"
  shows "q_clk cq' = q_clk cq" "is_in_ref cq' = is_in_ref cq" "is_in_rfm cq' = is_in_rfm cq" "rank_q_empty cq' = rank_q_empty cq"
    "queue_size cq' = queue_size cq" "num_queues cq' = num_queues cq" "q_structure cq' = q_structure cq"
  using assms by (cases cq; cases cq'; simp add: turned_def)+

lemma GetNextQueue_next:
  assumes "GetNextQueue cq = Inr (q, cq1)" "q_wf cfg cq"
  obtains i where "i < length (q_queues cq)" "q = q_queues cq ! i" "cq1 = cq\<lparr>queue_idx := int i\<rparr>" "q_wf cfg cq1" "queued cq1 = queued cq"
proof -
  define i where "i = (if queue_idx cq + 1 = num_queues cq then 0 else queue_idx cq + 1)"
  have i: "inrange i (q_queues cq)" "q = q_queues cq ! nat i" "cq1 = cq\<lparr>queue_idx := i\<rparr>"
    using assms(1) by (auto simp: GetNextQueue_def Let_def i_def [symmetric] bindE_Inr_iff vget_Inr_iff)
  have "home cfg (cq\<lparr>queue_idx := i\<rparr>) c = home cfg cq c" for c by (simp add: home_def GetQueueIndex_def)
  then have "q_wf cfg cq1" using assms(2) i(3) by (simp add: q_wf_def)
  with i show ?thesis by (intro that [of "nat i"]) (auto simp: inrange_def queued_def)
qed

lemma issue_loop_answers:
  assumes "issue_loop cfg n (cq, cs) = Inr (cmd, cq', cs')" "q_wf cfg cq" "queues_wf cfg cs"
  shows "answers cfg (q_clk cq) UNIV cs cmd cs' \<and> q_wf cfg cq' \<and> turned cq cq' \<and> queued cq = queued cq' + taken cmd"
  using assms
proof (induction n arbitrary: cq cs)
  case 0
  then show ?case by (auto simp: answers_def chan_run.start taken_def cmd_kinds)
next
  case (Suc n)
  obtain q cq1 where g: "GetNextQueue cq = Inr (q, cq1)" using Suc.prems(1) by (auto simp: bindE_Inr_iff)
  obtain i where i: "i < length (q_queues cq)" "q = q_queues cq ! i" "cq1 = cq\<lparr>queue_idx := int i\<rparr>" "q_wf cfg cq1" "queued cq1 = queued cq"
    by (rule GetNextQueue_next [OF g Suc.prems(2)])
  have t1: "turned cq cq1" "q_clk cq1 = q_clk cq" using i(3) by (simp_all add: turned_def)
  have again: ?case if "issue_loop cfg n (cq1, c1) = Inr (cmd, cq', cs')" "chan_run cfg cs [] c1" for c1
    using Suc.IH [OF that(1) i(4) queues_wf_run [OF that(2) Suc.prems(3)]] t1 i(5) answers_after [OF that(2)]
    by (auto intro: turned_trans)
  let ?skip = "is_in_ref cq1 \<and> queue_idx cq1 \<in> ref_q_indices cq1 \<or> is_in_rfm cq1 \<and> queue_idx cq1 \<in> rfm_q_indices cq1"
  show ?case
  proof (cases ?skip)
    case True
    then have "issue_loop cfg n (cq1, cs) = Inr (cmd, cq', cs')" using Suc.prems(1) g by auto
    then show ?thesis by (rule again) (rule chan_run.start)
  next
    case False
    obtain c c1 where f: "first_ready cfg (q_clk cq1) [] q cs = Inr (c, c1)"
      and r: "(if IsValid c then bindE (if IsReadWrite c then EraseRWCommand cfg c cq1 else Inr cq1) (\<lambda>cq. Inr (c, cq, c1))
        else issue_loop cfg n (cq1, c1)) = Inr (cmd, cq', cs')"
      using Suc.prems(1) g False unfolding issue_loop.simps GetFirstReadyInQueue_def
      by (auto simp: bindE_Inr_iff simp del: first_ready.simps split: if_splits)
    note an = first_ready_answers [OF f]
    show ?thesis
    proof (cases "IsValid c")
      case False
      then show ?thesis using r again answers_quiet [OF an] by simp
    next
      case v: True
      then have c: "c = cmd" "c1 = cs'" using r by (auto simp: bindE_Inr_iff)
      have A: "answers cfg (q_clk cq) UNIV cs cmd cs'" using answers_mono [OF an] t1 c by simp
      obtain src where src: "offered cfg (q_clk cq1) cs src cmd cs'" "\<forall>r. src = Some r \<longrightarrow> r \<in> set q"
        using an v c by (auto simp: answers_def)
      show ?thesis
      proof (cases "IsReadWrite cmd")
        case False
        then show ?thesis using r v c A i(4,5) t1 by (simp add: taken_def)
      next
        case rw: True
        then have e: "EraseRWCommand cfg cmd cq1 = Inr cq'" using r v c by (auto simp: bindE_Inr_iff)
        consider "cmd \<in> set q" | "hex_addr cmd = no_hex" using offered_rw [OF src(1) rw Suc.prems(3)] src(2) by auto
        then show ?thesis
        proof cases
          case 1
          then obtain qs where qs: "cq' = cq1\<lparr>q_queues := qs\<rparr>" "q_wf cfg cq'" "queued cq1 = add_mset (key cmd) (queued cq')"
            using EraseRW_member [OF i(4), of i cmd] i(1-3) e by auto
          have "hex_addr cmd \<noteq> no_hex" using 1 Suc.prems(2) i(1,2) by (auto simp: q_wf_def)
          moreover have "turned cq1 cq'" using qs(1) by (simp add: turned_def)
          ultimately show ?thesis using A qs t1 i(5) rw by (auto simp: taken_def intro: turned_trans)
        next
          case 2
          then have "cq' = cq1" using vE_D [OF EraseRW_foreign [OF i(4)] e] by simp
          then show ?thesis using A i(4,5) t1 2 by (simp add: taken_def)
        qed
      qed
    qed
  qed
qed

lemma GetCommandToIssue_answers:
  assumes "GetCommandToIssue cfg (cq, cs) = Inr (cmd, cq', cs')" "q_wf cfg cq" "queues_wf cfg cs"
  shows "answers cfg (q_clk cq) UNIV cs cmd cs'" "q_wf cfg cq'" "turned cq cq'" "queued cq = queued cq' + taken cmd"
  using issue_loop_answers [OF _ assms(2,3)] assms(1) by (auto simp: GetCommandToIssue_def)

section \<open>Refresh and RFM\<close>

text \<open>The flags and index sets of maintenance do not matter to the contents.\<close>

definition flagged :: "CommandQueue \<Rightarrow> CommandQueue \<Rightarrow> bool" where
  "flagged cq cq' \<longleftrightarrow> cq' = cq\<lparr>ref_q_indices := ref_q_indices cq', is_in_ref := is_in_ref cq',
     rfm_q_indices := rfm_q_indices cq', is_in_rfm := is_in_rfm cq'\<rparr>"

lemma flagged_simps [simp]:
  "flagged cq cq"
  "flagged cq (cq1\<lparr>ref_q_indices := a\<rparr>) = flagged cq cq1"
  "flagged cq (cq1\<lparr>is_in_ref := b\<rparr>) = flagged cq cq1"
  "flagged cq (cq1\<lparr>rfm_q_indices := a\<rparr>) = flagged cq cq1"
  "flagged cq (cq1\<lparr>is_in_rfm := b\<rparr>) = flagged cq cq1"
  by (cases cq; cases cq1; simp add: flagged_def)+

lemma flagged_fields:
  assumes "flagged cq cq'"
  shows "q_clk cq' = q_clk cq" "queued cq' = queued cq" "q_wf cfg cq' = q_wf cfg cq" "rank_q_empty cq' = rank_q_empty cq"
proof -
  have f: "q_clk cq' = q_clk cq" "q_queues cq' = q_queues cq" "num_queues cq' = num_queues cq" "q_structure cq' = q_structure cq"
    "rank_q_empty cq' = rank_q_empty cq"
    using assms by (cases cq; cases cq'; simp add: flagged_def)+
  then have "home cfg cq' = home cfg cq" by (simp add: home_def GetQueueIndex_def fun_eq_iff)
  with f show "q_clk cq' = q_clk cq" "queued cq' = queued cq" "q_wf cfg cq' = q_wf cfg cq" "rank_q_empty cq' = rank_q_empty cq"
    by (simp_all add: queued_def q_wf_def)
qed

lemma not_rw_taken:
  assumes "answers cfg clk R cs cmd cs'" "queues_wf cfg cs" "\<forall>r\<in>R. \<not> IsReadWrite r"
  shows "taken cmd = {#}"
proof (rule ccontr)
  assume "taken cmd \<noteq> {#}"
  then have rw: "IsReadWrite cmd" "hex_addr cmd \<noteq> no_hex" by (auto simp: taken_def split: if_splits)
  then have "IsValid cmd" by (auto simp: cmd_kinds)
  then obtain src where src: "offered cfg clk cs src cmd cs'" "\<forall>r. src = Some r \<longrightarrow> r \<in> R"
    using assms(1) by (auto simp: answers_def)
  then have "cmd \<in> R" using offered_rw [OF src(1) rw(1) assms(2)] rw(2) by blast
  then show False using assms(3) rw(1) by blast
qed

lemma FinishRefresh_answers:
  assumes "FinishRefresh cfg (cq, cs) = Inr (cmd, cq', cs')" "queues_wf cfg cs"
  shows "answers cfg (q_clk cq) UNIV cs cmd cs'" "flagged cq cq'" "taken cmd = {#}"
proof -
  obtain ref cq1 where r: "PendingRefCommand cs = Inr ref"
    and q: "(if \<not> is_in_ref cq then bindE (GetRefQIndices cfg ref cq) (\<lambda>cq. Inr (cq\<lparr>is_in_ref := True\<rparr>)) else Inr cq) = Inr cq1"
    and g: "GetReadyCommand cfg ref (q_clk cq1) cs = Inr (cmd, cs')"
    and cq': "cq' = (if IsRefresh cmd then cq1\<lparr>ref_q_indices := {}, is_in_ref := False\<rparr> else cq1)"
    using assms(1) unfolding FinishRefresh_def prod.case by (elim bindE_InrE) auto
  have f: "flagged cq cq1" using q by (auto simp: GetRefQIndices_def bindE_Inr_iff split: if_splits)
  have "ref \<in> set (refresh_q cs)" using r by (cases "refresh_q cs") (auto simp: PendingRefCommand_def vfront_def)
  then have "\<not> IsReadWrite ref" using assms(2) by (auto simp: queues_wf_def cmd_kinds)
  moreover have a: "answers cfg (q_clk cq) {ref} cs cmd cs'"
    using ask_answers [OF g, of "{ref}"] flagged_fields(1) [OF f] by simp
  ultimately show "taken cmd = {#}" using not_rw_taken [OF a assms(2)] by simp
  show "answers cfg (q_clk cq) UNIV cs cmd cs'" by (rule answers_mono [OF a]) simp
  show "flagged cq cq'" using f by (simp add: cq')
qed

lemma FinishRFM_answers:
  assumes "FinishRFM cfg (cq, cs) = Inr (cmd, cq', cs')" "queues_wf cfg cs"
  shows "answers cfg (q_clk cq) UNIV cs cmd cs'" "flagged cq cq'" "taken cmd = {#}"
proof -
  obtain rfm cq1 where r: "PendingRFMCommand cs = Inr rfm"
    and q: "(if \<not> is_in_rfm cq then bindE (GetRFMQIndices cfg rfm cq) (\<lambda>cq. Inr (cq\<lparr>is_in_rfm := True\<rparr>)) else Inr cq) = Inr cq1"
    and g: "GetReadyCommand cfg rfm (q_clk cq1) cs = Inr (cmd, cs')"
    and cq': "cq' = (if IsRFM cmd \<or> IsDRFM cmd then cq1\<lparr>rfm_q_indices := {}, is_in_rfm := False\<rparr> else cq1)"
    using assms(1) unfolding FinishRFM_def prod.case by (elim bindE_InrE) auto
  have f: "flagged cq cq1" using q by (auto simp: GetRFMQIndices_def bindE_Inr_iff split: if_splits)
  have "rfm \<in> set (rfm_q cs)" using r by (cases "rfm_q cs") (auto simp: PendingRFMCommand_def vfront_def)
  then have "IsRFM rfm \<or> IsDRFM rfm" using assms(2) by (auto simp: queues_wf_def)
  then have "\<not> IsReadWrite rfm" by (auto simp: cmd_kinds)
  moreover have a: "answers cfg (q_clk cq) {rfm} cs cmd cs'"
    using ask_answers [OF g, of "{rfm}"] flagged_fields(1) [OF f] by simp
  ultimately show "taken cmd = {#}" using not_rw_taken [OF a assms(2)] by simp
  show "answers cfg (q_clk cq) UNIV cs cmd cs'" by (rule answers_mono [OF a]) simp
  show "flagged cq cq'" using f by (simp add: cq')
qed

section \<open>Filling the queues\<close>

lemma AddCommand_queued:
  assumes "AddCommand cfg cmd cq = Inr (ok, cq')" "q_wf cfg cq" "IsReadWrite cmd" "hex_addr cmd \<noteq> no_hex"
  shows "q_wf cfg cq'" "q_clk cq' = q_clk cq" "queued cq' = queued cq + (if ok then {#key cmd#} else {#})"
    "ok \<longleftrightarrow> WillAcceptCommand cfg cq (Rank cmd) (Bankgroup cmd) (Bank cmd) = Inr True"
proof -
  obtain q where q: "GetQueue cfg cq (Rank cmd) (Bankgroup cmd) (Bank cmd) = Inr q" using assms(1) by (auto simp: AddCommand_def bindE_Inr_iff)
  define i where "i = nat (home cfg cq cmd)"
  have i: "i < length (q_queues cq)" "q = q_queues cq ! i" "home cfg cq cmd = int i"
    using q by (auto simp: GetQueue_def home_def i_def vget_Inr_iff inrange_def nat_less_iff)
  have wa: "WillAcceptCommand cfg cq (Rank cmd) (Bankgroup cmd) (Bank cmd) = Inr (length q < unat (queue_size cq))"
    by (simp add: WillAcceptCommand_def q)
  have "q_wf cfg cq' \<and> q_clk cq' = q_clk cq \<and> queued cq' = queued cq + (if ok then {#key cmd#} else {#}) \<and> ok = (length q < unat (queue_size cq))"
  proof (cases "length q < unat (queue_size cq)")
    case False
    then show ?thesis using assms(1,2) by (auto simp: AddCommand_def q)
  next
    case True
    have r: "inrange (int i) (q_queues cq)" "GetQueueIndex cfg cq (Rank cmd) (Bankgroup cmd) (Bank cmd) = int i"
      using i by (auto simp: inrange_def home_def)
    obtain em where cq': "cq' = cq\<lparr>q_queues := (q_queues cq)[i := q @ [cmd]], rank_q_empty := em\<rparr>" "ok"
      using assms(1) True r by (auto simp: AddCommand_def q set_queue_def bindE_Inr_iff)
    have "home cfg cq' c = home cfg cq c" for c by (simp add: cq' home_def GetQueueIndex_def)
    then have "q_wf cfg cq'" using assms(2-4) i unfolding q_wf_def by (auto simp: cq' nth_list_update)
    moreover have "mset (concat (q_queues cq')) = add_mset cmd (mset (concat (q_queues cq)))"
      using mset_concat_update [OF i(1), of "q @ [cmd]"] i(2) by (simp add: cq')
    ultimately show ?thesis using cq' True by (simp add: queued_def)
  qed
  with wa show "q_wf cfg cq'" "q_clk cq' = q_clk cq" "queued cq' = queued cq + (if ok then {#key cmd#} else {#})"
    "ok \<longleftrightarrow> WillAcceptCommand cfg cq (Rank cmd) (Bankgroup cmd) (Bank cmd) = Inr True" by auto
qed

end
