(* ===== verification/Controller_Run.thy ===== *)
theory Controller_Run
  imports Queue_Run
begin

text \<open>
  The controller as a whole: its ticks are runs of the channel, so the timing of every command it issues is
  safe; and its books balance: every transaction it accepts is either still in it or has been
  returned, exactly once, and a column command always finds the transaction it belongs to.
\<close>

section \<open>The parts of a tick\<close>

lemma ctl_stats_cs [simp]:
  "ctl_cs (ctl_stats f ctl) = (ctl_cs ctl)\<lparr>c_env := (c_env (ctl_cs ctl))\<lparr>env_stats := f (env_stats (c_env (ctl_cs ctl)))\<rparr>\<rparr>"
  by (simp add: ctl_stats_def)

lemma return_reads_all:
  "return_reads (mm_count h pend) t h (pend, ret) = Inr (filter (\<lambda>e. fst e \<noteq> h) pend,
     ret @ map (\<lambda>e. (snd e)\<lparr>complete_cycle := t\<rparr>) (filter (\<lambda>e. fst e = h) pend))"
proof (induction "mm_count h pend" arbitrary: pend ret)
  case 0
  then have "\<forall>e\<in>set pend. fst e \<noteq> h" by (auto simp: mm_count_def filter_empty_conv)
  then show ?case by (simp add: mm_count_def filter_id_conv filter_empty_conv)
next
  case (Suc n)
  then have "filter (\<lambda>e. fst e = h) pend \<noteq> []" by (auto simp: mm_count_def)
  then obtain e where "e \<in> set pend" "fst e = h" by (auto simp: filter_empty_conv)
  then obtain ys y zs where s: "pend = ys @ y # zs" "fst y = h" "\<forall>z\<in>set ys. fst z \<noteq> h"
    "erase_first (\<lambda>e. fst e = h) pend = ys @ zs"
    using erase_first_split [of e pend "\<lambda>e. fst e = h"] by auto
  have f: "find (\<lambda>e. fst e = h) pend = Some y" 
    using s(1-3) by (auto simp: find_Some_iff nth_append intro!: exI [of _ "length ys"])
  have ys: "filter (\<lambda>e. fst e = h) ys = []" using s(3) by (simp add: filter_empty_conv)
  have n: "n = mm_count h (ys @ zs)" using Suc(2) s(1,2) ys by (simp add: mm_count_def)
  have "return_reads (Suc n) t h (pend, ret) = return_reads n t h (ys @ zs, ret @ [(snd y)\<lparr>complete_cycle := t\<rparr>])"
    by (simp add: f s(4))
  also have "\<dots> = Inr (filter (\<lambda>e. fst e \<noteq> h) pend, ret @ map (\<lambda>e. (snd e)\<lparr>complete_cycle := t\<rparr>) (filter (\<lambda>e. fst e = h) pend))"
    using Suc(1) [OF n, of "ret @ [(snd y)\<lparr>complete_cycle := t\<rparr>]"] n s(1,2) ys by simp
  finally show ?case using Suc(2) by simp
qed

text \<open>What a command does to the pending transactions and the return queue.\<close>

definition settles :: "Config \<Rightarrow> Command \<Rightarrow> Controller \<Rightarrow> Controller \<Rightarrow> bool" where
  "settles cfg cmd ctl ctl' \<longleftrightarrow>
     (if IsRead cmd \<and> hex_addr cmd \<noteq> no_hex
      then mm_count (hex_addr cmd) (pending_rd_q ctl) > 0 \<and>
        pending_rd_q ctl' = filter (\<lambda>e. fst e \<noteq> hex_addr cmd) (pending_rd_q ctl) \<and> pending_wr_q ctl' = pending_wr_q ctl \<and>
        return_queue ctl' = return_queue ctl @ map (\<lambda>e. (snd e)\<lparr>complete_cycle := ctl_clk ctl + word_of_int (read_delay cfg)\<rparr>)
          (filter (\<lambda>e. fst e = hex_addr cmd) (pending_rd_q ctl))
      else if IsWrite cmd \<and> hex_addr cmd \<noteq> no_hex
      then mm_count (hex_addr cmd) (pending_wr_q ctl) > 0 \<and> pending_rd_q ctl' = pending_rd_q ctl \<and>
        pending_wr_q ctl' = erase_first (\<lambda>e. fst e = hex_addr cmd) (pending_wr_q ctl) \<and> return_queue ctl' = return_queue ctl
      else pending_rd_q ctl' = pending_rd_q ctl \<and> pending_wr_q ctl' = pending_wr_q ctl \<and> return_queue ctl' = return_queue ctl)"

text \<open>The members that a command does not touch.\<close>

definition still :: "Controller \<Rightarrow> Controller \<Rightarrow> bool" where
  "still ctl ctl' \<longleftrightarrow> ctl_clk ctl' = ctl_clk ctl \<and> is_unified_queue ctl' = is_unified_queue ctl \<and>
     ctl_unified_queue ctl' = ctl_unified_queue ctl \<and> read_queue ctl' = read_queue ctl \<and> write_buffer ctl' = write_buffer ctl \<and>
     ctl_row_buf_policy ctl' = ctl_row_buf_policy ctl \<and> write_draining ctl' = write_draining ctl"

definition no_traffic :: "Controller \<Rightarrow> Controller \<Rightarrow> bool" where
  "no_traffic ctl ctl' \<longleftrightarrow> still ctl ctl' \<and> pending_rd_q ctl' = pending_rd_q ctl \<and> pending_wr_q ctl' = pending_wr_q ctl \<and>
     return_queue ctl' = return_queue ctl"

lemma still_refl [simp]: "still ctl ctl"
  by (simp add: still_def)

lemma still_trans: "still a b \<Longrightarrow> still b c \<Longrightarrow> still a c"
  by (simp add: still_def)

lemma no_traffic_refl [simp]: "no_traffic ctl ctl"
  by (simp add: no_traffic_def)

lemma no_traffic_trans: "no_traffic a b \<Longrightarrow> no_traffic b c \<Longrightarrow> no_traffic a c"
  by (auto simp: no_traffic_def intro: still_trans)

lemma no_traffic_stats [simp]:
  "no_traffic ctl (ctl_stats f ctl') = no_traffic ctl ctl'" "still ctl (ctl_stats f ctl') = still ctl ctl'"
  "ctl_cq (ctl_stats f ctl') = ctl_cq ctl'" "ctl_rf (ctl_stats f ctl') = ctl_rf ctl'" "ctl_clk (ctl_stats f ctl') = ctl_clk ctl'"
  by (simp_all add: no_traffic_def still_def ctl_stats_def)

lemma no_traffic_parts [simp]:
  "no_traffic ctl (ctl'\<lparr>ctl_cs := x\<rparr>) = no_traffic ctl ctl'" "still ctl (ctl'\<lparr>ctl_cs := x\<rparr>) = still ctl ctl'"
  "no_traffic ctl (ctl'\<lparr>ctl_cq := y\<rparr>) = no_traffic ctl ctl'" "still ctl (ctl'\<lparr>ctl_cq := y\<rparr>) = still ctl ctl'"
  "no_traffic ctl (ctl'\<lparr>ctl_rf := z\<rparr>) = no_traffic ctl ctl'" "still ctl (ctl'\<lparr>ctl_rf := z\<rparr>) = still ctl ctl'"
  by (simp_all add: no_traffic_def still_def)

lemma finish_access_settles:
  assumes "finish_access cfg cmd ctl = Inr ctl'"
  shows "settles cfg cmd ctl ctl' \<and> still ctl ctl' \<and> ctl_cq ctl' = ctl_cq ctl \<and> ctl_rf ctl' = ctl_rf ctl \<and>
    (\<exists>e. ctl_cs ctl' = (ctl_cs ctl)\<lparr>c_env := e\<rparr>)"
proof -
  consider (rd) "IsRead cmd \<and> hex_addr cmd \<noteq> no_hex" | (wr) "\<not> IsRead cmd" "IsWrite cmd \<and> hex_addr cmd \<noteq> no_hex"
    | (other) "\<not> (IsRead cmd \<and> hex_addr cmd \<noteq> no_hex)" "\<not> (IsWrite cmd \<and> hex_addr cmd \<noteq> no_hex)"
    by (auto simp: cmd_kinds)
  then show ?thesis
  proof cases
    case rd
    then show ?thesis
      using assms return_reads_all [of "hex_addr cmd" "pending_rd_q ctl" "ctl_clk ctl + word_of_int (read_delay cfg)" "return_queue ctl"]
      by (auto simp: finish_access_def settles_def still_def Let_def split: if_splits intro!: exI [of _ "c_env (ctl_cs ctl)"])
  next
    case wr
    then obtain e where e: "find (\<lambda>e. fst e = hex_addr cmd) (pending_wr_q ctl) = Some e"
      using assms by (auto simp: finish_access_def split: option.splits)
    then have "e \<in> set (pending_wr_q ctl)" "fst e = hex_addr cmd" by (auto simp: find_Some_iff)
    then have "mm_count (hex_addr cmd) (pending_wr_q ctl) > 0" by (auto simp: mm_count_def filter_empty_conv)
    then show ?thesis
      using assms wr e by (auto simp: finish_access_def settles_def still_def Let_def ctl_stats_def)
  next
    case other
    then show ?thesis using assms by (auto simp: finish_access_def settles_def intro!: exI [of _ "c_env (ctl_cs ctl)"])
  qed
qed

lemma UpdateCommandStats_env:
  assumes "UpdateCommandStats cmd ctl = Inr ctl'"
  shows "no_traffic ctl ctl' \<and> ctl_cq ctl' = ctl_cq ctl \<and> ctl_rf ctl' = ctl_rf ctl \<and> (\<exists>e. ctl_cs ctl' = (ctl_cs ctl)\<lparr>c_env := e\<rparr>)"
proof -
  have i: "no_traffic ctl (ctl_inc n ctl) \<and> ctl_cq (ctl_inc n ctl) = ctl_cq ctl \<and> ctl_rf (ctl_inc n ctl) = ctl_rf ctl \<and>
    (\<exists>e. ctl_cs (ctl_inc n ctl) = (ctl_cs ctl)\<lparr>c_env := e\<rparr>)" for n ctl by (auto simp: ctl_inc_def)
  have "row_hit_stat n m cmd ctl = Inr ctl' \<Longrightarrow> ?thesis" for n m
    by (auto simp: row_hit_stat_def Let_def bindE_Inr_iff ctl_inc_def split: if_splits)
  then show ?thesis using assms by (cases "cmd_type cmd") (auto simp: UpdateCommandStats_def i simp del: no_traffic_stats)
qed

lemma IssueCommand_effect:
  assumes "IssueCommand cfg cmd ctl = Inr ctl'"
  obtains e where "settles cfg cmd ctl ctl'" "still ctl ctl'" "ctl_cq ctl' = ctl_cq ctl" "ctl_rf ctl' = ctl_rf ctl"
    "UpdateTimingAndStates cfg cmd (ctl_clk ctl) ((ctl_cs ctl)\<lparr>c_env := e\<rparr>) = Inr (ctl_cs ctl')"
proof -
  obtain c1 c2 cs where r: "finish_access cfg cmd ctl = Inr c1" "UpdateCommandStats cmd c1 = Inr c2"
    "UpdateTimingAndStates cfg cmd (ctl_clk c2) (ctl_cs c2) = Inr cs" "ctl' = c2\<lparr>ctl_cs := cs\<rparr>"
    using assms by (auto simp: IssueCommand_def bindE_Inr_iff)
  note f = finish_access_settles [OF r(1)] and u = UpdateCommandStats_env [OF r(2)]
  obtain e1 e2 where e: "ctl_cs c1 = (ctl_cs ctl)\<lparr>c_env := e1\<rparr>" "ctl_cs c2 = (ctl_cs c1)\<lparr>c_env := e2\<rparr>" using f u by blast
  have clk: "ctl_clk c2 = ctl_clk ctl" using f u by (simp add: still_def no_traffic_def)
  show ?thesis
  proof (rule that [of e2])
    show "settles cfg cmd ctl ctl'" using f u r(4) by (simp add: settles_def no_traffic_def)
    show "still ctl ctl'" using f u r(4) by (auto simp: no_traffic_def intro: still_trans)
    show "UpdateTimingAndStates cfg cmd (ctl_clk ctl) ((ctl_cs ctl)\<lparr>c_env := e2\<rparr>) = Inr (ctl_cs ctl')"
      using r(3,4) e clk by simp
  qed (use f u r(4) in auto)
qed

section \<open>Well-formed controllers\<close>

definition tkey :: "Transaction \<Rightarrow> u64 \<times> bool" where
  "tkey t = (t_addr t, t_is_write t)"

definition waiting :: "Controller \<Rightarrow> (u64 \<times> bool) multiset" where
  "waiting ctl = image_mset tkey (mset (tq (ctl_unified_queue ctl)) + mset (tq (read_queue ctl)) + mset (tq (write_buffer ctl)))"

definition ctl_wf :: "Config \<Rightarrow> Controller \<Rightarrow> bool" where
  "ctl_wf cfg ctl \<longleftrightarrow> q_wf cfg (ctl_cq ctl) \<and> queues_wf cfg (ctl_cs ctl) \<and> q_clk (ctl_cq ctl) = ctl_clk ctl \<and>
     (\<forall>k\<in>#waiting ctl. fst k \<noteq> no_hex)"

lemma waiting_still: "still ctl ctl' \<Longrightarrow> waiting ctl' = waiting ctl"
  by (simp add: still_def waiting_def)

lemma ctl_wf_update:
  assumes "ctl_wf cfg ctl" "still ctl ctl'" "q_wf cfg (ctl_cq ctl')" "q_clk (ctl_cq ctl') = q_clk (ctl_cq ctl)"
    "chan_run cfg (ctl_cs ctl) tr (ctl_cs ctl')"
  shows "ctl_wf cfg ctl'"
  using assms queues_wf_run [OF assms(5)] waiting_still [OF assms(2)] by (auto simp: ctl_wf_def still_def)

lemma quiet_refresh:
  assumes "refresh_ClockTick cfg (rf, cs) = Inr (rf', cs')"
  shows "chan_run cfg cs [] cs'"
proof -
  have needs: "chan_run cfg cs [] (RankNeedRefresh r True cs)" "chan_run cfg cs [] (BanksetNeedRefresh r k True cs)"
    "chan_run cfg cs [] (BankNeedRefresh r j k True cs)" "chan_run cfg cs [] cs" for r j k
    by (auto intro: chan_run.start quiet_step chan_step.intros)
  have "chan_run cfg cs [] cs'" if "InsertRefresh cfg (rf, cs) = Inr (rf', cs')" for rf rf'
    using that by (cases "rf_policy rf")
      (auto simp: InsertRefresh_def Let_def bindE_Inr_iff intro: needs chan_run.start split: option.splits if_splits)
  then show ?thesis
    using assms by (auto simp: refresh_ClockTick_def bindE_Inr_iff intro: chan_run.start split: if_splits)
qed

lemma tick_generators_quiet:
  assumes "tick_generators cfg ctl = Inr ctl'"
  shows "chan_run cfg (ctl_cs ctl) [] (ctl_cs ctl') \<and> no_traffic ctl ctl' \<and> ctl_cq ctl' = ctl_cq ctl"
proof -
  obtain rf c1 c2 where r: "refresh_ClockTick cfg (ctl_rf ctl, ctl_cs ctl) = Inr (rf, c1)"
    "channel_ClockTick cfg (ctl_clk ctl) c1 = Inr c2" "ctl' = ctl\<lparr>ctl_rf := rf, ctl_cs := c2\<rparr>"
    using assms by (auto simp: tick_generators_def bindE_Inr_iff)
  show ?thesis
    using quiet_trans [OF quiet_refresh [OF r(1)] quiet_step [OF chan_step.tick [OF r(2)]]] r(3) by simp
qed

text \<open>Picking a command.\<close>

lemma on_queue_Inr:
  assumes "on_queue f ctl = Inr (cmd, ctl')"
  obtains cq cs where "f (ctl_cq ctl, ctl_cs ctl) = Inr (cmd, cq, cs)" "ctl' = ctl\<lparr>ctl_cq := cq, ctl_cs := cs\<rparr>"
  using assms by (auto simp: on_queue_def bindE_Inr_iff)

definition picks :: "Config \<Rightarrow> Command \<Rightarrow> Controller \<Rightarrow> Controller \<Rightarrow> bool" where
  "picks cfg cmd ctl ctl' \<longleftrightarrow> answers cfg (ctl_clk ctl) UNIV (ctl_cs ctl) cmd (ctl_cs ctl') \<and> no_traffic ctl ctl' \<and>
     ctl_wf cfg ctl' \<and> queued (ctl_cq ctl) = queued (ctl_cq ctl') + taken cmd"

lemma pick_queue:
  assumes "on_queue (GetCommandToIssue cfg) ctl = Inr (cmd, ctl')" "ctl_wf cfg ctl"
  shows "picks cfg cmd ctl ctl'"
proof -
  obtain cq cs where g: "GetCommandToIssue cfg (ctl_cq ctl, ctl_cs ctl) = Inr (cmd, cq, cs)" "ctl' = ctl\<lparr>ctl_cq := cq, ctl_cs := cs\<rparr>"
    by (rule on_queue_Inr [OF assms(1)])
  have w: "q_wf cfg (ctl_cq ctl)" "queues_wf cfg (ctl_cs ctl)" "q_clk (ctl_cq ctl) = ctl_clk ctl" using assms(2) by (auto simp: ctl_wf_def)
  note a = GetCommandToIssue_answers [OF g(1) w(1,2)]
  have "ctl_wf cfg ctl'"
    by (rule ctl_wf_update [OF assms(2), where tr = "[]"])
      (use a answers_quiet [OF a(1)] turned_fields [OF a(3)] g(2) in simp_all)
  with a w(3) g(2) show ?thesis by (simp add: picks_def)
qed

lemma pick_finish:
  assumes "on_queue f ctl = Inr (cmd, ctl')" "ctl_wf cfg ctl" "f = FinishRefresh cfg \<or> f = FinishRFM cfg"
  shows "picks cfg cmd ctl ctl' \<and> taken cmd = {#}"
proof -
  obtain cq cs where g: "f (ctl_cq ctl, ctl_cs ctl) = Inr (cmd, cq, cs)" "ctl' = ctl\<lparr>ctl_cq := cq, ctl_cs := cs\<rparr>"
    by (rule on_queue_Inr [OF assms(1)])
  have w: "q_wf cfg (ctl_cq ctl)" "queues_wf cfg (ctl_cs ctl)" "q_clk (ctl_cq ctl) = ctl_clk ctl" using assms(2) by (auto simp: ctl_wf_def)
  have "answers cfg (q_clk (ctl_cq ctl)) UNIV (ctl_cs ctl) cmd cs \<and> flagged (ctl_cq ctl) cq \<and> taken cmd = {#}"
    using assms(3)
  proof
    assume "f = FinishRefresh cfg"
    then have "FinishRefresh cfg (ctl_cq ctl, ctl_cs ctl) = Inr (cmd, cq, cs)" using g(1) by simp
    from FinishRefresh_answers [OF this w(2)] show ?thesis by blast
  next
    assume "f = FinishRFM cfg"
    then have "FinishRFM cfg (ctl_cq ctl, ctl_cs ctl) = Inr (cmd, cq, cs)" using g(1) by simp
    from FinishRFM_answers [OF this w(2)] show ?thesis by blast
  qed
  then have a: "answers cfg (q_clk (ctl_cq ctl)) UNIV (ctl_cs ctl) cmd cs" "flagged (ctl_cq ctl) cq" "taken cmd = {#}" by blast+
  have "ctl_wf cfg ctl'"
    by (rule ctl_wf_update [OF assms(2), where tr = "[]"])
      (use w a answers_quiet [OF a(1)] flagged_fields [OF a(2)] g(2) in simp_all)
  with a w(3) g(2) flagged_fields [OF a(2)] show ?thesis by (simp add: picks_def)
qed

lemma pick_then:
  assumes "picks cfg c ctl ctl1" "\<not> IsValid c" "picks cfg cmd ctl1 ctl2"
  shows "picks cfg cmd ctl ctl2"
proof -
  have "taken c = {#}" using assms(2) by (auto simp: taken_def cmd_kinds)
  moreover have "chan_run cfg (ctl_cs ctl) [] (ctl_cs ctl1)" using assms(1) answers_quiet by (auto simp: picks_def)
  moreover have "ctl_clk ctl1 = ctl_clk ctl" using assms(1) by (auto simp: picks_def no_traffic_def still_def)
  ultimately show ?thesis
    using assms answers_after [of cfg "ctl_cs ctl" "ctl_cs ctl1"] by (auto simp: picks_def intro: no_traffic_trans)
qed

lemma pick_command_picks:
  assumes "pick_command cfg ctl = Inr (cmd, ctl')" "ctl_wf cfg ctl"
  shows "picks cfg cmd ctl ctl'"
proof -
  obtain c c1 where c: "(if is_in_rfm (ctl_cq ctl) then on_queue (FinishRFM cfg) ctl
            else if is_in_ref (ctl_cq ctl) then on_queue (FinishRefresh cfg) ctl
            else if IsRefreshWaiting (ctl_cs ctl) then on_queue (FinishRefresh cfg) ctl
            else if IsRFMWaiting (ctl_cs ctl) then on_queue (FinishRFM cfg) ctl
            else Inr (Command_default, ctl)) = Inr (c, c1)"
    and r: "(if IsValid c then Inr (c, c1) else on_queue (GetCommandToIssue cfg) c1) = Inr (cmd, ctl')"
    using assms(1) unfolding pick_command_def by (elim bindE_InrE) auto
  have d: "picks cfg Command_default ctl ctl"
    using assms(2) by (simp add: picks_def answers_def chan_run.start taken_def cmd_kinds)
  have p: "picks cfg c ctl c1"
    using c pick_finish [OF _ assms(2)] d by (auto split: if_splits)
  show ?thesis
  proof (cases "IsValid c")
    case True
    then show ?thesis using p r by simp
  next
    case False
    then have "picks cfg cmd c1 ctl'" using r p by (intro pick_queue) (auto simp: picks_def)
    with pick_then [OF p False] show ?thesis .
  qed
qed

lemma picks_issue:
  assumes p: "picks cfg cmd ctl c1" and v: "IsValid cmd" and w: "ctl_wf cfg ctl" "hydra_cfg_ok cfg"
    and i: "IssueCommand cfg cmd c1 = Inr c2"
  shows "chan_run cfg (ctl_cs ctl) [(cmd, ctl_clk ctl)] (ctl_cs c2)" "ctl_wf cfg c2" "still ctl c2" "settles cfg cmd ctl c2"
    "queued (ctl_cq ctl) = queued (ctl_cq c2) + taken cmd"
proof -
  obtain e where e: "settles cfg cmd c1 c2" "still c1 c2" "ctl_cq c2 = ctl_cq c1"
    "UpdateTimingAndStates cfg cmd (ctl_clk c1) ((ctl_cs c1)\<lparr>c_env := e\<rparr>) = Inr (ctl_cs c2)"
    by (rule IssueCommand_effect [OF i])
  have n: "no_traffic ctl c1" "ctl_wf cfg c1" "queued (ctl_cq ctl) = queued (ctl_cq c1) + taken cmd" using p by (auto simp: picks_def)
  then have clk: "ctl_clk c1 = ctl_clk ctl" by (simp add: no_traffic_def still_def)
  obtain src where o: "offered cfg (ctl_clk ctl) (ctl_cs ctl) src cmd (ctl_cs c1)" using p v by (auto simp: picks_def answers_def)
  show r: "chan_run cfg (ctl_cs ctl) [(cmd, ctl_clk ctl)] (ctl_cs c2)"
    by (rule offered_issue [OF o _ w(2)]) (use w(1) e(4) clk in \<open>auto simp: ctl_wf_def\<close>)
  show "still ctl c2" using n e by (auto simp: no_traffic_def intro: still_trans)
  then show "ctl_wf cfg c2"
    by (rule ctl_wf_update [OF w(1) _ _ _ r]) (use n w(1) e(3) clk in \<open>auto simp: ctl_wf_def\<close>)
  have "pending_rd_q c1 = pending_rd_q ctl" "pending_wr_q c1 = pending_wr_q ctl" "return_queue c1 = return_queue ctl"
    using n(1) by (auto simp: no_traffic_def)
  with e(1) clk show "settles cfg cmd ctl c2" by (simp only: settles_def)
  show "queued (ctl_cq ctl) = queued (ctl_cq c2) + taken cmd" using n e(3) by simp
qed

section \<open>The commands of a tick\<close>

text \<open>The log of the commands that a tick issues, with the clock they are issued at.\<close>

definition if_ok :: "'a res \<Rightarrow> ('a \<Rightarrow> 'b list) \<Rightarrow> 'b list" where
  "if_ok m f = (case m of Inl _ \<Rightarrow> [] | Inr x \<Rightarrow> f x)"

lemma if_ok_Inr [simp]: "if_ok (Inr x) f = f x"
  by (simp add: if_ok_def)

definition second_log :: "Config \<Rightarrow> Command \<Rightarrow> Controller \<Rightarrow> (Command \<times> u64) list" where
  "second_log cfg cmd ctl =
     (if enable_hbm_dual_cmd cfg
      then if_ok (on_queue (GetCommandToIssue cfg) ctl) (\<lambda>(c, _).
           if IsValid c \<and> IsReadWrite c \<noteq> IsReadWrite cmd then [(c, ctl_clk ctl)] else [])
      else [])"

definition issue_log :: "Config \<Rightarrow> Controller \<Rightarrow> (Command \<times> u64) list" where
  "issue_log cfg ctl =
     if_ok (pick_command cfg ctl) (\<lambda>(cmd, c1).
       if IsValid cmd then (cmd, ctl_clk ctl) # if_ok (IssueCommand cfg cmd c1) (second_log cfg cmd) else [])"

fun sref_log :: "Config \<Rightarrow> int list \<Rightarrow> Controller \<Rightarrow> (Command \<times> u64) list" where
  "sref_log cfg [] ctl = []"
| "sref_log cfg (i # is) ctl =
     if_ok (sref_request cfg i ctl) (\<lambda>r.
       case r of None \<Rightarrow> sref_log cfg is ctl
       | Some req \<Rightarrow> if_ok (GetReadyCommand cfg req (ctl_clk ctl) (ctl_cs ctl)) (\<lambda>(cmd, cs).
           if IsValid cmd then [(cmd, ctl_clk ctl)] else sref_log cfg is (ctl\<lparr>ctl_cs := cs\<rparr>)))"

definition power_log :: "Config \<Rightarrow> bool \<Rightarrow> Controller \<Rightarrow> (Command \<times> u64) list" where
  "power_log cfg cmd_issued ctl =
     if_ok (forE (ranks cfg) (count_idle cfg) ctl) (\<lambda>ctl.
       if enable_self_refresh cfg \<and> \<not> cmd_issued then sref_log cfg (ints (ranks cfg)) ctl else [])"

definition tick_log :: "Config \<Rightarrow> Controller \<Rightarrow> (Command \<times> u64) list" where
  "tick_log cfg ctl =
     if_ok (tick_generators cfg ctl) (\<lambda>c1. issue_log cfg c1 @
       if_ok (issue_commands cfg c1) (\<lambda>(b, c2). power_log cfg b c2))"

text \<open>The effect of a part of the tick: the commands \<open>tr\<close> are issued and the column commands among them settled.\<close>

definition booked :: "Controller \<Rightarrow> u64 \<Rightarrow> bool" where
  "booked ctl a \<longleftrightarrow> count (waiting ctl + queued (ctl_cq ctl)) (a, False) = (if mm_count a (pending_rd_q ctl) > 0 then 1 else 0) \<and>
     count (waiting ctl + queued (ctl_cq ctl)) (a, True) = mm_count a (pending_wr_q ctl) \<and> mm_count a (pending_wr_q ctl) \<le> 1"

definition books :: "Controller \<Rightarrow> bool" where
  "books ctl \<longleftrightarrow> (\<forall>a. booked ctl a)"

definition outstanding :: "Controller \<Rightarrow> (u64 \<times> bool) multiset" where
  "outstanding ctl = image_mset tkey (mset (return_queue ctl) + image_mset snd (mset (pending_rd_q ctl)))"

lemma mm_count_0: "mm_count a m = 0 \<longleftrightarrow> a \<notin> fst ` set m"
  by (auto simp: mm_count_def filter_empty_conv)

lemma mm_count_filter: "mm_count a (filter (\<lambda>e. fst e \<noteq> h) m) = (if a = h then 0 else mm_count a m)"
  by (auto simp: mm_count_def intro!: arg_cong [where f = length] filter_cong)

lemma mm_count_erase: "mm_count h m > 0 \<Longrightarrow> mm_count a (erase_first (\<lambda>e. fst e = h) m) = mm_count a m - (if a = h then 1 else 0)"
  by (induction m) (auto simp: mm_count_def)

lemma settles_books:
  assumes s: "settles cfg cmd ctl ctl'" and st: "still ctl ctl'" and b: "books ctl"
    and q: "queued (ctl_cq ctl) = queued (ctl_cq ctl') + taken cmd"
  shows "books ctl'"
proof -
  have w: "waiting ctl' = waiting ctl" using st by (rule waiting_still)
  have "\<not> (IsRead cmd \<and> IsWrite cmd)" by (auto simp: cmd_kinds)
  then consider (rd) "IsRead cmd" "hex_addr cmd \<noteq> no_hex" "\<not> IsWrite cmd" | (wr) "\<not> IsRead cmd" "IsWrite cmd" "hex_addr cmd \<noteq> no_hex"
    | (other) "\<not> (IsReadWrite cmd \<and> hex_addr cmd \<noteq> no_hex)"
    unfolding IsReadWrite_def by blast
  then show ?thesis
  proof cases
    case rd
    then have t: "taken cmd = {#(hex_addr cmd, False)#}" by (simp add: taken_def key_def IsReadWrite_def)
    have p: "pending_rd_q ctl' = filter (\<lambda>e. fst e \<noteq> hex_addr cmd) (pending_rd_q ctl)" "pending_wr_q ctl' = pending_wr_q ctl"
      "mm_count (hex_addr cmd) (pending_rd_q ctl) > 0" using s rd by (auto simp: settles_def)
    show ?thesis
      unfolding books_def
    proof
      fix a
      have "booked ctl a" using b by (simp add: books_def)
      then show "booked ctl' a" using p(3) unfolding booked_def q w t p(1,2) mm_count_filter by (cases "a = hex_addr cmd") simp_all
    qed
  next
    case wr
    then have t: "taken cmd = {#(hex_addr cmd, True)#}" by (simp add: taken_def key_def IsReadWrite_def)
    have p: "pending_rd_q ctl' = pending_rd_q ctl" "pending_wr_q ctl' = erase_first (\<lambda>e. fst e = hex_addr cmd) (pending_wr_q ctl)"
      "mm_count (hex_addr cmd) (pending_wr_q ctl) > 0" using s wr by (auto simp: settles_def)
    note e = mm_count_erase [OF p(3)]
    show ?thesis
      unfolding books_def
    proof
      fix a
      have "booked ctl a" using b by (simp add: books_def)
      then show "booked ctl' a" using p(3) unfolding booked_def q w t p(1,2) e by (cases "a = hex_addr cmd") auto
    qed
  next
    case other
    then have "taken cmd = {#}" "pending_rd_q ctl' = pending_rd_q ctl" "pending_wr_q ctl' = pending_wr_q ctl"
      using s by (auto simp: taken_def settles_def IsReadWrite_def split: if_splits)
    then show ?thesis using b unfolding books_def booked_def q w by simp
  qed
qed

lemma settles_outstanding:
  assumes "settles cfg cmd ctl ctl'"
  shows "outstanding ctl' = outstanding ctl"
proof -
  have f: "image_mset g (mset xs) = image_mset g (mset (filter p xs)) + image_mset g (mset (filter (\<lambda>x. \<not> p x) xs))"
    for g :: "u64 \<times> Transaction \<Rightarrow> 'c" and p xs by (induction xs) auto
  show ?thesis
    using assms f [of "tkey \<circ> snd" "pending_rd_q ctl" "\<lambda>e. fst e = hex_addr cmd"]
    by (auto simp: settles_def outstanding_def multiset.map_comp comp_def tkey_def split: if_splits)
qed

end
