(* ===== verification/Controller_Tick.thy ===== *)
theory Controller_Tick
  imports Controller_Run
begin

text \<open>
  A tick of the controller, part by part: each part is a run of the channel that issues the commands
  of its log, keeps the controller well-formed and its books balanced, and loses or duplicates no
  transaction.
\<close>

definition part :: "Config \<Rightarrow> Controller \<Rightarrow> (Command \<times> u64) list \<Rightarrow> Controller \<Rightarrow> bool" where
  "part cfg ctl tr ctl' \<longleftrightarrow> chan_run cfg (ctl_cs ctl) tr (ctl_cs ctl') \<and> ctl_wf cfg ctl' \<and> outstanding ctl' = outstanding ctl \<and>
     (\<not> enable_hbm_dual_cmd cfg \<longrightarrow> books ctl \<longrightarrow> books ctl') \<and> ctl_clk ctl' = ctl_clk ctl \<and> (\<forall>e\<in>set tr. snd e = ctl_clk ctl)"

lemma part_refl: "ctl_wf cfg ctl \<Longrightarrow> part cfg ctl [] ctl"
  by (simp add: part_def chan_run.start)

lemma part_trans: "part cfg a tr1 b \<Longrightarrow> part cfg b tr2 c \<Longrightarrow> part cfg a (tr1 @ tr2) c"
  unfolding part_def by (auto intro: chan_run_append)

lemma part_quiet:
  assumes "ctl_wf cfg ctl" "chan_run cfg (ctl_cs ctl) [] (ctl_cs ctl')" "no_traffic ctl ctl'" "ctl_cq ctl' = ctl_cq ctl"
  shows "part cfg ctl [] ctl'"
proof -
  have w: "waiting ctl' = waiting ctl" using assms(3) by (simp add: no_traffic_def waiting_still)
  have "ctl_wf cfg ctl'"
    by (rule ctl_wf_update [OF assms(1) _ _ _ assms(2)]) (use assms in \<open>auto simp: no_traffic_def ctl_wf_def\<close>)
  moreover have "books ctl' = books ctl" using assms(3,4) w by (simp add: books_def booked_def no_traffic_def)
  moreover have "outstanding ctl' = outstanding ctl" "ctl_clk ctl' = ctl_clk ctl"
    using assms(3) by (simp_all add: outstanding_def no_traffic_def still_def)
  ultimately show ?thesis using assms(2) by (simp add: part_def)
qed

lemma part_picked:
  assumes "picks cfg cmd ctl c1" "\<not> IsValid cmd"
  shows "part cfg ctl [] c1"
proof -
  have p: "no_traffic ctl c1" "ctl_wf cfg c1" "queued (ctl_cq ctl) = queued (ctl_cq c1) + taken cmd" "chan_run cfg (ctl_cs ctl) [] (ctl_cs c1)"
    using assms(1) by (auto simp: picks_def intro: answers_quiet)
  moreover have "taken cmd = {#}" using assms(2) by (auto simp: taken_def cmd_kinds)
  moreover have "waiting c1 = waiting ctl" using p(1) by (simp add: no_traffic_def waiting_still)
  ultimately show ?thesis by (simp add: part_def books_def booked_def outstanding_def no_traffic_def still_def)
qed

lemma part_issue:
  assumes "picks cfg cmd ctl c1" "IsValid cmd" "ctl_wf cfg ctl" "hydra_cfg_ok cfg" "IssueCommand cfg cmd c1 = Inr c2"
  shows "part cfg ctl [(cmd, ctl_clk ctl)] c2"
  using picks_issue [OF assms] settles_outstanding [of cfg cmd ctl c2] settles_books [of cfg cmd ctl c2]
  by (simp add: part_def still_def)

lemma part_second:
  assumes "issue_second cfg cmd ctl = Inr ctl'" "ctl_wf cfg ctl" "hydra_cfg_ok cfg"
  shows "part cfg ctl (second_log cfg cmd ctl) ctl'"
proof (cases "enable_hbm_dual_cmd cfg")
  case False
  then show ?thesis using assms part_refl [OF assms(2)] by (simp add: issue_second_def second_log_def)
next
  case True
  obtain c c1 where q: "on_queue (GetCommandToIssue cfg) ctl = Inr (c, c1)"
    and r: "(if IsValid c \<and> IsReadWrite c \<noteq> IsReadWrite cmd
      then bindE (IssueCommand cfg c c1) (\<lambda>ctl. Inr (ctl_inc ''hbm_dual_cmds'' ctl)) else Inr c1) = Inr ctl'"
    using assms(1) True unfolding issue_second_def by (auto simp: bindE_Inr_iff)
  note p = pick_queue [OF q assms(2)]
  show ?thesis
  proof (cases "IsValid c \<and> IsReadWrite c \<noteq> IsReadWrite cmd")
    case yes: True
    obtain c2 where c2: "IssueCommand cfg c c1 = Inr c2" "ctl' = ctl_inc ''hbm_dual_cmds'' c2" using r yes by (auto simp: bindE_Inr_iff)
    have i: "part cfg ctl [(c, ctl_clk ctl)] c2" using part_issue [OF p _ assms(2,3) c2(1)] yes by simp
    then have "part cfg c2 [] ctl'" unfolding c2(2) ctl_inc_def by (intro part_quiet) (simp_all add: part_def quiet_env)
    from part_trans [OF i this] show ?thesis using True yes q by (simp add: second_log_def)
  next
    case no: False
    then have "ctl' = c1" using r by (auto split: if_splits)
    then show ?thesis
      using p no True q answers_quiet [of cfg "ctl_clk ctl" UNIV "ctl_cs ctl" c "ctl_cs c1"]
      by (auto simp: second_log_def part_def picks_def outstanding_def no_traffic_def still_def)
  qed
qed

lemma part_commands:
  assumes "issue_commands cfg ctl = Inr (b, ctl')" "ctl_wf cfg ctl" "hydra_cfg_ok cfg"
  shows "part cfg ctl (issue_log cfg ctl) ctl'"
proof -
  obtain cmd c1 where p: "pick_command cfg ctl = Inr (cmd, c1)"
    and r: "(if IsValid cmd then bindE (IssueCommand cfg cmd c1) (\<lambda>ctl. bindE (issue_second cfg cmd ctl) (\<lambda>ctl. Inr (True, ctl)))
      else Inr (False, c1)) = Inr (b, ctl')"
    using assms(1) unfolding issue_commands_def by (auto simp: bindE_Inr_iff)
  note pk = pick_command_picks [OF p assms(2)]
  show ?thesis
  proof (cases "IsValid cmd")
    case True
    then obtain c2 where c2: "IssueCommand cfg cmd c1 = Inr c2" "issue_second cfg cmd c2 = Inr ctl'"
      using r by (auto simp: bindE_Inr_iff)
    note i = part_issue [OF pk True assms(2,3) c2(1)]
    have "part cfg c2 (second_log cfg cmd c2) ctl'" by (rule part_second [OF c2(2) _ assms(3)]) (use i in \<open>simp add: part_def\<close>)
    from part_trans [OF i this] show ?thesis using p True c2(1) by (simp add: issue_log_def)
  next
    case False
    then show ?thesis using r p part_picked [OF pk False] by (simp add: issue_log_def)
  qed
qed

section \<open>Power updates\<close>

lemma part_idle:
  assumes "count_idle cfg i ctl = Inr ctl'" "ctl_wf cfg ctl"
  shows "part cfg ctl [] ctl'"
proof -
  obtain sr where sr: "IsRankSelfRefreshing (ctl_cs ctl) i = Inr sr" using assms(1) by (auto simp: count_idle_def bindE_Inr_iff)
  have "\<exists>st n. ctl' = (ctl_stats (\<lambda>_. st) ctl)\<lparr>ctl_cs := (ctl_cs (ctl_stats (\<lambda>_. st) ctl))\<lparr>rank_idle_cycles := n\<rparr>\<rparr>"
  proof (cases sr)
    case True
    then obtain st where "ctl' = ctl_stats (\<lambda>_. st) ctl" using assms(1) sr by (auto simp: count_idle_def ctl_IncrementVec_def bindE_Inr_iff)
    then show ?thesis by (auto simp: ctl_stats_def intro!: exI [of _ "rank_idle_cycles (ctl_cs ctl)"])
  next
    case False
    then show ?thesis using assms(1) sr by (auto simp: count_idle_def ctl_IncrementVec_def bindE_Inr_iff) (rule exI, rule exI, rule refl)
  qed
  then obtain st n where c: "ctl' = (ctl_stats (\<lambda>_. st) ctl)\<lparr>ctl_cs := (ctl_cs (ctl_stats (\<lambda>_. st) ctl))\<lparr>rank_idle_cycles := n\<rparr>\<rparr>"
    by blast
  show ?thesis unfolding c using assms(2) quiet_step [OF chan_step.others] by (intro part_quiet) simp_all
qed

lemma part_idle_all:
  assumes "forE n (count_idle cfg) ctl = Inr ctl'" "ctl_wf cfg ctl"
  shows "part cfg ctl [] ctl'"
proof -
  have step: "vE (count_idle cfg i c) (part cfg ctl [])" if "part cfg ctl [] c" for i c
  proof (rule vE_I)
    fix c' assume "count_idle cfg i c = Inr c'"
    with that show "part cfg ctl [] c'" using part_trans [of cfg ctl "[]" c "[]" c'] part_idle [of cfg i c c'] by (simp add: part_def)
  qed
  have "vE (forE n (count_idle cfg) ctl) (part cfg ctl [])"
    by (rule vE_forE [where I = "part cfg ctl []"]) (use step part_refl [OF assms(2)] in blast)+
  from vE_D [OF this assms(1)] show ?thesis .
qed

lemma sref_request_maintenance:
  assumes "sref_request cfg i ctl = Inr (Some req)"
  shows "\<not> IsReadWrite req"
  using assms by (auto simp: sref_request_def Let_def bindE_Inr_iff cmd_kinds split: if_splits)

lemma part_sref:
  "sref_loop cfg is ctl = Inr ctl' \<Longrightarrow> ctl_wf cfg ctl \<Longrightarrow> hydra_cfg_ok cfg \<Longrightarrow> part cfg ctl (sref_log cfg is ctl) ctl'"
proof (induction cfg "is" ctl rule: sref_loop.induct)
  case (1 cfg ctl)
  then show ?case by (simp add: part_refl)
next
  case (2 cfg i "is" ctl)
  obtain r where r: "sref_request cfg i ctl = Inr r" using "2.prems"(1) by (auto simp: bindE_Inr_iff)
  show ?case
  proof (cases r)
    case None
    then show ?thesis using "2.IH"(1) [OF r None] "2.prems" r by simp
  next
    case (Some req)
    obtain cmd cs where g: "GetReadyCommand cfg req (ctl_clk ctl) (ctl_cs ctl) = Inr (cmd, cs)"
      using "2.prems"(1) r Some by (auto simp: bindE_Inr_iff)
    have a: "answers cfg (ctl_clk ctl) {req} (ctl_cs ctl) cmd cs" by (rule ask_answers [OF g]) simp
    have t: "taken cmd = {#}"
      by (rule not_rw_taken [OF a]) (use "2.prems"(2) sref_request_maintenance [OF r [unfolded Some]] in \<open>auto simp: ctl_wf_def\<close>)
    have "ctl_wf cfg (ctl\<lparr>ctl_cs := cs\<rparr>)"
      by (rule ctl_wf_update [OF "2.prems"(2), where tr = "[]"])
        (use "2.prems"(2) answers_quiet [OF a] in \<open>auto simp: ctl_wf_def\<close>)
    then have p: "picks cfg cmd ctl (ctl\<lparr>ctl_cs := cs\<rparr>)" using answers_mono [OF a] t by (simp add: picks_def)
    show ?thesis
    proof (cases "IsValid cmd")
      case True
      then show ?thesis using part_issue [OF p True "2.prems"(2,3)] "2.prems"(1) r Some g by simp
    next
      case False
      have "part cfg (ctl\<lparr>ctl_cs := cs\<rparr>) (sref_log cfg is (ctl\<lparr>ctl_cs := cs\<rparr>)) ctl'"
        using "2.IH"(2) [OF r Some g refl refl False] "2.prems"(1,3) r Some g False p by (simp add: picks_def)
      from part_trans [OF part_picked [OF p False] this] show ?thesis using r Some g False by simp
    qed
  qed
qed

lemma part_power:
  assumes "power_updates cfg b ctl = Inr ctl'" "ctl_wf cfg ctl" "hydra_cfg_ok cfg"
  shows "part cfg ctl (power_log cfg b ctl) ctl'"
proof -
  obtain c1 where f: "forE (ranks cfg) (count_idle cfg) ctl = Inr c1"
    and r: "(if enable_self_refresh cfg \<and> \<not> b then sref_loop cfg (ints (ranks cfg)) c1 else Inr c1) = Inr ctl'"
    using assms(1) by (auto simp: power_updates_def bindE_Inr_iff)
  note i = part_idle_all [OF f assms(2)]
  then have w: "ctl_wf cfg c1" by (simp add: part_def)
  have "part cfg c1 (if enable_self_refresh cfg \<and> \<not> b then sref_log cfg (ints (ranks cfg)) c1 else []) ctl'"
    using r part_sref [OF _ w assms(3)] part_refl [OF w] by (auto split: if_splits)
  from part_trans [OF i this] show ?thesis by (simp add: power_log_def f)
qed

section \<open>Scheduling\<close>

lemma TransToCommand_key:
  assumes "TransToCommand cfg pol t behind = Inr cmd"
  shows "IsReadWrite cmd" "hex_addr cmd = t_addr t" "IsWrite cmd = t_is_write t" "key cmd = tkey t"
proof -
  obtain a ct where c: "cmd = mk_Command ct a (t_addr t)" "ct = (if t_is_write t then WRITE else READ) \<or> ct = (if t_is_write t then WRITE_PRECHARGE else READ_PRECHARGE)"
    using assms unfolding TransToCommand_def Let_def by (elim bindE_InrE) (auto split: if_splits elim!: bindE_InrE)
  then show "IsReadWrite cmd" "hex_addr cmd = t_addr t" "IsWrite cmd = t_is_write t" "key cmd = tkey t"
    by (cases "t_is_write t"; auto simp: cmd_kinds key_def tkey_def mk_Command_def)+
qed

definition schedules :: "Config \<Rightarrow> Transaction list \<Rightarrow> Controller \<Rightarrow> Transaction list \<Rightarrow> Controller \<Rightarrow> bool" where
  "schedules cfg q ctl q' ctl' \<longleftrightarrow> (\<exists>n cq. ctl' = ctl\<lparr>write_draining := n, ctl_cq := cq\<rparr> \<and> q_wf cfg cq \<and> q_clk cq = q_clk (ctl_cq ctl) \<and>
     image_mset tkey (mset q) + queued (ctl_cq ctl) = image_mset tkey (mset q') + queued cq \<and> length q' \<le> length q)"

lemma schedule_loop_schedules:
  "schedule_loop cfg ahead q ctl = Inr (q', ctl') \<Longrightarrow> q_wf cfg (ctl_cq ctl) \<Longrightarrow> \<forall>t\<in>set q. t_addr t \<noteq> no_hex \<Longrightarrow>
     schedules cfg (ahead @ q) ctl q' ctl'"
proof (induction cfg ahead q ctl rule: schedule_loop.induct)
  case (1 cfg ahead ctl)
  then show ?case by (auto simp: schedules_def intro!: exI [of _ "write_draining ctl"] exI [of _ "ctl_cq ctl"])
next
  case (2 cfg ahead t behind ctl)
  obtain cmd where c: "TransToCommand cfg (ctl_row_buf_policy ctl) t behind = Inr cmd" using "2.prems"(1) by (auto simp: bindE_Inr_iff)
  obtain ok where ok: "WillAcceptCommand cfg (ctl_cq ctl) (Rank cmd) (Bankgroup cmd) (Bank cmd) = Inr ok"
    using "2.prems"(1) c by (auto simp: bindE_Inr_iff)
  note k = TransToCommand_key [OF c]
  show ?case
  proof (cases "ok \<and> \<not> (\<not> is_unified_queue ctl \<and> IsWrite cmd \<and> mm_count (t_addr t) (pending_rd_q ctl) > 0)")
    case True
    define c1 where "c1 = (if \<not> is_unified_queue ctl \<and> IsWrite cmd then ctl\<lparr>write_draining := write_draining ctl - 1\<rparr> else ctl)"
    have c1: "ctl_cq c1 = ctl_cq ctl" "c1 = ctl\<lparr>write_draining := write_draining c1\<rparr>" by (simp_all add: c1_def)
    have "bindE (AddCommand cfg cmd (ctl_cq c1)) (\<lambda>(_, cq). Inr (ahead @ behind, c1\<lparr>ctl_cq := cq\<rparr>)) = Inr (q', ctl')"
      using "2.prems"(1) True unfolding schedule_loop.simps c ok bindE_simps Let_def by (simp only: c1_def simp_thms if_True if_False)
    then obtain b cq where a: "AddCommand cfg cmd (ctl_cq ctl) = Inr (b, cq)" "q' = ahead @ behind" "ctl' = c1\<lparr>ctl_cq := cq\<rparr>"
      unfolding c1(1) by (elim bindE_InrE) auto
    have d: "ctl' = ctl\<lparr>write_draining := write_draining c1, ctl_cq := cq\<rparr>" unfolding a(3) by (subst c1(2)) simp
    have q: "q_wf cfg cq" "q_clk cq = q_clk (ctl_cq ctl)" "queued cq = queued (ctl_cq ctl) + (if b then {#key cmd#} else {#})" "b"
      using AddCommand_queued [OF a(1) "2.prems"(2) k(1)] "2.prems"(3) k(2) ok True by auto
    then show ?thesis using a(2) k(4) unfolding schedules_def d by (intro exI [of _ "write_draining c1"] exI [of _ cq]) auto
  next
    case False
    then consider "\<not> ok" | "ok" "\<not> is_unified_queue ctl \<and> IsWrite cmd \<and> mm_count (t_addr t) (pending_rd_q ctl) > 0" by blast
    then show ?thesis
    proof cases
      case 1
      then show ?thesis using "2.IH"(1) [OF c ok] "2.prems" c ok by simp
    next
      case 2
      then show ?thesis using "2.prems" c ok by (auto simp: schedules_def intro!: exI [of _ 0] exI [of _ "ctl_cq ctl"])
    qed
  qed
qed

lemma queued_addresses: "q_wf cfg cq \<Longrightarrow> k \<in># queued cq \<Longrightarrow> fst k \<noteq> no_hex"
  by (fastforce simp: q_wf_def queued_def key_def in_set_conv_nth [of _ "q_queues cq"])

lemma part_moved:
  assumes w: "ctl_wf cfg ctl" and cq: "q_wf cfg (ctl_cq ctl')" "q_clk (ctl_cq ctl') = q_clk (ctl_cq ctl)"
    and m: "waiting ctl' + queued (ctl_cq ctl') = waiting ctl + queued (ctl_cq ctl)"
    and same: "ctl_cs ctl' = ctl_cs ctl" "ctl_clk ctl' = ctl_clk ctl" "pending_rd_q ctl' = pending_rd_q ctl"
      "pending_wr_q ctl' = pending_wr_q ctl" "return_queue ctl' = return_queue ctl"
  shows "part cfg ctl [] ctl'"
proof -
  have "fst k \<noteq> no_hex" if "k \<in># waiting ctl'" for k
  proof -
    have "k \<in># waiting ctl + queued (ctl_cq ctl)" using that m [symmetric] by simp
    then show ?thesis using w queued_addresses [of cfg "ctl_cq ctl" k] by (auto simp: ctl_wf_def)
  qed
  then have "ctl_wf cfg ctl'" using w cq same by (auto simp: ctl_wf_def)
  then show ?thesis using same m by (simp add: part_def outstanding_def books_def booked_def chan_run.start)
qed

lemma start_draining_same: "start_draining ctl = ctl\<lparr>write_draining := write_draining (start_draining ctl)\<rparr>"
  by (simp add: start_draining_def Let_def)

lemma waiting_addresses:
  assumes "ctl_wf cfg ctl" "t \<in> set (tq (ctl_unified_queue ctl)) \<union> set (tq (read_queue ctl)) \<union> set (tq (write_buffer ctl))"
  shows "t_addr t \<noteq> no_hex"
  using assms by (force simp: ctl_wf_def waiting_def tkey_def)

lemma part_schedule:
  assumes r: "ScheduleTransaction cfg ctl = Inr ctl'" and w: "ctl_wf cfg ctl"
  shows "part cfg ctl [] ctl'"
proof -
  define n where "n = write_draining (start_draining ctl)"
  let ?c = "ctl\<lparr>write_draining := n\<rparr>"
  have c: "start_draining ctl = ?c" unfolding n_def by (rule start_draining_same)
  have q: "q_wf cfg (ctl_cq ctl)" using w by (simp add: ctl_wf_def)
  note loop = schedule_loop_schedules [where ahead = "[]" and ctl = ?c and cfg = cfg, simplified, OF _ q]
  consider (unified) q' c' where "schedule_loop cfg [] (tq (ctl_unified_queue ctl)) ?c = Inr (q', c')"
      "ctl' = c'\<lparr>ctl_unified_queue := (ctl_unified_queue c')\<lparr>tq := q'\<rparr>\<rparr>"
    | (writes) q' c' where "schedule_loop cfg [] (tq (write_buffer ctl)) ?c = Inr (q', c')" "ctl' = c'\<lparr>write_buffer := (write_buffer c')\<lparr>tq := q'\<rparr>\<rparr>"
    | (reads) q' c' where "schedule_loop cfg [] (tq (read_queue ctl)) ?c = Inr (q', c')" "ctl' = c'\<lparr>read_queue := (read_queue c')\<lparr>tq := q'\<rparr>\<rparr>"
    using r unfolding ScheduleTransaction_def Let_def c by (auto simp: bindE_Inr_iff split: if_splits)
  then show ?thesis
  proof cases
    case u: unified
    have "schedules cfg (tq (ctl_unified_queue ctl)) ?c q' c'" by (rule loop [OF u(1)]) (use waiting_addresses [OF w] in blast)
    then obtain m cq where "c' = ctl\<lparr>write_draining := m, ctl_cq := cq\<rparr>" "q_wf cfg cq" "q_clk cq = q_clk (ctl_cq ctl)"
      "image_mset tkey (mset (tq (ctl_unified_queue ctl))) + queued (ctl_cq ctl) = image_mset tkey (mset q') + queued cq"
      unfolding schedules_def by auto
    then show ?thesis unfolding u(2) by (intro part_moved [OF w]) (simp_all add: waiting_def ac_simps)
  next
    case wr: writes
    have "schedules cfg (tq (write_buffer ctl)) ?c q' c'" by (rule loop [OF wr(1)]) (use waiting_addresses [OF w] in blast)
    then obtain m cq where "c' = ctl\<lparr>write_draining := m, ctl_cq := cq\<rparr>" "q_wf cfg cq" "q_clk cq = q_clk (ctl_cq ctl)"
      "image_mset tkey (mset (tq (write_buffer ctl))) + queued (ctl_cq ctl) = image_mset tkey (mset q') + queued cq"
      unfolding schedules_def by auto
    then show ?thesis unfolding wr(2) by (intro part_moved [OF w]) (simp_all add: waiting_def ac_simps)
  next
    case rd: reads
    have "schedules cfg (tq (read_queue ctl)) ?c q' c'" by (rule loop [OF rd(1)]) (use waiting_addresses [OF w] in blast)
    then obtain m cq where "c' = ctl\<lparr>write_draining := m, ctl_cq := cq\<rparr>" "q_wf cfg cq" "q_clk cq = q_clk (ctl_cq ctl)"
      "image_mset tkey (mset (tq (read_queue ctl))) + queued (ctl_cq ctl) = image_mset tkey (mset q') + queued cq"
      unfolding schedules_def by auto
    then show ?thesis unfolding rd(2) by (intro part_moved [OF w]) (simp_all add: waiting_def ac_simps)
  qed
qed

section \<open>The tick\<close>

lemma advance_clock_parts:
  "outstanding (advance_clock ctl) = outstanding ctl" "books (advance_clock ctl) = books ctl"
  "ctl_wf cfg ctl \<Longrightarrow> ctl_wf cfg (advance_clock ctl)" "ctl_clk (advance_clock ctl) = ctl_clk ctl + 1"
  "chan_run cfg (ctl_cs ctl) [] (ctl_cs (advance_clock ctl))"
proof -
  have r: "chan_run cfg (ctl_cs ctl) [] (ctl_cs (advance_clock ctl))"
    by (simp add: advance_clock_def ctl_inc_def quiet_env)
  then show "chan_run cfg (ctl_cs ctl) [] (ctl_cs (advance_clock ctl))" .
  assume w: "ctl_wf cfg ctl"
  then have "queues_wf cfg (ctl_cs (advance_clock ctl))" using queues_wf_run [OF r] by (simp add: ctl_wf_def)
  moreover have "q_wf cfg (cq\<lparr>q_clk := n\<rparr>) = q_wf cfg cq" for cq n
    by (simp add: q_wf_def home_def GetQueueIndex_def)
  ultimately show "ctl_wf cfg (advance_clock ctl)"
    using w by (simp add: ctl_wf_def advance_clock_def ctl_inc_def ctl_stats_def waiting_def queue_ClockTick_def)
qed (simp_all add: advance_clock_def ctl_inc_def ctl_stats_def outstanding_def books_def booked_def waiting_def queued_def queue_ClockTick_def)

lemma tick_parts:
  assumes r: "controller_ClockTick cfg ctl = Inr ctl'" and w: "ctl_wf cfg ctl" "hydra_cfg_ok cfg"
  obtains c where "part cfg ctl (tick_log cfg ctl) c" "ctl' = advance_clock c"
proof -
  obtain c1 b c2 c3 c4 where t: "tick_generators cfg ctl = Inr c1" "issue_commands cfg c1 = Inr (b, c2)"
    "power_updates cfg b c2 = Inr c3" "ScheduleTransaction cfg c3 = Inr c4" "ctl' = advance_clock c4"
    using r by (auto simp: controller_ClockTick_def bindE_Inr_iff)
  have p1: "part cfg ctl [] c1" using tick_generators_quiet [OF t(1)] by (intro part_quiet [OF w(1)]) auto
  then have p2: "part cfg c1 (issue_log cfg c1) c2" by (intro part_commands [OF t(2) _ w(2)]) (simp add: part_def)
  then have p3: "part cfg c2 (power_log cfg b c2) c3" by (intro part_power [OF t(3) _ w(2)]) (simp add: part_def)
  then have p4: "part cfg c3 [] c4" by (intro part_schedule [OF t(4)]) (simp add: part_def)
  show ?thesis
    by (rule that [OF _ t(5)]) (use part_trans [OF part_trans [OF part_trans [OF p1 p2] p3] p4] t in \<open>simp add: tick_log_def\<close>)
qed

lemma tick_effect:
  assumes "controller_ClockTick cfg ctl = Inr ctl'" "ctl_wf cfg ctl" "hydra_cfg_ok cfg"
  shows "chan_run cfg (ctl_cs ctl) (tick_log cfg ctl) (ctl_cs ctl')" "ctl_wf cfg ctl'" "outstanding ctl' = outstanding ctl"
    "\<not> enable_hbm_dual_cmd cfg \<Longrightarrow> books ctl \<Longrightarrow> books ctl'" "ctl_clk ctl' = ctl_clk ctl + 1"
    "\<forall>e\<in>set (tick_log cfg ctl). snd e = ctl_clk ctl"
proof -
  obtain c where c: "part cfg ctl (tick_log cfg ctl) c" "ctl' = advance_clock c" by (rule tick_parts [OF assms])
  show "chan_run cfg (ctl_cs ctl) (tick_log cfg ctl) (ctl_cs ctl')"
    using chan_run_append [of cfg "ctl_cs c" "[]" "ctl_cs ctl'" "ctl_cs ctl" "tick_log cfg ctl"] c advance_clock_parts(5) [of cfg c]
    by (simp add: part_def)
  show "ctl_wf cfg ctl'" "outstanding ctl' = outstanding ctl" "ctl_clk ctl' = ctl_clk ctl + 1" "\<forall>e\<in>set (tick_log cfg ctl). snd e = ctl_clk ctl"
    using c by (simp_all add: part_def advance_clock_parts)
  show "books ctl'" if "\<not> enable_hbm_dual_cmd cfg" "books ctl"
    using c that by (simp add: part_def advance_clock_parts)
qed

end
