(* ===== verification/Controller_Books.thy ===== *)
theory Controller_Books
  imports Controller_Tick
begin

text \<open>
  Runs of a controller: cycles, accepted transactions and returned transactions in any order. The
  outstanding requests of a run are those accepted and not yet returned; the commands of a run keep
  the distances of the timing table.
\<close>

section \<open>Accepting and returning\<close>

lemma tkey_update [simp]: "tkey (t\<lparr>added_cycle := n\<rparr>) = tkey t" "tkey (t\<lparr>complete_cycle := n\<rparr>) = tkey t"
  by (simp_all add: tkey_def)

lemma push_trans_parts:
  "waiting (push_trans t ctl) = add_mset (tkey t) (waiting ctl)" "ctl_cq (push_trans t ctl) = ctl_cq ctl"
  "pending_rd_q (push_trans t ctl) = pending_rd_q ctl" "pending_wr_q (push_trans t ctl) = pending_wr_q ctl"
  "return_queue (push_trans t ctl) = return_queue ctl" "ctl_cs (push_trans t ctl) = ctl_cs ctl" "ctl_clk (push_trans t ctl) = ctl_clk ctl"
  by (simp_all add: push_trans_def waiting_def tq_push_def)

lemma waiting_simps [simp]:
  "waiting (ctl\<lparr>pending_rd_q := p\<rparr>) = waiting ctl" "waiting (ctl\<lparr>pending_wr_q := p\<rparr>) = waiting ctl"
  "waiting (ctl\<lparr>return_queue := q\<rparr>) = waiting ctl" "waiting (ctl\<lparr>last_trans_clk := n\<rparr>) = waiting ctl"
  "waiting (ctl\<lparr>ctl_cs := c\<rparr>) = waiting ctl" "waiting (ctl_stats f ctl) = waiting ctl"
  by (simp_all add: waiting_def ctl_stats_def)

lemma ctl_stats_fields [simp]:
  "pending_rd_q (ctl_stats f ctl) = pending_rd_q ctl" "pending_wr_q (ctl_stats f ctl) = pending_wr_q ctl"
  "return_queue (ctl_stats f ctl) = return_queue ctl" "last_trans_clk (ctl_stats f ctl) = last_trans_clk ctl"
  by (simp_all add: ctl_stats_def)

lemma mm_count_append: "mm_count a (m @ [(h, t)]) = mm_count a m + (if a = h then 1 else 0)"
  by (simp add: mm_count_def)

text \<open>What a call of \<open>AddTransaction\<close> enters where.\<close>

definition enters :: "Transaction \<Rightarrow> Controller \<Rightarrow> bool" where
  "enters t ctl \<longleftrightarrow> (if t_is_write t then mm_count (t_addr t) (pending_wr_q ctl) = 0
     else mm_count (t_addr t) (pending_wr_q ctl) = 0 \<and> mm_count (t_addr t) (pending_rd_q ctl) = 0)"

lemma AddTransaction_parts:
  assumes "ctl' = AddTransaction t ctl"
  shows "\<exists>e. ctl_cs ctl' = (ctl_cs ctl)\<lparr>c_env := e\<rparr>" "ctl_cq ctl' = ctl_cq ctl" "ctl_clk ctl' = ctl_clk ctl"
    "waiting ctl' = waiting ctl + (if enters t ctl then {#tkey t#} else {#})"
    "mm_count a (pending_wr_q ctl') = mm_count a (pending_wr_q ctl) + (if t_is_write t \<and> enters t ctl \<and> a = t_addr t then 1 else 0)"
    "mm_count a (pending_rd_q ctl') = mm_count a (pending_rd_q ctl) +
      (if \<not> t_is_write t \<and> mm_count (t_addr t) (pending_wr_q ctl) = 0 \<and> a = t_addr t then 1 else 0)"
    "outstanding ctl' = add_mset (tkey t) (outstanding ctl)"
  unfolding assms AddTransaction_def Let_def enters_def
  by (simp_all add: push_trans_parts mm_count_append outstanding_def) auto

lemma AddTransaction_books:
  assumes "books ctl"
  shows "books (AddTransaction t ctl)"
  unfolding books_def
proof
  fix a
  note p = AddTransaction_parts [OF refl, where t = t and ctl = ctl]
  have "booked ctl a" "booked ctl (t_addr t)" using assms by (simp_all add: books_def)
  then show "booked (AddTransaction t ctl) a"
    unfolding booked_def p(2,4-6) by (cases "a = t_addr t") (auto simp: enters_def tkey_def)
qed

lemma AddTransaction_wf:
  assumes "ctl_wf cfg ctl" "t_addr t \<noteq> no_hex"
  shows "ctl_wf cfg (AddTransaction t ctl)"
proof -
  note p = AddTransaction_parts [OF refl, where t = t and ctl = ctl]
  obtain e where e: "ctl_cs (AddTransaction t ctl) = (ctl_cs ctl)\<lparr>c_env := e\<rparr>" using p(1) by blast
  have "queues_wf cfg ((ctl_cs ctl)\<lparr>c_env := e\<rparr>)" by (rule queues_wf_run [OF quiet_env]) (use assms in \<open>simp add: ctl_wf_def\<close>)
  with assms show ?thesis unfolding ctl_wf_def p(2-4) e by (auto simp: tkey_def)
qed

lemma erase_first_find:
  "find p xs = Some x \<Longrightarrow> mset xs = add_mset x (mset (erase_first p xs))"
  by (induction xs) (auto split: if_splits)

lemma ReturnDoneTrans_parts:
  assumes "ReturnDoneTrans clk ctl = (Some e, ctl')"
  shows "\<exists>v. ctl_cs ctl' = (ctl_cs ctl)\<lparr>c_env := v\<rparr>" "ctl_cq ctl' = ctl_cq ctl" "ctl_clk ctl' = ctl_clk ctl" "waiting ctl' = waiting ctl"
    "pending_wr_q ctl' = pending_wr_q ctl" "pending_rd_q ctl' = pending_rd_q ctl" "outstanding ctl = add_mset e (outstanding ctl')"
proof -
  obtain t where t: "find (\<lambda>t. clk \<ge> complete_cycle t) (return_queue ctl) = Some t" "e = tkey t"
    using assms by (auto simp: ReturnDoneTrans_def tkey_def Let_def split: option.splits)
  obtain f where f: "ctl' = (ctl_stats f ctl)\<lparr>return_queue := erase_first (\<lambda>t. clk \<ge> complete_cycle t) (return_queue ctl)\<rparr>"
  proof (cases "t_is_write t")
    case True
    then show ?thesis using that assms t(1) by (auto simp: ReturnDoneTrans_def Let_def ctl_inc_def)
  next
    case False
    have "ctl_stats g (ctl_inc n ctl) = ctl_stats (\<lambda>s. g (Increment s n)) ctl" for g n by (simp add: ctl_inc_def ctl_stats_def)
    then show ?thesis using that assms t(1) False by (auto simp: ReturnDoneTrans_def Let_def ctl_inc_def)
  qed
  show "\<exists>v. ctl_cs ctl' = (ctl_cs ctl)\<lparr>c_env := v\<rparr>" "ctl_cq ctl' = ctl_cq ctl" "ctl_clk ctl' = ctl_clk ctl" "waiting ctl' = waiting ctl"
    "pending_wr_q ctl' = pending_wr_q ctl" "pending_rd_q ctl' = pending_rd_q ctl" unfolding f by auto
  show "outstanding ctl = add_mset e (outstanding ctl')" unfolding f t(2) by (simp add: outstanding_def erase_first_find [OF t(1)])
qed

section \<open>Runs\<close>

text \<open>
  The calls that the memory system makes: a cycle, with the commands it issues, an accepted request,
  a returned request, and changes of the objects that the channels share.
\<close>

datatype ctl_event = Issues "(Command \<times> u64) list" | Accepts u64 bool | Returns u64 bool | Shares

inductive ctl_step :: "Config \<Rightarrow> Controller \<Rightarrow> ctl_event \<Rightarrow> Controller \<Rightarrow> bool" for cfg where
  tick: "controller_ClockTick cfg ctl = Inr ctl' \<Longrightarrow> ctl_step cfg ctl (Issues (tick_log cfg ctl)) ctl'"
| add: "h \<noteq> no_hex \<Longrightarrow> ctl_step cfg ctl (Accepts h w) (AddTransaction (mk_Transaction h w) ctl)"
| give: "ReturnDoneTrans clk ctl = (Some (h, w), ctl') \<Longrightarrow> ctl_step cfg ctl (Returns h w) ctl'"
| share: "ctl_step cfg ctl Shares (ctl\<lparr>ctl_cs := (ctl_cs ctl)\<lparr>c_env := e\<rparr>\<rparr>)"

inductive ctl_run :: "Config \<Rightarrow> Controller \<Rightarrow> ctl_event list \<Rightarrow> Controller \<Rightarrow> bool" for cfg ctl0 where
  start: "ctl_run cfg ctl0 [] ctl0"
| step: "ctl_run cfg ctl0 evs c1 \<Longrightarrow> ctl_step cfg c1 ev c2 \<Longrightarrow> ctl_run cfg ctl0 (evs @ [ev]) c2"

definition commands :: "ctl_event list \<Rightarrow> (Command \<times> u64) list" where
  "commands evs = concat (map (\<lambda>ev. case ev of Issues tr \<Rightarrow> tr | _ \<Rightarrow> []) evs)"

definition accepted :: "ctl_event list \<Rightarrow> (u64 \<times> bool) list" where
  "accepted evs = concat (map (\<lambda>ev. case ev of Accepts h w \<Rightarrow> [(h, w)] | _ \<Rightarrow> []) evs)"

definition returned :: "ctl_event list \<Rightarrow> (u64 \<times> bool) list" where
  "returned evs = concat (map (\<lambda>ev. case ev of Returns h w \<Rightarrow> [(h, w)] | _ \<Rightarrow> []) evs)"

definition cycles :: "ctl_event list \<Rightarrow> nat" where
  "cycles evs = length (filter (\<lambda>ev. case ev of Issues _ \<Rightarrow> True | _ \<Rightarrow> False) evs)"

lemmas event_defs = commands_def accepted_def returned_def cycles_def

lemma ctl_wf_env: "ctl_wf cfg ctl \<Longrightarrow> ctl_wf cfg (ctl\<lparr>ctl_cs := (ctl_cs ctl)\<lparr>c_env := e\<rparr>\<rparr>)"
  using queues_wf_run [OF quiet_env [of cfg "ctl_cs ctl" e]] by (simp add: ctl_wf_def)

lemma ctl_step_effect:
  assumes "ctl_step cfg ctl ev ctl'" "ctl_wf cfg ctl" "hydra_cfg_ok cfg"
  shows "ctl_wf cfg ctl' \<and> chan_run cfg (ctl_cs ctl) (commands [ev]) (ctl_cs ctl') \<and>
    mset (accepted [ev]) + outstanding ctl = mset (returned [ev]) + outstanding ctl' \<and>
    (\<not> enable_hbm_dual_cmd cfg \<longrightarrow> books ctl \<longrightarrow> books ctl') \<and>
    ctl_clk ctl' = ctl_clk ctl + of_nat (cycles [ev]) \<and> (\<forall>e\<in>set (commands [ev]). snd e = ctl_clk ctl)"
  using assms
proof (induction rule: ctl_step.induct)
  case (tick ctl ctl')
  then show ?case using tick_effect [OF tick] by (simp add: event_defs)
next
  case (add h ctl w)
  note p = AddTransaction_parts [OF refl, where t = "mk_Transaction h w" and ctl = ctl]
  have "ctl_wf cfg (AddTransaction (mk_Transaction h w) ctl)" by (rule AddTransaction_wf) (use add in \<open>simp_all add: mk_Transaction_def\<close>)
  then show ?case using p(1,3,7) AddTransaction_books [of ctl] by (auto simp: event_defs quiet_env tkey_def mk_Transaction_def)
next
  case (give clk ctl h w ctl')
  note p = ReturnDoneTrans_parts [OF give(1)]
  obtain v where v: "ctl_cs ctl' = (ctl_cs ctl)\<lparr>c_env := v\<rparr>" using p(1) by blast
  have "ctl_wf cfg ctl'"
    using give(2) queues_wf_run [OF quiet_env [of cfg "ctl_cs ctl" v]] p(2-4) v by (simp add: ctl_wf_def)
  then show ?case using p(2-7) v by (simp add: event_defs quiet_env books_def booked_def)
next
  case (share ctl e)
  then show ?case using ctl_wf_env [of cfg ctl e] by (simp add: event_defs quiet_env outstanding_def books_def booked_def)
qed

lemma events_append [simp]:
  "commands (evs @ evs') = commands evs @ commands evs'" "accepted (evs @ evs') = accepted evs @ accepted evs'"
  "returned (evs @ evs') = returned evs @ returned evs'" "cycles (evs @ evs') = cycles evs + cycles evs'"
  by (simp_all add: event_defs)

lemma ctl_run_effect:
  assumes "ctl_run cfg ctl0 evs ctl" "ctl_wf cfg ctl0" "hydra_cfg_ok cfg"
  shows "ctl_wf cfg ctl \<and> chan_run cfg (ctl_cs ctl0) (commands evs) (ctl_cs ctl) \<and>
    mset (accepted evs) + outstanding ctl0 = mset (returned evs) + outstanding ctl \<and>
    (\<not> enable_hbm_dual_cmd cfg \<longrightarrow> books ctl0 \<longrightarrow> books ctl) \<and> ctl_clk ctl = ctl_clk ctl0 + of_nat (cycles evs)"
  using assms
proof (induction rule: ctl_run.induct)
  case start
  then show ?case by (simp add: event_defs chan_run.start)
next
  case (step evs c1 ev c2)
  then have IH: "ctl_wf cfg c1" "chan_run cfg (ctl_cs ctl0) (commands evs) (ctl_cs c1)"
    "mset (accepted evs) + outstanding ctl0 = mset (returned evs) + outstanding c1"
    "\<not> enable_hbm_dual_cmd cfg \<longrightarrow> books ctl0 \<longrightarrow> books c1" "ctl_clk c1 = ctl_clk ctl0 + of_nat (cycles evs)" by auto
  note e = ctl_step_effect [OF step(2) IH(1) step.prems(2)]
  have "mset (accepted (evs @ [ev])) + outstanding ctl0 = mset (returned evs) + (mset (accepted [ev]) + outstanding c1)"
    using IH(3) by (simp add: ac_simps)
  also have "\<dots> = mset (returned (evs @ [ev])) + outstanding c2" using e by (simp add: ac_simps)
  finally show ?case using e IH chan_run_append by (auto simp: ac_simps)
qed

text \<open>As long as the 64-bit clock does not wrap around, the commands of a run are in the order of their cycles.\<close>

lemma ctl_run_clocks:
  assumes "ctl_run cfg ctl0 evs ctl" "ctl_wf cfg ctl0" "hydra_cfg_ok cfg" "unat (ctl_clk ctl0) + cycles evs < 2 ^ 64"
  shows "sorted (map snd (commands evs)) \<and> unat (ctl_clk ctl) = unat (ctl_clk ctl0) + cycles evs \<and>
    (\<forall>e\<in>set (commands evs). unat (snd e) \<le> unat (ctl_clk ctl))"
  using assms
proof (induction rule: ctl_run.induct)
  case start
  then show ?case by (simp add: event_defs)
next
  case (step evs c1 ev c2)
  then have IH: "sorted (map snd (commands evs))" "unat (ctl_clk c1) = unat (ctl_clk ctl0) + cycles evs"
    "\<forall>e\<in>set (commands evs). unat (snd e) \<le> unat (ctl_clk c1)" by auto
  have "ctl_wf cfg c1" using ctl_run_effect [OF step(1)] step.prems by blast
  note e = ctl_step_effect [OF step(2) this step.prems(2)]
  have ev: "\<forall>e\<in>set (commands [ev]). snd e = ctl_clk c1" "ctl_clk c2 = ctl_clk c1 + of_nat (cycles [ev])" using e by blast+
  have n: "cycles [ev] \<le> 1" by (simp add: cycles_def)
  have u: "unat (ctl_clk c2) = unat (ctl_clk c1) + cycles [ev]"
    using step.prems(3) IH(2) n unfolding ev(2) by (subst unat_add_lem [THEN iffD1]) (auto simp: unat_of_nat)
  have "sorted (map snd (commands [ev]))" using ev(1) by (auto simp: sorted_iff_nth_mono)
  then have "sorted (map snd (commands (evs @ [ev])))" using IH(1,3) ev(1) by (auto simp: sorted_append word_le_nat_alt)
  then show ?case using u IH ev(1) by auto
qed

text \<open>A run given by the calls that make it.\<close>

datatype ctl_call = Tick | Add u64 bool | Collect

fun drive :: "Config \<Rightarrow> ctl_call list \<Rightarrow> Controller \<Rightarrow> (ctl_event list \<times> Controller) res" where
  "drive cfg [] ctl = Inr ([], ctl)"
| "drive cfg (Tick # cs) ctl =
     bindE (controller_ClockTick cfg ctl) (\<lambda>c1. bindE (drive cfg cs c1) (\<lambda>(evs, c2). Inr (Issues (tick_log cfg ctl) # evs, c2)))"
| "drive cfg (Add h w # cs) ctl =
     bindE (checkE AssertFailed (h \<noteq> no_hex)) (\<lambda>_.
     bindE (drive cfg cs (AddTransaction (mk_Transaction h w) ctl)) (\<lambda>(evs, c2). Inr (Accepts h w # evs, c2)))"
| "drive cfg (Collect # cs) ctl =
     (case ReturnDoneTrans (ctl_clk ctl) ctl of
        (None, _) \<Rightarrow> drive cfg cs ctl
      | (Some (h, w), c1) \<Rightarrow> bindE (drive cfg cs c1) (\<lambda>(evs, c2). Inr (Returns h w # evs, c2)))"

text \<open>A small controller, and a part of the configuration that keeps runs short.\<close>

definition fast_cfg :: Config where
  "fast_cfg = tiny_cfg\<lparr>tRCD := 2, read_delay := 2\<rparr>"

definition idle_stats :: SimpleStats where
  "idle_stats = Stats_empty\<lparr>epoch_vec_counters := [(''all_bank_idle_cycles'', [0]), (''rank_active_cycles'', [0]), (''sref_cycles'', [0])]\<rparr>"

definition tiny_ctl :: Controller where
  "tiny_ctl = \<lparr>channel_id = 0, ctl_clk = 0, ctl_cs = tiny_chan\<lparr>c_env := tiny_env\<lparr>env_stats := idle_stats\<rparr>\<rparr>,
     ctl_cq = \<lparr>rank_q_empty = [True], q_structure = PER_BANK, q_queues = [[], [], [], []], ref_q_indices = {}, is_in_ref = False,
       rfm_q_indices = {}, is_in_rfm = False, num_queues = 4, queue_size = 4, queue_idx = 0, q_clk = 0\<rparr>,
     ctl_rf = \<lparr>rf_clk = 0, refresh_interval = 9360, rf_policy = RANK_LEVEL_STAGGERED, next_rank = 0, next_bg = 0, next_bank = 0\<rparr>,
     is_unified_queue = False, ctl_unified_queue = tq_empty, read_queue = \<lparr>tq = [], tq_cap = 8\<rparr>, write_buffer = \<lparr>tq = [], tq_cap = 8\<rparr>,
     pending_rd_q = [], pending_wr_q = [], return_queue = [], ctl_row_buf_policy = OPEN_PAGE,
     last_trans_clk = 0, write_draining = 0\<rparr>"

lemma ctl_run_first: "ctl_step cfg c0 ev c1 \<Longrightarrow> ctl_run cfg c1 evs c2 \<Longrightarrow> ctl_run cfg c0 (ev # evs) c2"
proof (induction evs arbitrary: c2 rule: rev_induct)
  case Nil
  then have "c2 = c1" by (auto elim: ctl_run.cases)
  then show ?case using Nil ctl_run.step [OF ctl_run.start Nil(1)] by simp
next
  case (snoc e evs)
  from snoc.prems(2) obtain c where c: "ctl_run cfg c1 evs c" "ctl_step cfg c e c2" by (cases rule: ctl_run.cases) auto
  then show ?case using ctl_run.step [OF snoc.IH [OF snoc.prems(1) c(1)] c(2)] by simp
qed

lemma drive_run: "drive cfg calls ctl = Inr (evs, ctl') \<Longrightarrow> ctl_run cfg ctl evs ctl'"
proof (induction cfg calls ctl arbitrary: evs rule: drive.induct)
  case (1 cfg ctl)
  then show ?case by (simp add: ctl_run.start)
next
  case (2 cfg cs ctl)
  then show ?case by (auto simp: bindE_Inr_iff intro: ctl_run_first ctl_step.tick)
next
  case (3 cfg h w cs ctl)
  then show ?case by (auto simp: bindE_Inr_iff checkE_def split: if_splits intro: ctl_run_first ctl_step.add)
next
  case (4 cfg cs ctl)
  show ?case
  proof (cases "ReturnDoneTrans (ctl_clk ctl) ctl")
    case (Pair r c1)
    show ?thesis
    proof (cases r)
      case None
      then show ?thesis using Pair 4 by simp
    next
      case (Some e)
      obtain h w where e: "e = (h, w)" by (cases e)
      obtain es where es: "drive cfg cs c1 = Inr (es, ctl')" "evs = Returns h w # es"
        using 4(3) Pair Some e by (auto simp: bindE_Inr_iff)
      show ?thesis
        using ctl_run_first [OF ctl_step.give [of "ctl_clk ctl" ctl h w c1 cfg] "4.IH"(2) [OF Pair [symmetric] Some e [symmetric] es(1)]] Pair Some e es(2) by simp
    qed
  qed
qed

lemma tiny_ctl_ok: "ctl_wf fast_cfg tiny_ctl" "books tiny_ctl" "hydra_cfg_ok fast_cfg" "outstanding tiny_ctl = {#}" "timed fast_cfg (ctl_cs tiny_ctl)"
  "geometry_ok fast_cfg"
proof -
  show "ctl_wf fast_cfg tiny_ctl" by (simp add: ctl_wf_def tiny_ctl_def q_wf_def queues_wf_def waiting_def tq_empty_def tiny_chan_def less_Suc_eq numeral_nat)
  show "books tiny_ctl" by (simp add: books_def booked_def tiny_ctl_def waiting_def queued_def tq_empty_def mm_count_def)
  show "hydra_cfg_ok fast_cfg" "geometry_ok fast_cfg" using tiny_chan_ok(2) by (simp_all add: hydra_cfg_ok_def fast_cfg_def geometry_ok_def)
  show "outstanding tiny_ctl = {#}" by (simp add: outstanding_def tiny_ctl_def)
  show "timed fast_cfg (ctl_cs tiny_ctl)"
    using tiny_chan_ok(1) by (simp add: timed_def chan_shape_def positions_def fast_cfg_def tiny_ctl_def)
qed

definition tiny_calls :: "ctl_call list" where
  "tiny_calls = [Add 64 False, Add 64 False, Add 128 True, Tick, Collect] @ replicate 5 Tick @ [Collect, Collect]"

definition read_calls :: "ctl_call list" where
  "read_calls = [Add 64 False, Tick, Tick, Tick]"

lemma tiny_ctl_run:
  "okE (drive fast_cfg tiny_calls tiny_ctl) (\<lambda>(evs, ctl).
     map (\<lambda>(c, t). (cmd_type c, hex_addr c, t)) (commands evs) = [(ACTIVATE, 64, 1), (READ, 64, 3)] \<and> cycles evs = 6 \<and>
     accepted evs = [(64, False), (64, False), (128, True)] \<and> returned evs = [(128, True), (64, False), (64, False)])"
  by code_simp

section \<open>What the controller guarantees\<close>

lemma column_command_found:
  assumes "books ctl" "picks cfg cmd ctl c1"
  shows "okE (finish_access cfg cmd c1) (\<lambda>_. True)"
proof -
  have p: "pending_rd_q c1 = pending_rd_q ctl" "pending_wr_q c1 = pending_wr_q ctl" "queued (ctl_cq ctl) = queued (ctl_cq c1) + taken cmd"
    using assms(2) by (auto simp: picks_def no_traffic_def)
  have b: "booked ctl (hex_addr cmd)" using assms(1) by (simp add: books_def)
  consider (rd) "IsRead cmd" "hex_addr cmd \<noteq> no_hex" | (wr) "\<not> IsRead cmd" "IsWrite cmd" "hex_addr cmd \<noteq> no_hex"
    | (other) "\<not> (IsRead cmd \<and> hex_addr cmd \<noteq> no_hex)" "\<not> (IsWrite cmd \<and> hex_addr cmd \<noteq> no_hex)" by blast
  then show ?thesis
  proof cases
    case rd
    then have "taken cmd = {#(hex_addr cmd, False)#}" by (auto simp: taken_def key_def cmd_kinds)
    then have "mm_count (hex_addr cmd) (pending_rd_q c1) > 0" using b p by (auto simp: booked_def split: if_splits)
    then show ?thesis using rd by (simp add: finish_access_def Let_def return_reads_all)
  next
    case wr
    then have "taken cmd = {#(hex_addr cmd, True)#}" by (auto simp: taken_def key_def cmd_kinds)
    then have "mm_count (hex_addr cmd) (pending_wr_q c1) > 0" using b p by (auto simp: booked_def)
    then have "find (\<lambda>e. fst e = hex_addr cmd) (pending_wr_q c1) \<noteq> None" by (auto simp: find_None_iff mm_count_def filter_empty_conv)
    then show ?thesis using wr by (auto simp: finish_access_def Let_def)
  next
    case other
    then show ?thesis unfolding finish_access_def by (simp only: if_False) simp
  qed
qed

text \<open>
  C1. The commands that a controller issues are safe, whatever transactions it is given and however
  long it runs: from a controller whose channel is freshly timed, every command waits, at each bank
  its readiness check covers, for every distance that an earlier command imposes on it; and until
  the clock wraps around, any five activations of a rank take at least tFAW.
\<close>

theorem controller_commands_are_safe:
  assumes "ctl_run cfg ctl0 evs ctl" "ctl_wf cfg ctl0" "hydra_cfg_ok cfg" "timed cfg (ctl_cs ctl0)" "geometry_ok cfg"
    and "0 \<le> tFAW cfg" "\<forall>w\<in>set (four_aw (ctl_cs ctl0)). w = []" "unat (ctl_clk ctl0) + cycles evs + nat (tFAW cfg) < 2 ^ 64"
  shows "sorted_wrt (keeps_distance cfg) (commands evs) \<and>
    (\<forall>r i. inrange r (four_aw (ctl_cs ctl)) \<longrightarrow> i + 4 < length (acts r (commands evs)) \<longrightarrow>
       unat (acts r (commands evs) ! i) + nat (tFAW cfg) \<le> unat (acts r (commands evs) ! (i + 4)))"
proof -
  have run: "chan_run cfg (ctl_cs ctl0) (commands evs) (ctl_cs ctl)" using ctl_run_effect [OF assms(1-3)] by blast
  have c: "sorted (map snd (commands evs))" "unat (ctl_clk ctl) = unat (ctl_clk ctl0) + cycles evs"
    "\<forall>e\<in>set (commands evs). unat (snd e) \<le> unat (ctl_clk ctl)"
    using ctl_run_clocks [OF assms(1-3)] assms(8) by auto
  then have "unat (snd e) + nat (tFAW cfg) < 2 ^ 64" if "e \<in> set (commands evs)" for e
    using assms(8) that by (metis add_le_mono1 order_le_less_trans)
  with c(1) have "clocks_ok cfg (commands evs)" by (simp add: clocks_ok_def)
  from chan_run_windows [OF run assms(4-7) this] chan_run_respects [OF run assms(4,5)]
  show ?thesis by (auto simp: window_inv_def)
qed

theorem controller_commands_are_safe_witness:
  "okE (drive fast_cfg tiny_calls tiny_ctl)
     (\<lambda>(evs, ctl). length (commands evs) = 2 \<and> sorted_wrt (keeps_distance fast_cfg) (commands evs))"
proof -
  obtain evs ctl where r: "drive fast_cfg tiny_calls tiny_ctl = Inr (evs, ctl)" and n: "cycles evs = 6"
    and c: "map (\<lambda>(c, t). (cmd_type c, hex_addr c, t)) (commands evs) = [(ACTIVATE, 64, 1), (READ, 64, 3)]"
    using tiny_ctl_run by (auto simp: okE_iff)
  have a: "0 \<le> tFAW fast_cfg" "\<forall>w\<in>set (four_aw (ctl_cs tiny_ctl)). w = []" "unat (ctl_clk tiny_ctl) + cycles evs + nat (tFAW fast_cfg) < 2 ^ 64"
    using n by (simp_all add: fast_cfg_def tiny_ctl_def tiny_chan_ok(3))
  show ?thesis
    using controller_commands_are_safe [OF drive_run [OF r] tiny_ctl_ok(1,3,5,6) a] arg_cong [OF c, of length] r by simp
qed

text \<open>
  C3. A controller returns what it accepted, exactly once: in every run, the requests accepted are,
  with their multiplicities, the requests returned and those still outstanding (pending reads and
  the return queue).
\<close>

theorem controller_conserves_requests:
  assumes "ctl_run cfg ctl0 evs ctl" "ctl_wf cfg ctl0" "hydra_cfg_ok cfg" "outstanding ctl0 = {#}"
  shows "mset (accepted evs) = mset (returned evs) + outstanding ctl"
  using ctl_run_effect [OF assms(1-3)] assms(4) by simp

theorem controller_conserves_requests_witness:
  "okE (drive fast_cfg tiny_calls tiny_ctl)
     (\<lambda>(evs, ctl). length (accepted evs) = 3 \<and> outstanding ctl = {#})"
proof -
  obtain evs ctl where r: "drive fast_cfg tiny_calls tiny_ctl = Inr (evs, ctl)"
    and a: "accepted evs = [(64, False), (64, False), (128, True)]" "returned evs = [(128, True), (64, False), (64, False)]"
    using tiny_ctl_run by (auto simp: okE_iff)
  show ?thesis using controller_conserves_requests [OF drive_run [OF r] tiny_ctl_ok(1,3,4)] a r by simp
qed

text \<open>
  C4. Without dual command issue, a column command always finds the transaction it serves: in every
  state that a run reaches, the command picked for the cycle passes the lookup in the pending
  queues, so the two \<open>exit(1)\<close> of \<open>IssueCommand\<close> are never reached.
\<close>

theorem issued_columns_have_transactions:
  assumes "ctl_run cfg ctl0 evs ctl" "ctl_wf cfg ctl0" "hydra_cfg_ok cfg" "books ctl0" "\<not> enable_hbm_dual_cmd cfg"
    and "tick_generators cfg ctl = Inr c1" "pick_command cfg c1 = Inr (cmd, c2)"
  shows "okE (finish_access cfg cmd c2) (\<lambda>_. True)"
proof -
  have w: "ctl_wf cfg ctl" "books ctl" using ctl_run_effect [OF assms(1-3)] assms(4,5) by blast+
  have "part cfg ctl [] c1" using tick_generators_quiet [OF assms(6)] by (intro part_quiet [OF w(1)]) auto
  then have "ctl_wf cfg c1" "books c1" using w assms(5) by (simp_all add: part_def)
  then show ?thesis using pick_command_picks [OF assms(7)] column_command_found by blast
qed

lemma tiny_ctl_pick:
  "okE (drive fast_cfg read_calls tiny_ctl) (\<lambda>(evs, ctl).
     okE (tick_generators fast_cfg ctl) (\<lambda>c1. okE (pick_command fast_cfg c1) (\<lambda>(cmd, c2).
       cmd_type cmd = READ \<and> hex_addr cmd = 64)))"
  by code_simp

theorem issued_columns_have_transactions_witness:
  "okE (drive fast_cfg read_calls tiny_ctl) (\<lambda>(evs, ctl).
     okE (tick_generators fast_cfg ctl) (\<lambda>c1. okE (pick_command fast_cfg c1) (\<lambda>(cmd, c2).
       cmd_type cmd = READ \<and> okE (finish_access fast_cfg cmd c2) (\<lambda>_. True))))"
proof -
  obtain evs ctl c1 cmd c2 where r: "drive fast_cfg read_calls tiny_ctl = Inr (evs, ctl)"
    and t: "tick_generators fast_cfg ctl = Inr c1" "pick_command fast_cfg c1 = Inr (cmd, c2)" "cmd_type cmd = READ"
    using tiny_ctl_pick by (auto simp: okE_iff)
  have d: "\<not> enable_hbm_dual_cmd fast_cfg" by (simp add: fast_cfg_def)
  show ?thesis using issued_columns_have_transactions [OF drive_run [OF r] tiny_ctl_ok(1,3,2) d t(1,2)] r t by simp
qed

end
