(* ===== verification/Memory_Run.thy ===== *)
theory Memory_Run
  imports Controller_Books
begin

text \<open>
  What a memory system promises its clients, for both classes derived from \<open>BaseDRAMSystem\<close>: it is a bag of
  requests. A request enters the bag when it is accepted, and every callback takes one request out.
\<close>

section \<open>The specification\<close>

datatype sys_call = Request u64 bool | Cycle

text \<open>The abstract memory system: a cycle answers any of the requests in the bag.\<close>

inductive bag_run :: "(u64 \<times> bool) multiset \<Rightarrow> sys_call list \<Rightarrow> callback_event list \<Rightarrow> (u64 \<times> bool) multiset \<Rightarrow> bool" where
  stop: "bag_run M [] [] M"
| request: "bag_run (add_mset (h, w) M) cs es M' \<Longrightarrow> bag_run M (Request h w # cs) es M'"
| cycle: "mset es \<subseteq># M \<Longrightarrow> bag_run (M - mset es) cs es' M' \<Longrightarrow> bag_run M (Cycle # cs) (es @ es') M'"

inductive_cases bag_run_stopE: "bag_run M [] es M'"
inductive_cases bag_run_requestE: "bag_run M (Request h w # cs) es M'"
inductive_cases bag_run_cycleE: "bag_run M (Cycle # cs) es M'"

fun requests :: "sys_call list \<Rightarrow> (u64 \<times> bool) list" where
  "requests [] = []"
| "requests (Request h w # cs) = (h, w) # requests cs"
| "requests (Cycle # cs) = requests cs"

lemma bag_run_balance: "bag_run M cs es M' \<Longrightarrow> mset (requests cs) + M = mset es + M'"
proof (induction rule: bag_run.induct)
  case (cycle es M cs es' M')
  have "mset (requests cs) + M = mset es + (mset (requests cs) + (M - mset es))"
    using cycle.hyps(1) by (metis add.assoc add.commute subset_mset.add_diff_inverse)
  then show ?case using cycle.IH by simp
qed simp_all

text \<open>The implementation side: the calls in order, with the callbacks they make. Every request is one that is accepted.\<close>

fun serve :: "(u64 \<Rightarrow> bool \<Rightarrow> 's \<Rightarrow> (bool \<times> 's) res) \<Rightarrow> ('s \<Rightarrow> (callback_event list \<times> 's) res) \<Rightarrow>
    sys_call list \<Rightarrow> 's \<Rightarrow> (callback_event list \<times> 's) res" where
  "serve accept tick [] s = Inr ([], s)"
| "serve accept tick (Request h w # cs) s =
     bindE (accept h w s) (\<lambda>(ok, s). bindE (checkE AssertFailed ok) (\<lambda>_. serve accept tick cs s))"
| "serve accept tick (Cycle # cs) s =
     bindE (tick s) (\<lambda>(es, s). bindE (serve accept tick cs s) (\<lambda>(es', s). Inr (es @ es', s)))"

locale memory_system =
  fixes inv :: "'s \<Rightarrow> bool" and bag :: "'s \<Rightarrow> (u64 \<times> bool) multiset"
    and accept :: "u64 \<Rightarrow> bool \<Rightarrow> 's \<Rightarrow> (bool \<times> 's) res" and tick :: "'s \<Rightarrow> (callback_event list \<times> 's) res"
  assumes accept_enters: "inv s \<Longrightarrow> h \<noteq> no_hex \<Longrightarrow> accept h w s = Inr (True, s') \<Longrightarrow> inv s' \<and> bag s' = add_mset (h, w) (bag s)"
    and tick_answers: "inv s \<Longrightarrow> tick s = Inr (es, s') \<Longrightarrow> inv s' \<and> bag s = mset es + bag s'"
begin

lemma serve_refines:
  "serve accept tick cs s = Inr (es, s') \<Longrightarrow> inv s \<Longrightarrow> \<forall>r\<in>set (requests cs). fst r \<noteq> no_hex \<Longrightarrow> bag_run (bag s) cs es (bag s')"
proof (induction cs arbitrary: s es)
  case Nil
  then show ?case by (simp add: bag_run.stop)
next
  case (Cons c cs)
  show ?case
  proof (cases c)
    case (Request h w)
    then obtain s1 where a: "accept h w s = Inr (True, s1)" "serve accept tick cs s1 = Inr (es, s')"
      using Cons.prems(1) by (auto simp: bindE_Inr_iff)
    note e = accept_enters [OF Cons.prems(2) _ a(1)]
    then have "bag_run (bag s1) cs es (bag s')" by (intro Cons.IH [OF a(2)]) (use Cons.prems(3) Request in auto)
    then show ?thesis using e Cons.prems(3) Request by (auto intro: bag_run.request)
  next
    case Cycle
    then obtain e1 s1 e2 where a: "tick s = Inr (e1, s1)" "serve accept tick cs s1 = Inr (e2, s')" "es = e1 @ e2"
      using Cons.prems(1) by (auto simp: bindE_Inr_iff)
    note t = tick_answers [OF Cons.prems(2) a(1)]
    then have "bag_run (bag s1) cs e2 (bag s')" by (intro Cons.IH [OF a(2)]) (use Cons.prems(3) Cycle in auto)
    then show ?thesis using t Cycle a(3) by (auto intro!: bag_run.cycle)
  qed
qed

end

section \<open>The ideal memory system\<close>

definition ideal_bag :: "IdealDRAMSystem \<Rightarrow> (u64 \<times> bool) multiset" where
  "ideal_bag sys = image_mset tkey (mset (infinite_buffer_q sys))"

lemma ideal_loop_bag: "ideal_loop p q = (es, q') \<Longrightarrow> image_mset tkey (mset q) = mset es + image_mset tkey (mset q')"
  by (induction p q arbitrary: es q' rule: ideal_loop.induct) (auto simp: tkey_def split: if_splits prod.splits)

interpretation ideal: memory_system "\<lambda>_. True" ideal_bag "\<lambda>h w sys. Inr (True, ideal_AddTransaction h w sys)" "\<lambda>sys. Inr (ideal_ClockTick sys)"
proof
  fix s es s' assume "Inr (ideal_ClockTick s) = (Inr (es, s') :: (callback_event list \<times> IdealDRAMSystem) res)"
  then obtain q where "ideal_loop (ideal_done s) (infinite_buffer_q s) = (es, q)" "infinite_buffer_q s' = q"
    by (auto simp: ideal_ClockTick_def split: prod.splits)
  then show "True \<and> ideal_bag s = mset es + ideal_bag s'" using ideal_loop_bag by (simp add: ideal_bag_def)
qed (auto simp: ideal_bag_def ideal_AddTransaction_def tkey_def mk_Transaction_def)

section \<open>The system of channels\<close>

definition sys_wf :: "Config \<Rightarrow> DRAMSystem \<Rightarrow> bool" where
  "sys_wf cfg sys \<longleftrightarrow> (\<forall>ctl\<in>set (ctrls sys). ctl_wf cfg ctl)"

definition sys_bag :: "DRAMSystem \<Rightarrow> (u64 \<times> bool) multiset" where
  "sys_bag sys = sum_list (map outstanding (ctrls sys))"

lemma erase_first_filter:
  "find p xs = Some x \<Longrightarrow> filter p xs = x # filter p (erase_first p xs) \<and> filter (\<lambda>y. \<not> p y) (erase_first p xs) = filter (\<lambda>y. \<not> p y) xs"
  by (induction xs) (auto split: if_splits)

lemma ReturnDoneTrans_None: "ReturnDoneTrans clk ctl = (None, ctl') \<Longrightarrow> ctl' = ctl \<and> (\<forall>t\<in>set (return_queue ctl). \<not> complete_cycle t \<le> clk)"
  by (auto simp: ReturnDoneTrans_def Let_def find_None_iff split: option.splits)

lemma ReturnDoneTrans_Some:
  assumes "ReturnDoneTrans clk ctl = (Some e, ctl')"
  obtains t where "e = tkey t" "find (\<lambda>t. clk \<ge> complete_cycle t) (return_queue ctl) = Some t"
    "return_queue ctl' = erase_first (\<lambda>t. clk \<ge> complete_cycle t) (return_queue ctl)"
  using assms by (auto simp: ReturnDoneTrans_def Let_def tkey_def ctl_inc_def split: option.splits if_splits)

lemma return_loop_filter:
  "return_loop clk ctl = (es, ctl') \<Longrightarrow> es = map tkey (filter (\<lambda>t. complete_cycle t \<le> clk) (return_queue ctl)) \<and>
     return_queue ctl' = filter (\<lambda>t. \<not> complete_cycle t \<le> clk) (return_queue ctl)"
proof (induction clk ctl arbitrary: es rule: return_loop.induct)
  case (1 clk ctl)
  obtain r c1 where r: "ReturnDoneTrans clk ctl = (r, c1)" by (cases "ReturnDoneTrans clk ctl")
  show ?case
  proof (cases r)
    case None
    then show ?thesis using r "1.prems" ReturnDoneTrans_None [of clk ctl c1] by (simp add: return_loop.simps [of clk ctl] filter_empty_conv)
  next
    case (Some e)
    obtain es' where l: "return_loop clk c1 = (es', ctl')" "es = e # es'"
      using r Some "1.prems" by (auto simp: return_loop.simps [of clk ctl] split: prod.splits)
    obtain t where t: "e = tkey t" "find (\<lambda>t. clk \<ge> complete_cycle t) (return_queue ctl) = Some t"
      "return_queue c1 = erase_first (\<lambda>t. clk \<ge> complete_cycle t) (return_queue ctl)"
      by (rule ReturnDoneTrans_Some [OF r [unfolded Some]])
    show ?thesis using "1.IH" [OF r [symmetric] Some l(1)] l(2) t erase_first_filter [OF t(2)] by simp
  qed
qed

lemma ReturnDoneTrans_wf: "ReturnDoneTrans clk ctl = (Some e, ctl') \<Longrightarrow> ctl_wf cfg ctl \<Longrightarrow> ctl_wf cfg ctl'"
  using ReturnDoneTrans_parts [of clk ctl e ctl'] queues_wf_run [OF quiet_env [of cfg "ctl_cs ctl"]] by (auto simp: ctl_wf_def)

lemma return_loop_bag:
  "return_loop clk ctl = (es, ctl') \<Longrightarrow> ctl_wf cfg ctl \<Longrightarrow> ctl_wf cfg ctl' \<and> outstanding ctl = mset es + outstanding ctl'"
proof (induction clk ctl arbitrary: es rule: return_loop.induct)
  case (1 clk ctl)
  obtain r c1 where r: "ReturnDoneTrans clk ctl = (r, c1)" by (cases "ReturnDoneTrans clk ctl")
  show ?case
  proof (cases r)
    case None
    then show ?thesis using r "1.prems" ReturnDoneTrans_None [of clk ctl c1] by (simp add: return_loop.simps [of clk ctl])
  next
    case (Some e)
    obtain es' where l: "return_loop clk c1 = (es', ctl')" "es = e # es'"
      using r Some "1.prems" by (auto simp: return_loop.simps [of clk ctl] split: prod.splits)
    show ?thesis
      using "1.IH" [OF r [symmetric] Some l(1)] l(2) ReturnDoneTrans_parts(7) [OF r [unfolded Some]] ReturnDoneTrans_wf [OF r [unfolded Some] "1.prems"(2)]
      by simp
  qed
qed

lemma return_all_bag:
  assumes "return_all sys = (es, sys')" "sys_wf cfg sys"
  shows "sys_wf cfg sys'" "sys_bag sys = mset es + sys_bag sys'"
proof -
  have "(\<forall>c\<in>set (map (snd \<circ> return_loop clk) cs). ctl_wf cfg c) \<and>
    sum_list (map outstanding cs) = mset (concat (map (fst \<circ> return_loop clk) cs)) + sum_list (map outstanding (map (snd \<circ> return_loop clk) cs))"
    if "\<forall>c\<in>set cs. ctl_wf cfg c" for cs clk
    using that
  proof (induction cs)
    case (Cons c cs)
    then show ?case using return_loop_bag [of clk c "fst (return_loop clk c)" "snd (return_loop clk c)" cfg] by (simp add: ac_simps)
  qed simp
  from this [of "ctrls sys" "sys_clk sys"] assms show "sys_wf cfg sys'" "sys_bag sys = mset es + sys_bag sys'"
    by (auto simp: return_all_def Let_def sys_wf_def sys_bag_def)
qed

lemma sum_list_update:
  "i < length xs \<Longrightarrow> f y = f (xs ! i) + d \<Longrightarrow> sum_list (map f (xs[i := y])) = sum_list (map f xs) + (d :: 'b multiset)"
  by (induction xs arbitrary: i) (auto simp: nth_Cons ac_simps split: nat.splits)

lemma tick_channel_bag:
  assumes "tick_channel cfg i sys = Inr sys'" "sys_wf cfg sys" "hydra_cfg_ok cfg"
  shows "sys_wf cfg sys' \<and> sys_bag sys' = sys_bag sys"
proof -
  obtain ctl ctl' cs where r: "vget (ctrls sys) (int i) = Inr ctl" "controller_ClockTick cfg (lend sys ctl) = Inr ctl'"
    "vset (ctrls sys) (int i) ctl' = Inr cs" "sys' = take_back ctl' (sys\<lparr>ctrls := cs\<rparr>)"
    using assms(1) by (auto simp: tick_channel_def bindE_Inr_iff)
  have i: "i < length (ctrls sys)" "ctl = ctrls sys ! i" "cs = (ctrls sys)[i := ctl']"
    using r(1,3) by (auto simp: vget_Inr_iff vset_Inr_iff inrange_def)
  have w: "ctl_wf cfg (lend sys ctl)" unfolding lend_def by (rule ctl_wf_env) (use assms(2) i in \<open>simp add: sys_wf_def\<close>)
  note e = tick_effect [OF r(2) w assms(3)]
  have "outstanding ctl' = outstanding (ctrls sys ! i) + {#}" using e(3) i(2) by (simp add: lend_def outstanding_def)
  from sum_list_update [of i "ctrls sys" outstanding, OF i(1) this] have "sys_bag sys' = sys_bag sys"
    using r(4) i(3) by (simp add: sys_bag_def take_back_def)
  moreover have "sys_wf cfg sys'" using assms(2) e(2) set_update_subset_insert [of "ctrls sys" i ctl'] r(4) i(3)
    by (auto simp: sys_wf_def take_back_def)
  ultimately show ?thesis by blast
qed

lemma tick_channels_bag:
  assumes "foldE (tick_channel cfg) is sys = Inr sys'" "sys_wf cfg sys" "hydra_cfg_ok cfg"
  shows "sys_wf cfg sys' \<and> sys_bag sys' = sys_bag sys"
proof -
  have "vE (foldE (tick_channel cfg) is sys) (\<lambda>s. sys_wf cfg s \<and> sys_bag s = sys_bag sys)"
    by (rule vE_foldE) (use assms tick_channel_bag in \<open>auto intro!: vE_I\<close>)
  from vE_D [OF this assms(1)] show ?thesis .
qed

lemma stats_res_same:
  assumes "controller_PrintEpochStats ctl = Inr ctl'" "ctl_wf cfg ctl"
  shows "ctl_wf cfg ctl' \<and> outstanding ctl' = outstanding ctl"
proof -
  obtain f where f: "ctl' = ctl_stats f ctl"
  proof -
    obtain st where "ctl' = ctl_stats (\<lambda>_. st) (ctl_inc ''epoch_num'' ctl)"
      using assms(1) by (auto simp: controller_PrintEpochStats_def controller_stats_res_def bindE_Inr_iff)
    then show ?thesis using that [of "\<lambda>_. st"] by (simp add: ctl_inc_def ctl_stats_def)
  qed
  then show ?thesis using ctl_wf_env [OF assms(2)] by (simp add: ctl_stats_def outstanding_def)
qed

lemma epoch_bag:
  assumes "sys_PrintEpochStats sys = Inr sys'" "sys_wf cfg sys"
  shows "sys_wf cfg sys' \<and> sys_bag sys' = sys_bag sys"
proof -
  have "vE (foldE (\<lambda>ctl cs. bindE (controller_PrintEpochStats ctl) (\<lambda>ctl. Inr (cs @ [ctl]))) cs acc)
      (\<lambda>cs'. (\<forall>c\<in>set cs'. ctl_wf cfg c) \<and> sum_list (map outstanding cs') = sum_list (map outstanding (acc @ cs)))"
    if "\<forall>c\<in>set (acc @ cs). ctl_wf cfg c" for cs acc
    using that
  proof (induction cs arbitrary: acc)
    case (Cons c cs)
    show ?case
    proof (rule vE_I)
      fix cs' assume "foldE (\<lambda>ctl cs. bindE (controller_PrintEpochStats ctl) (\<lambda>ctl. Inr (cs @ [ctl]))) (c # cs) acc = Inr cs'"
      then obtain c' where c': "controller_PrintEpochStats c = Inr c'"
        "foldE (\<lambda>ctl cs. bindE (controller_PrintEpochStats ctl) (\<lambda>ctl. Inr (cs @ [ctl]))) cs (acc @ [c']) = Inr cs'"
        by (auto simp: bindE_Inr_iff)
      note s = stats_res_same [OF c'(1), of cfg]
      from vE_D [OF Cons.IH c'(2)] s Cons.prems
      show "(\<forall>c\<in>set cs'. ctl_wf cfg c) \<and> sum_list (map outstanding cs') = sum_list (map outstanding (acc @ c # cs))" by (auto simp: ac_simps)
    qed
  qed simp
  from this [of "[]" "ctrls sys"] assms show ?thesis
    by (auto simp: sys_PrintEpochStats_def bindE_Inr_iff sys_wf_def sys_bag_def dest: vE_D)
qed

lemma sys_AddTransaction_bag:
  assumes "sys_AddTransaction cfg h w sys = Inr (ok, sys')" "sys_wf cfg sys" "h \<noteq> no_hex"
  shows "sys_wf cfg sys' \<and> sys_bag sys' = add_mset (h, w) (sys_bag sys)"
proof -
  obtain ch ctl cs where r: "vget (ctrls sys) ch = Inr ctl" "vset (ctrls sys) ch (AddTransaction (mk_Transaction h w) ctl) = Inr cs"
    "sys' = sys\<lparr>ctrls := cs, last_req_clk := sys_clk sys\<rparr>"
    using assms(1) by (auto simp: sys_AddTransaction_def bindE_Inr_iff)
  define i where "i = nat ch"
  have i: "i < length (ctrls sys)" "ctl = ctrls sys ! i" "cs = (ctrls sys)[i := AddTransaction (mk_Transaction h w) ctl]"
    using r(1,2) by (auto simp: i_def vget_Inr_iff vset_Inr_iff inrange_def)
  have "ctl_wf cfg (AddTransaction (mk_Transaction h w) ctl)"
    by (rule AddTransaction_wf) (use assms(2,3) i in \<open>auto simp: sys_wf_def mk_Transaction_def\<close>)
  then have "sys_wf cfg sys'" using assms(2) set_update_subset_insert [of "ctrls sys" i] r(3) i(3) by (fastforce simp: sys_wf_def)
  moreover have "outstanding (AddTransaction (mk_Transaction h w) ctl) = outstanding (ctrls sys ! i) + {#(h, w)#}"
    using AddTransaction_parts(7) [OF refl, of "mk_Transaction h w" ctl] i(2) by (simp add: tkey_def mk_Transaction_def)
  from sum_list_update [of i "ctrls sys" outstanding, OF i(1) this] have "sys_bag sys' = add_mset (h, w) (sys_bag sys)"
    using r(3) i(3) by (simp add: sys_bag_def)
  ultimately show ?thesis by blast
qed

lemma sys_ClockTick_bag:
  assumes "sys_ClockTick cfg sys = Inr (es, sys')" "sys_wf cfg sys" "hydra_cfg_ok cfg"
  shows "sys_wf cfg sys' \<and> sys_bag sys = mset es + sys_bag sys'"
proof -
  obtain s1 where a: "return_all sys = (es, s1)" using assms(1) by (auto simp: sys_ClockTick_def Let_def bindE_Inr_iff split: prod.splits)
  obtain s2 and m :: u64 where b: "foldE (tick_channel cfg) [0..<length (ctrls s1)] s1 = Inr s2"
    "(if m = 0 then sys_PrintEpochStats (s2\<lparr>sys_clk := sys_clk s2 + 1\<rparr>) else Inr (s2\<lparr>sys_clk := sys_clk s2 + 1\<rparr>)) = Inr sys'"
    using assms(1) unfolding sys_ClockTick_def a by (auto simp: bindE_Inr_iff Let_def)
  note r = return_all_bag [OF a assms(2)]
  note t = tick_channels_bag [OF b(1) r(1) assms(3)]
  have "sys_wf cfg (s2\<lparr>sys_clk := n\<rparr>) \<and> sys_bag (s2\<lparr>sys_clk := n\<rparr>) = sys_bag s1" for n using t by (simp add: sys_wf_def sys_bag_def)
  then have "sys_wf cfg sys' \<and> sys_bag sys' = sys_bag s1"
    using b(2) epoch_bag [of "s2\<lparr>sys_clk := sys_clk s2 + 1\<rparr>" sys' cfg] by (auto split: if_splits)
  with r(2) show ?thesis by simp
qed

interpretation jedec: memory_system "\<lambda>sys. sys_wf cfg sys \<and> hydra_cfg_ok cfg" sys_bag "sys_AddTransaction cfg" "sys_ClockTick cfg" for cfg
  by unfold_locales (use sys_AddTransaction_bag sys_ClockTick_bag in blast)+

section \<open>The ideal system drains\<close>

lemma ideal_loop_all:
  "\<forall>t\<in>set q. p t \<Longrightarrow> length (snd (ideal_loop p q)) = length q div 2 \<and> set (snd (ideal_loop p q)) \<subseteq> set q"
  by (induction p q rule: ideal_loop.induct) (auto split: prod.splits)

fun ideal_ticks :: "nat \<Rightarrow> IdealDRAMSystem \<Rightarrow> IdealDRAMSystem" where
  "ideal_ticks 0 sys = sys"
| "ideal_ticks (Suc n) sys = ideal_ticks n (snd (ideal_ClockTick sys))"

definition ideal_due :: "IdealDRAMSystem \<Rightarrow> Transaction \<Rightarrow> bool" where
  "ideal_due sys t \<longleftrightarrow> unat (added_cycle t) + nat (ideal_latency sys) \<le> unat (ideal_clk sys)"

lemma ideal_due_done:
  assumes "ideal_due sys t" "0 \<le> ideal_latency sys"
  shows "ideal_done sys t"
proof -
  have "added_cycle t \<le> ideal_clk sys" using assms(1) by (simp add: ideal_due_def word_le_nat_alt)
  then have "unat (ideal_clk sys - added_cycle t) = unat (ideal_clk sys) - unat (added_cycle t)" by (rule unat_sub)
  moreover have "unat (word_of_int (ideal_latency sys) :: u64) \<le> nat (ideal_latency sys)"
    using assms(2) by (auto simp: unat_eq_nat_uint uint_word_of_int intro!: nat_mono zmod_le_nonneg_dividend)
  ultimately show ?thesis using assms(1) by (simp add: ideal_done_def ideal_due_def word_le_nat_alt)
qed

lemma ideal_drains_in:
  assumes "\<forall>t\<in>set (infinite_buffer_q sys). ideal_due sys t" "0 \<le> ideal_latency sys" "unat (ideal_clk sys) + n < 2 ^ 64"
    "length (infinite_buffer_q sys) < 2 ^ n"
  shows "infinite_buffer_q (ideal_ticks n sys) = []"
  using assms
proof (induction n arbitrary: sys)
  case (Suc n)
  obtain es q where l: "ideal_loop (ideal_done sys) (infinite_buffer_q sys) = (es, q)" by (cases "ideal_loop (ideal_done sys) (infinite_buffer_q sys)")
  have q: "length q = length (infinite_buffer_q sys) div 2" "set q \<subseteq> set (infinite_buffer_q sys)"
    using ideal_loop_all [of "infinite_buffer_q sys" "ideal_done sys"] Suc.prems(1,2) ideal_due_done l by auto
  define s1 where "s1 = sys\<lparr>infinite_buffer_q := q, ideal_clk := ideal_clk sys + 1\<rparr>"
  have s1: "snd (ideal_ClockTick sys) = s1" using l by (simp add: ideal_ClockTick_def s1_def)
  have u: "unat (ideal_clk s1) = unat (ideal_clk sys) + 1"
    using Suc.prems(3) unfolding s1_def by (simp, subst unat_add_lem [THEN iffD1]) auto
  have "infinite_buffer_q (ideal_ticks n s1) = []"
  proof (rule Suc.IH)
    show "\<forall>t\<in>set (infinite_buffer_q s1). ideal_due s1 t"
      using q(2) u Suc.prems(1) by (auto simp: s1_def ideal_due_def intro: le_SucI)
  qed (use Suc.prems q(1) u in \<open>simp_all add: s1_def less_mult_imp_div_less\<close>)
  then show ?case using s1 by simp
qed simp

section \<open>Properties\<close>

text \<open>
  C2. The memory system refines a bag of requests: with any number of channels, any sequence of
  accepted requests and cycles of \<open>JedecDRAMSystem\<close> is a run of the abstract memory system in which
  every callback answers a request accepted before it and not answered yet, with its address and
  kind.
\<close>

theorem jedec_refines_bag:
  assumes "serve (sys_AddTransaction cfg) (sys_ClockTick cfg) calls sys = Inr (es, sys')"
    and "sys_wf cfg sys" "hydra_cfg_ok cfg" "\<forall>r\<in>set (requests calls). fst r \<noteq> no_hex"
  shows "bag_run (sys_bag sys) calls es (sys_bag sys') \<and> mset (requests calls) + sys_bag sys = mset es + sys_bag sys'"
  using jedec.serve_refines [OF assms(1) conjI [OF assms(2,3)] assms(4)] bag_run_balance by blast

definition tiny_sys :: DRAMSystem where
  "tiny_sys = \<lparr>last_req_clk = 0, sys_clk = 0, ctrls = [tiny_ctl], shared_rcc = env_rcc tiny_env, shared_rand = env_rand tiny_env, shared_rand_pos = 0\<rparr>"

lemma tiny_sys_run:
  "okE (serve (sys_AddTransaction fast_cfg) (sys_ClockTick fast_cfg) [Request 64 False, Request 128 True, Cycle, Cycle, Cycle, Cycle, Cycle, Cycle, Cycle] tiny_sys)
     (\<lambda>(es, sys). es = [(128, True), (64, False)])"
  by code_simp

theorem jedec_refines_bag_witness:
  "okE (serve (sys_AddTransaction fast_cfg) (sys_ClockTick fast_cfg) [Request 64 False, Request 128 True, Cycle, Cycle, Cycle, Cycle, Cycle, Cycle, Cycle] tiny_sys)
     (\<lambda>(es, sys). es = [(128, True), (64, False)] \<and> sys_bag sys = {#})"
proof -
  let ?calls = "[Request 64 False, Request 128 True, Cycle, Cycle, Cycle, Cycle, Cycle, Cycle, Cycle]"
  obtain sys where r: "serve (sys_AddTransaction fast_cfg) (sys_ClockTick fast_cfg) ?calls tiny_sys = Inr ([(128, True), (64, False)], sys)"
    using tiny_sys_run by (auto simp only: okE_iff split: prod.splits)
  have w: "sys_wf fast_cfg tiny_sys" "sys_bag tiny_sys = {#}" using tiny_ctl_ok by (simp_all add: sys_wf_def tiny_sys_def sys_bag_def)
  have h: "\<forall>r\<in>set (requests ?calls). fst r \<noteq> no_hex" by (simp add: no_hex_def)
  show ?thesis unfolding r using jedec_refines_bag [OF r w(1) tiny_ctl_ok(3) h] w(2) by simp
qed

text \<open>
  The ideal memory system refines the same bag.
\<close>

theorem ideal_refines_bag:
  assumes "serve (\<lambda>h w sys. Inr (True, ideal_AddTransaction h w sys)) (\<lambda>sys. Inr (ideal_ClockTick sys)) calls sys = Inr (es, sys')"
    and "\<forall>r\<in>set (requests calls). fst r \<noteq> no_hex"
  shows "bag_run (ideal_bag sys) calls es (ideal_bag sys') \<and> mset (requests calls) + ideal_bag sys = mset es + ideal_bag sys'"
  using ideal.serve_refines [OF assms(1) TrueI assms(2)] bag_run_balance by blast

theorem ideal_refines_bag_witness:
  "let sys = \<lparr>ideal_clk = 0, ideal_latency = 1, infinite_buffer_q = []\<rparr>; calls = [Request 64 False, Cycle, Cycle] in
   \<exists>sys'. serve (\<lambda>h w sys. Inr (True, ideal_AddTransaction h w sys)) (\<lambda>sys. Inr (ideal_ClockTick sys)) calls sys = Inr ([(64, False)], sys') \<and>
     bag_run {#} calls [(64, False)] {#}"
proof -
  let ?sys = "\<lparr>ideal_clk = 0, ideal_latency = 1, infinite_buffer_q = []\<rparr>" and ?calls = "[Request 64 False, Cycle, Cycle]"
  obtain sys' where r: "serve (\<lambda>h w sys. Inr (True, ideal_AddTransaction h w sys)) (\<lambda>sys. Inr (ideal_ClockTick sys)) ?calls ?sys = Inr ([(64, False)], sys')"
    "ideal_bag sys' = {#}" "ideal_bag ?sys = {#}"
    by (simp add: ideal_AddTransaction_def ideal_ClockTick_def ideal_done_def mk_Transaction_def ideal_bag_def)
  show ?thesis using ideal_refines_bag [OF r(1)] r by (simp add: no_hex_def)
qed

text \<open>
  C38. The loop over \<open>ReturnDoneTrans\<close> ends and does what a single pass over the return queue would:
  it calls back for the completed transactions, in their order, and keeps the others in theirs.
\<close>

theorem return_loop_is_filter:
  "fst (return_loop clk ctl) = map tkey (filter (\<lambda>t. complete_cycle t \<le> clk) (return_queue ctl)) \<and>
   return_queue (snd (return_loop clk ctl)) = filter (\<lambda>t. \<not> complete_cycle t \<le> clk) (return_queue ctl)"
  using return_loop_filter [of clk ctl "fst (return_loop clk ctl)" "snd (return_loop clk ctl)"] by simp

text \<open>
  The cycle of the ideal memory system skips the entry after each one it answers, so a request
  may be late, but not for ever: once every request is due, \<open>n\<close> cycles answer all of up to
  \<open>2 ^ n - 1\<close> requests.
\<close>

theorem ideal_system_drains:
  assumes "\<forall>t\<in>set (infinite_buffer_q sys). ideal_due sys t" "0 \<le> ideal_latency sys" "unat (ideal_clk sys) + n < 2 ^ 64"
    and "length (infinite_buffer_q sys) < 2 ^ n"
  shows "infinite_buffer_q (ideal_ticks n sys) = []"
  using assms by (rule ideal_drains_in)

theorem ideal_system_drains_witness:
  "infinite_buffer_q (ideal_ticks 2 \<lparr>ideal_clk = 10, ideal_latency = 10,
     infinite_buffer_q = [mk_Transaction 64 False, mk_Transaction 128 False, mk_Transaction 192 True]\<rparr>) = []"
  by (rule ideal_system_drains) (simp_all add: ideal_due_def mk_Transaction_def)

text \<open>
  Two requests of the ideal memory system are due in the same cycle, and only the first is
  answered.
\<close>

theorem ideal_tick_skips_due_request:
  "let q = [mk_Transaction 64 False, mk_Transaction 128 False];
       sys = \<lparr>ideal_clk = 10, ideal_latency = 10, infinite_buffer_q = q\<rparr>
   in list_all (ideal_done sys) q \<and> fst (ideal_ClockTick sys) = [(64, False)] \<and>
      map t_addr (infinite_buffer_q (snd (ideal_ClockTick sys))) = [128]"
  by code_simp

end
