(* ===== verification/System_Init.thy ===== *)
theory System_Init
  imports Memory_Run
begin

text \<open>
  The constructors of the controller and of the memory system establish what the runs start from.
\<close>

definition ctl_cfg_ok :: "Config \<Rightarrow> bool" where
  "ctl_cfg_ok cfg \<longleftrightarrow> construct_ok cfg \<and> queue_structure cfg \<in> {''PER_BANK'', ''PER_RANK''} \<and> 0 \<le> cmd_queue_size cfg \<and> 0 \<le> trans_queue_size cfg"

lemma ctl_cfg_geometry:
  assumes "ctl_cfg_ok cfg"
  shows "0 < ranks cfg" "0 < banks cfg" "0 < banks_per_group cfg" "geometry_ok cfg"
  using assms by (auto simp: ctl_cfg_ok_def construct_ok_def index_ok_def geometry_ok_def)

lemma mk_SimpleStats_ok: "0 < ranks cfg \<Longrightarrow> okE (mk_SimpleStats cfg) (\<lambda>_. True)"
  by (simp add: mk_SimpleStats_def InitVecStat_def InitHistoStat_def Let_def vec_of_ok okE_bindE)

definition fresh_ctl :: "Config \<Rightarrow> Controller \<Rightarrow> bool" where
  "fresh_ctl cfg ctl \<longleftrightarrow> ctl_wf cfg ctl \<and> books ctl \<and> outstanding ctl = {#} \<and> timed cfg (ctl_cs ctl) \<and>
     (\<forall>w\<in>set (four_aw (ctl_cs ctl)). w = []) \<and> ctl_clk ctl = 0"

lemma fresh_chan_timed: "fresh_chan cfg cs \<Longrightarrow> timed cfg cs"
  using fresh_banks_at [of cfg cs] by (auto simp: fresh_chan_def timed_def fresh_bank_def)

lemma mk_CommandQueue_ok:
  assumes "ctl_cfg_ok cfg"
  shows "okE (mk_CommandQueue cfg) (\<lambda>cq. q_wf cfg cq \<and> queued cq = {#} \<and> q_clk cq = 0)"
proof -
  note g = ctl_cfg_geometry [OF assms]
  have n: "0 \<le> banks cfg * ranks cfg" using g by simp
  have e: "concat (replicate m ([] :: 'a list)) = []" for m by (induction m) auto
  show ?thesis
    using assms g(1) n by (auto simp: mk_CommandQueue_def ctl_cfg_ok_def vec_of_ok okE_bindE checkE_def q_wf_def queued_def e)
qed

lemma mk_Refresh_ok: "ctl_cfg_ok cfg \<Longrightarrow> okE (mk_Refresh cfg) (\<lambda>_. True)"
  using ctl_cfg_geometry [of cfg] by (simp add: mk_Refresh_def okE_bindE idiv_def)

lemma mk_Controller_ok:
  assumes "ctl_cfg_ok cfg" "\<And>k xs. mset (shuffle k xs) = mset xs"
  shows "okE (mk_Controller cfg shuffle b0 cs0 ch e) (fresh_ctl cfg)"
proof -
  have c: "construct_ok cfg" "0 \<le> trans_queue_size cfg" using assms(1) by (auto simp: ctl_cfg_ok_def)
  have q: "okE (if unified_queue cfg then tq_reserve (trans_queue_size cfg) else Inr tq_empty) (\<lambda>v. tq v = [])"
    "okE (if unified_queue cfg then Inr tq_empty else tq_reserve (trans_queue_size cfg)) (\<lambda>v. tq v = [])"
    using c(2) by (simp_all add: tq_reserve_def tq_empty_def)
  show ?thesis
    unfolding mk_Controller_def okE_bindE
    apply (rule okE_mono [OF mk_SimpleStats_ok [OF ctl_cfg_geometry(1) [OF assms(1)]]])
    apply (rule okE_mono [OF mk_ChannelState_ok [where shuffle = shuffle, OF c(1) assms(2)]])
    apply (rule okE_mono [OF mk_CommandQueue_ok [OF assms(1)]])
    apply (rule okE_mono [OF mk_Refresh_ok [OF assms(1)]])
    apply (rule okE_mono [OF q(1)])
    apply (rule okE_mono [OF q(2)])
    apply (simp add: fresh_ctl_def ctl_wf_def books_def booked_def outstanding_def waiting_def mm_count_def fresh_chan_timed)
    apply (simp add: fresh_chan_def queues_wf_def)
    done
qed

lemma mk_ctrls_ok:
  assumes "ctl_cfg_ok cfg" "\<And>i k xs. mset (shuffle i k xs) = mset xs"
  shows "okE (mk_ctrls cfg shuffle b0 cs0 e) (\<lambda>sys. length (ctrls sys) = nat (channels cfg) \<and>
    (\<forall>ctl\<in>set (ctrls sys). fresh_ctl cfg ctl) \<and> sys_wf cfg sys \<and> sys_bag sys = {#})"
proof -
  have c: "okE (mk_Controller cfg (shuffle i) b0 cs0 ch e') (fresh_ctl cfg)" for i ch e'
    by (rule mk_Controller_ok [OF assms(1,2)])
  have step: "okE (bindE (mk_Controller cfg (shuffle i) b0 cs0 i (e\<lparr>env_rcc := shared_rcc sys, env_rand_pos := shared_rand_pos sys\<rparr>))
      (\<lambda>ctl. Inr (take_back ctl (sys\<lparr>ctrls := ctrls sys @ [ctl]\<rparr>))))
      (\<lambda>sys. length (ctrls sys) = nat (i + 1) \<and> (\<forall>ctl\<in>set (ctrls sys). fresh_ctl cfg ctl))"
    if "0 \<le> i" "length (ctrls sys) = nat i \<and> (\<forall>ctl\<in>set (ctrls sys). fresh_ctl cfg ctl)" for i sys
    unfolding okE_bindE by (rule okE_mono [OF c]) (use that in \<open>auto simp: take_back_def\<close>)
  have "okE (mk_ctrls cfg shuffle b0 cs0 e) (\<lambda>sys. length (ctrls sys) = nat (max 0 (channels cfg)) \<and> (\<forall>ctl\<in>set (ctrls sys). fresh_ctl cfg ctl))"
    unfolding mk_ctrls_def
    by (rule forE_inv [where I = "\<lambda>i sys. length (ctrls sys) = nat i \<and> (\<forall>ctl\<in>set (ctrls sys). fresh_ctl cfg ctl)"])
      (use step in auto)
  moreover have "sum_list (map outstanding cs) = {#}" if "\<forall>ctl\<in>set cs. fresh_ctl cfg ctl" for cs
    using that by (induction cs) (auto simp: fresh_ctl_def)
  ultimately show ?thesis
    by (elim okE_mono) (auto simp: sys_wf_def sys_bag_def fresh_ctl_def max_def split: if_splits)
qed

text \<open>
  C37. The constructors raise no error for a sensible configuration, and the memory system they build
  has one controller per channel, each ready for its runs: queues and books are empty, no request is
  outstanding, no bank is constrained and the activation windows are empty.
\<close>

theorem constructed_system_is_ready:
  assumes "ctl_cfg_ok cfg" "\<not> IsHMC cfg" "\<And>i k xs. mset (shuffle i k xs) = mset xs"
  shows "\<exists>sys. mk_JedecDRAMSystem cfg shuffle b0 cs0 e = Inr sys \<and> length (ctrls sys) = nat (channels cfg) \<and>
    (\<forall>ctl\<in>set (ctrls sys). fresh_ctl cfg ctl) \<and> sys_wf cfg sys \<and> sys_bag sys = {#}"
  using mk_ctrls_ok [of cfg shuffle b0 cs0 e, OF assms(1,3)] assms(2) by (auto simp: mk_JedecDRAMSystem_def okE_iff)

theorem constructed_system_is_ready_witness:
  "\<exists>sys. mk_JedecDRAMSystem tiny_cfg (\<lambda>_ _. rev) tiny_bank tiny_chan tiny_env = Inr sys \<and> length (ctrls sys) = 1 \<and> sys_bag sys = {#}"
  using constructed_system_is_ready [where shuffle = "\<lambda>_ _. rev" and cfg = tiny_cfg, of tiny_bank tiny_chan tiny_env] tiny_construct_ok
  by (auto simp: ctl_cfg_ok_def IsHMC_def)

end
