(* ===== verification/Self_Refresh.thy ===== *)
theory Self_Refresh
  imports System_Init
begin

text \<open>
  Self refresh in the controller.
\<close>

text \<open>
  C40. The wake-up from self refresh ends the program: when no command was issued in a cycle and a
  rank in self refresh has been given a command, the controller asks the channel for SREF_EXIT, and
  a bank in self refresh accepts only column requests.
\<close>

theorem self_refresh_exit_aborts:
  assumes "IsRankSelfRefreshing (ctl_cs ctl) r = Inr True" "vget (rank_q_empty (ctl_cq ctl)) r = Inr False"
    and "bank_at (ctl_cs ctl) r 0 0 = Inr b" "b_state b = SREF" "0 < bankgroups cfg" "0 < banks_per_group cfg"
  shows "sref_loop cfg (r # rs) ctl = Inl AbruptExit"
proof -
  let ?req = "mk_Command SREF_EXIT (Address_default\<lparr>a_rank := r\<rparr>) no_hex"
  have q: "sref_request cfg r ctl = Inr (Some ?req)" using assms(1,2) by (simp add: sref_request_def Let_def)
  have b: "bank_GetReadyCommand cfg b ?req clk = Inl AbruptExit" for clk
    using assms(4) by (simp add: bank_GetReadyCommand_def required_type_def required_sref_def mk_Command_def)
  obtain ps where ps: "banks_of_rank cfg = (0, 0) # ps"
    using assms(5,6) by (simp add: banks_of_rank_def upt_conv_Cons)
  have "all_ready cfg (ctl_cs ctl) ?req (ctl_clk ctl) (banks_of_rank cfg) (banks cfg) = Inl AbruptExit"
    using assms(3) b by (simp add: all_ready_def ps mk_Command_def cmd_fields Address_default_def)
  then have "GetReadyCommand cfg ?req (ctl_clk ctl) (ctl_cs ctl) = Inl AbruptExit"
    by (simp add: GetReadyCommand_def cmd_kinds)
  with q show ?thesis by simp
qed

theorem self_refresh_exit_aborts_witness:
  "let ctl = tiny_ctl\<lparr>ctl_cs := tiny_chan\<lparr>rank_is_sref := [True], bank_states := [[[tiny_bank\<lparr>b_state := SREF\<rparr>]]]\<rparr>,
     ctl_cq := (ctl_cq tiny_ctl)\<lparr>rank_q_empty := [False]\<rparr>\<rparr>
   in sref_loop tiny_cfg [0] ctl = Inl AbruptExit"
  unfolding Let_def by (rule self_refresh_exit_aborts [where b = "tiny_bank\<lparr>b_state := SREF\<rparr>"])
    (simp_all add: IsRankSelfRefreshing_def tiny_ctl_def bank_at_def vget_def)

end
