(* ===== verification/Channel_Cactus.thy ===== *)
theory Channel_Cactus
  imports Queue_Run
begin

text \<open>
  The alert protocol of CACTUS, per rank: idle, alerted (the counter that reached the threshold is
  recorded), mitigating (the RFMab is requested), and back to idle when the RFMab is executed or a
  refresh makes it superfluous.
\<close>

section \<open>The protocol\<close>

definition rank_state :: "bool \<Rightarrow> bool \<Rightarrow> int \<Rightarrow> bool" where
  "rank_state pending inflight counter \<longleftrightarrow> \<not> (pending \<and> inflight) \<and> (0 \<le> counter \<longleftrightarrow> pending \<or> inflight)"

definition alert_ok :: "Config \<Rightarrow> ChannelState \<Rightarrow> bool" where
  "alert_ok cfg cs \<longleftrightarrow> cactus_mode cfg \<noteq> 0 \<and> length (cactus cs) \<le> 2 ^ 31 \<and>
     length (cactus_rfm_inflight cs) = length (cactus_alert_pending cs) \<and>
     length (cactus_pending_counter_idx cs) = length (cactus_alert_pending cs) \<and>
     (\<forall>r<length (cactus_alert_pending cs).
        rank_state (cactus_alert_pending cs ! r) (cactus_rfm_inflight cs ! r) (cactus_pending_counter_idx cs ! r))"

text \<open>The operations that leave the protocol alone.\<close>

definition same_alerts :: "ChannelState \<Rightarrow> ChannelState \<Rightarrow> bool" where
  "same_alerts cs cs' \<longleftrightarrow> cactus_alert_pending cs' = cactus_alert_pending cs \<and> cactus_rfm_inflight cs' = cactus_rfm_inflight cs \<and>
     cactus_pending_counter_idx cs' = cactus_pending_counter_idx cs \<and> length (cactus cs') = length (cactus cs)"

lemma same_alerts_refl [simp]: "same_alerts cs cs"
  by (simp add: same_alerts_def)

lemma same_alerts_ok: "same_alerts cs cs' \<Longrightarrow> alert_ok cfg cs' = alert_ok cfg cs"
  by (simp add: same_alerts_def alert_ok_def)

lemma same_alerts_trans: "same_alerts a b \<Longrightarrow> same_alerts b c \<Longrightarrow> same_alerts a c"
  by (simp add: same_alerts_def)

lemma same_alerts_banks [simp]: "same_alerts c0 (cs\<lparr>bank_states := b\<rparr>) = same_alerts c0 cs"
  by (simp add: same_alerts_def)

lemma set_bank_alerts: "vE (set_bank cs i j k b) (same_alerts cs)"
  by (auto simp: set_bank_def intro!: vE_bind_any)

lemma roll_counter_length:
  "roll_counter w (cur, prev) = Inr (cur', prev') \<Longrightarrow> length cur' = length cur"
  by (auto simp: roll_counter_def bindE_Inr_iff vset_Inr_iff)

lemma roll_range_length:
  assumes "roll_range w n (cur, prev) = Inr (cur', prev')"
  shows "length cur' = length cur"
proof -
  have "vE (roll_range w n (cur, prev)) (\<lambda>s. length (fst s) = length cur)"
    unfolding roll_range_def by (rule vE_forE) (auto intro!: vE_I dest: roll_counter_length)
  from vE_D [OF this assms] show ?thesis by simp
qed

lemma mitig_counter_alerts: "vE (cactus_mitig_counter cfg r w cs) (same_alerts cs)"
proof -
  have "vE (upd_bank r j k f s) (same_alerts cs)" if "same_alerts cs s" for j k f s
    unfolding upd_bank_def using vE_mono [OF set_bank_alerts] same_alerts_trans [OF that] by (auto intro!: vE_bind_any)
  then have b: "vE (for_rank cfg (\<lambda>j k cs. bindE (get_cactus_row_idx cfg cs (word_of_int r) (word_of_int j) (word_of_int k) w)
     (\<lambda>row. upd_bank r j k (bank_cactus_mitig cfg row) cs)) cs) (same_alerts cs)"
    unfolding for_rank_def by (intro vE_forE vE_bind_any) simp_all
  show ?thesis
  proof (cases "cactus_mode cfg = 0")
    case False
    show ?thesis
      unfolding cactus_mitig_counter_def if_not_P [OF False] Let_def
      by (rule vE_bindE [OF b]) (auto intro!: vE_bind_any dest!: roll_counter_length simp: same_alerts_def)
  qed (simp add: cactus_mitig_counter_def)
qed

lemma alert_okI:
  assumes ok: "alert_ok cfg cs" and l: "length (cactus cs') = length (cactus cs)"
    and u: "(cactus_alert_pending cs)[r := p] = cactus_alert_pending cs'" "(cactus_rfm_inflight cs)[r := f] = cactus_rfm_inflight cs'"
      "(cactus_pending_counter_idx cs)[r := c] = cactus_pending_counter_idx cs'"
    and s: "rank_state p f c"
  shows "alert_ok cfg cs'"
proof -
  have "rank_state (cactus_alert_pending cs' ! q) (cactus_rfm_inflight cs' ! q) (cactus_pending_counter_idx cs' ! q)"
    if "q < length (cactus_alert_pending cs)" for q
    using that ok s unfolding u [symmetric] by (cases "q = r") (auto simp: alert_ok_def)
  moreover have "length (cactus_alert_pending cs') = length (cactus_alert_pending cs)"
    "length (cactus_rfm_inflight cs') = length (cactus_rfm_inflight cs)"
    "length (cactus_pending_counter_idx cs') = length (cactus_pending_counter_idx cs)" unfolding u [symmetric] by simp_all
  ultimately show ?thesis using ok l by (auto simp: alert_ok_def)
qed

lemma alert_ok_at:
  assumes "alert_ok cfg cs" "inrange r (cactus_alert_pending cs)"
  shows "rank_state (cactus_alert_pending cs ! nat r) (cactus_rfm_inflight cs ! nat r) (cactus_pending_counter_idx cs ! nat r)"
    "inrange r (cactus_rfm_inflight cs)" "inrange r (cactus_pending_counter_idx cs)"
  using assms by (auto simp: alert_ok_def inrange_def)

lemma alert_ok_fields [simp]:
  "alert_ok cfg (c_stat_inc n cs) = alert_ok cfg cs"
  "alert_ok cfg (RankNeedRFM r b cs) = alert_ok cfg cs"
  "alert_ok cfg (cs\<lparr>cactus_acts_since_rfm := a\<rparr>) = alert_ok cfg cs"
  by (simp_all add: alert_ok_def c_stat_inc_def RankNeedRFM_def need_rfm_def)

section \<open>The operations of CACTUS\<close>

text \<open>A list with a value it has already.\<close>

lemma keep_at: "inrange i xs \<Longrightarrow> xs ! nat i = x \<Longrightarrow> xs[nat i := x] = xs"
  by auto

lemma cactus_alert_ok:
  assumes "alert_ok cfg cs" "sint w \<ge> 0"
  shows "vE (cactus_alert cfg r w clk cs) (alert_ok cfg)"
proof (rule vE_I)
  fix cs' assume r: "cactus_alert cfg r w clk cs = Inr cs'"
  show "alert_ok cfg cs'"
  proof (cases "cs' = cs")
    case False
    then have u: "inrange (uint r) (cactus_rfm_inflight cs)" "cactus_rfm_inflight cs ! nat (uint r) = False"
      "cactus_alert_pending cs' = (cactus_alert_pending cs)[nat (uint r) := True]" "cactus_rfm_inflight cs' = cactus_rfm_inflight cs"
      "cactus_pending_counter_idx cs' = (cactus_pending_counter_idx cs)[nat (uint r) := sint w]" "cactus cs' = cactus cs"
      using r by (auto simp: cactus_alert_def c_stat_inc_def bindE_Inr_iff vget_Inr_iff vset_Inr_iff split: if_splits)
    show ?thesis
      by (rule alert_okI [OF assms(1), where r = "nat (uint r)" and p = True and f = False and c = "sint w"])
        (use assms(2) keep_at [OF u(1,2)] u(3-6) in \<open>simp_all add: rank_state_def\<close>)
  qed (use assms in simp)
qed

lemma track_max_alerts: "vE (cactus_track_max cfg r w v cs) (same_alerts cs)"
  unfolding cactus_track_max_def by (auto intro!: vE_bind_any simp: same_alerts_def)

lemma cactus_preact_ok:
  assumes "alert_ok cfg cs"
  shows "vE (cactus_preact cfg w1 w2 w3 w clk cs) (alert_ok cfg)"
proof (rule vE_I)
  fix cs' assume r: "cactus_preact cfg w1 w2 w3 w clk cs = Inr cs'"
  obtain i ctrs where i: "vupd (cactus cs) (uint i) (\<lambda>v. v + 1) = Inr ctrs" and
    rest: "(bindE (cactus_val cfg (cs\<lparr>cactus := ctrs\<rparr>) (uint i)) (\<lambda>v. bindE (cactus_track_max cfg w1 i v (cs\<lparr>cactus := ctrs\<rparr>)) (\<lambda>cs.
       if v \<ge> cactus_threshold cfg then cactus_alert cfg w1 i clk cs else Inr cs))) = Inr cs'"
    using r assms by (auto simp: cactus_preact_def bindE_Inr_iff Let_def alert_ok_def)
  have l: "uint i < 2 ^ 31" "length ctrs = length (cactus cs)" using i assms by (auto simp: vupd_Inr_iff inrange_def alert_ok_def)
  moreover have "- 2147483648 \<le> uint i" by (rule order_trans [OF _ uint_ge_0]) simp
  ultimately have "sint i = uint i" by (simp add: sint_uint signed_take_bit_int_eq_self_iff)
  then have pos: "sint i \<ge> 0" by simp
  obtain v c1 where c1: "cactus_track_max cfg w1 i v (cs\<lparr>cactus := ctrs\<rparr>) = Inr c1"
    "(if v \<ge> cactus_threshold cfg then cactus_alert cfg w1 i clk c1 else Inr c1) = Inr cs'"
    using rest by (auto simp: bindE_Inr_iff)
  have "alert_ok cfg (cs\<lparr>cactus := ctrs\<rparr>)" using assms l(2) by (simp add: alert_ok_def)
  then have "alert_ok cfg c1" using same_alerts_ok [OF vE_D [OF track_max_alerts c1(1)]] by simp
  then show "alert_ok cfg cs'" using c1(2) vE_D [OF cactus_alert_ok [OF _ pos]] by (auto split: if_splits)
qed

lemma cactus_mitig_parts:
  assumes "cactus_mitig cfg r cs = Inr cs'" "alert_ok cfg cs" "inrange r (cactus_alert_pending cs)"
  shows "cactus_alert_pending cs' = cactus_alert_pending cs" "cactus_rfm_inflight cs' = cactus_rfm_inflight cs"
    "length (cactus cs') = length (cactus cs)"
    "cactus_pending_counter_idx cs' = (if cactus_pending_counter_idx cs ! nat r < 0 then cactus_pending_counter_idx cs
       else (cactus_pending_counter_idx cs)[nat r := - 1])"
proof -
  note a = alert_ok_at [OF assms(2,3)]
  have m: "cactus_mode cfg \<noteq> 0" using assms(2) by (simp add: alert_ok_def)
  have "cs' = cs \<and> cactus_pending_counter_idx cs ! nat r < 0 \<or> \<not> cactus_pending_counter_idx cs ! nat r < 0 \<and>
    (\<exists>c1. same_alerts cs c1 \<and> cs' = c1\<lparr>cactus_pending_counter_idx := (cactus_pending_counter_idx c1)[nat r := - 1]\<rparr>)"
  proof (cases "cactus_pending_counter_idx cs ! nat r < 0")
    case True
    then show ?thesis using assms(1) m a(3) by (simp add: cactus_mitig_def)
  next
    case False
    then obtain c1 where c1: "cactus_mitig_counter cfg r (word_of_int (cactus_pending_counter_idx cs ! nat r)) cs = Inr c1"
      "cs' = c1\<lparr>cactus_pending_counter_idx := (cactus_pending_counter_idx c1)[nat r := - 1]\<rparr>"
      using assms(1) m a(3) by (auto simp: cactus_mitig_def bindE_Inr_iff vset_Inr_iff)
    then show ?thesis using False vE_D [OF mitig_counter_alerts c1(1)] by blast
  qed
  then show "cactus_alert_pending cs' = cactus_alert_pending cs" "cactus_rfm_inflight cs' = cactus_rfm_inflight cs"
    "length (cactus cs') = length (cactus cs)"
    "cactus_pending_counter_idx cs' = (if cactus_pending_counter_idx cs ! nat r < 0 then cactus_pending_counter_idx cs
       else (cactus_pending_counter_idx cs)[nat r := - 1])"
    by (auto simp: same_alerts_def)
qed

lemma idle_state: "rank_state False False (- 1)"
  by (simp add: rank_state_def)

lemma cancel_alert_parts:
  assumes "cancel_alert r cs = Inr cs'"
  shows "inrange r (cactus_alert_pending cs)" "cactus_alert_pending cs' = (cactus_alert_pending cs)[nat r := False]"
    "cactus_rfm_inflight cs' = (cactus_rfm_inflight cs)[nat r := False]"
    "cactus_pending_counter_idx cs' = cactus_pending_counter_idx cs" "length (cactus cs') = length (cactus cs)"
  using assms by (auto simp: cancel_alert_def bindE_Inr_iff vset_Inr_iff c_stat_inc_def RankNeedRFM_def need_rfm_def)

lemma tref_mitig_ok:
  assumes "alert_ok cfg cs"
  shows "vE (cactus_tref_mitig cfg r cs) (alert_ok cfg)"
proof (rule vE_I)
  fix cs' assume t: "cactus_tref_mitig cfg r cs = Inr cs'"
  show "alert_ok cfg cs'"
  proof (cases "cs' = cs")
    case False
    obtain c1 where c: "inrange r (cactus_alert_pending cs)" "\<not> cactus_pending_counter_idx cs ! nat r < 0"
      "cactus_mitig cfg r cs = Inr c1" "cancel_alert r c1 = Inr cs'"
      using t False by (auto simp: cactus_tref_mitig_def bindE_Inr_iff vget_Inr_iff split: if_splits)
    note m = cactus_mitig_parts [OF c(3) assms c(1)] and k = cancel_alert_parts [OF c(4)]
    show ?thesis
      by (rule alert_okI [OF assms, where r = "nat r", OF _ _ _ _ idle_state]) (use m k c(2) in simp_all)
  qed (use assms in simp)
qed

lemma tref_max_mitig_ok: "alert_ok cfg cs \<Longrightarrow> vE (cactus_tref_max_mitig cfg r cs) (alert_ok cfg)"
proof -
  have drop: "vE (bindE (vset (cactus_pending_counter_idx cs) r (-1)) (\<lambda>pcs. cancel_alert r (cs\<lparr>cactus_pending_counter_idx := pcs\<rparr>))) (alert_ok cfg)"
    if "alert_ok cfg cs" for cs
  proof (rule vE_I)
    fix cs' assume "bindE (vset (cactus_pending_counter_idx cs) r (-1)) (\<lambda>pcs. cancel_alert r (cs\<lparr>cactus_pending_counter_idx := pcs\<rparr>)) = Inr cs'"
    then have k: "cancel_alert r (cs\<lparr>cactus_pending_counter_idx := (cactus_pending_counter_idx cs)[nat r := - 1]\<rparr>) = Inr cs'"
      by (auto simp: bindE_Inr_iff vset_Inr_iff)
    show "alert_ok cfg cs'"
      by (rule alert_okI [OF that, where r = "nat r", OF _ _ _ _ idle_state]) (use cancel_alert_parts [OF k] in simp_all)
  qed
  have fin: "vE (bindE (if c then bindE (vset (cactus_pending_counter_idx cs) r (-1)) (\<lambda>pcs.
               cancel_alert r (cs\<lparr>cactus_pending_counter_idx := pcs\<rparr>)) else Inr cs) (\<lambda>cs. Inr (c_stat_inc n cs))) (alert_ok cfg)"
    if "alert_ok cfg cs" for c n cs
    by (rule vE_bindE [where Q = "alert_ok cfg"]) (use that drop in auto)
  have m: "vE (cactus_mitig_counter cfg r w cs) (alert_ok cfg)" if "alert_ok cfg cs" for w cs
    using that by (intro vE_mono [OF mitig_counter_alerts]) (simp add: same_alerts_ok)
  have k: "alert_ok cfg (cs\<lparr>cactus_tref_refab_count := rc\<rparr>) = alert_ok cfg cs" for rc cs by (simp add: alert_ok_def)
  show "alert_ok cfg cs \<Longrightarrow> vE (cactus_tref_max_mitig cfg r cs) (alert_ok cfg)"
    unfolding cactus_tref_max_mitig_def Let_def
    by (auto simp del: vE_if simp: k intro!: vE_bind_else fin vE_bindE [OF m] split: if_split)
qed

lemma cactus_refresh_ok:
  assumes "alert_ok cfg cs"
  shows "vE (cactus_refresh cfg r b cs) (alert_ok cfg)"
proof -
  have "vE (cactus_refresh cfg r b cs) (same_alerts cs)"
    unfolding cactus_refresh_def Let_def c_stat_inc_def
    by (auto intro!: vE_bind_any dest!: roll_range_length simp: same_alerts_def)
  then show ?thesis by (rule vE_mono) (use assms same_alerts_ok in blast)
qed

lemma rank_rfm_done_ok:
  assumes "alert_ok cfg cs"
  shows "vE (rank_rfm_done cfg cmd cs) (alert_ok cfg)"
proof (rule vE_I)
  fix cs' assume t: "rank_rfm_done cfg cmd cs = Inr cs'"
  let ?r = "Rank cmd" and ?c0 = "RankNeedRFM (Rank cmd) False cs"
  have ok: "alert_ok cfg ?c0" using assms by simp
  show "alert_ok cfg cs'"
  proof (cases "cs' = ?c0")
    case False
    obtain c1 ac where c: "inrange ?r (cactus_rfm_inflight ?c0)" "cactus_rfm_inflight ?c0 ! nat ?r" "cactus_mitig cfg ?r ?c0 = Inr c1"
      "cs' = c1\<lparr>cactus_rfm_inflight := (cactus_rfm_inflight c1)[nat ?r := False], cactus_acts_since_rfm := ac\<rparr>"
      using t False by (auto simp: rank_rfm_done_def Let_def bindE_Inr_iff vget_Inr_iff vset_Inr_iff split: if_splits)
    have i: "inrange ?r (cactus_alert_pending ?c0)" using c(1) ok by (simp add: alert_ok_def inrange_def)
    note m = cactus_mitig_parts [OF c(3) ok i] and a = alert_ok_at [OF ok i]
    have "(cactus_alert_pending ?c0)[nat ?r := False] = cactus_alert_pending ?c0" by (rule keep_at [OF i]) (use a c(2) in \<open>simp add: rank_state_def\<close>)
    then show ?thesis
      by (intro alert_okI [OF ok, where r = "nat ?r", OF _ _ _ _ idle_state]) (use m a c in \<open>auto simp: rank_state_def\<close>)
  qed (use ok in simp)
qed

lemma serve_alert_ok:
  assumes "alert_ok cfg cs"
  shows "vE (serve_cactus_alert cfg clk r cs) (alert_ok cfg)"
proof (rule vE_I)
  fix cs' assume t: "serve_cactus_alert cfg clk r cs = Inr cs'"
  let ?c0 = "RankNeedRFM r True cs"
  have ok: "alert_ok cfg ?c0" using assms by simp
  show "alert_ok cfg cs'"
  proof (cases "cs' = cs")
    case False
    then have c: "inrange r (cactus_alert_pending cs)" "cactus_alert_pending cs ! nat r"
      "cs' = ?c0\<lparr>cactus_alert_pending := (cactus_alert_pending ?c0)[nat r := False], cactus_rfm_inflight := (cactus_rfm_inflight ?c0)[nat r := True]\<rparr>"
      using t by (auto simp: serve_cactus_alert_def Let_def bindE_Inr_iff vget_Inr_iff vset_Inr_iff split: if_splits)
    note a = alert_ok_at [OF assms c(1)]
    have pc: "cactus_pending_counter_idx ?c0 = cactus_pending_counter_idx cs" by (simp add: RankNeedRFM_def need_rfm_def)
    show ?thesis
      by (rule alert_okI [OF ok, where r = "nat r" and p = False and f = True and c = "cactus_pending_counter_idx cs ! nat r"])
        (use a c pc in \<open>auto simp: rank_state_def\<close>)
  qed (use assms in simp)
qed

interpretation alerts: chan_ops_any cfg "alert_ok cfg" for cfg
proof
  show "vE (set_bank cs i j k b') (alert_ok cfg)" if "alert_ok cfg cs" for cs i j k b'
    using vE_mono [OF set_bank_alerts] same_alerts_ok that by blast
  then show "vE (set_bank cs i j k b') (alert_ok cfg)" if "alert_ok cfg cs" for cs i j k b' using that .
  show "vE (hydra_gate cfg cmd cs) (\<lambda>r. alert_ok cfg (snd r))" if "alert_ok cfg cs" for cmd cs
  proof -
    have "alert_ok cfg (HydraWB r j k w cs) = alert_ok cfg cs" "alert_ok cfg (snd (HydraRead r j k w cs)) = alert_ok cfg cs"
      "alert_ok cfg (cs\<lparr>c_env := e\<rparr>) = alert_ok cfg cs" for r j k w cs e
      by (simp_all add: HydraWB_def HydraRead_def alert_ok_def)
    then show ?thesis using that unfolding hydra_gate_def Let_def case_prod_beta' by (auto intro!: vE_bind_any)
  qed
qed (assumption | rule cactus_preact_ok cactus_refresh_ok rank_rfm_done_ok tref_mitig_ok tref_max_mitig_ok serve_alert_ok
    | simp add: alert_ok_def hydra_pop_def need_rfm_def RankNeedRFM_def BanksetNeedRFM_def BankNeedDRFM_def BanksetNeedDRFM_def
        RankNeedDRFM_def RankNeedRefresh_def BanksetNeedRefresh_def BankNeedRefresh_def)+

end
