(* ===== verification/Cactus_Defence.thy ===== *)
theory Cactus_Defence
  imports Channel_Cactus
begin

text \<open>
  What CACTUS does about a row that is activated too often: the counter of the row reaches the
  threshold and alerts the rank, the tick requests an RFMab, and the RFMab restores the victims of
  every row the counter stands for and clears the counter.
\<close>

section \<open>The row of a counter\<close>

lemma cactus_row_of_counter:
  assumes c: "cactus_map_ok cfg cs" and p: "(i, j, k) \<in> positions cfg" and x: "i * rows cfg \<le> x" "x < (i + 1) * rows cfg"
  obtains r where "row_ok cfg r" "get_cactus_row_idx cfg cs (word_of_int i) (word_of_int j) (word_of_int k) (word_of_int x) = Inr (word_of_int r)"
    "get_cactus_idx cfg cs (word_of_int i) (word_of_int j) (word_of_int k) (word_of_int r) = Inr (word_of_int x)"
proof -
  have ok: "index_ok cfg" and sz: "cactus_size cs = word_of_int (rows cfg)" using c by (auto simp: cactus_map_ok_def)
  note ib = index_bounds [OF ok]
  define y where "y = x - i * rows cfg"
  have y: "0 \<le> y" "y < rows cfg" using x by (simp_all add: y_def algebra_simps)
  have local: "(word_of_int x :: u32) - word_of_int i * cactus_size cs = word_of_int y"
    and off: "word_of_int i * cactus_size cs + word_of_int y = (word_of_int x :: u32)" by (simp_all add: sz y_def)
  show ?thesis
  proof (cases "cactus_policy cfg = 0")
    case True
    show ?thesis
      by (rule that [of y]) (use True y local off in \<open>simp_all add: row_ok_def get_cactus_row_idx_def get_cactus_idx_def\<close>)
  next
    case False
    then have pol: "cactus_policy cfg = 1" and wf: "perms_wf cfg (cactus_row_perms cs) (cactus_inv_row_perms cs)"
      using c by (auto simp: cactus_map_ok_def)
    let ?b = "bidx cfg (i, j, k)"
    note b = bidx_less [OF p]
    have ix: "uint (get_cactus_bank_idx cfg (word_of_int i) (word_of_int j) (word_of_int k) * word_of_int (rows cfg) + word_of_int z) = ?b * rows cfg + z"
      if "0 \<le> z" "z < rows cfg" for z
    proof -
      have "?b * rows cfg + z < 2 ^ 31" using ib(6) [OF b that] ok by (simp add: index_ok_def)
      moreover have "0 \<le> ?b * rows cfg + z" using b ib(3) that by simp
      ultimately show ?thesis using uint_small [of "?b * rows cfg + z"] by (simp add: bank_idx_word)
    qed
    have rng: "inrange (?b * rows cfg + z) (cactus_row_perms cs)" "inrange (?b * rows cfg + z) (cactus_inv_row_perms cs)"
      if "0 \<le> z" "z < rows cfg" for z
      using ib(6) [OF b that] b ib(1,3) that wf by (simp_all add: perms_wf_def inrange_def)
    define rw where "rw = cactus_row_perms cs ! nat (?b * rows cfg + y)"
    have sl: "uint rw < rows cfg" "uint (cactus_inv_row_perms cs ! nat (?b * rows cfg + uint rw)) = y"
      using wf b y unfolding perms_wf_def slice_inverse_def Let_def rw_def by blast+
    have rw: "0 \<le> uint rw" "word_of_int (uint rw) = rw" by simp_all
    have inv: "cactus_inv_row_perms cs ! nat (?b * rows cfg + uint rw) = word_of_int y" using sl(2) by (metis word_of_int_uint)
    show ?thesis
    proof (rule that [of "uint rw"])
      show "row_ok cfg (uint rw)" using sl(1) by (simp add: row_ok_def)
      show "get_cactus_row_idx cfg cs (word_of_int i) (word_of_int j) (word_of_int k) (word_of_int x) = Inr (word_of_int (uint rw))"
        using pol False local ix [OF y] rng(1) [OF y] by (simp add: get_cactus_row_idx_def rw_def)
      show "get_cactus_idx cfg cs (word_of_int i) (word_of_int j) (word_of_int k) (word_of_int (uint rw)) = Inr (word_of_int x)"
        using pol False off ix [OF rw(1) sl(1)] rng(2) [OF rw(1) sl(1)] inv by (simp add: get_cactus_idx_def)
    qed
  qed
qed

section \<open>Mitigation\<close>

definition cactus_shape :: "Config \<Rightarrow> ChannelState \<Rightarrow> bool" where
  "cactus_shape cfg cs \<longleftrightarrow> chan_shape cfg cs \<and> cactus_map_ok cfg cs \<and> cactus_mode cfg \<noteq> 0 \<and> bank_cfg_ok cfg \<and>
     (\<forall>p\<in>positions cfg. length (prac (the_bank cs p)) = nat (rows cfg)) \<and>
     length (cactus cs) = nat (ranks cfg * rows cfg) \<and> length (cactus_prev cs) = nat (ranks cfg * rows cfg) \<and>
     length (cactus_alert_pending cs) = nat (ranks cfg) \<and> length (cactus_rfm_inflight cs) = nat (ranks cfg) \<and>
     length (cactus_pending_counter_idx cs) = nat (ranks cfg) \<and> length (cactus_last_alert_clk cs) = nat (ranks cfg) \<and>
     length (cactus_acts_since_rfm cs) = nat (ranks cfg) \<and> length (cactus_tref_max_counter_idx cs) = nat (ranks cfg) \<and>
     (\<forall>m\<in>set (cactus_tref_max_counter_idx cs). m < ranks cfg * rows cfg)"

definition of_rank :: "Config \<Rightarrow> int \<Rightarrow> int \<Rightarrow> bool" where
  "of_rank cfg i x \<longleftrightarrow> 0 \<le> i \<and> i < ranks cfg \<and> i * rows cfg \<le> x \<and> x < (i + 1) * rows cfg"

lemma of_rank_bounds:
  assumes "cactus_shape cfg cs" "of_rank cfg i x"
  shows "0 \<le> x" "x < ranks cfg * rows cfg" "uint (word_of_int x :: u32) = x" "sint (word_of_int x :: u32) = x"
    "inrange x (cactus cs)" "inrange x (cactus_prev cs)"
proof -
  have ok: "index_ok cfg" using assms(1) by (simp add: cactus_shape_def cactus_map_ok_def)
  note ib = index_bounds [OF ok]
  have i: "0 \<le> i" "i < ranks cfg" "i * rows cfg \<le> x" "x < (i + 1) * rows cfg" using assms(2) by (auto simp: of_rank_def)
  show x: "0 \<le> x" using i(1,3) ib(3) order_trans [of 0 "i * rows cfg" x] by simp
  show lt: "x < ranks cfg * rows cfg" using ib(7) [of i "x - i * rows cfg"] i by (simp add: algebra_simps)
  have b: "x < 2 ^ 31" using lt ib(5) by linarith
  show "uint (word_of_int x :: u32) = x" using x b by (rule uint_small)
  show "sint (word_of_int x :: u32) = x"
    using x b by (simp add: sint_sbintrunc' signed_take_bit_int_eq_self_iff)
  show "inrange x (cactus cs)" "inrange x (cactus_prev cs)" using assms(1) x lt by (simp_all add: cactus_shape_def inrange_def)
qed

definition mitigated :: "Config \<Rightarrow> int \<Rightarrow> int \<Rightarrow> ChannelState \<Rightarrow> ChannelState \<Rightarrow> bool" where
  "mitigated cfg i x cs cs' \<longleftrightarrow>
     (\<forall>j k. (i, j, k) \<in> positions cfg \<longrightarrow> (\<exists>r. row_ok cfg r \<and>
        get_cactus_idx cfg cs (word_of_int i) (word_of_int j) (word_of_int k) (word_of_int r) = Inr (word_of_int x) \<and>
        restored (the_bank cs (i, j, k)) (victims cfg r) (the_bank cs' (i, j, k)))) \<and>
     (\<forall>p\<in>positions cfg. fst p \<noteq> i \<longrightarrow> the_bank cs' p = the_bank cs p) \<and>
     cactus cs' = (cactus cs)[nat x := 0] \<and> same_alerts cs cs' \<and>
     length (cactus_acts_since_rfm cs') = length (cactus_acts_since_rfm cs)"

lemma bank_frame_fields:
  assumes "bank_frame cs cs'"
  shows "get_cactus_row_idx cfg cs' = get_cactus_row_idx cfg cs" "get_cactus_idx cfg cs' = get_cactus_idx cfg cs"
    "cactus cs' = cactus cs" "cactus_prev cs' = cactus_prev cs" "same_alerts cs cs'"
    "cactus_acts_since_rfm cs' = cactus_acts_since_rfm cs" "cactus_tref_max_counter_idx cs' = cactus_tref_max_counter_idx cs"
  using assms by (auto simp: bank_frame_def get_cactus_row_idx_def get_cactus_idx_def fun_eq_iff same_alerts_def Let_def)

lemma mitig_counter_effect:
  assumes s: "cactus_shape cfg cs" and x: "of_rank cfg i x"
  shows "okE (cactus_mitig_counter cfg i (word_of_int x) cs) (mitigated cfg i x cs)"
proof -
  note xb = of_rank_bounds [OF s x]
  have m: "cactus_map_ok cfg cs" "chan_shape cfg cs" "bank_cfg_ok cfg" "cactus_mode cfg \<noteq> 0" using s by (auto simp: cactus_shape_def)
  have i: "0 \<le> i" "i < ranks cfg" "i * rows cfg \<le> x" "x < (i + 1) * rows cfg" using x by (auto simp: of_rank_def)
  let ?Q = "\<lambda>p b. \<exists>r. row_ok cfg r \<and> get_cactus_idx cfg cs (word_of_int i) (word_of_int (fst (snd p))) (word_of_int (snd (snd p))) (word_of_int r) = Inr (word_of_int x) \<and>
    restored (the_bank cs p) (victims cfg r) b"
  have ps: "set (rank_list cfg i) \<subseteq> positions cfg" using i by (auto simp: rank_list_props positions_def)
  have body: "okE ((\<lambda>(i', j, k) c1. bindE (get_cactus_row_idx cfg c1 (word_of_int i) (word_of_int j) (word_of_int k) (word_of_int x))
      (\<lambda>row. upd_bank i j k (bank_cactus_mitig cfg row) c1)) p c1) (\<lambda>c2. only_bank cfg p c1 c2 \<and> ?Q p (the_bank c2 p))"
    if p: "p \<in> set (rank_list cfg i)" and f: "bank_frame cs c1" "chan_shape cfg c1" "the_bank c1 p = the_bank cs p" for p c1
  proof -
    obtain j k where pj: "p = (i, j, k)" "(i, j, k) \<in> positions cfg" using p i by (auto simp: rank_list_props positions_def)
    obtain r where r: "row_ok cfg r" "get_cactus_row_idx cfg cs (word_of_int i) (word_of_int j) (word_of_int k) (word_of_int x) = Inr (word_of_int r)"
      "get_cactus_idx cfg cs (word_of_int i) (word_of_int j) (word_of_int k) (word_of_int r) = Inr (word_of_int x)"
      by (rule cactus_row_of_counter [OF m(1) pj(2) i(3,4)])
    have l: "length (prac (the_bank c1 (i, j, k))) = nat (rows cfg)" using s f(3) pj by (simp add: cactus_shape_def)
    obtain b where b: "bank_cactus_mitig cfg (word_of_int r) (the_bank c1 (i, j, k)) = Inr b" "restored (the_bank c1 (i, j, k)) (victims cfg r) b"
      using cactus_mitig_restores_neighbours [OF m(3) l r(1)] by (auto simp: okE_iff)
    show ?thesis
      using r b f(3) only_bank_put(2) [OF f(2) pj(2), of b] the_bank_put [OF f(2) pj(2) pj(2), of b]
      by (auto simp: pj(1) bank_frame_fields(1) [OF f(1)] upd_bank_pos [OF f(2) pj(2)])
  qed
  have loop: "okE (foldE (\<lambda>(i', j, k) c1. bindE (get_cactus_row_idx cfg c1 (word_of_int i) (word_of_int j) (word_of_int k) (word_of_int x))
      (\<lambda>row. upd_bank i j k (bank_cactus_mitig cfg row) c1)) (rank_list cfg i) cs) (\<lambda>c1. bank_frame cs c1 \<and> chan_shape cfg c1 \<and>
    (\<forall>q\<in>positions cfg. if q \<in> set (rank_list cfg i) then ?Q q (the_bank c1 q) else the_bank c1 q = the_bank cs q))"
    by (rule fold_banks [OF m(2) rank_list_props(2) ps]) (rule body)
  show ?thesis
    unfolding cactus_mitig_counter_def if_not_P [OF m(4)] for_rank_fold [where i = i] okE_bindE
  proof (rule okE_mono [OF loop], elim conjE)
    fix c1 assume f: "bank_frame cs c1" and q: "\<forall>q\<in>positions cfg. if q \<in> set (rank_list cfg i) then ?Q q (the_bank c1 q) else the_bank c1 q = the_bank cs q"
    note g = bank_frame_fields [OF f]
    have t: "inrange i (cactus_tref_max_counter_idx c1)" using s i by (simp add: g cactus_shape_def inrange_def)
    have banks: "\<forall>j k. (i, j, k) \<in> positions cfg \<longrightarrow> ?Q (i, j, k) (the_bank c1 (i, j, k))"
      "\<forall>p\<in>positions cfg. fst p \<noteq> i \<longrightarrow> the_bank c1 p = the_bank cs p"
    proof -
      have "(i, j, k) \<in> set (rank_list cfg i)" if "(i, j, k) \<in> positions cfg" for j k
        using that by (simp add: rank_list_props positions_def)
      then show "\<forall>j k. (i, j, k) \<in> positions cfg \<longrightarrow> ?Q (i, j, k) (the_bank c1 (i, j, k))" using q by fastforce
      have "p \<notin> set (rank_list cfg i)" if "fst p \<noteq> i" for p using that by (auto simp: rank_list_props)
      then show "\<forall>p\<in>positions cfg. fst p \<noteq> i \<longrightarrow> the_bank c1 p = the_bank cs p" using q by fastforce
    qed
    show "okE (roll_counter (word_of_int x) (cactus c1, cactus_prev c1)) (\<lambda>r. okE (case r of (cur, prev) \<Rightarrow>
        let cs = c1\<lparr>cactus := cur, cactus_prev := prev\<rparr> in bindE (vget (cactus_tref_max_counter_idx cs) i) (\<lambda>m.
        if m = sint (word_of_int x :: u32) then bindE (vset (cactus_tref_max_counter_idx cs) i (-1)) (\<lambda>ms. Inr (cs\<lparr>cactus_tref_max_counter_idx := ms\<rparr>))
        else Inr cs)) (mitigated cfg i x cs))"
      using banks t xb g(5) [unfolded same_alerts_def] by (simp add: roll_counter_def g(1-4,6,7) Let_def mitigated_def same_alerts_def the_bank_def fun_eq_iff)
  qed
qed

section \<open>Requesting the mitigation\<close>

definition alert_due :: "Config \<Rightarrow> u64 \<Rightarrow> int \<Rightarrow> ChannelState \<Rightarrow> bool" where
  "alert_due cfg clk r cs \<longleftrightarrow> cactus_alert_pending cs ! nat r \<and> \<not> cactus_rfm_inflight cs ! nat r \<and>
     cactus_last_alert_clk cs ! nat r + word_of_int (tABO_act cfg) \<le> clk"

definition rfm_requested :: "int \<Rightarrow> ChannelState \<Rightarrow> bool" where
  "rfm_requested r cs \<longleftrightarrow> \<not> cactus_alert_pending cs ! nat r \<and> cactus_rfm_inflight cs ! nat r \<and> (\<exists>c\<in>set (rfm_q cs). Rank c = r)"

definition alert_lens :: "Config \<Rightarrow> ChannelState \<Rightarrow> bool" where
  "alert_lens cfg cs \<longleftrightarrow> length (cactus_alert_pending cs) = nat (ranks cfg) \<and> length (cactus_rfm_inflight cs) = nat (ranks cfg) \<and>
     length (cactus_last_alert_clk cs) = nat (ranks cfg)"

lemma need_rfm_sub: "set (rfm_q cs) \<subseteq> set (rfm_q (RankNeedRFM r True cs))"
  by (auto simp: RankNeedRFM_def need_rfm_def)

lemma need_rfm_there: "\<exists>c\<in>set (rfm_q (RankNeedRFM r True cs)). Rank c = r"
  by (auto simp: RankNeedRFM_def need_rfm_def at_rank_def mk_Command_def mk_Address_def cmd_fields)

lemma need_rfm_fields [simp]:
  "cactus_alert_pending (RankNeedRFM r b cs) = cactus_alert_pending cs" "cactus_rfm_inflight (RankNeedRFM r b cs) = cactus_rfm_inflight cs"
  "cactus_last_alert_clk (RankNeedRFM r b cs) = cactus_last_alert_clk cs"
  "cactus_pending_counter_idx (RankNeedRFM r b cs) = cactus_pending_counter_idx cs"
  by (simp_all add: RankNeedRFM_def need_rfm_def)

lemma serve_step:
  assumes l: "alert_lens cfg cs" and i: "0 \<le> i" "i < ranks cfg"
  shows "okE (serve_cactus_alert cfg clk i cs) (\<lambda>cs'. alert_lens cfg cs' \<and> cactus_pending_counter_idx cs' = cactus_pending_counter_idx cs \<and>
    (alert_due cfg clk i cs \<longrightarrow> rfm_requested i cs') \<and>
    (\<forall>r. 0 \<le> r \<longrightarrow> r \<noteq> i \<longrightarrow> (alert_due cfg clk r cs \<longrightarrow> alert_due cfg clk r cs') \<and> (rfm_requested r cs \<longrightarrow> rfm_requested r cs')))"
proof -
  have rng: "inrange i (cactus_alert_pending cs)" "inrange i (cactus_rfm_inflight cs)" "inrange i (cactus_last_alert_clk cs)"
    using l i by (auto simp: alert_lens_def inrange_def)
  show ?thesis
    using rng l need_rfm_there [of i cs] need_rfm_sub [of cs i] i
    by (auto simp: serve_cactus_alert_def Let_def alert_lens_def alert_due_def rfm_requested_def inrange_def nth_list_update nat_eq_iff2 not_less)
qed

lemma tick_serves:
  assumes l: "alert_lens cfg cs" and m: "cactus_mode cfg \<noteq> 0" and r: "0 \<le> r" "r < ranks cfg" and d: "alert_due cfg clk r cs"
  shows "okE (channel_ClockTick cfg clk cs) (\<lambda>cs'. rfm_requested r cs' \<and> cactus_pending_counter_idx cs' = cactus_pending_counter_idx cs)"
proof -
  define c0 where "c0 = (if alert_n cs \<and> alert_rank cs \<ge> 0 \<and> clk \<ge> last_alert_clk cs + word_of_int (tABO_act cfg)
                then ResetAlert (RankNeedRFM (alert_rank cs) True cs) else cs)"
  have c0: "alert_lens cfg c0" "alert_due cfg clk r c0" "cactus_pending_counter_idx c0 = cactus_pending_counter_idx cs"
    using l d by (auto simp: c0_def alert_lens_def alert_due_def ResetAlert_def)
  have "okE (forE (ranks cfg) (serve_cactus_alert cfg clk) c0) (\<lambda>cs'. rfm_requested r cs' \<and> cactus_pending_counter_idx cs' = cactus_pending_counter_idx cs)"
  proof (rule forE_inv [where I = "\<lambda>i c. alert_lens cfg c \<and> cactus_pending_counter_idx c = cactus_pending_counter_idx cs \<and>
      (if i \<le> r then alert_due cfg clk r c else rfm_requested r c)"])
    fix i c assume i: "0 \<le> i" "i < ranks cfg" and
      I: "alert_lens cfg c \<and> cactus_pending_counter_idx c = cactus_pending_counter_idx cs \<and> (if i \<le> r then alert_due cfg clk r c else rfm_requested r c)"
    show "okE (serve_cactus_alert cfg clk i c) (\<lambda>c. alert_lens cfg c \<and> cactus_pending_counter_idx c = cactus_pending_counter_idx cs \<and>
      (if i + 1 \<le> r then alert_due cfg clk r c else rfm_requested r c))"
    proof (cases i r rule: linorder_cases)
      case less
      show ?thesis by (rule okE_mono [OF serve_step [OF _ i]]) (use I r less in auto)
    next
      case equal
      show ?thesis by (rule okE_mono [OF serve_step [OF _ i]]) (use I r equal in auto)
    next
      case greater
      show ?thesis by (rule okE_mono [OF serve_step [OF _ i]]) (use I r greater in auto)
    qed
  qed (use c0 r in auto)
  then show ?thesis using m by (simp add: channel_ClockTick_def Let_def c0_def)
qed

section \<open>Raising the alert\<close>

definition level :: "Config \<Rightarrow> ChannelState \<Rightarrow> int \<Rightarrow> u32" where
  "level cfg cs x = cactus cs ! nat x + (if cactus_prev_enable cfg then cactus_prev cs ! nat x else 0)"

lemma cactus_val_level:
  assumes "inrange x (cactus cs)" "inrange x (cactus_prev cs)"
  shows "cactus_val cfg cs x = Inr (level cfg cs x)"
  using assms by (simp add: cactus_val_def level_def)

lemma track_max_step:
  assumes "cactus_shape cfg cs" "inrange (uint i) (cactus_tref_max_counter_idx cs)"
  shows "okE (cactus_track_max cfg i w v cs) (\<lambda>cs'. \<exists>ms. cs' = cs\<lparr>cactus_tref_max_counter_idx := ms\<rparr>)"
proof (cases "tref_enable cfg = 1 \<and> tref_mode cfg = 1")
  case True
  define m where "m = cactus_tref_max_counter_idx cs ! nat (uint i)"
  have "m \<in> set (cactus_tref_max_counter_idx cs)" unfolding m_def by (rule nth_mem [OF inrange_nat [OF assms(2)]])
  then have "m < ranks cfg * rows cfg" using assms(1) by (simp add: cactus_shape_def)
  then have "0 \<le> m \<Longrightarrow> cactus_val cfg cs m = Inr (level cfg cs m)"
    using assms(1) by (intro cactus_val_level) (simp_all add: cactus_shape_def inrange_def)
  then have "\<exists>x. (if m \<ge> 0 then cactus_val cfg cs m else Inr 0) = Inr x" by auto
  then obtain x where x: "(if m \<ge> 0 then cactus_val cfg cs m else Inr 0) = Inr x" by blast
  have g: "vget (cactus_tref_max_counter_idx cs) (uint i) = Inr m" and
    t: "vset (cactus_tref_max_counter_idx cs) (uint i) y = Inr ((cactus_tref_max_counter_idx cs)[nat (uint i) := y])" for y
    using assms(2) by (simp_all add: m_def)
  have "cactus_track_max cfg i w v cs = Inr (cs\<lparr>cactus_tref_max_counter_idx := (if m < 0 \<or> v > x
      then (cactus_tref_max_counter_idx cs)[nat (uint i) := sint w] else cactus_tref_max_counter_idx cs)\<rparr>)"
    unfolding cactus_track_max_def if_P [OF True] g bindE_simps x t by simp
  then show ?thesis unfolding okE_iff by blast
next
  case False
  have "cs = cs\<lparr>cactus_tref_max_counter_idx := cactus_tref_max_counter_idx cs\<rparr>" by simp
  then show ?thesis unfolding cactus_track_max_def if_not_P [OF False] okE_iff by blast
qed

definition alerts_now :: "Config \<Rightarrow> int \<Rightarrow> int \<Rightarrow> ChannelState \<Rightarrow> bool" where
  "alerts_now cfg i x cs \<longleftrightarrow> level cfg cs x + 1 \<ge> cactus_threshold cfg \<and> \<not> cactus_alert_pending cs ! nat i \<and>
     \<not> cactus_rfm_inflight cs ! nat i \<and> ABO_delay_acts cfg \<le> cactus_acts_since_rfm cs ! nat i"

lemma preact_effect:
  assumes s: "cactus_shape cfg cs" and p: "(i, j, k) \<in> positions cfg"
    and idx: "get_cactus_idx cfg cs (word_of_int i) (word_of_int j) (word_of_int k) w = Inr (word_of_int x)" and x: "of_rank cfg i x"
  shows "okE (cactus_preact cfg (word_of_int i) (word_of_int j) (word_of_int k) w clk cs) (\<lambda>cs'.
    level cfg cs' x = level cfg cs x + 1 \<and>
    (if alerts_now cfg i x cs
     then cactus_alert_pending cs' ! nat i \<and> cactus_pending_counter_idx cs' ! nat i = x \<and> cactus_last_alert_clk cs' ! nat i = clk
     else cactus_alert_pending cs' = cactus_alert_pending cs \<and> cactus_pending_counter_idx cs' = cactus_pending_counter_idx cs))"
proof -
  note b = of_rank_bounds [OF s x]
  have ok: "index_ok cfg" using s by (simp add: cactus_shape_def cactus_map_ok_def)
  have i: "0 \<le> i" "i < ranks cfg" using p by (auto simp: positions_def)
  have "i < 2 ^ 31" using i(2) index_bounds(3,5) [OF ok] mult_left_mono [of 1 "rows cfg" "ranks cfg"] i by linarith
  then have ui: "uint (word_of_int i :: u32) = i" using i(1) by (intro uint_small) simp_all
  let ?c = "cs\<lparr>cactus := (cactus cs)[nat x := cactus cs ! nat x + 1]\<rparr>"
  have sc: "cactus_shape cfg ?c" using s by (simp add: cactus_shape_def chan_shape_def cactus_map_ok_def the_bank_def)
  have lv: "level cfg ?c x = level cfg cs x + 1" using b(1,5) by (simp add: level_def inrange_nat ac_simps)
  have val: "cactus_val cfg ?c x = Inr (level cfg ?c x)" using b(5,6) by (intro cactus_val_level) (simp_all add: inrange_def)
  have rng: "inrange i (cactus_alert_pending cs)" "inrange i (cactus_rfm_inflight cs)" "inrange i (cactus_acts_since_rfm cs)"
    "inrange i (cactus_last_alert_clk cs)" "inrange i (cactus_pending_counter_idx cs)" "inrange i (cactus_tref_max_counter_idx cs)"
    using s i by (auto simp: cactus_shape_def inrange_def)
  obtain ms where tm: "cactus_track_max cfg (word_of_int i) (word_of_int x) (level cfg ?c x) ?c = Inr (?c\<lparr>cactus_tref_max_counter_idx := ms\<rparr>)"
    using track_max_step [OF sc, of "word_of_int i" "word_of_int x" "level cfg ?c x"] rng(6) by (auto simp: ui okE_iff)
  have "cactus_preact cfg (word_of_int i) (word_of_int j) (word_of_int k) w clk cs =
    (if level cfg ?c x \<ge> cactus_threshold cfg then cactus_alert cfg (word_of_int i) (word_of_int x) clk (?c\<lparr>cactus_tref_max_counter_idx := ms\<rparr>)
     else Inr (?c\<lparr>cactus_tref_max_counter_idx := ms\<rparr>))"
    using s b(3,5) val tm by (simp add: cactus_preact_def idx vupd_def cactus_shape_def Let_def)
  moreover have lv': "level cfg c' x = level cfg ?c x" if "cactus c' = cactus ?c" "cactus_prev c' = cactus_prev cs" for c'
    using that by (simp add: level_def)
  moreover have "okE (cactus_alert cfg (word_of_int i) (word_of_int x) clk c') (\<lambda>cs'. cactus cs' = cactus c' \<and> cactus_prev cs' = cactus_prev c' \<and>
    (if \<not> cactus_alert_pending cs ! nat i \<and> \<not> cactus_rfm_inflight cs ! nat i \<and> ABO_delay_acts cfg \<le> cactus_acts_since_rfm cs ! nat i
     then cactus_alert_pending cs' ! nat i \<and> cactus_pending_counter_idx cs' ! nat i = x \<and> cactus_last_alert_clk cs' ! nat i = clk
     else cs' = c'))" if "c' = ?c\<lparr>cactus_tref_max_counter_idx := ms\<rparr>" for c'
    using rng inrange_nat [OF rng(1)] inrange_nat [OF rng(4)] inrange_nat [OF rng(5)]
    by (simp add: that cactus_alert_def ui b(4) c_stat_inc_def not_less)
  ultimately show ?thesis
    by (auto simp: okE_iff lv lv' alerts_now_def split: if_splits)
qed

section \<open>Properties\<close>

lemma fresh_alerts:
  assumes "mk_ChannelState cfg shuffle b0 cs0 ch e = Inr cs" "index_ok cfg" "cactus_mode cfg \<noteq> 0"
  shows "alert_ok cfg cs" "length (cactus_alert_pending cs) = nat (ranks cfg)"
proof -
  have f: "cactus_alert_pending cs = replicate (nat (ranks cfg)) False" "cactus_rfm_inflight cs = replicate (nat (ranks cfg)) False"
    "cactus_pending_counter_idx cs = replicate (nat (ranks cfg)) (- 1)"
    "length (cactus cs) = unat (word_of_int (ranks cfg) * word_of_int (rows cfg) :: u32)"
    using assms(1) unfolding mk_ChannelState_def Let_def by (auto dest!: bindE_InrD split: prod.splits)
  have "ranks cfg * rows cfg < 2 ^ 31" "0 < ranks cfg * rows cfg"
    using index_bounds(3,5) [OF assms(2)] assms(2) by (auto simp: index_ok_def geometry_ok_def)
  then have "length (cactus cs) < 2 ^ 31"
    using f(4) uint_small [of "ranks cfg * rows cfg"] by (simp add: unat_eq_nat_uint nat_less_iff flip: of_int_mult)
  then show "alert_ok cfg cs" "length (cactus_alert_pending cs) = nat (ranks cfg)" using f(1-3) assms(3) by (simp_all add: alert_ok_def rank_state_def)
qed


definition cactus_cfg :: Config where
  "cactus_cfg = tiny_cfg\<lparr>cactus_mode := 1, cactus_th := 2, ABO_delay_acts := 0\<rparr>"

lemma cactus_cfg_ok: "construct_ok cactus_cfg" "index_ok cactus_cfg" "cactus_mode cactus_cfg = 1" "bank_cfg_ok cactus_cfg" "ranks cactus_cfg = 1"
  "rows cactus_cfg = 16" "cactus_policy cactus_cfg = 0" "bankgroups cactus_cfg = 2" "banks_per_group cactus_cfg = 2"
proof -
  show "construct_ok cactus_cfg" by code_simp
  then show "index_ok cactus_cfg" by (simp add: construct_ok_def)
  show "bank_cfg_ok cactus_cfg" using tiny_ok(1) by (simp add: cactus_cfg_def bank_cfg_ok_def)
qed (simp_all add: cactus_cfg_def positions_def)


text \<open>
  C7. An activation is counted and alerts in time: the counter of the activated row grows by one,
  and if it has reached the threshold, and the rank has no alert under way and enough activations
  since its last mitigation, then an alert is raised that records this counter and the clock;
  otherwise no alert is touched.
\<close>

theorem cactus_alerts_at_threshold:
  assumes "cactus_shape cfg cs" "(i, j, k) \<in> positions cfg" "row_ok cfg r"
  shows "\<exists>x. get_cactus_idx cfg cs (word_of_int i) (word_of_int j) (word_of_int k) (word_of_int r) = Inr (word_of_int x) \<and> of_rank cfg i x \<and>
    okE (cactus_preact cfg (word_of_int i) (word_of_int j) (word_of_int k) (word_of_int r) clk cs) (\<lambda>cs'.
      level cfg cs' x = level cfg cs x + 1 \<and>
      (if alerts_now cfg i x cs
       then cactus_alert_pending cs' ! nat i \<and> cactus_pending_counter_idx cs' ! nat i = x \<and> cactus_last_alert_clk cs' ! nat i = clk
       else cactus_alert_pending cs' = cactus_alert_pending cs \<and> cactus_pending_counter_idx cs' = cactus_pending_counter_idx cs))"
proof -
  have m: "cactus_map_ok cfg cs" using assms(1) by (simp add: cactus_shape_def)
  obtain w where w: "get_cactus_idx cfg cs (word_of_int i) (word_of_int j) (word_of_int k) (word_of_int r) = Inr w"
    "i * rows cfg \<le> uint w" "uint w < (i + 1) * rows cfg"
    by (rule cactus_index_round_trip [OF m assms(2,3)])
  have x: "of_rank cfg i (uint w)" using w(2,3) assms(2) by (auto simp: of_rank_def positions_def)
  show ?thesis using preact_effect [OF assms(1,2) _ x] w(1) x by (intro exI [of _ "uint w"]) simp
qed

lemma tiny_cactus_shape:
  assumes "length a = 1" "length f = 1" "length c = 1" "length ctr = 16"
  shows "cactus_shape cactus_cfg (tiny_chan\<lparr>cactus_alert_pending := a, cactus_rfm_inflight := f, cactus_pending_counter_idx := c, cactus := ctr\<rparr>)"
proof -
  let ?cs = "tiny_chan\<lparr>cactus_alert_pending := a, cactus_rfm_inflight := f, cactus_pending_counter_idx := c, cactus := ctr\<rparr>"
  have "the_bank ?cs p = tiny_bank" if "p \<in> positions cactus_cfg" for p
    using that by (auto simp: cactus_cfg_ok positions_def the_bank_def tiny_chan_def nth_Cons' split: prod.splits)
  moreover have "chan_shape cactus_cfg ?cs" by (simp add: chan_shape_def tiny_chan_def cactus_cfg_def)
  moreover have "cactus_map_ok cactus_cfg ?cs" by (simp add: cactus_map_ok_def cactus_cfg_ok tiny_chan_def)
  ultimately show ?thesis using assms by (simp add: cactus_shape_def cactus_cfg_ok) (simp add: tiny_chan_def tiny_bank_def)
qed

theorem cactus_alerts_at_threshold_witness:
  "let cs = tiny_chan\<lparr>cactus_alert_pending := [False], cactus_rfm_inflight := [False], cactus_pending_counter_idx := [-1],
       cactus := (replicate 16 0)[3 := 1]\<rparr> in
   okE (cactus_preact cactus_cfg (word_of_int 0) (word_of_int 1) (word_of_int 0) (word_of_int 3) 7 cs) (\<lambda>cs'.
     cactus_alert_pending cs' ! 0 \<and> cactus_pending_counter_idx cs' ! 0 = 3 \<and> cactus_last_alert_clk cs' ! 0 = 7)"
proof -
  let ?cs = "tiny_chan\<lparr>cactus_alert_pending := [False], cactus_rfm_inflight := [False], cactus_pending_counter_idx := [-1],
       cactus := (replicate 16 0)[3 := 1]\<rparr>"
  have s: "cactus_shape cactus_cfg ?cs" by (rule tiny_cactus_shape) simp_all
  have p: "(0, 1, 0) \<in> positions cactus_cfg" "row_ok cactus_cfg 3" by (simp_all add: cactus_cfg_ok positions_def row_ok_def)
  have i: "get_cactus_idx cactus_cfg ?cs 0 1 0 3 = Inr 3" by (simp add: get_cactus_idx_def cactus_cfg_ok)
  obtain x where x: "word_of_int x = (3 :: u32)" "of_rank cactus_cfg 0 x" and ok: "okE (cactus_preact cactus_cfg 0 1 0 3 7 ?cs) (\<lambda>cs'.
      level cactus_cfg cs' x = level cactus_cfg ?cs x + 1 \<and>
      (if alerts_now cactus_cfg 0 x ?cs
       then cactus_alert_pending cs' ! nat 0 \<and> cactus_pending_counter_idx cs' ! nat 0 = x \<and> cactus_last_alert_clk cs' ! nat 0 = 7
       else cactus_alert_pending cs' = cactus_alert_pending ?cs \<and> cactus_pending_counter_idx cs' = cactus_pending_counter_idx ?cs))"
    using cactus_alerts_at_threshold [OF s p, of 7] i by auto
  have x3: "x = 3" using of_rank_bounds(3) [OF s x(2)] x(1) by simp
  have now: "alerts_now cactus_cfg 0 3 ?cs"
    by (simp add: alerts_now_def level_def cactus_threshold_def cactus_cfg_def tiny_chan_def)
  have "okE (cactus_preact cactus_cfg 0 1 0 3 7 ?cs) (\<lambda>cs'.
     cactus_alert_pending cs' ! 0 \<and> cactus_pending_counter_idx cs' ! 0 = 3 \<and> cactus_last_alert_clk cs' ! 0 = 7)"
    by (rule okE_mono [OF ok]) (use now x3 in simp)
  then show ?thesis by simp
qed



text \<open>
  C6. The RFMab of an alert mitigates every row the recorded counter stands for: it raises no
  error; in every bank of the rank, the neighbours at distance one and two of the row that this
  counter counts there are restored, and banks of other ranks are untouched; the counter restarts
  at zero, and the rank is idle again with its activations since mitigation at zero.
\<close>

theorem rfmab_restores_victims:
  assumes s: "cactus_shape cfg cs" and c: "cmd_type cmd = RFMab" "Rank cmd = i"
    and f: "cactus_rfm_inflight cs ! nat i" "cactus_pending_counter_idx cs ! nat i = x" and x: "of_rank cfg i x"
  shows "okE (rank_rfm_done cfg cmd cs) (\<lambda>cs'.
    (\<forall>j k. (i, j, k) \<in> positions cfg \<longrightarrow> (\<exists>r. row_ok cfg r \<and>
       get_cactus_idx cfg cs (word_of_int i) (word_of_int j) (word_of_int k) (word_of_int r) = Inr (word_of_int x) \<and>
       restored (the_bank cs (i, j, k)) (victims cfg r) (the_bank cs' (i, j, k)))) \<and>
    (\<forall>p\<in>positions cfg. fst p \<noteq> i \<longrightarrow> the_bank cs' p = the_bank cs p) \<and> cactus cs' ! nat x = 0 \<and>
    \<not> cactus_rfm_inflight cs' ! nat i \<and> cactus_pending_counter_idx cs' ! nat i = - 1 \<and> cactus_acts_since_rfm cs' ! nat i = 0)"
proof -
  let ?c = "RankNeedRFM i False cs"
  have i: "0 \<le> i" "i < ranks cfg" using x by (auto simp: of_rank_def)
  have sc: "cactus_shape cfg ?c" using s by (simp add: cactus_shape_def chan_shape_def cactus_map_ok_def the_bank_def RankNeedRFM_def need_rfm_def)
  have same: "the_bank ?c = the_bank cs" "get_cactus_idx cfg ?c = get_cactus_idx cfg cs"
    by (simp_all add: fun_eq_iff the_bank_def get_cactus_idx_def RankNeedRFM_def need_rfm_def Let_def)
  note xb = of_rank_bounds [OF sc x]
  obtain c1 where c1: "cactus_mitig_counter cfg i (word_of_int x) ?c = Inr c1" "mitigated cfg i x ?c c1"
    using mitig_counter_effect [OF sc x] by (auto simp: okE_iff)
  have rng: "inrange i (cactus_rfm_inflight c1)" "inrange i (cactus_pending_counter_idx c1)" "inrange i (cactus_acts_since_rfm c1)"
    "inrange i (cactus_rfm_inflight ?c)" "inrange i (cactus_pending_counter_idx ?c)"
    using c1(2) sc i by (auto simp: mitigated_def same_alerts_def cactus_shape_def inrange_def)
  have "rank_rfm_done cfg cmd cs = Inr (c1\<lparr>cactus_pending_counter_idx := (cactus_pending_counter_idx c1)[nat i := - 1],
      cactus_rfm_inflight := (cactus_rfm_inflight c1)[nat i := False], cactus_acts_since_rfm := (cactus_acts_since_rfm c1)[nat i := 0]\<rparr>)"
    using c f xb(1) c1(1) rng s by (simp add: rank_rfm_done_def Let_def cactus_mitig_def cactus_shape_def)
  moreover have "the_bank (c\<lparr>cactus_pending_counter_idx := u, cactus_rfm_inflight := v, cactus_acts_since_rfm := w\<rparr>) = the_bank c" for c u v w
    by (simp add: the_bank_def fun_eq_iff)
  ultimately show ?thesis
    using c1(2) xb(5) inrange_nat [OF rng(1)] inrange_nat [OF rng(2)] inrange_nat [OF rng(3)]
    by (simp add: mitigated_def same inrange_nat)
qed

theorem rfmab_restores_victims_witness:
  "let cs = tiny_chan\<lparr>cactus_alert_pending := [False], cactus_rfm_inflight := [True], cactus_pending_counter_idx := [3], cactus := replicate 16 2\<rparr>;
       cmd = mk_Command RFMab (mk_Address (-1) 0 (-1) (-1) (-1) (-1)) no_hex in
   okE (rank_rfm_done cactus_cfg cmd cs) (\<lambda>cs'. cactus cs' ! 3 = 0 \<and> \<not> cactus_rfm_inflight cs' ! 0)"
proof -
  let ?cs = "tiny_chan\<lparr>cactus_alert_pending := [False], cactus_rfm_inflight := [True], cactus_pending_counter_idx := [3], cactus := replicate 16 2\<rparr>"
    and ?cmd = "mk_Command RFMab (mk_Address (-1) 0 (-1) (-1) (-1) (-1)) no_hex"
  have s: "cactus_shape cactus_cfg ?cs" by (rule tiny_cactus_shape) simp_all
  show ?thesis
    unfolding Let_def
    by (rule okE_mono [OF rfmab_restores_victims [OF s, of ?cmd 0 3]]) (simp_all add: of_rank_def cactus_cfg_ok cmd_fields mk_Command_def mk_Address_def)
qed


end
