(* ===== verification/Hmc.thy ===== *)
theory Hmc
  imports Dram_System
begin

text \<open>
  hmc.h and hmc.cc: the memory system of a Hybrid Memory Cube. Requests enter through a few links, cross a
  switch to one of four quadrants and go on to the controller of their vault; the responses take the way back.
  The switch and the links run on a faster clock than the DRAM. The members inherited from \<open>BaseDRAMSystem\<close>
  are the component \<open>hmc_base\<close>. Requests and responses are allocated objects with one owner at a time; they are
  values here.
\<close>

section \<open>Packets\<close>

datatype HMCReqType =
    RD0 | RD16 | RD32 | RD48 | RD64 | RD80 | RD96 | RD112 | RD128 | RD256
  | WR0 | WR16 | WR32 | WR48 | WR64 | WR80 | WR96 | WR112 | WR128 | WR256
  | P_WR16 | P_WR32 | P_WR48 | P_WR64 | P_WR80 | P_WR96 | P_WR112 | P_WR128 | P_WR256
  | ADD8 | ADD16 | P_2ADD8 | P_ADD16 | ADDS8R | ADDS16R | INC8 | P_INC8
  | XOR16 | OR16 | NOR16 | AND16 | NAND16 | CASGT8 | CASGT16 | CASLT8 | CASLT16 | CASEQ8 | CASZERO16
  | EQ8 | EQ16 | BWR | P_BWR | BWR8R | SWAP16 | HMCReqType_SIZE

datatype HMCRespType = RespNONE | RD_RS | WR_RS | RespERR | HMCRespType_SIZE

record HMCRequest =
  req_type :: HMCReqType
  mem_operand :: u64
  req_link :: int
  req_quad :: int
  req_vault :: int
  req_flits :: int
  req_is_write :: bool
  req_exit_time :: u64

record HMCResponse =
  resp_id :: u64
  resp_type :: HMCRespType
  resp_link :: int
  resp_quad :: int
  resp_flits :: int
  resp_exit_time :: u64

text \<open>The types from \<open>WR0\<close> to \<open>P_WR256\<close>, in the order of the enumeration.\<close>

definition is_write_type :: "HMCReqType \<Rightarrow> bool" where
  "is_write_type ty \<longleftrightarrow> ty \<in> {WR0, WR16, WR32, WR48, WR64, WR80, WR96, WR112, WR128, WR256,
     P_WR16, P_WR32, P_WR48, P_WR64, P_WR80, P_WR96, P_WR112, P_WR128, P_WR256}"

definition flits_of_req :: "HMCReqType \<Rightarrow> int res" where
  "flits_of_req ty =
     (if ty \<in> {RD0, WR0} then Inr 0
      else if ty \<in> {RD16, RD32, RD48, RD64, RD80, RD96, RD112, RD128, RD256} then Inr 1
      else if ty \<in> {WR16, P_WR16} then Inr 2
      else if ty \<in> {WR32, P_WR32} then Inr 3
      else if ty \<in> {WR48, P_WR48} then Inr 4
      else if ty \<in> {WR64, P_WR64} then Inr 5
      else if ty \<in> {WR80, P_WR80} then Inr 6
      else if ty \<in> {WR96, P_WR96} then Inr 7
      else if ty \<in> {WR112, P_WR112} then Inr 8
      else if ty \<in> {WR128, P_WR128} then Inr 9
      else if ty \<in> {WR256, P_WR256} then Inr 17
      else if ty \<in> {ADD8, ADD16} then Inr 2
      else if ty \<in> {P_2ADD8, P_ADD16} then Inr 2
      else if ty \<in> {ADDS8R, ADDS16R} then Inr 2
      else if ty = INC8 then Inr 1
      else if ty = P_INC8 then Inr 1
      else if ty \<in> {XOR16, OR16, NOR16, AND16, NAND16, CASGT8, CASGT16, CASLT8, CASLT16, CASEQ8, CASZERO16} then Inr 2
      else if ty \<in> {EQ8, EQ16, BWR} then Inr 2
      else if ty = P_BWR then Inr 2
      else if ty \<in> {BWR8R, SWAP16} then Inr 2
      else Inl AbruptExit)"

text \<open>The constructor sets neither \<open>link\<close> nor \<open>exit_time\<close>; both are assigned before they are read.\<close>

definition mk_HMCRequest :: "HMCReqType \<Rightarrow> u64 \<Rightarrow> int \<Rightarrow> HMCRequest res" where
  "mk_HMCRequest ty h vault =
     bindE (imod vault 4) (\<lambda>quad.
     bindE (flits_of_req ty) (\<lambda>flits.
     Inr \<lparr>req_type = ty, mem_operand = h, req_link = 0, req_quad = quad, req_vault = vault, req_flits = flits,
          req_is_write = is_write_type ty, req_exit_time = 0\<rparr>))"

definition response_of :: "HMCReqType \<Rightarrow> (HMCRespType \<times> int) res" where
  "response_of ty =
     (if ty = RD0 then Inr (RD_RS, 0)
      else if ty = RD16 then Inr (RD_RS, 2)
      else if ty = RD32 then Inr (RD_RS, 3)
      else if ty = RD48 then Inr (RD_RS, 4)
      else if ty = RD64 then Inr (RD_RS, 5)
      else if ty = RD80 then Inr (RD_RS, 6)
      else if ty = RD96 then Inr (RD_RS, 7)
      else if ty = RD112 then Inr (RD_RS, 8)
      else if ty = RD128 then Inr (RD_RS, 9)
      else if ty = RD256 then Inr (RD_RS, 17)
      else if ty = WR0 then Inr (WR_RS, 0)
      else if ty \<in> {WR16, WR32, WR48, WR64, WR80, WR96, WR112, WR128, WR256} then Inr (WR_RS, 1)
      else if ty \<in> {P_WR16, P_WR32, P_WR48, P_WR64, P_WR80, P_WR96, P_WR112, P_WR128, P_WR256} then Inr (RespNONE, 0)
      else if ty \<in> {ADD8, ADD16} then Inr (WR_RS, 1)
      else if ty \<in> {P_2ADD8, P_ADD16} then Inr (RespNONE, 0)
      else if ty \<in> {ADDS8R, ADDS16R} then Inr (RD_RS, 2)
      else if ty = INC8 then Inr (WR_RS, 1)
      else if ty = P_INC8 then Inr (RespNONE, 0)
      else if ty \<in> {XOR16, OR16, NOR16, AND16, NAND16, CASGT8, CASGT16, CASLT8, CASLT16, CASEQ8, CASZERO16} then Inr (RD_RS, 2)
      else if ty \<in> {EQ8, EQ16, BWR} then Inr (WR_RS, 1)
      else if ty = P_BWR then Inr (RespNONE, 0)
      else if ty \<in> {BWR8R, SWAP16} then Inr (RD_RS, 2)
      else Inl AbruptExit)"

definition mk_HMCResponse :: "u64 \<Rightarrow> HMCReqType \<Rightarrow> int \<Rightarrow> int \<Rightarrow> HMCResponse res" where
  "mk_HMCResponse rid ty dest_link src_quad =
     bindE (response_of ty) (\<lambda>(rty, flits).
     Inr \<lparr>resp_id = rid, resp_type = rty, resp_link = dest_link, resp_quad = src_quad, resp_flits = flits, resp_exit_time = 0\<rparr>)"

section \<open>The state\<close>

text \<open>
  The multimap of the responses that wait for their vault is the list of its entries in the order of insertion;
  entries with the same key are found in that order.
\<close>

record HMCMemorySystem =
  hmc_base :: DRAMSystem
  logic_clk :: u64
  ps_per_dram :: u64
  ps_per_logic :: u64
  logic_ps :: u64
  dram_ps :: u64
  next_link :: int
  links :: int
  queue_depth :: u64
  resp_lookup_table :: "(u64 \<times> HMCResponse) list"
  link_req_queues :: "HMCRequest list list"
  link_resp_queues :: "HMCResponse list list"
  quad_req_queues :: "HMCRequest list list"
  quad_resp_queues :: "HMCResponse list list"
  link_busy :: "int list"
  quad_busy :: "int list"
  link_age_counter :: "int list"
  quad_age_counter :: "int list"

text \<open>
  \<open>static_cast<uint64_t>(1000000 / static_cast<double>(logic_speed))\<close>: both operands are exact, and the quotient of
  two integers below \<open>2 ^ 31\<close> is never rounded up to an integer, so the cast truncates the exact quotient. A
  quotient that is not a value of the type is undefined behaviour.
\<close>

definition SetClockRatio :: "Config \<Rightarrow> (u64 \<times> u64) res" where
  "SetClockRatio cfg =
     (let per_dram = 800 in
      bindE (idiv 128 (link_width cfg)) (\<lambda>link_cycles_per_flit.
      bindE (idiv (link_speed cfg) link_cycles_per_flit) (\<lambda>logic_speed.
      bindE (checkE OutOfRange (logic_speed \<noteq> 0 \<and> 0 \<le> 1000000 sdiv logic_speed)) (\<lambda>_.
      let per_logic = word_of_int (1000000 sdiv logic_speed) in
      Inr (per_dram, if per_logic > per_dram then per_dram else per_logic)))))"

definition mk_HMCMemorySystem ::
    "Config \<Rightarrow> (int \<Rightarrow> int \<Rightarrow> u32 list \<Rightarrow> u32 list) \<Rightarrow> BankState \<Rightarrow> ChannelState \<Rightarrow> Env \<Rightarrow> HMCMemorySystem res" where
  "mk_HMCMemorySystem cfg shuffle b0 cs0 e =
     bindE (checkE AbruptExit (IsHMC cfg)) (\<lambda>_.
     bindE (SetClockRatio cfg) (\<lambda>(per_dram, per_logic).
     bindE (mk_ctrls cfg shuffle b0 cs0 e) (\<lambda>base.
     bindE (checkE Thrown (0 \<le> num_links cfg)) (\<lambda>_.
     let n = nat (num_links cfg) in
     Inr \<lparr>hmc_base = base, logic_clk = 0, ps_per_dram = per_dram, ps_per_logic = per_logic, logic_ps = 0, dram_ps = 0,
          next_link = 0, links = num_links cfg, queue_depth = word_of_int (xbar_queue_depth cfg), resp_lookup_table = [],
          link_req_queues = replicate n [], link_resp_queues = replicate n [],
          quad_req_queues = replicate 4 [], quad_resp_queues = replicate 4 [],
          link_busy = replicate n 0, quad_busy = replicate 4 0,
          link_age_counter = replicate n 0, quad_age_counter = replicate 4 0\<rparr>))))"

section \<open>Requests\<close>

definition has_room :: "HMCMemorySystem \<Rightarrow> 'a list \<Rightarrow> bool" where
  "has_room h q \<longleftrightarrow> int (length q) < uint (queue_depth h)"

definition IterateNextLink :: "HMCMemorySystem \<Rightarrow> HMCMemorySystem res" where
  "IterateNextLink h = bindE (imod (next_link h + 1) (links h)) (\<lambda>l. Inr (h\<lparr>next_link := l\<rparr>))"

definition hmc_WillAcceptTransaction :: "HMCMemorySystem \<Rightarrow> u64 \<Rightarrow> bool \<Rightarrow> bool" where
  "hmc_WillAcceptTransaction h hex is_write = list_ex (has_room h) (link_req_queues h)"

definition InsertReqToLink :: "HMCRequest \<Rightarrow> int \<Rightarrow> HMCMemorySystem \<Rightarrow> (bool \<times> HMCMemorySystem) res" where
  "InsertReqToLink req l h =
     bindE (vget (link_req_queues h) l) (\<lambda>q.
     if has_room h q then
       let req = req\<lparr>req_link := l\<rparr> in
       bindE (vset (link_req_queues h) l (q @ [req])) (\<lambda>qs.
       bindE (mk_HMCResponse (mem_operand req) (req_type req) l (req_quad req)) (\<lambda>resp.
       bindE (vset (link_age_counter h) l 1) (\<lambda>ages.
       Inr (True, h\<lparr>link_req_queues := qs, resp_lookup_table := resp_lookup_table h @ [(resp_id resp, resp)],
         link_age_counter := ages, hmc_base := (hmc_base h)\<lparr>last_req_clk := sys_clk (hmc_base h)\<rparr>\<rparr>))))
     else Inr (False, h))"

text \<open>The links are tried in turn until the first one that was tried comes up again.\<close>

partial_function (option) link_loop :: "int \<Rightarrow> HMCRequest \<Rightarrow> HMCMemorySystem \<Rightarrow> (bool \<times> HMCMemorySystem) res option" where
  "link_loop start_link req h =
     (if start_link \<noteq> next_link h then
        case InsertReqToLink req (next_link h) h of
          Inl f \<Rightarrow> Some (Inl f)
        | Inr (ok, h) \<Rightarrow>
            (case IterateNextLink h of
               Inl f \<Rightarrow> Some (Inl f)
             | Inr h \<Rightarrow> if ok then Some (Inr (True, h)) else link_loop start_link req h)
      else Some (Inr (False, h)))"

declare link_loop.simps [code]

definition loop_result :: "'a res option \<Rightarrow> 'a res" where
  "loop_result r = (case r of None \<Rightarrow> Inl NoReturn | Some x \<Rightarrow> x)"

definition InsertHMCReq :: "HMCRequest \<Rightarrow> HMCMemorySystem \<Rightarrow> (bool \<times> HMCMemorySystem) res" where
  "InsertHMCReq req h =
     bindE (InsertReqToLink req (next_link h) h) (\<lambda>(is_inserted, h).
     let start_link = next_link h in
     bindE (IterateNextLink h) (\<lambda>h.
     if \<not> is_inserted then loop_result (link_loop start_link req h) else Inr (True, h)))"

definition type_of_block :: "int \<Rightarrow> bool \<Rightarrow> HMCReqType res" where
  "type_of_block n is_write =
     (if is_write then
        if n = 0 then Inr WR0 else if n = 32 then Inr WR32 else if n = 64 then Inr WR64
        else if n = 128 then Inr WR128 else if n = 256 then Inr WR256 else Inl AbruptExit
      else
        if n = 0 then Inr RD0 else if n = 32 then Inr RD32 else if n = 64 then Inr RD64
        else if n = 128 then Inr RD128 else if n = 256 then Inr RD256 else Inl AbruptExit)"

definition hmc_AddTransaction :: "Config \<Rightarrow> u64 \<Rightarrow> bool \<Rightarrow> HMCMemorySystem \<Rightarrow> (bool \<times> HMCMemorySystem) res" where
  "hmc_AddTransaction cfg hex is_write h =
     bindE (type_of_block (block_size cfg) is_write) (\<lambda>ty.
     bindE (GetChannel cfg hex) (\<lambda>vault.
     bindE (mk_HMCRequest ty hex vault) (\<lambda>req.
     InsertHMCReq req h)))"

section \<open>The switch\<close>

text \<open>
  The order in which the waiting links or quadrants are served. The comparison is between the age at \<open>pos\<close> and
  the position stored in the queue, as in the code.
\<close>

fun age_insert :: "int \<Rightarrow> int \<Rightarrow> int list \<Rightarrow> int list" where
  "age_insert age pos [] = [pos]"
| "age_insert age pos (x # xs) = (if age > x then pos # x # xs else x # age_insert age pos xs)"

definition BuildAgeQueue :: "u64 \<Rightarrow> int list \<Rightarrow> int list res" where
  "BuildAgeQueue clk age_counter =
     (let queue_len = int (length age_counter) in
      bindE (umod clk (word_of_int queue_len)) (\<lambda>start_pos.
      forE queue_len (\<lambda>i q.
        bindE (imod (i + uint start_pos) queue_len) (\<lambda>pos.
        bindE (vget age_counter pos) (\<lambda>age.
        Inr (if age > 0 then age_insert age pos q else q)))) []))"

definition drain_busy :: "int list \<Rightarrow> int list" where
  "drain_busy = map (\<lambda>i. if i > 0 then i - 2 else i)"

definition InsertReqToDRAM :: "HMCRequest \<Rightarrow> DRAMSystem \<Rightarrow> DRAMSystem res" where
  "InsertReqToDRAM req sys =
     bindE (vget (ctrls sys) (req_vault req)) (\<lambda>ctl.
     bindE (vset (ctrls sys) (req_vault req) (AddTransaction (mk_Transaction (mem_operand req) (req_is_write req)) ctl)) (\<lambda>cs.
     Inr (sys\<lparr>ctrls := cs\<rparr>)))"

text \<open>One quadrant: its oldest request goes to the controller of its vault.\<close>

definition drain_quad :: "int \<Rightarrow> HMCMemorySystem \<Rightarrow> HMCMemorySystem res" where
  "drain_quad i h =
     bindE (vget (quad_req_queues h) i) (\<lambda>q.
     if q = [] then Inr h else
     bindE (vget (quad_resp_queues h) i) (\<lambda>rq.
     if \<not> has_room h rq then Inr h else
     bindE (vfront q) (\<lambda>req.
     if req_exit_time req \<le> logic_clk h then
       bindE (vget (ctrls (hmc_base h)) (req_vault req)) (\<lambda>ctl.
       if WillAcceptTransaction ctl (req_is_write req) then
         bindE (InsertReqToDRAM req (hmc_base h)) (\<lambda>base.
         bindE (vset (quad_req_queues h) i (tl q)) (\<lambda>qs.
         Inr (h\<lparr>hmc_base := base, quad_req_queues := qs\<rparr>)))
       else Inr h)
     else Inr h)))"

text \<open>One link: its oldest request crosses the switch when its quadrant is free.\<close>

definition route_request :: "int \<Rightarrow> HMCMemorySystem \<Rightarrow> HMCMemorySystem res" where
  "route_request src_link h =
     bindE (vget (link_req_queues h) src_link) (\<lambda>q.
     bindE (vfront q) (\<lambda>req.
     let dest_quad = req_quad req in
     bindE (vget (quad_req_queues h) dest_quad) (\<lambda>dq.
     bindE (vget (quad_busy h) dest_quad) (\<lambda>busy.
     if has_room h dq \<and> busy \<le> 0 then
       bindE (vset (link_req_queues h) src_link (tl q)) (\<lambda>lqs.
       bindE (vset (quad_req_queues h) dest_quad (dq @ [req\<lparr>req_exit_time := logic_clk h + word_of_int (req_flits req)\<rparr>])) (\<lambda>dqs.
       bindE (vset (quad_busy h) dest_quad (req_flits req)) (\<lambda>bs.
       bindE (vset (link_age_counter h) src_link (if tl q = [] then 0 else 1)) (\<lambda>ages.
       Inr (h\<lparr>link_req_queues := lqs, quad_req_queues := dqs, quad_busy := bs, link_age_counter := ages\<rparr>)))))
     else
       bindE (vupd (link_age_counter h) src_link (\<lambda>a. a + 1)) (\<lambda>ages.
       Inr (h\<lparr>link_age_counter := ages\<rparr>))))))"

definition DrainRequests :: "HMCMemorySystem \<Rightarrow> HMCMemorySystem res" where
  "DrainRequests h =
     bindE (forE 4 drain_quad h) (\<lambda>h.
     let h = h\<lparr>quad_busy := drain_busy (quad_busy h)\<rparr> in
     bindE (BuildAgeQueue (logic_clk h) (link_age_counter h)) (\<lambda>age_queue.
     foldE route_request age_queue h))"

text \<open>One link on the way back: its oldest response is handed to the processor.\<close>

definition respond :: "int \<Rightarrow> callback_event list \<times> HMCMemorySystem \<Rightarrow> (callback_event list \<times> HMCMemorySystem) res" where
  "respond i = (\<lambda>(es, h).
     bindE (vget (link_resp_queues h) i) (\<lambda>q.
     case q of
       [] \<Rightarrow> Inr (es, h)
     | resp # q' \<Rightarrow>
         if resp_exit_time resp \<le> logic_clk h then
           bindE (vset (link_resp_queues h) i q') (\<lambda>qs.
           Inr (es @ [(resp_id resp, resp_type resp \<noteq> RD_RS)], h\<lparr>link_resp_queues := qs\<rparr>))
         else Inr (es, h)))"

definition route_response :: "int \<Rightarrow> HMCMemorySystem \<Rightarrow> HMCMemorySystem res" where
  "route_response src_quad h =
     bindE (vget (quad_resp_queues h) src_quad) (\<lambda>q.
     bindE (vfront q) (\<lambda>resp.
     let dest_link = resp_link resp in
     bindE (vget (link_resp_queues h) dest_link) (\<lambda>dq.
     bindE (vget (link_busy h) dest_link) (\<lambda>busy.
     if has_room h dq \<and> busy \<le> 0 then
       bindE (vset (quad_resp_queues h) src_quad (tl q)) (\<lambda>qqs.
       bindE (vset (link_resp_queues h) dest_link (dq @ [resp\<lparr>resp_exit_time := logic_clk h + word_of_int (resp_flits resp)\<rparr>])) (\<lambda>dqs.
       bindE (vset (link_busy h) dest_link (resp_flits resp)) (\<lambda>bs.
       bindE (vset (quad_age_counter h) src_quad (if tl q = [] then 0 else 1)) (\<lambda>ages.
       Inr (h\<lparr>quad_resp_queues := qqs, link_resp_queues := dqs, link_busy := bs, quad_age_counter := ages\<rparr>)))))
     else
       bindE (vupd (quad_age_counter h) src_quad (\<lambda>a. a + 1)) (\<lambda>ages.
       Inr (h\<lparr>quad_age_counter := ages\<rparr>))))))"

definition DrainResponses :: "HMCMemorySystem \<Rightarrow> (callback_event list \<times> HMCMemorySystem) res" where
  "DrainResponses h =
     bindE (forE (links h) respond ([], h)) (\<lambda>(es, h).
     let h = h\<lparr>link_busy := drain_busy (link_busy h)\<rparr> in
     bindE (BuildAgeQueue (logic_clk h) (quad_age_counter h)) (\<lambda>age_queue.
     bindE (foldE route_response age_queue h) (\<lambda>h.
     Inr (es, h))))"

section \<open>The cycle\<close>

text \<open>\<open>it->second\<close> of an address that is not in the table would read past its end.\<close>

definition VaultCallback :: "u64 \<Rightarrow> HMCMemorySystem \<Rightarrow> HMCMemorySystem res" where
  "VaultCallback req_id h =
     (case find (\<lambda>e. fst e = req_id) (resp_lookup_table h) of
        None \<Rightarrow> Inl OutOfRange
      | Some (_, resp) \<Rightarrow>
          bindE (vupd (quad_resp_queues h) (resp_quad resp) (\<lambda>q. q @ [resp])) (\<lambda>qs.
          bindE (vset (quad_age_counter h) (resp_quad resp) 1) (\<lambda>ages.
          Inr (h\<lparr>resp_lookup_table := erase_first (\<lambda>e. fst e = req_id) (resp_lookup_table h),
                 quad_resp_queues := qs, quad_age_counter := ages\<rparr>))))"

definition DRAMClockTick :: "Config \<Rightarrow> HMCMemorySystem \<Rightarrow> HMCMemorySystem res" where
  "DRAMClockTick cfg h =
     (case return_all (hmc_base h) of (done, base) \<Rightarrow>
      bindE (foldE (\<lambda>e. VaultCallback (fst e)) done (h\<lparr>hmc_base := base\<rparr>)) (\<lambda>h.
      let base = hmc_base h in
      bindE (foldE (tick_channel cfg) [0..<length (ctrls base)] base) (\<lambda>base.
      let base = base\<lparr>sys_clk := sys_clk base + 1\<rparr> in
      bindE (umod (sys_clk base) (word_of_int (epoch_period cfg))) (\<lambda>m.
      bindE (if m = 0 then sys_PrintEpochStats base else Inr base) (\<lambda>base.
      Inr (h\<lparr>hmc_base := base\<rparr>))))))"

definition logic_tick :: "HMCMemorySystem \<Rightarrow> HMCMemorySystem" where
  "logic_tick h = h\<lparr>logic_ps := logic_ps h + ps_per_logic h, logic_clk := logic_clk h + 1\<rparr>"

text \<open>The logic cycles that start before the next DRAM cycle.\<close>

partial_function (option) logic_loop :: "callback_event list \<times> HMCMemorySystem \<Rightarrow> (callback_event list \<times> HMCMemorySystem) res option" where
  "logic_loop s =
     (case s of (es, h) \<Rightarrow>
      if logic_ps h < dram_ps h + ps_per_dram h then
        case bindE (DrainResponses h) (\<lambda>(es', h). bindE (DrainRequests h) (\<lambda>h. Inr (es @ es', logic_tick h))) of
          Inl f \<Rightarrow> Some (Inl f)
        | Inr s' \<Rightarrow> logic_loop s'
      else Some (Inr (es, h)))"

declare logic_loop.simps [code]

definition hmc_ClockTick :: "Config \<Rightarrow> HMCMemorySystem \<Rightarrow> (callback_event list \<times> HMCMemorySystem) res" where
  "hmc_ClockTick cfg h =
     bindE (if dram_ps h = logic_ps h then
              bindE (DrainResponses h) (\<lambda>(es, h).
              bindE (DRAMClockTick cfg h) (\<lambda>h.
              bindE (DrainRequests h) (\<lambda>h.
              Inr (es, logic_tick h))))
            else bindE (DRAMClockTick cfg h) (\<lambda>h. Inr ([], h))) (\<lambda>s.
     bindE (loop_result (logic_loop s)) (\<lambda>(es, h).
     Inr (es, h\<lparr>dram_ps := dram_ps h + ps_per_dram h\<rparr>)))"

end
