(* ===== verification/Hmc_Run.thy ===== *)
theory Hmc_Run
  imports Hmc System_Init
begin

text \<open>
  The memory system of the Hybrid Memory Cube is a bag of requests too, although a response is chosen by its
  address only. Every address in the table of responses belongs to one request that is in a link, in the switch
  or in a vault, so a completed transaction always finds a response; the bag of the outstanding requests is the
  bag of the responses that are still in the system.
\<close>

section \<open>Queues of queues\<close>

lemma mset_concat_push: "i < length qs \<Longrightarrow> mset (concat (qs[i := qs ! i @ [x]])) = add_mset x (mset (concat qs))"
  using mset_concat_update [of i qs "qs ! i @ [x]"] by simp

lemma mset_concat_pop: "i < length qs \<Longrightarrow> qs ! i = x # q \<Longrightarrow> mset (concat qs) = add_mset x (mset (concat (qs[i := q])))"
  using mset_concat_update [of i qs q] by simp

definition all_in :: "('a \<Rightarrow> bool) \<Rightarrow> 'a list list \<Rightarrow> bool" where
  "all_in P qs \<longleftrightarrow> (\<forall>x\<in>#mset (concat qs). P x)"

lemma all_in_push: "all_in P qs \<Longrightarrow> P x \<Longrightarrow> i < length qs \<Longrightarrow> all_in P (qs[i := qs ! i @ [x]])"
  unfolding all_in_def by (simp only: mset_concat_push) simp

lemma all_in_pop: "all_in P qs \<Longrightarrow> i < length qs \<Longrightarrow> qs ! i = x # q \<Longrightarrow> all_in P (qs[i := q]) \<and> P x"
  unfolding all_in_def using mset_concat_pop [of i qs x q] by simp

lemma concat_replicate_Nil: "concat (replicate n []) = []"
  by (induction n) auto

section \<open>The order of service\<close>

lemma age_insert_mset: "mset (age_insert a p q) = add_mset p (mset q)"
  by (induction a p q rule: age_insert.induct) auto

lemma age_insert_set: "set (age_insert a p q) = insert p (set q)" "p \<notin> set q \<Longrightarrow> distinct (age_insert a p q) = distinct q"
  by (induction a p q rule: age_insert.induct) auto

lemma rotate_inj:
  assumes "(i + s) mod n = (j + s) mod n" "0 \<le> i" "i < n" "0 \<le> j" "j < (n :: int)"
  shows "i = j"
proof -
  have "(i + s - s) mod n = (j + s - s) mod n" using assms(1) by (rule mod_diff_cong) simp
  then show ?thesis using assms(2-) by simp
qed

lemma rotate_onto:
  assumes "0 \<le> p" "p < (n :: int)"
  obtains i where "0 \<le> i" "i < n" "(i + s) mod n = p"
proof
  show "0 \<le> (p - s) mod n" "(p - s) mod n < n" using assms by auto
  show "((p - s) mod n + s) mod n = p" using assms by (simp add: mod_simps)
qed

lemma age_loop_ok:
  assumes "ages \<noteq> []" "0 \<le> s"
  defines "n \<equiv> int (length ages)"
  shows "okE (forE n (\<lambda>i q. bindE (imod (i + s) n) (\<lambda>pos. bindE (vget ages pos) (\<lambda>age. Inr (if age > 0 then age_insert age pos q else q)))) [])
    (\<lambda>q. distinct q \<and> set q = {p. 0 \<le> p \<and> p < n \<and> 0 < ages ! nat p})"
proof -
  let ?body = "\<lambda>i q. bindE (imod (i + s) n) (\<lambda>pos. bindE (vget ages pos) (\<lambda>age. Inr (if age > 0 then age_insert age pos q else q)))"
  let ?I = "\<lambda>k q. distinct q \<and> set q = {p. \<exists>i. 0 \<le> i \<and> i < k \<and> p = (i + s) mod n \<and> 0 < ages ! nat p}"
  have n: "0 < n" using assms(1) by (simp add: n_def)
  show ?thesis
  proof (rule forE_inv [where I = ?I])
    fix i q assume i: "0 \<le> i" "i < n" and I: "?I i q"
    let ?p = "(i + s) mod n"
    have p: "0 \<le> ?p" "?p < n" using n by simp_all
    have v: "imod (i + s) n = Inr ?p" "vget ages ?p = Inr (ages ! nat ?p)" using i n p assms(2) by (simp_all add: inrange_def n_def)
    have new: "?p \<notin> set q" using I i rotate_inj [of i s n] by fastforce
    have "{p. \<exists>j. 0 \<le> j \<and> j < i + 1 \<and> p = (j + s) mod n \<and> 0 < ages ! nat p} = set q \<union> (if 0 < ages ! nat ?p then {?p} else {})"
    proof -
      have "j < i + 1 \<longleftrightarrow> j < i \<or> j = i" for j by auto
      then show ?thesis using I i(1) by auto
    qed
    then have "?I (i + 1) (if 0 < ages ! nat ?p then age_insert (ages ! nat ?p) ?p q else q)"
      using I new by (cases "0 < ages ! nat ?p") (simp_all add: age_insert_set)
    then show "okE (?body i q) (?I (i + 1))" by (simp only: v bindE_simps okE_simps)
  next
    fix q assume I: "?I (max 0 n) q"
    have "(\<exists>i. 0 \<le> i \<and> i < n \<and> p = (i + s) mod n) \<longleftrightarrow> 0 \<le> p \<and> p < n" for p
      using rotate_onto [of p n s] n by (metis pos_mod_bound pos_mod_sign)
    then show "distinct q \<and> set q = {p. 0 \<le> p \<and> p < n \<and> 0 < ages ! nat p}" using I n by (auto simp: max_def)
  qed simp
qed

lemma BuildAgeQueue_ok:
  assumes "ages \<noteq> []" "length ages < 2 ^ 31"
  shows "okE (BuildAgeQueue clk ages) (\<lambda>q. distinct q \<and> set q = {p. 0 \<le> p \<and> p < int (length ages) \<and> 0 < ages ! nat p})"
proof -
  let ?n = "int (length ages)"
  have n: "(word_of_int ?n :: u64) \<noteq> 0"
  proof
    assume "(word_of_int ?n :: u64) = 0"
    then have "uint (word_of_int ?n :: u64) = 0" by simp
    then have "?n mod 2 ^ 64 = 0" by (simp only: uint_word_of_int) simp
    then show False using assms by simp
  qed
  show ?thesis unfolding BuildAgeQueue_def Let_def umod_ok [OF n] bindE_simps by (rule age_loop_ok) (use assms in simp_all)
qed

section \<open>The invariant\<close>

definition addrs :: "HMCRequest list list \<Rightarrow> u64 multiset" where
  "addrs qs = image_mset mem_operand (mset (concat qs))"

definition resp_event :: "HMCResponse \<Rightarrow> callback_event" where
  "resp_event r = (resp_id r, resp_type r \<noteq> RD_RS)"

definition hmc_bag :: "HMCMemorySystem \<Rightarrow> callback_event multiset" where
  "hmc_bag h = image_mset resp_event (mset (map snd (resp_lookup_table h)) + mset (concat (quad_resp_queues h)) + mset (concat (link_resp_queues h)))"

definition hmc_clock :: "HMCMemorySystem \<Rightarrow> u64 \<times> u64 \<times> u64 \<times> u64 \<times> u64" where
  "hmc_clock h = (logic_clk h, ps_per_dram h, ps_per_logic h, logic_ps h, dram_ps h)"

text \<open>A link or quadrant has a positive age exactly when something waits in it.\<close>

definition ages_ok :: "int list \<Rightarrow> 'a list list \<Rightarrow> bool" where
  "ages_ok ages qs \<longleftrightarrow> length ages = length qs \<and> (\<forall>i<length qs. 0 < ages ! i \<longleftrightarrow> qs ! i \<noteq> [])"

definition req_ok :: "nat \<Rightarrow> HMCRequest \<Rightarrow> bool" where
  "req_ok n r \<longleftrightarrow> 0 \<le> req_quad r \<and> req_quad r < 4 \<and> 0 \<le> req_vault r \<and> req_vault r < int n \<and> mem_operand r \<noteq> no_hex"

definition resp_ok :: "int \<Rightarrow> HMCResponse \<Rightarrow> bool" where
  "resp_ok l r \<longleftrightarrow> 0 \<le> resp_quad r \<and> resp_quad r < 4 \<and> 0 \<le> resp_link r \<and> resp_link r < l"

text \<open>
  Everything but the vaults: \<open>n\<close> is their number, \<open>V\<close> are the addresses they hold.
\<close>

definition front_ok :: "nat \<Rightarrow> u64 multiset \<Rightarrow> HMCMemorySystem \<Rightarrow> bool" where
  "front_ok n V h \<longleftrightarrow> 0 < links h \<and> links h < 2 ^ 31 \<and> 0 \<le> next_link h \<and> next_link h < links h \<and>
     int (length (link_req_queues h)) = links h \<and> int (length (link_resp_queues h)) = links h \<and> int (length (link_busy h)) = links h \<and>
     length (quad_req_queues h) = 4 \<and> length (quad_resp_queues h) = 4 \<and> length (quad_busy h) = 4 \<and>
     ages_ok (link_age_counter h) (link_req_queues h) \<and> ages_ok (quad_age_counter h) (quad_resp_queues h) \<and>
     all_in (req_ok n) (link_req_queues h) \<and> all_in (req_ok n) (quad_req_queues h) \<and>
     (\<forall>e\<in>set (resp_lookup_table h). resp_ok (links h) (snd e)) \<and>
     all_in (resp_ok (links h)) (quad_resp_queues h) \<and> all_in (resp_ok (links h)) (link_resp_queues h) \<and>
     image_mset fst (mset (resp_lookup_table h)) = addrs (link_req_queues h) + addrs (quad_req_queues h) + V"

lemma front_okD:
  assumes "front_ok n V h"
  shows "0 < links h" "links h < 2 ^ 31" "0 \<le> next_link h" "next_link h < links h"
    "int (length (link_req_queues h)) = links h" "int (length (link_resp_queues h)) = links h" "int (length (link_busy h)) = links h"
    "length (quad_req_queues h) = 4" "length (quad_resp_queues h) = 4" "length (quad_busy h) = 4"
    "ages_ok (link_age_counter h) (link_req_queues h)" "ages_ok (quad_age_counter h) (quad_resp_queues h)"
    "all_in (req_ok n) (link_req_queues h)" "all_in (req_ok n) (quad_req_queues h)"
    "\<forall>e\<in>set (resp_lookup_table h). resp_ok (links h) (snd e)"
    "all_in (resp_ok (links h)) (quad_resp_queues h)" "all_in (resp_ok (links h)) (link_resp_queues h)"
    "image_mset fst (mset (resp_lookup_table h)) = addrs (link_req_queues h) + addrs (quad_req_queues h) + V"
  using assms unfolding front_ok_def by blast+

lemma ages_ok_update: "ages_ok ages qs \<Longrightarrow> (0 < a) = (q \<noteq> []) \<Longrightarrow> ages_ok (ages[i := a]) (qs[i := q])"
  by (cases "i < length qs") (simp_all add: ages_ok_def nth_list_update)

lemma ages_ok_age: "ages_ok ages qs \<Longrightarrow> i < length qs \<Longrightarrow> qs ! i \<noteq> [] \<Longrightarrow> 0 < a \<Longrightarrow> ages_ok (ages[i := a]) qs"
  by (auto simp: ages_ok_def nth_list_update)

text \<open>What every step of the switch keeps.\<close>

definition kept_by :: "HMCMemorySystem \<Rightarrow> HMCMemorySystem \<Rightarrow> bool" where
  "kept_by h h' \<longleftrightarrow> hmc_clock h' = hmc_clock h \<and> hmc_base h' = hmc_base h \<and> links h' = links h \<and> hmc_bag h' = hmc_bag h"

lemma kept_by_refl [simp]: "kept_by h h"
  by (simp add: kept_by_def)

lemma kept_by_trans: "kept_by h h' \<Longrightarrow> kept_by h' h'' \<Longrightarrow> kept_by h h''"
  by (simp add: kept_by_def)

section \<open>Across the switch\<close>

lemma route_request_ok:
  assumes f: "front_ok n V h" and i: "0 \<le> i" "i < links h" and a: "0 < link_age_counter h ! nat i"
  shows "okE (route_request i h) (\<lambda>h'. front_ok n V h' \<and> kept_by h h' \<and>
    (\<forall>j. j \<noteq> nat i \<longrightarrow> link_age_counter h' ! j = link_age_counter h ! j))"
proof -
  note d = front_okD [OF f]
  have l: "nat i < length (link_req_queues h)" "length (link_age_counter h) = length (link_req_queues h)"
    using i d(5,11) by (auto simp: ages_ok_def)
  then have "link_req_queues h ! nat i \<noteq> []" using a d(11) by (auto simp: ages_ok_def)
  then obtain req q where q: "link_req_queues h ! nat i = req # q" by (cases "link_req_queues h ! nat i") auto
  note pop = all_in_pop [OF d(13) l(1) q] mset_concat_pop [OF l(1) q]
  let ?k = "nat (req_quad req)" and ?a = "if q = [] then 0 else 1 :: int"
  have k: "0 \<le> req_quad req" "req_quad req < 4" "?k < length (quad_req_queues h)" using pop(1) d(8) by (auto simp: req_ok_def)
  have v: "inrange i (link_req_queues h)" "inrange i (link_age_counter h)" "inrange (req_quad req) (quad_req_queues h)" "inrange (req_quad req) (quad_busy h)"
    using i k l d(5,8,10) by (auto simp: inrange_def)
  let ?req = "req\<lparr>req_exit_time := logic_clk h + word_of_int (req_flits req)\<rparr>"
  have rq: "req_ok n ?req" using pop(1) by (simp add: req_ok_def)
  have "front_ok n V (h\<lparr>link_req_queues := (link_req_queues h)[nat i := q], quad_req_queues := (quad_req_queues h)[?k := quad_req_queues h ! ?k @ [?req]],
      quad_busy := (quad_busy h)[?k := req_flits req], link_age_counter := (link_age_counter h)[nat i := ?a]\<rparr>)"
    using d pop(1) ages_ok_update [OF d(11), of ?a q "nat i"] all_in_push [OF d(14) rq k(3)]
    by (simp add: front_ok_def addrs_def pop(2) mset_concat_push [OF k(3)])
  moreover have "front_ok n V (h\<lparr>link_age_counter := (link_age_counter h)[nat i := link_age_counter h ! nat i + 1]\<rparr>)"
    using d ages_ok_age [OF d(11) l(1), of "link_age_counter h ! nat i + 1"] a q by (simp add: front_ok_def)
  ultimately show ?thesis
    using v q l by (simp add: route_request_def Let_def kept_by_def hmc_clock_def hmc_bag_def nth_list_update)
qed

lemma route_response_ok:
  assumes f: "front_ok n V h" and i: "0 \<le> i" "i < 4" and a: "0 < quad_age_counter h ! nat i"
  shows "okE (route_response i h) (\<lambda>h'. front_ok n V h' \<and> kept_by h h' \<and>
    (\<forall>j. j \<noteq> nat i \<longrightarrow> quad_age_counter h' ! j = quad_age_counter h ! j))"
proof -
  note d = front_okD [OF f]
  have l: "nat i < length (quad_resp_queues h)" "length (quad_age_counter h) = length (quad_resp_queues h)"
    using i d(9,12) by (auto simp: ages_ok_def)
  then have "quad_resp_queues h ! nat i \<noteq> []" using a d(12) by (auto simp: ages_ok_def)
  then obtain r q where q: "quad_resp_queues h ! nat i = r # q" by (cases "quad_resp_queues h ! nat i") auto
  note pop = all_in_pop [OF d(16) l(1) q] mset_concat_pop [OF l(1) q]
  let ?k = "nat (resp_link r)" and ?a = "if q = [] then 0 else 1 :: int"
  have k: "0 \<le> resp_link r" "resp_link r < links h" "?k < length (link_resp_queues h)" using pop(1) d(6) by (auto simp: resp_ok_def)
  have v: "inrange i (quad_resp_queues h)" "inrange i (quad_age_counter h)" "inrange (resp_link r) (link_resp_queues h)" "inrange (resp_link r) (link_busy h)"
    using i k l d(6,7,9) by (auto simp: inrange_def)
  let ?r = "r\<lparr>resp_exit_time := logic_clk h + word_of_int (resp_flits r)\<rparr>"
  have rq: "resp_ok (links h) ?r" and ev: "resp_event ?r = resp_event r" using pop(1) by (simp_all add: resp_ok_def resp_event_def)
  let ?h = "h\<lparr>quad_resp_queues := (quad_resp_queues h)[nat i := q], link_resp_queues := (link_resp_queues h)[?k := link_resp_queues h ! ?k @ [?r]],
      link_busy := (link_busy h)[?k := resp_flits r], quad_age_counter := (quad_age_counter h)[nat i := ?a]\<rparr>"
  have "front_ok n V ?h"
    using d pop(1) ages_ok_update [OF d(12), of ?a q "nat i"] all_in_push [OF d(17) rq k(3)] by (simp add: front_ok_def)
  moreover have "kept_by h ?h" by (simp add: kept_by_def hmc_clock_def hmc_bag_def pop(2) mset_concat_push [OF k(3)] ev)
  moreover have "front_ok n V (h\<lparr>quad_age_counter := (quad_age_counter h)[nat i := quad_age_counter h ! nat i + 1]\<rparr>)"
    "kept_by h (h\<lparr>quad_age_counter := (quad_age_counter h)[nat i := quad_age_counter h ! nat i + 1]\<rparr>)"
    using d ages_ok_age [OF d(12) l(1), of "quad_age_counter h ! nat i + 1"] a q by (simp_all add: front_ok_def kept_by_def hmc_clock_def hmc_bag_def)
  ultimately show ?thesis using v q l by (simp add: route_response_def Let_def nth_list_update)
qed

text \<open>The loop over the age queue: serving one position leaves the ages of the others.\<close>

lemma serve_all:
  assumes "I h" "distinct q" "\<forall>i\<in>set q. 0 \<le> i \<and> i < n \<and> 0 < ages h ! nat i"
    and step: "\<And>i h. I h \<Longrightarrow> 0 \<le> i \<Longrightarrow> i < n \<Longrightarrow> 0 < ages h ! nat i \<Longrightarrow>
      okE (f i h) (\<lambda>h'. I h' \<and> kept_by h h' \<and> (\<forall>j. j \<noteq> nat i \<longrightarrow> ages h' ! j = (ages h ! j :: int)))"
  shows "okE (foldE f q h) (\<lambda>h'. I h' \<and> kept_by h h')"
  using assms(1-3)
proof (induction q arbitrary: h)
  case (Cons i q)
  then obtain h' where h: "f i h = Inr h'" "I h'" "kept_by h h'" "\<forall>j. j \<noteq> nat i \<longrightarrow> ages h' ! j = ages h ! j"
    using step [of h i] by (auto simp: okE_iff)
  have "\<forall>j\<in>set q. 0 \<le> j \<and> j < n \<and> 0 < ages h' ! nat j"
  proof
    fix j assume j: "j \<in> set q"
    then have "0 \<le> j" "j \<noteq> i" "0 \<le> i" using Cons.prems by auto
    then have "nat j \<noteq> nat i" by (simp add: nat_eq_iff)
    then show "0 \<le> j \<and> j < n \<and> 0 < ages h' ! nat j" using h(4) Cons.prems(3) j by auto
  qed
  from Cons.IH [OF h(2) _ this] Cons.prems(2) have "okE (foldE f q h') (\<lambda>h''. I h'' \<and> kept_by h' h'')" by simp
  then show ?case using h(1,3) by (auto simp: okE_iff intro: kept_by_trans)
qed simp

lemma DrainRequests_route_ok:
  assumes f: "front_ok n V h"
  shows "okE (bindE (BuildAgeQueue (logic_clk h) (link_age_counter h)) (\<lambda>q. foldE route_request q h)) (\<lambda>h'. front_ok n V h' \<and> kept_by h h')"
proof -
  note d = front_okD [OF f]
  have l: "int (length (link_age_counter h)) = links h" using d(5,11) by (simp add: ages_ok_def)
  then have b: "link_age_counter h \<noteq> []" "length (link_age_counter h) < 2 ^ 31" using d(1,2) by auto
  show ?thesis unfolding okE_bindE
  proof (rule okE_mono [OF BuildAgeQueue_ok [OF b]])
    fix q assume q: "distinct q \<and> set q = {p. 0 \<le> p \<and> p < int (length (link_age_counter h)) \<and> 0 < link_age_counter h ! nat p}"
    have "okE (foldE route_request q h) (\<lambda>h'. (front_ok n V h' \<and> links h' = links h) \<and> kept_by h h')"
    proof (rule serve_all [where n = "links h" and ages = link_age_counter])
      fix i h1 assume h1: "front_ok n V h1 \<and> links h1 = links h" "0 \<le> i" "i < links h" "0 < link_age_counter h1 ! nat i"
      then have "okE (route_request i h1) (\<lambda>h'. front_ok n V h' \<and> kept_by h1 h' \<and> (\<forall>j. j \<noteq> nat i \<longrightarrow> link_age_counter h' ! j = link_age_counter h1 ! j))"
        by (intro route_request_ok) auto
      then show "okE (route_request i h1) (\<lambda>h'. (front_ok n V h' \<and> links h' = links h) \<and> kept_by h1 h' \<and> (\<forall>j. j \<noteq> nat i \<longrightarrow> link_age_counter h' ! j = link_age_counter h1 ! j))"
        by (rule okE_mono) (use h1 in \<open>auto simp: kept_by_def\<close>)
    qed (use q f l in auto)
    then show "okE (foldE route_request q h) (\<lambda>h'. front_ok n V h' \<and> kept_by h h')" by (rule okE_mono) simp
  qed
qed

lemma DrainResponses_route_ok:
  assumes f: "front_ok n V h"
  shows "okE (bindE (BuildAgeQueue (logic_clk h) (quad_age_counter h)) (\<lambda>q. foldE route_response q h)) (\<lambda>h'. front_ok n V h' \<and> kept_by h h')"
proof -
  note d = front_okD [OF f]
  have l: "length (quad_age_counter h) = 4" using d(9,12) by (simp add: ages_ok_def)
  then have b: "quad_age_counter h \<noteq> []" "length (quad_age_counter h) < 2 ^ 31" by auto
  show ?thesis unfolding okE_bindE
  proof (rule okE_mono [OF BuildAgeQueue_ok [OF b]])
    fix q assume q: "distinct q \<and> set q = {p. 0 \<le> p \<and> p < int (length (quad_age_counter h)) \<and> 0 < quad_age_counter h ! nat p}"
    show "okE (foldE route_response q h) (\<lambda>h'. front_ok n V h' \<and> kept_by h h')"
      by (rule serve_all [where n = 4 and ages = quad_age_counter]) (use q f l route_response_ok in auto)
  qed
qed

section \<open>In and out\<close>

text \<open>A response leaves: the event and the rest make up the bag.\<close>

definition gone :: "HMCMemorySystem \<Rightarrow> callback_event list \<times> HMCMemorySystem \<Rightarrow> bool" where
  "gone h = (\<lambda>(es, h'). hmc_clock h' = hmc_clock h \<and> hmc_base h' = hmc_base h \<and> links h' = links h \<and> hmc_bag h = mset es + hmc_bag h')"

lemma respond_ok:
  assumes f: "front_ok n V h" and g: "gone h0 (es, h)" and i: "0 \<le> i" "i < links h"
  shows "okE (respond i (es, h)) (\<lambda>(es', h'). front_ok n V h' \<and> gone h0 (es', h'))"
proof -
  note d = front_okD [OF f]
  have l: "nat i < length (link_resp_queues h)" and v: "inrange i (link_resp_queues h)" using i d(6) by (auto simp: inrange_def)
  show ?thesis
  proof (cases "link_resp_queues h ! nat i")
    case Nil
    then show ?thesis using v f g by (simp add: respond_def)
  next
    case (Cons r q)
    note pop = all_in_pop [OF d(17) l Cons] mset_concat_pop [OF l Cons]
    have "front_ok n V (h\<lparr>link_resp_queues := (link_resp_queues h)[nat i := q]\<rparr>)" using d pop(1) by (simp add: front_ok_def)
    moreover have "gone h0 (es @ [resp_event r], h\<lparr>link_resp_queues := (link_resp_queues h)[nat i := q]\<rparr>)"
      using g by (simp add: gone_def hmc_clock_def hmc_bag_def pop(2))
    ultimately show ?thesis using v Cons f g by (simp add: respond_def resp_event_def)
  qed
qed

lemma DrainResponses_ok:
  assumes f: "front_ok n V h"
  shows "okE (DrainResponses h) (\<lambda>(es, h'). front_ok n V h' \<and> gone h (es, h'))"
proof -
  have "okE (forE (links h) respond ([], h)) (\<lambda>(es, h'). front_ok n V h' \<and> gone h (es, h'))"
  proof (rule forE_const_inv)
    fix i s assume i: "0 \<le> i" "i < links h" and s: "case s of (es, h') \<Rightarrow> front_ok n V h' \<and> gone h (es, h')"
    obtain es h' where [simp]: "s = (es, h')" by (cases s)
    have "links h' = links h" using s by (simp add: gone_def)
    then show "okE (respond i s) (\<lambda>(es, h'). front_ok n V h' \<and> gone h (es, h'))" using s i respond_ok [of n V h' h es i] by simp
  qed (use f in \<open>simp add: gone_def\<close>)
  then obtain es h1 where r: "forE (links h) respond ([], h) = Inr (es, h1)" "front_ok n V h1" "gone h (es, h1)" by (auto simp: okE_iff)
  let ?h = "h1\<lparr>link_busy := drain_busy (link_busy h1)\<rparr>"
  have "front_ok n V ?h" "gone h (es, ?h)" using r(2,3) by (simp_all add: front_ok_def gone_def drain_busy_def hmc_clock_def hmc_bag_def)
  moreover from DrainResponses_route_ok [OF this(1)] obtain q h2 where "BuildAgeQueue (logic_clk ?h) (quad_age_counter ?h) = Inr q"
    "foldE route_response q ?h = Inr h2" "front_ok n V h2" "kept_by ?h h2" by (auto simp: okE_iff bindE_Inr_iff)
  ultimately show ?thesis using r(1) by (simp add: DrainResponses_def Let_def gone_def kept_by_def)
qed

text \<open>The vaults.\<close>

definition vaults_ok :: "Config \<Rightarrow> nat \<Rightarrow> DRAMSystem \<Rightarrow> bool" where
  "vaults_ok cfg n base \<longleftrightarrow> sys_wf cfg base \<and> hydra_cfg_ok cfg \<and> length (ctrls base) = n"

abbreviation in_vaults :: "DRAMSystem \<Rightarrow> u64 multiset" where
  "in_vaults base \<equiv> image_mset fst (sys_bag base)"

lemma add_to_controller:
  assumes "i < length (ctrls sys)" "sys_wf cfg sys" "a \<noteq> no_hex"
  shows "sys_wf cfg (sys\<lparr>ctrls := (ctrls sys)[i := AddTransaction (mk_Transaction a w) (ctrls sys ! i)]\<rparr>)"
    "sys_bag (sys\<lparr>ctrls := (ctrls sys)[i := AddTransaction (mk_Transaction a w) (ctrls sys ! i)]\<rparr>) = add_mset (a, w) (sys_bag sys)"
proof -
  let ?ctl = "AddTransaction (mk_Transaction a w) (ctrls sys ! i)"
  have "ctl_wf cfg ?ctl" by (rule AddTransaction_wf) (use assms in \<open>auto simp: sys_wf_def mk_Transaction_def\<close>)
  then show "sys_wf cfg (sys\<lparr>ctrls := (ctrls sys)[i := ?ctl]\<rparr>)"
    using assms(2) set_update_subset_insert [of "ctrls sys" i ?ctl] by (auto simp: sys_wf_def)
  have "outstanding ?ctl = outstanding (ctrls sys ! i) + {#(a, w)#}"
    using AddTransaction_parts(7) [OF refl, of "mk_Transaction a w" "ctrls sys ! i"] by (simp add: tkey_def mk_Transaction_def)
  from sum_list_update [of i "ctrls sys" outstanding, OF assms(1) this]
  show "sys_bag (sys\<lparr>ctrls := (ctrls sys)[i := ?ctl]\<rparr>) = add_mset (a, w) (sys_bag sys)" by (simp add: sys_bag_def)
qed

definition hmc_inv :: "Config \<Rightarrow> HMCMemorySystem \<Rightarrow> bool" where
  "hmc_inv cfg h \<longleftrightarrow> vaults_ok cfg (length (ctrls (hmc_base h))) (hmc_base h) \<and>
     front_ok (length (ctrls (hmc_base h))) (in_vaults (hmc_base h)) h \<and> uint (ch_mask cfg) < int (length (ctrls (hmc_base h))) \<and>
     length (ctrls (hmc_base h)) < 2 ^ 31"

definition moved :: "HMCMemorySystem \<Rightarrow> HMCMemorySystem \<Rightarrow> bool" where
  "moved h h' \<longleftrightarrow> hmc_clock h' = hmc_clock h \<and> hmc_bag h' = hmc_bag h \<and> sys_clk (hmc_base h') = sys_clk (hmc_base h)"

lemma kept_inv: "hmc_inv cfg h \<Longrightarrow> front_ok (length (ctrls (hmc_base h))) (in_vaults (hmc_base h)) h' \<Longrightarrow> hmc_base h' = hmc_base h \<Longrightarrow> hmc_inv cfg h'"
  by (simp add: hmc_inv_def)

lemma drain_quad_ok:
  assumes inv: "hmc_inv cfg h" and i: "0 \<le> i" "i < 4"
  shows "okE (drain_quad i h) (\<lambda>h'. hmc_inv cfg h' \<and> moved h h')"
proof -
  let ?n = "length (ctrls (hmc_base h))"
  have f: "front_ok ?n (in_vaults (hmc_base h)) h" and w: "vaults_ok cfg ?n (hmc_base h)" using inv by (simp_all add: hmc_inv_def)
  note d = front_okD [OF f]
  have l: "nat i < length (quad_req_queues h)" "inrange i (quad_req_queues h)" "inrange i (quad_resp_queues h)"
    using i d(8,9) by (auto simp: inrange_def)
  have stay: "hmc_inv cfg h \<and> moved h h" using inv by (simp add: moved_def)
  show ?thesis
  proof (cases "quad_req_queues h ! nat i")
    case Nil
    then show ?thesis using l stay by (simp add: drain_quad_def)
  next
    case (Cons req q)
    note pop = all_in_pop [OF d(14) l(1) Cons] mset_concat_pop [OF l(1) Cons]
    let ?v = "nat (req_vault req)"
    have v: "inrange (req_vault req) (ctrls (hmc_base h))" "?v < ?n" "mem_operand req \<noteq> no_hex"
      using pop(1) by (auto simp: req_ok_def inrange_def)
    let ?base = "(hmc_base h)\<lparr>ctrls := (ctrls (hmc_base h))[?v := AddTransaction (mk_Transaction (mem_operand req) (req_is_write req)) (ctrls (hmc_base h) ! ?v)]\<rparr>"
    let ?h = "h\<lparr>hmc_base := ?base, quad_req_queues := (quad_req_queues h)[nat i := q]\<rparr>"
    note b = add_to_controller [of ?v "hmc_base h" cfg "mem_operand req" "req_is_write req"]
    have "hmc_inv cfg ?h" using inv d pop(1) b v w by (simp add: hmc_inv_def front_ok_def vaults_ok_def addrs_def pop(2))
    moreover have "moved h ?h" by (simp add: moved_def hmc_clock_def hmc_bag_def)
    ultimately show ?thesis using l v Cons stay by (simp add: drain_quad_def InsertReqToDRAM_def)
  qed
qed

lemma DrainRequests_ok:
  assumes "hmc_inv cfg h"
  shows "okE (DrainRequests h) (\<lambda>h'. hmc_inv cfg h' \<and> moved h h')"
proof -
  have "okE (forE 4 drain_quad h) (\<lambda>h'. hmc_inv cfg h' \<and> moved h h')"
  proof (rule forE_const_inv)
    fix i :: int and h' assume "0 \<le> i" "i < 4" "hmc_inv cfg h' \<and> moved h h'"
    then show "okE (drain_quad i h') (\<lambda>h'. hmc_inv cfg h' \<and> moved h h')"
      using drain_quad_ok [of cfg h' i] by (auto simp: moved_def elim!: okE_mono)
  qed (use assms in \<open>simp add: moved_def\<close>)
  then obtain h1 where r: "forE 4 drain_quad h = Inr h1" "hmc_inv cfg h1" "moved h h1" by (auto simp: okE_iff)
  let ?h = "h1\<lparr>quad_busy := drain_busy (quad_busy h1)\<rparr>"
  have i: "hmc_inv cfg ?h" "moved h ?h" using r(2,3) by (simp_all add: hmc_inv_def front_ok_def moved_def drain_busy_def hmc_clock_def hmc_bag_def)
  then have "front_ok (length (ctrls (hmc_base ?h))) (in_vaults (hmc_base ?h)) ?h" by (simp only: hmc_inv_def)
  from DrainRequests_route_ok [OF this] obtain q h2 where "BuildAgeQueue (logic_clk ?h) (link_age_counter ?h) = Inr q"
    "foldE route_request q ?h = Inr h2" "front_ok (length (ctrls (hmc_base ?h))) (in_vaults (hmc_base ?h)) h2" "kept_by ?h h2"
    unfolding okE_iff bindE_Inr_iff by blast
  then show ?thesis using r(1) i kept_inv [OF i(1), of h2] by (simp add: DrainRequests_def Let_def moved_def kept_by_def)
qed

section \<open>The vaults answer\<close>

lemma find_erase_mset: "find p xs = Some x \<Longrightarrow> mset xs = add_mset x (mset (erase_first p xs))"
  by (induction xs) (auto split: if_splits)

lemma VaultCallback_ok:
  assumes f: "front_ok n (add_mset a V) h"
  shows "okE (VaultCallback a h) (\<lambda>h'. front_ok n V h' \<and> kept_by h h')"
proof -
  note d = front_okD [OF f]
  let ?p = "\<lambda>e. fst e = a"
  have "a \<in># image_mset fst (mset (resp_lookup_table h))" using d(18) by simp
  then have "find ?p (resp_lookup_table h) \<noteq> None" by (auto simp: find_None_iff)
  then obtain e where e: "find ?p (resp_lookup_table h) = Some e" by blast
  note m = find_erase_mset [OF e]
  have "fst e = a" using e by (auto simp: find_Some_iff)
  then obtain r where r: "e = (a, r)" by (metis prod.collapse)
  have s: "set (resp_lookup_table h) = insert e (set (erase_first ?p (resp_lookup_table h)))" using m by (metis set_mset_add_mset_insert set_mset_mset)
  then have ro: "resp_ok (links h) r" using d(15) r by auto
  let ?k = "nat (resp_quad r)"
  have k: "?k < length (quad_resp_queues h)" "inrange (resp_quad r) (quad_resp_queues h)" "inrange (resp_quad r) (quad_age_counter h)"
    using ro d(9,12) by (auto simp: resp_ok_def inrange_def ages_ok_def)
  let ?h = "h\<lparr>resp_lookup_table := erase_first ?p (resp_lookup_table h), quad_resp_queues := (quad_resp_queues h)[?k := quad_resp_queues h ! ?k @ [r]],
    quad_age_counter := (quad_age_counter h)[?k := 1]\<rparr>"
  have "image_mset fst (mset (erase_first ?p (resp_lookup_table h))) = addrs (link_req_queues h) + addrs (quad_req_queues h) + V"
    using d(18) r unfolding m by simp
  then have "front_ok n V ?h"
    using d s ages_ok_update [OF d(12), of 1 "quad_resp_queues h ! ?k @ [r]" ?k] all_in_push [OF d(16) ro k(1)] by (simp add: front_ok_def)
  moreover have "hmc_bag ?h = hmc_bag h" using m r by (simp add: hmc_bag_def mset_concat_push [OF k(1)] mset_map)
  ultimately show ?thesis using e r k by (simp add: VaultCallback_def kept_by_def hmc_clock_def)
qed

lemma VaultCallbacks_ok:
  "front_ok n (mset (map fst es) + V) h \<Longrightarrow> okE (foldE (\<lambda>e. VaultCallback (fst e)) es h) (\<lambda>h'. front_ok n V h' \<and> kept_by h h')"
proof (induction es arbitrary: h)
  case (Cons e es)
  then have "front_ok n (add_mset (fst e) (mset (map fst es) + V)) h" by (simp add: ac_simps)
  from VaultCallback_ok [OF this] obtain h' where h': "VaultCallback (fst e) h = Inr h'" "front_ok n (mset (map fst es) + V) h'" "kept_by h h'"
    by (auto simp: okE_iff)
  then show ?case using Cons.IH [OF h'(2)] by (auto simp: okE_iff intro: kept_by_trans)
qed simp

lemma tick_channels_length: "foldE (tick_channel cfg) is s = Inr s' \<Longrightarrow> length (ctrls s') = length (ctrls s)"
  by (induction "is" arbitrary: s) (auto simp: bindE_Inr_iff tick_channel_def take_back_def vset_Inr_iff)

lemma epoch_length:
  assumes "sys_PrintEpochStats s = Inr s'"
  shows "length (ctrls s') = length (ctrls s)"
proof -
  have "length cs' = length acc + length cs" if "foldE (\<lambda>ctl cs. bindE (controller_PrintEpochStats ctl) (\<lambda>ctl. Inr (cs @ [ctl]))) cs acc = Inr cs'" for cs acc cs'
    using that by (induction cs arbitrary: acc) (auto simp: bindE_Inr_iff)
  from this [of "ctrls s" "[]"] show ?thesis using assms by (auto simp: sys_PrintEpochStats_def bindE_Inr_iff)
qed

lemma sys_ClockTick_length:
  assumes "sys_ClockTick cfg s = Inr (es, s')"
  shows "length (ctrls s') = length (ctrls s)"
proof -
  obtain es0 s0 where r: "return_all s = (es0, s0)" by (cases "return_all s")
  have "length (ctrls s0) = length (ctrls s)" using r by (auto simp: return_all_def Let_def)
  moreover obtain s1 where "foldE (tick_channel cfg) [0..<length (ctrls s0)] s0 = Inr s1" "length (ctrls s') = length (ctrls s1)"
    using assms r epoch_length by (fastforce simp: sys_ClockTick_def Let_def bindE_Inr_iff split: if_splits)
  ultimately show ?thesis using tick_channels_length by metis
qed

text \<open>The cycle of the vaults is that of the plain memory system, whose callbacks go back into the switch.\<close>

lemma DRAMClockTick_eq:
  assumes inv: "hmc_inv cfg h"
  shows "\<exists>h1. DRAMClockTick cfg h = bindE (sys_ClockTick cfg (hmc_base h)) (\<lambda>(_, base). Inr (h1\<lparr>hmc_base := base\<rparr>)) \<and>
    (\<forall>es base. sys_ClockTick cfg (hmc_base h) = Inr (es, base) \<longrightarrow> hmc_inv cfg (h1\<lparr>hmc_base := base\<rparr>)) \<and>
    (\<forall>base. hmc_clock (h1\<lparr>hmc_base := base\<rparr>) = hmc_clock h) \<and> (\<forall>base. hmc_bag (h1\<lparr>hmc_base := base\<rparr>) = hmc_bag h)"
proof -
  let ?n = "length (ctrls (hmc_base h))"
  obtain es base where r: "return_all (hmc_base h) = (es, base)" by (cases "return_all (hmc_base h)")
  have i: "front_ok ?n (in_vaults (hmc_base h)) h" "sys_wf cfg (hmc_base h)" "hydra_cfg_ok cfg" using inv by (simp_all add: hmc_inv_def vaults_ok_def)
  note b = return_all_bag [OF r i(2)]
  have "front_ok ?n (mset (map fst es) + in_vaults base) (h\<lparr>hmc_base := base\<rparr>)" using i(1) b(2) by (simp add: front_ok_def mset_map)
  from VaultCallbacks_ok [OF this] obtain h1 where h1: "foldE (\<lambda>e. VaultCallback (fst e)) es (h\<lparr>hmc_base := base\<rparr>) = Inr h1"
    "front_ok ?n (in_vaults base) h1" "kept_by (h\<lparr>hmc_base := base\<rparr>) h1" by (auto simp: okE_iff)
  show ?thesis
  proof (intro exI [of _ h1] conjI allI impI)
    show "DRAMClockTick cfg h = bindE (sys_ClockTick cfg (hmc_base h)) (\<lambda>(_, base). Inr (h1\<lparr>hmc_base := base\<rparr>))"
      using h1(1,3) r by (simp add: DRAMClockTick_def sys_ClockTick_def Let_def kept_by_def bindE_assoc)
    fix es' base' assume t: "sys_ClockTick cfg (hmc_base h) = Inr (es', base')"
    note t' = sys_ClockTick_bag [OF t i(2,3)] sys_ClockTick_length [OF t]
    have "es' = es" using t r by (auto simp: sys_ClockTick_def Let_def bindE_Inr_iff)
    then have "sys_bag base' = sys_bag base" using t' b(2) by simp
    then show "hmc_inv cfg (h1\<lparr>hmc_base := base'\<rparr>)" using inv h1(2) t' by (simp add: hmc_inv_def vaults_ok_def front_ok_def)
  qed (use h1(3) in \<open>simp_all add: kept_by_def hmc_clock_def hmc_bag_def\<close>)
qed

section \<open>The two clocks\<close>

definition logic_step :: "callback_event list \<times> HMCMemorySystem \<Rightarrow> (callback_event list \<times> HMCMemorySystem) res" where
  "logic_step = (\<lambda>(es, h). bindE (DrainResponses h) (\<lambda>(es', h). bindE (DrainRequests h) (\<lambda>h. Inr (es @ es', logic_tick h))))"

text \<open>What one or more logic cycles do: responses leave, and the clock of the DRAM stands still.\<close>

definition drained :: "Config \<Rightarrow> callback_event list \<times> HMCMemorySystem \<Rightarrow> callback_event list \<times> HMCMemorySystem \<Rightarrow> bool" where
  "drained cfg = (\<lambda>(es, h) (es1, h1). \<exists>es'. es1 = es @ es' \<and> hmc_inv cfg h1 \<and> hmc_bag h = mset es' + hmc_bag h1 \<and>
     ps_per_dram h1 = ps_per_dram h \<and> ps_per_logic h1 = ps_per_logic h \<and> dram_ps h1 = dram_ps h)"

lemma drained_trans: "drained cfg s s1 \<Longrightarrow> drained cfg s1 s2 \<Longrightarrow> drained cfg s s2"
  by (fastforce simp: drained_def)

lemma DrainResponses_inv:
  assumes "hmc_inv cfg h"
  shows "okE (DrainResponses h) (\<lambda>(es, h'). hmc_inv cfg h' \<and> gone h (es, h'))"
  using DrainResponses_ok [of "length (ctrls (hmc_base h))" "in_vaults (hmc_base h)" h] assms kept_inv [OF assms]
  by (auto simp: hmc_inv_def gone_def elim!: okE_mono)

lemma logic_step_ok:
  assumes "hmc_inv cfg h"
  shows "okE (logic_step (es, h)) (\<lambda>(es1, h1). drained cfg (es, h) (es1, h1) \<and> logic_ps h1 = logic_ps h + ps_per_logic h \<and> logic_clk h1 = logic_clk h + 1)"
proof -
  obtain es' h' where r: "DrainResponses h = Inr (es', h')" "hmc_inv cfg h'" "gone h (es', h')"
    using DrainResponses_inv [OF assms] by (auto simp: okE_iff)
  obtain h2 where r2: "DrainRequests h' = Inr h2" "hmc_inv cfg h2" "moved h' h2" using DrainRequests_ok [OF r(2)] by (auto simp: okE_iff)
  have "hmc_inv cfg (logic_tick h2)" "hmc_bag (logic_tick h2) = hmc_bag h2" using r2(2) by (simp_all add: logic_tick_def hmc_inv_def front_ok_def hmc_bag_def)
  then show ?thesis using r r2 by (simp add: logic_step_def drained_def gone_def moved_def hmc_clock_def logic_tick_def)
qed

lemma logic_loop_unfold:
  "logic_loop (es, h) = (if logic_ps h < dram_ps h + ps_per_dram h
     then case logic_step (es, h) of Inl f \<Rightarrow> Some (Inl f) | Inr s' \<Rightarrow> logic_loop s' else Some (Inr (es, h)))"
  by (subst logic_loop.simps) (simp add: logic_step_def)

lemma logic_loop_drained:
  assumes "logic_loop s = Some (Inr s')" "hmc_inv cfg (snd s)"
  shows "drained cfg s s'"
proof -
  have "logic_loop s = Some y \<Longrightarrow> hmc_inv cfg (snd s) \<longrightarrow> (\<forall>s'. y = Inr s' \<longrightarrow> drained cfg s s')" for y
  proof (erule logic_loop.raw_induct [rotated], intro impI allI)
    fix f s y s'
    assume IH: "\<And>s y. f s = Some y \<Longrightarrow> hmc_inv cfg (snd s) \<longrightarrow> (\<forall>s'. y = Inr s' \<longrightarrow> drained cfg s s')"
      and y: "(case s of (es, h) \<Rightarrow>
        if logic_ps h < dram_ps h + ps_per_dram h then
          case bindE (DrainResponses h) (\<lambda>(es', h). bindE (DrainRequests h) (\<lambda>h. Inr (es @ es', logic_tick h))) of
            Inl f \<Rightarrow> Some (Inl f) | Inr s' \<Rightarrow> f s'
        else Some (Inr (es, h))) = Some y"
      and i: "hmc_inv cfg (snd s)" and s': "y = Inr s'"
    obtain es h where s: "s = (es, h)" by (cases s)
    show "drained cfg s s'"
    proof (cases "logic_ps h < dram_ps h + ps_per_dram h")
      case True
      obtain s1 where s1: "logic_step (es, h) = Inr s1" "drained cfg s s1"
        using logic_step_ok [of cfg h es] i s by (auto simp: okE_iff)
      then have "f s1 = Some y" "hmc_inv cfg (snd s1)" using y s True by (auto simp: logic_step_def drained_def)
      then show ?thesis using IH [of s1 y] s' drained_trans [OF s1(2)] by blast
    qed (use y s s' i in \<open>auto simp: drained_def\<close>)
  qed
  with assms show ?thesis by blast
qed

text \<open>The logic cycles in the DRAM cycle that ends at \<open>D\<close>.\<close>

definition ratio_ok :: "nat \<Rightarrow> HMCMemorySystem \<Rightarrow> bool" where
  "ratio_ok D h \<longleftrightarrow> ps_per_dram h = 800 \<and> 0 < unat (ps_per_logic h) \<and> unat (ps_per_logic h) \<le> 800 \<and>
     unat (logic_ps h) < D + unat (ps_per_logic h) \<and> unat (logic_ps h) = unat (ps_per_logic h) * unat (logic_clk h)"

definition clock_ok :: "HMCMemorySystem \<Rightarrow> bool" where
  "clock_ok h \<longleftrightarrow> ratio_ok (unat (dram_ps h)) h \<and> unat (dram_ps h) \<le> unat (logic_ps h)"

lemma unat_add_small: "unat (a :: u64) + unat b < 2 ^ 64 \<Longrightarrow> unat (a + b) = unat a + unat b"
  by (subst unat_add_lem [THEN iffD1]) simp_all

lemma next_dram_ps:
  assumes "ps_per_dram h = 800" "unat (dram_ps h) + 800 < 2 ^ 64"
  shows "unat (dram_ps h + ps_per_dram h) = unat (dram_ps h) + 800"
  using assms unat_add_small [of "dram_ps h" 800] by simp

lemma ratio_step:
  assumes r: "ratio_ok D h" and lt: "unat (logic_ps h) < D" and nw: "D + 800 < 2 ^ 64"
    and h1: "logic_ps h1 = logic_ps h + ps_per_logic h" "logic_clk h1 = logic_clk h + 1" "ps_per_dram h1 = ps_per_dram h" "ps_per_logic h1 = ps_per_logic h"
  shows "ratio_ok D h1 \<and> unat (logic_ps h) < unat (logic_ps h1)"
proof -
  let ?p = "unat (ps_per_logic h)"
  have p: "0 < ?p" "?p \<le> 800" "unat (logic_ps h) = ?p * unat (logic_clk h)" using r by (simp_all add: ratio_ok_def)
  have a: "unat (logic_ps h + ps_per_logic h) = unat (logic_ps h) + ?p" by (rule unat_add_small) (use lt nw p in linarith)
  have "unat (logic_clk h) \<le> unat (logic_ps h)" using p by (metis One_nat_def Suc_leI mult_le_mono1 nat_mult_1)
  then have "unat (logic_clk h + 1) = unat (logic_clk h) + 1" using unat_add_small [of "logic_clk h" 1] lt nw by simp
  then show ?thesis using r a p lt h1 by (simp add: ratio_ok_def)
qed

lemma logic_loop_returns:
  assumes "hmc_inv cfg h" "ratio_ok D h" "unat (dram_ps h) + 800 = D" "D + 800 < 2 ^ 64"
  shows "\<exists>es' h'. logic_loop (es, h) = Some (Inr (es', h')) \<and> ratio_ok D h' \<and> D \<le> unat (logic_ps h')"
  using assms
proof (induction "D - unat (logic_ps h)" arbitrary: es h rule: less_induct)
  case less
  have c: "logic_ps h < dram_ps h + ps_per_dram h \<longleftrightarrow> unat (logic_ps h) < D"
    using next_dram_ps [of h] less.prems by (simp add: ratio_ok_def word_less_nat_alt)
  show ?case
  proof (cases "unat (logic_ps h) < D")
    case True
    obtain es1 h1 where s: "logic_step (es, h) = Inr (es1, h1)" "drained cfg (es, h) (es1, h1)"
      "logic_ps h1 = logic_ps h + ps_per_logic h" "logic_clk h1 = logic_clk h + 1"
      using logic_step_ok [OF less.prems(1), of es] by (auto simp: okE_iff)
    have d: "hmc_inv cfg h1" "ps_per_dram h1 = ps_per_dram h" "ps_per_logic h1 = ps_per_logic h" "dram_ps h1 = dram_ps h"
      using s(2) by (auto simp: drained_def)
    note r = ratio_step [OF less.prems(2) True less.prems(4) s(3,4) d(2,3)]
    have "\<exists>es' h'. logic_loop (es1, h1) = Some (Inr (es', h')) \<and> ratio_ok D h' \<and> D \<le> unat (logic_ps h')"
      by (rule less.hyps) (use r d less.prems True in auto)
    then show ?thesis using s(1) True c by (simp add: logic_loop_unfold [of es h])
  qed (use c less.prems in \<open>auto simp: logic_loop_unfold [of es h]\<close>)
qed

section \<open>The cycle\<close>

definition first_part :: "Config \<Rightarrow> HMCMemorySystem \<Rightarrow> (callback_event list \<times> HMCMemorySystem) res" where
  "first_part cfg h = (if dram_ps h = logic_ps h
     then bindE (DrainResponses h) (\<lambda>(es, h). bindE (DRAMClockTick cfg h) (\<lambda>h. bindE (DrainRequests h) (\<lambda>h. Inr (es, logic_tick h))))
     else bindE (DRAMClockTick cfg h) (\<lambda>h. Inr ([], h)))"

lemma hmc_ClockTick_parts:
  "hmc_ClockTick cfg h = bindE (first_part cfg h) (\<lambda>s. bindE (loop_result (logic_loop s)) (\<lambda>(es, h). Inr (es, h\<lparr>dram_ps := dram_ps h + ps_per_dram h\<rparr>)))"
  by (simp add: hmc_ClockTick_def first_part_def)

text \<open>The first part faults only if the cycle of the vaults does.\<close>

lemma first_part_eq:
  assumes inv: "hmc_inv cfg h"
  shows "\<exists>f. first_part cfg h = bindE (sys_ClockTick cfg (hmc_base h)) (\<lambda>(_, base). Inr (f base)) \<and>
    (\<forall>es base. sys_ClockTick cfg (hmc_base h) = Inr (es, base) \<longrightarrow> drained cfg ([], h) (f base) \<and>
      (if dram_ps h = logic_ps h then logic_ps (snd (f base)) = logic_ps h + ps_per_logic h \<and> logic_clk (snd (f base)) = logic_clk h + 1
       else logic_ps (snd (f base)) = logic_ps h \<and> logic_clk (snd (f base)) = logic_clk h))"
proof (cases "dram_ps h = logic_ps h")
  case True
  obtain es h' where r: "DrainResponses h = Inr (es, h')" "hmc_inv cfg h'" "gone h (es, h')"
    using DrainResponses_inv [OF inv] by (auto simp: okE_iff)
  obtain h1 where h1: "DRAMClockTick cfg h' = bindE (sys_ClockTick cfg (hmc_base h')) (\<lambda>(_, base). Inr (h1\<lparr>hmc_base := base\<rparr>))"
    "\<forall>es base. sys_ClockTick cfg (hmc_base h') = Inr (es, base) \<longrightarrow> hmc_inv cfg (h1\<lparr>hmc_base := base\<rparr>)"
    "\<forall>base. hmc_clock (h1\<lparr>hmc_base := base\<rparr>) = hmc_clock h'" "\<forall>base. hmc_bag (h1\<lparr>hmc_base := base\<rparr>) = hmc_bag h'"
    using DRAMClockTick_eq [OF r(2)] by blast
  have b: "hmc_base h' = hmc_base h" using r(3) by (simp add: gone_def)
  define g where "g base = (case DrainRequests (h1\<lparr>hmc_base := base\<rparr>) of Inl _ \<Rightarrow> h1 | Inr h2 \<Rightarrow> h2)" for base
  have g: "DrainRequests (h1\<lparr>hmc_base := base\<rparr>) = Inr (g base)" "hmc_inv cfg (g base)" "moved (h1\<lparr>hmc_base := base\<rparr>) (g base)"
    if "sys_ClockTick cfg (hmc_base h) = Inr (es0, base)" for es0 base
    using DrainRequests_ok [OF h1(2) [unfolded b, rule_format, OF that]] by (auto simp: okE_iff g_def)
  show ?thesis
  proof (intro exI [of _ "\<lambda>base. (es, logic_tick (g base))"] conjI allI impI)
    show "first_part cfg h = bindE (sys_ClockTick cfg (hmc_base h)) (\<lambda>(_, base). Inr (es, logic_tick (g base)))"
      using True r(1) h1(1) b g(1) by (auto simp: first_part_def bindE_assoc intro!: bindE_cong split: prod.splits)
  next
    fix es0 base assume t: "sys_ClockTick cfg (hmc_base h) = Inr (es0, base)"
    have "hmc_inv cfg (logic_tick (g base))" "hmc_bag (logic_tick (g base)) = hmc_bag (g base)"
      using g(2) [OF t] by (simp_all add: logic_tick_def hmc_inv_def front_ok_def hmc_bag_def)
    then show "drained cfg ([], h) (es, logic_tick (g base))"
      "if dram_ps h = logic_ps h then logic_ps (snd (es, logic_tick (g base))) = logic_ps h + ps_per_logic h \<and> logic_clk (snd (es, logic_tick (g base))) = logic_clk h + 1
       else logic_ps (snd (es, logic_tick (g base))) = logic_ps h \<and> logic_clk (snd (es, logic_tick (g base))) = logic_clk h"
      using True g(3) [OF t] h1(3,4) r(3) by (simp_all add: drained_def gone_def moved_def hmc_clock_def logic_tick_def)
  qed
next
  case False
  obtain h1 where h1: "DRAMClockTick cfg h = bindE (sys_ClockTick cfg (hmc_base h)) (\<lambda>(_, base). Inr (h1\<lparr>hmc_base := base\<rparr>))"
    "\<forall>es base. sys_ClockTick cfg (hmc_base h) = Inr (es, base) \<longrightarrow> hmc_inv cfg (h1\<lparr>hmc_base := base\<rparr>)"
    "\<forall>base. hmc_clock (h1\<lparr>hmc_base := base\<rparr>) = hmc_clock h" "\<forall>base. hmc_bag (h1\<lparr>hmc_base := base\<rparr>) = hmc_bag h"
    using DRAMClockTick_eq [OF inv] by blast
  show ?thesis
  proof (intro exI [of _ "\<lambda>base. ([], h1\<lparr>hmc_base := base\<rparr>)"] conjI allI impI)
    show "first_part cfg h = bindE (sys_ClockTick cfg (hmc_base h)) (\<lambda>(_, base). Inr ([], h1\<lparr>hmc_base := base\<rparr>))"
      using False h1(1) by (auto simp: first_part_def bindE_assoc intro!: bindE_cong split: prod.splits)
  qed (use False h1(2-4) in \<open>auto simp: drained_def hmc_clock_def\<close>)
qed

lemma hmc_ClockTick_bag:
  assumes inv: "hmc_inv cfg h" and t: "hmc_ClockTick cfg h = Inr (es, h')"
  shows "hmc_inv cfg h' \<and> hmc_bag h = mset es + hmc_bag h'"
proof -
  obtain f where f: "first_part cfg h = bindE (sys_ClockTick cfg (hmc_base h)) (\<lambda>(_, base). Inr (f base))"
    "\<forall>es base. sys_ClockTick cfg (hmc_base h) = Inr (es, base) \<longrightarrow> drained cfg ([], h) (f base)"
    using first_part_eq [OF inv] by blast
  obtain es0 base s h1 where r: "sys_ClockTick cfg (hmc_base h) = Inr (es0, base)" "s = f base" "loop_result (logic_loop s) = Inr (es, h1)"
    "h' = h1\<lparr>dram_ps := dram_ps h1 + ps_per_dram h1\<rparr>"
    using t unfolding hmc_ClockTick_parts f(1) by (auto simp: bindE_Inr_iff)
  have l: "logic_loop s = Some (Inr (es, h1))" using r(3) by (simp add: loop_result_def split: option.splits)
  have d: "drained cfg ([], h) s" using f(2) r(1,2) by simp
  then have "hmc_inv cfg (snd s)" by (auto simp: drained_def split: prod.splits)
  from drained_trans [OF d logic_loop_drained [OF l this]] have "hmc_inv cfg h1" "hmc_bag h = mset es + hmc_bag h1" by (auto simp: drained_def)
  then show ?thesis using r(4) by (simp add: hmc_inv_def front_ok_def hmc_bag_def)
qed

lemma hmc_ClockTick_returns:
  assumes inv: "hmc_inv cfg h" and c: "clock_ok h" "unat (dram_ps h) + 1600 < 2 ^ 64" and t: "sys_ClockTick cfg (hmc_base h) = Inr (es0, base)"
  shows "okE (hmc_ClockTick cfg h) (\<lambda>(es, h'). clock_ok h' \<and> unat (dram_ps h') = unat (dram_ps h) + 800 \<and> ps_per_logic h' = ps_per_logic h)"
proof -
  obtain f where f: "first_part cfg h = bindE (sys_ClockTick cfg (hmc_base h)) (\<lambda>(_, base). Inr (f base))"
    "drained cfg ([], h) (f base)" "if dram_ps h = logic_ps h then logic_ps (snd (f base)) = logic_ps h + ps_per_logic h \<and> logic_clk (snd (f base)) = logic_clk h + 1
       else logic_ps (snd (f base)) = logic_ps h \<and> logic_clk (snd (f base)) = logic_clk h"
    using first_part_eq [OF inv] t by blast
  let ?D = "unat (dram_ps h) + 800"
  obtain es h1 where fb: "f base = (es, h1)" by (cases "f base")
  have h1: "hmc_inv cfg h1" "ps_per_dram h1 = ps_per_dram h" "ps_per_logic h1 = ps_per_logic h" "dram_ps h1 = dram_ps h"
    using f(2) fb by (auto simp: drained_def)
  have r0: "ratio_ok ?D h" using c(1) by (simp add: clock_ok_def ratio_ok_def)
  have "ratio_ok ?D h1"
  proof (cases "dram_ps h = logic_ps h")
    case True
    then show ?thesis using ratio_step [OF r0 _ _ _ _ h1(2,3)] f(3) fb c(2) by simp
  next
    case False
    then show ?thesis using r0 f(3) fb h1 by (simp add: ratio_ok_def)
  qed
  from logic_loop_returns [OF h1(1) this _ _, of es] h1(4) c(2)
  obtain es' h2 where l: "logic_loop (es, h1) = Some (Inr (es', h2))" "ratio_ok ?D h2" "?D \<le> unat (logic_ps h2)" by auto
  have d: "dram_ps h2 = dram_ps h" "ps_per_logic h2 = ps_per_logic h" using logic_loop_drained [OF l(1)] h1(1,3,4) by (auto simp: drained_def)
  have "unat (dram_ps h2 + ps_per_dram h2) = ?D" using next_dram_ps [of h2] l(2) c(2) d by (simp add: ratio_ok_def)
  then show ?thesis using l f(1) t fb d(2) by (simp add: hmc_ClockTick_parts loop_result_def clock_ok_def ratio_ok_def)
qed

section \<open>Requests enter\<close>

lemma InsertReqToLink_ok:
  assumes f: "front_ok n V h" and rq: "req_ok n req" and l: "0 \<le> l" "l < links h" and t: "response_of (req_type req) = Inr (ty, fl)"
  shows "okE (InsertReqToLink req l h) (\<lambda>(ok, h'). ok = has_room h (link_req_queues h ! nat l) \<and>
    (if ok then front_ok n V h' \<and> hmc_bag h' = add_mset (mem_operand req, ty \<noteq> RD_RS) (hmc_bag h) \<and>
       ctrls (hmc_base h') = ctrls (hmc_base h) \<and> next_link h' = next_link h \<and> links h' = links h \<and> hmc_clock h' = hmc_clock h
     else h' = h))"
proof -
  note d = front_okD [OF f]
  have k: "nat l < length (link_req_queues h)" "inrange l (link_req_queues h)" "inrange l (link_age_counter h)"
    using l d(5,11) by (auto simp: inrange_def ages_ok_def)
  let ?req = "req\<lparr>req_link := l\<rparr>" and ?q = "link_req_queues h ! nat l"
  let ?r = "\<lparr>resp_id = mem_operand req, resp_type = ty, resp_link = l, resp_quad = req_quad req, resp_flits = fl, resp_exit_time = 0\<rparr>"
  let ?h = "h\<lparr>link_req_queues := (link_req_queues h)[nat l := ?q @ [?req]], resp_lookup_table := resp_lookup_table h @ [(mem_operand req, ?r)],
    link_age_counter := (link_age_counter h)[nat l := 1], hmc_base := (hmc_base h)\<lparr>last_req_clk := sys_clk (hmc_base h)\<rparr>\<rparr>"
  have rq': "req_ok n ?req" "resp_ok (links h) ?r" using rq l by (simp_all add: req_ok_def resp_ok_def)
  have "front_ok n V ?h"
    using d rq'(2) all_in_push [OF d(13) rq'(1) k(1)] ages_ok_update [OF d(11), of 1 "?q @ [?req]" "nat l"]
    by (simp add: front_ok_def addrs_def mset_concat_push [OF k(1)])
  moreover have "hmc_bag ?h = add_mset (mem_operand req, ty \<noteq> RD_RS) (hmc_bag h)" by (simp add: hmc_bag_def resp_event_def)
  ultimately show ?thesis using k t by (simp add: InsertReqToLink_def Let_def mk_HMCResponse_def hmc_clock_def)
qed

text \<open>The request has entered, or nothing has changed but the turn of the links.\<close>

definition entered :: "nat \<Rightarrow> u64 multiset \<Rightarrow> callback_event \<Rightarrow> HMCMemorySystem \<Rightarrow> bool \<times> HMCMemorySystem \<Rightarrow> bool" where
  "entered n V e h = (\<lambda>(ok, h'). front_ok n V h' \<and> hmc_bag h' = (if ok then add_mset e (hmc_bag h) else hmc_bag h) \<and>
     ctrls (hmc_base h') = ctrls (hmc_base h) \<and> hmc_clock h' = hmc_clock h)"

lemma IterateNextLink_ok:
  assumes "front_ok n V h"
  shows "IterateNextLink h = Inr (h\<lparr>next_link := (next_link h + 1) mod links h\<rparr>)" "front_ok n V (h\<lparr>next_link := (next_link h + 1) mod links h\<rparr>)"
  using front_okD [OF assms] assms by (simp_all add: IterateNextLink_def front_ok_def)

lemma step_down:
  assumes "(s - x) mod n = k" "0 < k" "0 < (n :: int)"
  shows "(s - (x + 1) mod n) mod n = k - 1"
proof -
  have "(s - (x + 1) mod n) mod n = ((s - x) mod n - 1) mod n" by (simp add: mod_simps algebra_simps)
  also have "\<dots> = k - 1" using assms pos_mod_bound [of n "s - x"] by simp
  finally show ?thesis .
qed

text \<open>The turn goes on to the next link when the current one has no room.\<close>

lemma turn_shift:
  assumes "\<not> P (x mod n)"
  shows "(\<exists>j. 0 \<le> j \<and> j < k \<and> P ((x + j) mod n)) = (\<exists>j. 0 \<le> j \<and> j < k - 1 \<and> P (((x + 1) mod n + j) mod (n :: int)))" (is "?A = ?B")
proof
  assume ?A
  then obtain j where j: "0 \<le> j" "j < k" "P ((x + j) mod n)" by blast
  then have "j \<noteq> 0" using assms by (cases "j = 0") auto
  then show ?B using j by (intro exI [of _ "j - 1"]) (simp add: mod_simps)
next
  assume ?B
  then obtain j where "0 \<le> j" "j < k - 1" "P (((x + 1) mod n + j) mod n)" by blast
  then show ?A by (intro exI [of _ "j + 1"]) (simp add: mod_simps algebra_simps)
qed

lemma link_loop_returns:
  assumes "front_ok n V h" "req_ok n req" "response_of (req_type req) = Inr (ty, fl)" "0 \<le> start" "start < links h"
  shows "\<exists>ok h'. link_loop start req h = Some (Inr (ok, h')) \<and> entered n V (mem_operand req, ty \<noteq> RD_RS) h (ok, h') \<and>
    ok = (\<exists>j. 0 \<le> j \<and> j < (start - next_link h) mod links h \<and> has_room h (link_req_queues h ! nat ((next_link h + j) mod links h)))"
  using assms
proof (induction "nat ((start - next_link h) mod links h)" arbitrary: h rule: less_induct)
  case less
  note d = front_okD [OF less.prems(1)]
  let ?L = "links h" and ?x = "next_link h"
  show ?case
  proof (cases "start = ?x")
    case True
    then show ?thesis using less.prems(1) by (subst link_loop.simps) (simp add: entered_def)
  next
    case False
    obtain ok h1 where i: "InsertReqToLink req ?x h = Inr (ok, h1)" "ok = has_room h (link_req_queues h ! nat ?x)"
      "if ok then front_ok n V h1 \<and> hmc_bag h1 = add_mset (mem_operand req, ty \<noteq> RD_RS) (hmc_bag h) \<and>
       ctrls (hmc_base h1) = ctrls (hmc_base h) \<and> next_link h1 = ?x \<and> links h1 = ?L \<and> hmc_clock h1 = hmc_clock h else h1 = h"
      using InsertReqToLink_ok [OF less.prems(1,2) d(3,4) less.prems(3)] by (auto simp: okE_iff)
    have f1: "front_ok n V h1" using i(3) less.prems(1) by (auto split: if_splits)
    let ?k = "(start - ?x) mod ?L"
    have k: "0 < ?k"
    proof -
      have "?k \<noteq> 0" using False rotate_inj [of start "- ?x" ?L ?x] less.prems(4,5) d(3,4) by auto
      then show ?thesis using pos_mod_sign [OF d(1), of "start - ?x"] by linarith
    qed
    note it = IterateNextLink_ok [OF f1]
    have u: "link_loop start req h = (if ok then Some (Inr (True, h1\<lparr>next_link := (next_link h1 + 1) mod links h1\<rparr>))
      else link_loop start req (h1\<lparr>next_link := (next_link h1 + 1) mod links h1\<rparr>))"
      using False i(1) it(1) by (subst link_loop.simps) simp
    show ?thesis
    proof (cases ok)
      case True
      then have "\<exists>j. 0 \<le> j \<and> j < ?k \<and> has_room h (link_req_queues h ! nat ((?x + j) mod ?L))" using k i(2) d(3,4) by (intro exI [of _ 0]) simp
      then show ?thesis using True u i(3) it(2) by (auto simp: entered_def hmc_bag_def hmc_clock_def)
    next
      case nok: False
      let ?h = "h\<lparr>next_link := (?x + 1) mod ?L\<rparr>"
      have h1: "h1 = h" using nok i(3) by simp
      note sd = step_down [OF refl k d(1)]
      have "\<exists>ok h'. link_loop start req ?h = Some (Inr (ok, h')) \<and> entered n V (mem_operand req, ty \<noteq> RD_RS) ?h (ok, h') \<and>
        ok = (\<exists>j. 0 \<le> j \<and> j < (start - next_link ?h) mod links ?h \<and> has_room ?h (link_req_queues ?h ! nat ((next_link ?h + j) mod links ?h)))"
        by (rule less.hyps) (use sd k it(2) h1 less.prems in auto)
      then obtain ok' h' where r: "link_loop start req ?h = Some (Inr (ok', h'))" "entered n V (mem_operand req, ty \<noteq> RD_RS) ?h (ok', h')"
        "ok' = (\<exists>j. 0 \<le> j \<and> j < ?k - 1 \<and> has_room h (link_req_queues h ! nat (((?x + 1) mod ?L + j) mod ?L)))"
        using sd by (auto simp: has_room_def)
      have "(\<exists>j. 0 \<le> j \<and> j < ?k \<and> has_room h (link_req_queues h ! nat ((?x + j) mod ?L))) = ok'" unfolding r(3)
        by (rule turn_shift [where P = "\<lambda>p. has_room h (link_req_queues h ! nat p)"]) (use nok i(2) d(3,4) in simp)
      then show ?thesis using r(1,2) u nok h1 by (auto simp: entered_def hmc_bag_def hmc_clock_def)
    qed
  qed
qed

lemma InsertHMCReq_ok:
  assumes f: "front_ok n V h" and rq: "req_ok n req" and t: "response_of (req_type req) = Inr (ty, fl)"
  shows "okE (InsertHMCReq req h) (\<lambda>(ok, h'). entered n V (mem_operand req, ty \<noteq> RD_RS) h (ok, h') \<and> ok = hmc_WillAcceptTransaction h a w)"
proof -
  note d = front_okD [OF f]
  let ?L = "links h" and ?x = "next_link h"
  have wa: "hmc_WillAcceptTransaction h a w = (\<exists>j. 0 \<le> j \<and> j < ?L \<and> has_room h (link_req_queues h ! nat ((?x + j) mod ?L)))" (is "_ = ?W")
  proof -
    have "hmc_WillAcceptTransaction h a w = (\<exists>i<length (link_req_queues h). has_room h (link_req_queues h ! i))"
      by (simp add: hmc_WillAcceptTransaction_def list_ex_length)
    also have "\<dots> = (\<exists>p. 0 \<le> p \<and> p < ?L \<and> has_room h (link_req_queues h ! nat p))" unfolding d(5) [symmetric]
      by (metis nat_int of_nat_0_le_iff of_nat_less_iff zero_le_imp_eq_int)
    also have "\<dots> = ?W" using rotate_onto [of _ ?L ?x] d(1) by (metis add.commute pos_mod_bound pos_mod_sign)
    finally show ?thesis .
  qed
  obtain ok h1 where i: "InsertReqToLink req ?x h = Inr (ok, h1)" "ok = has_room h (link_req_queues h ! nat ?x)"
    "if ok then front_ok n V h1 \<and> hmc_bag h1 = add_mset (mem_operand req, ty \<noteq> RD_RS) (hmc_bag h) \<and>
     ctrls (hmc_base h1) = ctrls (hmc_base h) \<and> next_link h1 = ?x \<and> links h1 = ?L \<and> hmc_clock h1 = hmc_clock h else h1 = h"
    using InsertReqToLink_ok [OF f rq d(3,4) t] by (auto simp: okE_iff)
  have f1: "front_ok n V h1" using i(3) f by (auto split: if_splits)
  note it = IterateNextLink_ok [OF f1]
  show ?thesis
  proof (cases ok)
    case True
    then have "?W" using i(2) d(1,3,4) by (intro exI [of _ 0]) simp
    then show ?thesis using True i it wa by (simp add: InsertHMCReq_def Let_def entered_def hmc_bag_def hmc_clock_def)
  next
    case False
    let ?h = "h\<lparr>next_link := (?x + 1) mod ?L\<rparr>"
    have h1: "h1 = h" using False i(3) by simp
    have s: "(?x - (?x + 1) mod ?L) mod ?L = ?L - 1" using d(1) by (simp add: mod_simps zmod_minus1)
    have h2: "front_ok n V ?h" "0 \<le> ?x" "?x < links ?h" using it(2) h1 d(3,4) by simp_all
    obtain ok' h' where r: "link_loop ?x req ?h = Some (Inr (ok', h'))" "entered n V (mem_operand req, ty \<noteq> RD_RS) ?h (ok', h')"
      "ok' = (\<exists>j. 0 \<le> j \<and> j < ?L - 1 \<and> has_room h (link_req_queues h ! nat (((?x + 1) mod ?L + j) mod ?L)))"
      using link_loop_returns [OF h2(1) rq t h2(2,3)] s by (auto simp: has_room_def)
    have "?W = ok'" unfolding r(3)
      by (rule turn_shift [where P = "\<lambda>p. has_room h (link_req_queues h ! nat p)"]) (use False i(2) d(3,4) in simp)
    then show ?thesis using r(1,2) i(1) False it(1) h1 wa by (simp add: InsertHMCReq_def Let_def loop_result_def entered_def hmc_bag_def hmc_clock_def)
  qed
qed

lemma GetChannel_range:
  assumes "GetChannel cfg a = Inr ch" "uint (ch_mask cfg) < int n" "n < 2 ^ 31"
  shows "0 \<le> ch \<and> ch < int n"
proof -
  obtain y where ch: "ch = to_int (y AND ch_mask cfg)" using assms(1) by (auto simp: GetChannel_def addr_field_def bindE_Inr_iff)
  have "uint (y AND ch_mask cfg) \<le> uint (ch_mask cfg)" by (simp add: uint_and AND_upper2)
  moreover have "int n < 2 ^ 31" using assms(3) by simp
  ultimately have b: "uint (y AND ch_mask cfg) < int n" "uint (y AND ch_mask cfg) < 2 ^ 31" using assms(2) by linarith+
  have "uint (ucast (y AND ch_mask cfg) :: u32) = uint (y AND ch_mask cfg)"
    using b(2) uint_ge_0 [of "y AND ch_mask cfg"] by (simp add: unsigned_ucast_eq take_bit_int_eq_self)
  then show ?thesis using b uint_ge_0 [of "y AND ch_mask cfg"] sint_u32_small [of "ucast (y AND ch_mask cfg)"] by (simp add: ch to_int_def)
qed

lemma type_of_block_facts:
  assumes "type_of_block n w = Inr ty"
  shows "\<exists>fl. flits_of_req ty = Inr fl" "\<exists>fl. response_of ty = Inr (if w then WR_RS else RD_RS, fl)" "is_write_type ty = w"
  using assms by (auto simp: type_of_block_def flits_of_req_def response_of_def is_write_type_def split: if_splits)

lemma hmc_AddTransaction_ok:
  assumes inv: "hmc_inv cfg h" and a: "a \<noteq> no_hex" and ch: "GetChannel cfg a = Inr ch" and ty: "type_of_block (block_size cfg) w = Inr ty"
  shows "okE (hmc_AddTransaction cfg a w h) (\<lambda>(ok, h'). ok = hmc_WillAcceptTransaction h a w \<and> hmc_inv cfg h' \<and>
    hmc_bag h' = (if ok then add_mset (a, w) (hmc_bag h) else hmc_bag h) \<and> hmc_clock h' = hmc_clock h)"
proof -
  let ?n = "length (ctrls (hmc_base h))" and ?V = "in_vaults (hmc_base h)"
  have i: "front_ok ?n ?V h" "uint (ch_mask cfg) < int ?n" "?n < 2 ^ 31" using inv by (simp_all add: hmc_inv_def)
  note t = type_of_block_facts [OF ty]
  have c: "0 \<le> ch \<and> ch < int ?n" by (rule GetChannel_range [OF ch i(2,3)])
  obtain fl fl' where fl: "flits_of_req ty = Inr fl" "response_of ty = Inr (if w then WR_RS else RD_RS, fl')" using t by blast
  define req where "req = \<lparr>req_type = ty, mem_operand = a, req_link = 0, req_quad = ch mod 4, req_vault = ch, req_flits = fl,
    req_is_write = is_write_type ty, req_exit_time = 0\<rparr>"
  have rq: "mk_HMCRequest ty a ch = Inr req" using c fl(1) by (simp add: mk_HMCRequest_def req_def)
  have r: "req_ok ?n req" "response_of (req_type req) = Inr (if w then WR_RS else RD_RS, fl')" using c a fl(2) by (simp_all add: req_ok_def req_def)
  have "okE (InsertHMCReq req h) (\<lambda>(ok, h'). entered ?n ?V (a, w) h (ok, h') \<and> ok = hmc_WillAcceptTransaction h a w)"
    using InsertHMCReq_ok [OF i(1) r, of a w] by (cases w) (simp_all add: req_def)
  then show ?thesis unfolding hmc_AddTransaction_def ty ch rq bindE_simps
    by (rule okE_mono) (use inv in \<open>auto simp: entered_def hmc_inv_def vaults_ok_def sys_wf_def sys_bag_def\<close>)
qed

lemma hmc_AddTransaction_bag:
  assumes "hmc_inv cfg h" "a \<noteq> no_hex" "hmc_AddTransaction cfg a w h = Inr (ok, h')"
  shows "ok = hmc_WillAcceptTransaction h a w \<and> hmc_inv cfg h' \<and> hmc_bag h' = (if ok then add_mset (a, w) (hmc_bag h) else hmc_bag h) \<and> hmc_clock h' = hmc_clock h"
proof -
  obtain ty ch where "type_of_block (block_size cfg) w = Inr ty" "GetChannel cfg a = Inr ch"
    using assms(3) by (auto simp: hmc_AddTransaction_def bindE_Inr_iff)
  from hmc_AddTransaction_ok [OF assms(1,2) this(2,1)] assms(3) show ?thesis by simp
qed

interpretation hmc: memory_system "hmc_inv cfg" hmc_bag "hmc_AddTransaction cfg" "hmc_ClockTick cfg" for cfg
proof
  fix s a w s' assume "hmc_inv cfg s" "a \<noteq> no_hex" "hmc_AddTransaction cfg a w s = Inr (True, s')"
  then show "hmc_inv cfg s' \<and> hmc_bag s' = add_mset (a, w) (hmc_bag s)" using hmc_AddTransaction_bag by fastforce
next
  fix s es s' assume "hmc_inv cfg s" "hmc_ClockTick cfg s = Inr (es, s')"
  then show "hmc_inv cfg s' \<and> hmc_bag s = mset es + hmc_bag s'" by (rule hmc_ClockTick_bag)
qed

section \<open>Construction\<close>

definition hmc_cfg_ok :: "Config \<Rightarrow> bool" where
  "hmc_cfg_ok cfg \<longleftrightarrow> ctl_cfg_ok cfg \<and> IsHMC cfg \<and> hydra_cfg_ok cfg \<and> 0 < num_links cfg \<and> num_links cfg < 2 ^ 31 \<and>
     0 < link_width cfg \<and> link_width cfg \<le> 128 \<and> 0 < link_speed cfg div (128 div link_width cfg) \<and> 0 < link_speed cfg \<and>
     link_speed cfg div (128 div link_width cfg) \<le> 1000000 \<and> uint (ch_mask cfg) < channels cfg \<and> channels cfg < 2 ^ 31"

lemma SetClockRatio_ok:
  assumes "hmc_cfg_ok cfg"
  shows "okE (SetClockRatio cfg) (\<lambda>(d, l). d = 800 \<and> 0 < unat l \<and> unat l \<le> 800)"
proof -
  let ?c = "128 div link_width cfg" and ?s = "link_speed cfg div (128 div link_width cfg)"
  have c: "0 < link_width cfg" "link_width cfg \<le> 128" "0 < ?s" "?s \<le> 1000000" "0 < link_speed cfg" using assms by (simp_all add: hmc_cfg_ok_def)
  have "link_width cfg div link_width cfg \<le> ?c" using c(1,2) by (intro zdiv_mono1) auto
  then have "0 < ?c" using c(1) by simp
  then have s: "idiv (link_speed cfg) ?c = Inr ?s" "(1000000 :: int) sdiv ?s = 1000000 div ?s" using c by (simp_all add: sdiv_nonneg)
  have q: "0 < 1000000 div ?s" "1000000 div ?s \<le> 1000000" using c zdiv_mono1 [of ?s 1000000 ?s] zdiv_mono2 [of 1000000 1 ?s] by simp_all
  then have u: "uint (word_of_int (1000000 div ?s) :: u64) = 1000000 div ?s" by (simp add: uint_word_of_int)
  then have "unat (word_of_int (1000000 div ?s) :: u64) = nat (1000000 div ?s)" by (simp only: unat_eq_nat_uint)
  then have "0 < unat (word_of_int (1000000 div ?s) :: u64)" using q by simp
  then show ?thesis using c(1,3) q s by (simp add: SetClockRatio_def Let_def word_less_nat_alt)
qed

lemma empty_queues:
  "ages_ok (replicate m 0) (replicate m [])" "all_in P (replicate m [])" "addrs (replicate m []) = {#}"
  by (simp_all add: ages_ok_def all_in_def addrs_def concat_replicate_Nil)

lemma mk_HMCMemorySystem_ok:
  assumes c: "hmc_cfg_ok cfg" and sh: "\<And>i k xs. mset (shuffle i k xs) = mset xs"
  shows "okE (mk_HMCMemorySystem cfg shuffle b0 cs0 e) (\<lambda>h. hmc_inv cfg h \<and> clock_ok h \<and> dram_ps h = 0 \<and> hmc_bag h = {#})"
proof -
  have k: "ctl_cfg_ok cfg" "IsHMC cfg" "hydra_cfg_ok cfg" "0 < num_links cfg" "num_links cfg < 2 ^ 31" "uint (ch_mask cfg) < channels cfg" "channels cfg < 2 ^ 31"
    using c by (simp_all add: hmc_cfg_ok_def)
  obtain d l where r: "SetClockRatio cfg = Inr (d, l)" "d = 800" "0 < unat l" "unat l \<le> 800" using SetClockRatio_ok [OF c] by (auto simp: okE_iff)
  obtain base where b: "mk_ctrls cfg shuffle b0 cs0 e = Inr base" "length (ctrls base) = nat (channels cfg)" "sys_wf cfg base" "sys_bag base = {#}"
    using mk_ctrls_ok [of cfg shuffle b0 cs0 e, OF k(1) sh] by (auto simp: okE_iff)
  have "0 < channels cfg" using k(6) uint_ge_0 [of "ch_mask cfg"] by linarith
  then show ?thesis
    using k r b by (simp add: empty_queues nat_less_iff mk_HMCMemorySystem_def Let_def hmc_inv_def vaults_ok_def front_ok_def clock_ok_def ratio_ok_def hmc_bag_def concat_replicate_Nil)
qed

section \<open>Properties\<close>

text \<open>
  C9. The Hybrid Memory Cube refines the bag of requests: although responses are looked up by address only, any
  sequence of accepted requests and cycles is a run of the abstract memory system in which every callback
  answers a request accepted before it and not answered yet, with its address and kind.
\<close>

theorem hmc_refines_bag:
  assumes "serve (hmc_AddTransaction cfg) (hmc_ClockTick cfg) calls h = Inr (es, h')"
    and "hmc_inv cfg h" "\<forall>r\<in>set (requests calls). fst r \<noteq> no_hex"
  shows "bag_run (hmc_bag h) calls es (hmc_bag h') \<and> mset (requests calls) + hmc_bag h = mset es + hmc_bag h'"
  using hmc.serve_refines [OF assms] bag_run_balance by blast

definition hmc_cfg :: Config where
  "hmc_cfg = fast_cfg\<lparr>protocol := HMC\<rparr>"

definition tiny_hmc :: HMCMemorySystem where
  "tiny_hmc = \<lparr>hmc_base = tiny_sys, logic_clk = 0, ps_per_dram = 800, ps_per_logic = 533, logic_ps = 0, dram_ps = 0,
     next_link = 0, links = 2, queue_depth = 16, resp_lookup_table = [], link_req_queues = replicate 2 [], link_resp_queues = replicate 2 [],
     quad_req_queues = replicate 4 [], quad_resp_queues = replicate 4 [], link_busy = replicate 2 0, quad_busy = replicate 4 0,
     link_age_counter = replicate 2 0, quad_age_counter = replicate 4 0\<rparr>"

lemma tiny_hmc_ok: "hmc_inv hmc_cfg tiny_hmc" "clock_ok tiny_hmc" "hmc_bag tiny_hmc = {#}" "sys_bag tiny_sys = {#}"
proof -
  have w: "ctl_wf hmc_cfg tiny_ctl" "hydra_cfg_ok hmc_cfg"
    using tiny_ctl_ok(3) by (simp_all add: ctl_wf_def tiny_ctl_def q_wf_def queues_wf_def waiting_def tq_empty_def tiny_chan_def less_Suc_eq numeral_nat hydra_cfg_ok_def hmc_cfg_def)
  show s: "sys_bag tiny_sys = {#}" using tiny_ctl_ok(4) by (simp add: tiny_sys_def sys_bag_def)
  show "hmc_inv hmc_cfg tiny_hmc" using w s
    by (simp add: hmc_inv_def tiny_hmc_def vaults_ok_def front_ok_def tiny_sys_def sys_wf_def hmc_cfg_def fast_cfg_def empty_queues)
  show "clock_ok tiny_hmc" "hmc_bag tiny_hmc = {#}"
    by (simp_all add: tiny_hmc_def clock_ok_def ratio_ok_def hmc_bag_def concat_replicate_Nil)
qed

abbreviation hmc_calls :: "sys_call list" where
  "hmc_calls \<equiv> [Request 64 False, Request 128 True] @ replicate 20 Cycle"

lemma tiny_hmc_run:
  "okE (serve (hmc_AddTransaction hmc_cfg) (hmc_ClockTick hmc_cfg) hmc_calls tiny_hmc)
     (\<lambda>(es, h). es = [(128, True), (64, False)] \<and> logic_clk h = 31)"
  by code_simp

lemma hmc_calls_facts: "\<forall>r\<in>set (requests hmc_calls). fst r \<noteq> no_hex" "requests hmc_calls = [(64, False), (128, True)]" "count_list hmc_calls Cycle = 20"
  by code_simp+

theorem hmc_refines_bag_witness:
  "okE (serve (hmc_AddTransaction hmc_cfg) (hmc_ClockTick hmc_cfg) hmc_calls tiny_hmc)
     (\<lambda>(es, h). es = [(128, True), (64, False)] \<and> hmc_bag h = {#})"
proof -
  obtain h where r: "serve (hmc_AddTransaction hmc_cfg) (hmc_ClockTick hmc_cfg) hmc_calls tiny_hmc = Inr ([(128, True), (64, False)], h)"
    using tiny_hmc_run unfolding okE_iff by (auto simp del: serve.simps replicate.simps)
  show ?thesis unfolding r using hmc_refines_bag [OF r tiny_hmc_ok(1) hmc_calls_facts(1)] tiny_hmc_ok(3) hmc_calls_facts(2) by simp
qed

text \<open>
  C10. A cycle of the Hybrid Memory Cube returns whenever the cycle of its vaults does: the loop over the logic
  cycles ends, every link and quadrant in the age queue has a packet in front, and every transaction a vault
  completes finds its response in the table. The invariant holds again after it.
\<close>

theorem hmc_cycle_returns:
  assumes "hmc_inv cfg h" "clock_ok h" "unat (dram_ps h) + 1600 < 2 ^ 64" "sys_ClockTick cfg (hmc_base h) = Inr (done, base)"
  shows "\<exists>es h'. hmc_ClockTick cfg h = Inr (es, h') \<and> hmc_inv cfg h' \<and> clock_ok h' \<and> unat (dram_ps h') = unat (dram_ps h) + 800"
  using hmc_ClockTick_returns [OF assms] hmc_ClockTick_bag [OF assms(1)] by (auto simp: okE_iff)

theorem hmc_cycle_returns_witness:
  "\<exists>es h'. hmc_ClockTick hmc_cfg tiny_hmc = Inr (es, h') \<and> hmc_inv hmc_cfg h' \<and> unat (dram_ps h') = 800"
proof -
  have "okE (sys_ClockTick hmc_cfg tiny_sys) (\<lambda>_. True)" by code_simp
  then obtain es base where "sys_ClockTick hmc_cfg tiny_sys = Inr (es, base)" by (auto simp: okE_iff)
  then show ?thesis using hmc_cycle_returns [OF tiny_hmc_ok(1,2), of es base] by (auto simp: tiny_hmc_def)
qed

text \<open>
  C25. Adding a transaction to the Hybrid Memory Cube always returns, and it is accepted exactly when
  \<open>WillAcceptTransaction\<close> says so: the search over the links ends, finds a link with room if there is one, and
  leaves the outstanding requests alone if there is none.
\<close>

theorem hmc_accepts_when_ready:
  assumes "hmc_inv cfg h" "a \<noteq> no_hex" "GetChannel cfg a = Inr ch" "block_size cfg \<in> {0, 32, 64, 128, 256}"
  shows "\<exists>h'. hmc_AddTransaction cfg a w h = Inr (hmc_WillAcceptTransaction h a w, h') \<and> hmc_inv cfg h' \<and>
    hmc_bag h' = (if hmc_WillAcceptTransaction h a w then add_mset (a, w) (hmc_bag h) else hmc_bag h)"
proof -
  have "\<exists>ty. type_of_block (block_size cfg) w = Inr ty" using assms(4) by (cases w) (auto simp: type_of_block_def)
  then obtain ty where "type_of_block (block_size cfg) w = Inr ty" by blast
  from hmc_AddTransaction_ok [OF assms(1-3) this] show ?thesis by (auto simp: okE_iff)
qed

theorem hmc_accepts_when_ready_witness:
  "\<exists>h'. hmc_AddTransaction hmc_cfg 64 False tiny_hmc = Inr (True, h') \<and> hmc_bag h' = {#(64, False)#}"
proof -
  have c: "GetChannel hmc_cfg 64 = Inr 0" "block_size hmc_cfg \<in> {0, 32, 64, 128, 256}" "64 \<noteq> no_hex" "hmc_WillAcceptTransaction tiny_hmc 64 False"
    by code_simp+
  show ?thesis using hmc_accepts_when_ready [OF tiny_hmc_ok(1) c(3,1,2), of False] c(4) tiny_hmc_ok(3) by auto
qed

text \<open>
  C26. The two clocks of the Hybrid Memory Cube keep their ratio: after any requests and \<open>n\<close> cycles, the logic has
  made as many cycles of \<open>ps_per_logic\<close> picoseconds as are needed to cover the \<open>n\<close> DRAM cycles of 800 picoseconds, and
  not one more.
\<close>

theorem hmc_logic_clock_ratio:
  assumes "serve (hmc_AddTransaction cfg) (hmc_ClockTick cfg) calls h = Inr (es, h')" "hmc_inv cfg h" "clock_ok h"
    and "\<forall>r\<in>set (requests calls). fst r \<noteq> no_hex" "unat (dram_ps h) + 800 * (count_list calls Cycle + 2) < 2 ^ 64"
  shows "unat (dram_ps h') = unat (dram_ps h) + 800 * count_list calls Cycle \<and>
    unat (dram_ps h') \<le> unat (ps_per_logic h) * unat (logic_clk h') \<and>
    unat (ps_per_logic h) * unat (logic_clk h') < unat (dram_ps h') + unat (ps_per_logic h)"
proof -
  have "clock_ok h' \<and> unat (dram_ps h') = unat (dram_ps h) + 800 * count_list calls Cycle \<and> ps_per_logic h' = ps_per_logic h"
    using assms
  proof (induction calls arbitrary: h es)
    case (Cons c calls)
    show ?case
    proof (cases c)
      case (Request a w)
      then obtain h1 where a: "hmc_AddTransaction cfg a w h = Inr (True, h1)" "serve (hmc_AddTransaction cfg) (hmc_ClockTick cfg) calls h1 = Inr (es, h')"
        using Cons.prems(1) by (auto simp: bindE_Inr_iff)
      have "a \<noteq> no_hex" using Cons.prems(4) Request by simp
      from hmc_AddTransaction_bag [OF Cons.prems(2) this a(1)] have e: "hmc_inv cfg h1" "hmc_clock h1 = hmc_clock h" by simp_all
      then have "clock_ok h1" "dram_ps h1 = dram_ps h" "ps_per_logic h1 = ps_per_logic h" using Cons.prems(3) by (auto simp: clock_ok_def ratio_ok_def hmc_clock_def)
      with Cons.IH [OF a(2) e(1)] Cons.prems(4,5) Request show ?thesis by simp
    next
      case Cycle
      then obtain e1 h1 e2 where a: "hmc_ClockTick cfg h = Inr (e1, h1)" "serve (hmc_AddTransaction cfg) (hmc_ClockTick cfg) calls h1 = Inr (e2, h')"
        using Cons.prems(1) by (auto simp: bindE_Inr_iff)
      obtain f where "first_part cfg h = bindE (sys_ClockTick cfg (hmc_base h)) (\<lambda>(_, base). Inr (f base))" using first_part_eq [OF Cons.prems(2)] by blast
      then obtain es0 base where "sys_ClockTick cfg (hmc_base h) = Inr (es0, base)" using a(1) by (auto simp: hmc_ClockTick_parts bindE_Inr_iff)
      from hmc_ClockTick_returns [OF Cons.prems(2,3) _ this] a(1) Cons.prems(5) Cycle
      have t: "clock_ok h1" "unat (dram_ps h1) = unat (dram_ps h) + 800" "ps_per_logic h1 = ps_per_logic h" by auto
      have "hmc_inv cfg h1" using hmc_ClockTick_bag [OF Cons.prems(2) a(1)] by simp
      from Cons.IH [OF a(2) this t(1)] t Cons.prems(4,5) Cycle show ?thesis by simp
    qed
  qed simp
  then show ?thesis by (auto simp: clock_ok_def ratio_ok_def)
qed

theorem hmc_logic_clock_ratio_witness:
  "okE (serve (hmc_AddTransaction hmc_cfg) (hmc_ClockTick hmc_cfg) hmc_calls tiny_hmc)
     (\<lambda>(es, h). logic_clk h = 31 \<and> unat (dram_ps h) = 16000 \<and> 16000 \<le> 533 * unat (logic_clk h) \<and> 533 * unat (logic_clk h) < 16000 + 533)"
proof -
  obtain es h where r: "serve (hmc_AddTransaction hmc_cfg) (hmc_ClockTick hmc_cfg) hmc_calls tiny_hmc = Inr (es, h)" "logic_clk h = 31"
    using tiny_hmc_run unfolding okE_iff by (auto simp del: serve.simps replicate.simps)
  have p: "dram_ps tiny_hmc = 0" "ps_per_logic tiny_hmc = 533" by (simp_all add: tiny_hmc_def)
  show ?thesis unfolding r using hmc_logic_clock_ratio [OF r(1) tiny_hmc_ok(1,2) hmc_calls_facts(1)] hmc_calls_facts(3) p r(2) by simp
qed

text \<open>
  The constructor raises no error for a sensible configuration of a Hybrid Memory Cube and establishes the
  invariants that the cycles keep.
\<close>

theorem constructed_hmc_is_ready:
  assumes "hmc_cfg_ok cfg" "\<And>i k xs. mset (shuffle i k xs) = mset xs"
  shows "\<exists>h. mk_HMCMemorySystem cfg shuffle b0 cs0 e = Inr h \<and> hmc_inv cfg h \<and> clock_ok h \<and> dram_ps h = 0 \<and> hmc_bag h = {#}"
  using mk_HMCMemorySystem_ok [of cfg shuffle b0 cs0 e, OF assms] by (auto simp: okE_iff)

theorem constructed_hmc_is_ready_witness:
  "\<exists>h. mk_HMCMemorySystem (tiny_cfg\<lparr>protocol := HMC\<rparr>) (\<lambda>_ _. rev) tiny_bank tiny_chan tiny_env = Inr h \<and> clock_ok h \<and> hmc_bag h = {#}"
proof -
  have "ctl_cfg_ok (tiny_cfg\<lparr>protocol := HMC\<rparr>)" using tiny_construct_ok by (simp add: ctl_cfg_ok_def construct_ok_def index_ok_def tracker_cfg_ok_def geometry_ok_def total_def)
  then have "hmc_cfg_ok (tiny_cfg\<lparr>protocol := HMC\<rparr>)" by (simp add: hmc_cfg_ok_def IsHMC_def hydra_cfg_ok_def)
  from constructed_hmc_is_ready [where shuffle = "\<lambda>_ _. rev", OF this] show ?thesis by fastforce
qed


text \<open>
  The age queue is not ordered by age, as its comment says: the age of a link is compared with the
  positions in the queue, so the oldest of four links is served last.
\<close>

theorem oldest_link_served_last: "BuildAgeQueue 0 [9, 1, 1, 1] = Inr [1, 2, 3, 0]"
  by code_simp

end
