(* ===== verification/Memsim_Cache.thy ===== *)
theory Memsim_Cache
  imports Prelude
begin

text \<open>
  memsim/mcache.h and mcache.c: the last-level cache of the processor model. The entries of all sets are one
  array; set \<open>s\<close> occupies the indices from \<open>s * assocs\<close>. A \<open>Flag\<close> that only ever holds \<open>TRUE\<close> or
  \<open>FALSE\<close> is a \<open>bool\<close>. Every operation walks the ways of one set, and the loops are written over the list
  of indices they visit. \<open>rand()\<close> is a parameter: the stream of its results and the position in it.
\<close>

section \<open>The data\<close>

datatype MCache_ReplPolicy = REPL_LRU | REPL_RND | REPL_SRRIP | NUM_REPL_POLICY

text \<open>The cast of an \<open>uns\<close>; every number outside the enumeration takes the \<open>default:\<close> branch.\<close>

definition to_policy :: "u32 \<Rightarrow> MCache_ReplPolicy" where
  "to_policy n = (if n = 0 then REPL_LRU else if n = 1 then REPL_RND else if n = 2 then REPL_SRRIP else NUM_REPL_POLICY)"

record MCache_Entry =
  me_valid :: bool
  me_dirty :: bool
  me_tag :: u64
  me_ripctr :: u32
  me_last_access :: u64
  me_orig_lineaddr :: u64

record MCache =
  mc_sets :: u32
  mc_assocs :: u32
  mc_repl_policy :: MCache_ReplPolicy
  mc_index_policy :: u32
  mc_entries :: "MCache_Entry list"
  touched_wayid :: int
  touched_setid :: int
  touched_lineid :: int
  evicted_dirty_line :: bool
  evicted_line_addr :: u64
  s_count :: u64
  s_miss :: u64
  s_evict :: u64

definition MCACHE_SRRIP_MAX :: u32 where "MCACHE_SRRIP_MAX = 7"
definition MCACHE_SRRIP_INIT :: u32 where "MCACHE_SRRIP_INIT = 1"

definition empty_entry :: MCache_Entry where
  "empty_entry = \<lparr>me_valid = False, me_dirty = False, me_tag = 0, me_ripctr = 0, me_last_access = 0, me_orig_lineaddr = 0\<rparr>"

definition mcache_new :: "u32 \<Rightarrow> u32 \<Rightarrow> u32 \<Rightarrow> MCache" where
  "mcache_new sets assocs repl =
     \<lparr>mc_sets = sets, mc_assocs = assocs, mc_repl_policy = to_policy repl, mc_index_policy = 0,
      mc_entries = replicate (unat (sets * assocs)) empty_entry,
      touched_wayid = 0, touched_setid = 0, touched_lineid = 0,
      evicted_dirty_line = False, evicted_line_addr = 0, s_count = 0, s_miss = 0, s_evict = 0\<rparr>"

section \<open>Lookup\<close>

definition mcache_get_index :: "MCache \<Rightarrow> u64 \<Rightarrow> u32 res" where
  "mcache_get_index c addr =
     (if mc_index_policy c = 0 then bindE (umod addr (ucast (mc_sets c))) (\<lambda>r. Inr (ucast r))
      else Inl ExitFailure)"

text \<open>The indices of \<open>for (ii = start; ii < end; ii++)\<close> over the ways of a set.\<close>

definition way_indices :: "MCache \<Rightarrow> u32 \<Rightarrow> nat list" where
  "way_indices c setid =
     (let start = setid * mc_assocs c in [unat start..<unat (start + mc_assocs c)])"

definition mc_matches :: "u64 \<Rightarrow> MCache_Entry \<Rightarrow> bool" where
  "mc_matches tag e \<longleftrightarrow> me_valid e \<and> me_tag e = tag"

text \<open>The loop that stops at the first entry with a property.\<close>

primrec find_entry :: "(MCache_Entry \<Rightarrow> bool) \<Rightarrow> MCache_Entry list \<Rightarrow> nat list \<Rightarrow> nat option res" where
  "find_entry p es [] = Inr None"
| "find_entry p es (i # is) = bindE (vget es (int i)) (\<lambda>e. if p e then Inr (Some i) else find_entry p es is)"

definition mcache_access :: "MCache \<Rightarrow> u64 \<Rightarrow> (bool \<times> MCache) res" where
  "mcache_access c addr =
     bindE (mcache_get_index c addr) (\<lambda>setid.
     let start = setid * mc_assocs c; c = c\<lparr>s_count := s_count c + 1\<rparr> in
     bindE (find_entry (mc_matches addr) (mc_entries c) (way_indices c setid)) (\<lambda>hit.
     case hit of
       Some ii \<Rightarrow>
         bindE (vupd (mc_entries c) (int ii)
           (\<lambda>e. e\<lparr>me_last_access := s_count c, me_ripctr := MCACHE_SRRIP_MAX\<rparr>)) (\<lambda>es.
         Inr (True, c\<lparr>mc_entries := es, touched_wayid := sint (of_nat ii - start), touched_setid := sint setid,
           touched_lineid := sint (of_nat ii :: u32)\<rparr>))
     | None \<Rightarrow>
         Inr (False, c\<lparr>touched_wayid := 0, touched_setid := sint setid, touched_lineid := sint start,
           s_miss := s_miss c + 1\<rparr>)))"

definition mcache_probe :: "MCache \<Rightarrow> u64 \<Rightarrow> bool res" where
  "mcache_probe c addr =
     bindE (mcache_get_index c addr) (\<lambda>setid.
     bindE (find_entry (mc_matches addr) (mc_entries c) (way_indices c setid)) (\<lambda>hit. Inr (hit \<noteq> None)))"

definition mcache_invalidate :: "MCache \<Rightarrow> u64 \<Rightarrow> (bool \<times> MCache) res" where
  "mcache_invalidate c addr =
     bindE (mcache_get_index c addr) (\<lambda>setid.
     bindE (find_entry (mc_matches addr) (mc_entries c) (way_indices c setid)) (\<lambda>hit.
     case hit of
       Some ii \<Rightarrow> bindE (vupd (mc_entries c) (int ii) (\<lambda>e. e\<lparr>me_valid := False\<rparr>)) (\<lambda>es. Inr (True, c\<lparr>mc_entries := es\<rparr>))
     | None \<Rightarrow> Inr (False, c)))"

definition mcache_mark_dirty :: "MCache \<Rightarrow> u64 \<Rightarrow> (bool \<times> MCache) res" where
  "mcache_mark_dirty c addr =
     bindE (mcache_get_index c addr) (\<lambda>setid.
     bindE (find_entry (mc_matches addr) (mc_entries c) (way_indices c setid)) (\<lambda>hit.
     case hit of
       Some ii \<Rightarrow> bindE (vupd (mc_entries c) (int ii) (\<lambda>e. e\<lparr>me_dirty := True\<rparr>)) (\<lambda>es. Inr (True, c\<lparr>mc_entries := es\<rparr>))
     | None \<Rightarrow> Inr (False, c)))"

section \<open>Replacement\<close>

primrec lru_scan :: "MCache_Entry list \<Rightarrow> nat list \<Rightarrow> nat \<Rightarrow> nat res" where
  "lru_scan es [] lowest = Inr lowest"
| "lru_scan es (i # is) lowest =
     bindE (vget es (int i)) (\<lambda>e.
     bindE (vget es (int lowest)) (\<lambda>l.
     lru_scan es is (if me_last_access e < me_last_access l then i else lowest)))"

definition mcache_find_victim_lru :: "MCache \<Rightarrow> u32 \<Rightarrow> u32 res" where
  "mcache_find_victim_lru c setid =
     bindE (lru_scan (mc_entries c) (way_indices c setid) (unat (setid * mc_assocs c))) (\<lambda>i. Inr (of_nat i))"

definition mcache_find_victim_rnd :: "(nat \<Rightarrow> int) \<Rightarrow> nat \<Rightarrow> MCache \<Rightarrow> u32 \<Rightarrow> (u32 \<times> nat) res" where
  "mcache_find_victim_rnd rnd pos c setid =
     bindE (umod (word_of_int (rnd pos)) (mc_assocs c)) (\<lambda>r. Inr (setid * mc_assocs c + r, Suc pos))"

text \<open>The ageing loop: it ends when some way has counter zero, which never happens in a set without ways.\<close>

definition age_entry :: "nat \<Rightarrow> MCache_Entry list \<Rightarrow> MCache_Entry list res" where
  "age_entry i es = vupd es (int i) (\<lambda>e. e\<lparr>me_ripctr := me_ripctr e - 1\<rparr>)"

partial_function (option) srrip_loop ::
    "nat list \<Rightarrow> MCache_Entry list \<Rightarrow> (nat \<times> MCache_Entry list) res option" where
  "srrip_loop mc_ways es =
     (case find_entry (\<lambda>e. me_ripctr e = 0) es mc_ways of
        Inl f \<Rightarrow> Some (Inl f)
      | Inr (Some i) \<Rightarrow> Some (Inr (i, es))
      | Inr None \<Rightarrow> (case foldE age_entry mc_ways es of Inl f \<Rightarrow> Some (Inl f) | Inr es' \<Rightarrow> srrip_loop mc_ways es'))"

definition mcache_find_victim_srrip :: "MCache \<Rightarrow> u32 \<Rightarrow> (u32 \<times> MCache) res" where
  "mcache_find_victim_srrip c setid =
     (case srrip_loop (way_indices c setid) (mc_entries c) of
        None \<Rightarrow> Inl NoReturn
      | Some (Inl f) \<Rightarrow> Inl f
      | Some (Inr (i, es)) \<Rightarrow> Inr (of_nat i, c\<lparr>mc_entries := es\<rparr>))"

text \<open>The loop variable and its bounds are of type \<open>int\<close> here.\<close>

primrec find_invalid :: "MCache_Entry list \<Rightarrow> int list \<Rightarrow> int option res" where
  "find_invalid es [] = Inr None"
| "find_invalid es (i # is) = bindE (vget es i) (\<lambda>e. if \<not> me_valid e then Inr (Some i) else find_invalid es is)"

definition mcache_find_victim :: "(nat \<Rightarrow> int) \<Rightarrow> nat \<Rightarrow> MCache \<Rightarrow> u32 \<Rightarrow> (u32 \<times> nat \<times> MCache) res" where
  "mcache_find_victim rnd pos c setid =
     (let start = sint (setid * mc_assocs c); stop = sint (word_of_int start + mc_assocs c) in
      bindE (find_invalid (mc_entries c) [start..stop - 1]) (\<lambda>free.
      case free of
        Some i \<Rightarrow> Inr (word_of_int i, pos, c)
      | None \<Rightarrow>
          (case mc_repl_policy c of
             REPL_LRU \<Rightarrow> bindE (mcache_find_victim_lru c setid) (\<lambda>v. Inr (v, pos, c))
           | REPL_RND \<Rightarrow> bindE (mcache_find_victim_rnd rnd pos c setid) (\<lambda>(v, pos). Inr (v, pos, c))
           | REPL_SRRIP \<Rightarrow> bindE (mcache_find_victim_srrip c setid) (\<lambda>(v, c). Inr (v, pos, c))
           | NUM_REPL_POLICY \<Rightarrow> Inl AssertFailed)))"

definition mcache_install :: "(nat \<Rightarrow> int) \<Rightarrow> nat \<Rightarrow> MCache \<Rightarrow> u64 \<Rightarrow> (nat \<times> MCache) res" where
  "mcache_install rnd pos c addr =
     bindE (mcache_get_index c addr) (\<lambda>setid.
     let c = c\<lparr>evicted_dirty_line := False\<rparr> in
     bindE (find_entry (mc_matches addr) (mc_entries c) (way_indices c setid)) (\<lambda>hit.
     bindE (checkE ExitFailure (hit = None)) (\<lambda>_.
     bindE (mcache_find_victim rnd pos c setid) (\<lambda>(victim, pos, c).
     bindE (vget (mc_entries c) (uint victim)) (\<lambda>entry.
     let c = (if me_valid entry
              then let c = c\<lparr>s_evict := s_evict c + 1\<rparr>
                   in if me_dirty entry then c\<lparr>evicted_dirty_line := True, evicted_line_addr := me_tag entry\<rparr> else c
              else c) in
     bindE (vset (mc_entries c) (uint victim)
       (entry\<lparr>me_tag := addr, me_valid := True, me_dirty := False, me_ripctr := MCACHE_SRRIP_INIT,
              me_last_access := s_count c\<rparr>)) (\<lambda>es.
     Inr (pos, c\<lparr>mc_entries := es, touched_lineid := sint victim, touched_setid := sint setid,
       touched_wayid := sint (victim - setid * mc_assocs c)\<rparr>)))))))"

section \<open>The abstract cache\<close>

text \<open>What the cache stands for: the lines it holds, with their dirty bits.\<close>

definition lines_of :: "MCache_Entry list \<Rightarrow> u64 \<rightharpoonup> bool" where
  "lines_of es = map_of (map (\<lambda>e. (me_tag e, me_dirty e)) (filter me_valid es))"

abbreviation mc_lines :: "MCache \<Rightarrow> u64 \<rightharpoonup> bool" where
  "mc_lines c \<equiv> lines_of (mc_entries c)"

definition mc_home :: "MCache \<Rightarrow> u64 \<Rightarrow> nat" where
  "mc_home c a = unat a mod unat (mc_sets c)"

text \<open>Every line sits in its own set, and no line is cached twice.\<close>

definition mc_placed :: "nat \<Rightarrow> nat \<Rightarrow> MCache_Entry list \<Rightarrow> bool" where
  "mc_placed S A es \<longleftrightarrow> (\<forall>i<length es. me_valid (es ! i) \<longrightarrow> unat (me_tag (es ! i)) mod S = i div A)"

definition cache_wf :: "MCache \<Rightarrow> bool" where
  "cache_wf c \<longleftrightarrow> mc_index_policy c = 0 \<and> 0 < mc_sets c \<and> 0 < mc_assocs c \<and> mc_repl_policy c \<noteq> NUM_REPL_POLICY \<and>
     unat (mc_sets c) * unat (mc_assocs c) < 2 ^ 31 \<and>
     length (mc_entries c) = unat (mc_sets c) * unat (mc_assocs c) \<and>
     mc_placed (unat (mc_sets c)) (unat (mc_assocs c)) (mc_entries c) \<and>
     distinct (map me_tag (filter me_valid (mc_entries c)))"

lemma distinct_filter_nth:
  "distinct (map f (filter p xs)) \<longleftrightarrow> (\<forall>i<length xs. \<forall>j<length xs. p (xs ! i) \<longrightarrow> p (xs ! j) \<longrightarrow> f (xs ! i) = f (xs ! j) \<longrightarrow> i = j)"
proof (induction xs)
  case (Cons x xs)
  have "distinct (map f (filter p (x # xs))) \<longleftrightarrow> (p x \<longrightarrow> (\<forall>j<length xs. p (xs ! j) \<longrightarrow> f (xs ! j) \<noteq> f x)) \<and> distinct (map f (filter p xs))"
    by (auto simp: in_set_conv_nth image_iff)
  then show ?case unfolding Cons.IH length_Cons All_less_Suc2 nth_Cons_0 nth_Cons_Suc by auto
qed simp

lemma lines_of_iff:
  "distinct (map me_tag (filter me_valid es)) \<Longrightarrow>
    lines_of es a = Some d \<longleftrightarrow> (\<exists>i<length es. mc_matches a (es ! i) \<and> me_dirty (es ! i) = d)"
  unfolding lines_of_def mc_matches_def by (subst map_of_eq_Some_iff) (auto simp: comp_def in_set_conv_nth)

lemma lines_of_None:
  "distinct (map me_tag (filter me_valid es)) \<Longrightarrow> lines_of es a = None \<longleftrightarrow> (\<forall>i<length es. \<not> mc_matches a (es ! i))"
  using lines_of_iff [of es a] by (cases "lines_of es a") auto

lemma distinct_update:
  assumes "distinct (map me_tag (filter me_valid es))" "i < length es"
    and "me_valid e \<Longrightarrow> \<forall>j<length es. j \<noteq> i \<longrightarrow> \<not> mc_matches (me_tag e) (es ! j)"
  shows "distinct (map me_tag (filter me_valid (es[i := e])))"
  using assms unfolding distinct_filter_nth mc_matches_def by (auto simp: nth_list_update)

lemma lines_update:
  assumes d: "distinct (map me_tag (filter me_valid es))" and i: "i < length es"
    and "me_valid e \<Longrightarrow> \<forall>j<length es. j \<noteq> i \<longrightarrow> \<not> mc_matches (me_tag e) (es ! j)"
  shows "lines_of (es[i := e]) a =
    (if mc_matches a e then Some (me_dirty e) else if mc_matches a (es ! i) then None else lines_of es a)"
proof -
  note d' = distinct_update [OF assms]
  consider "mc_matches a e" | "\<not> mc_matches a e" "mc_matches a (es ! i)" | "\<not> mc_matches a e" "\<not> mc_matches a (es ! i)" by blast
  then show ?thesis
  proof cases
    case 1
    then have "lines_of (es[i := e]) a = Some (me_dirty e)" using i by (auto simp: lines_of_iff [OF d'] intro!: exI [of _ i])
    then show ?thesis using 1 by simp
  next
    case 2
    then have "\<forall>j<length es. \<not> mc_matches a (es[i := e] ! j)"
      using d i by (auto simp: nth_list_update mc_matches_def distinct_filter_nth)
    then show ?thesis using 2 by (simp add: lines_of_None [OF d'])
  next
    case 3
    then have m: "mc_matches a (es[i := e] ! j) \<longleftrightarrow> mc_matches a (es ! j)" "mc_matches a (es ! j) \<Longrightarrow> es[i := e] ! j = es ! j"
      if "j < length es" for j using that i by (cases "j = i"; auto)+
    show ?thesis
    proof (cases "lines_of es a")
      case None
      then have "lines_of (es[i := e]) a = None" using m by (simp add: lines_of_None [OF d'] lines_of_None [OF d])
      then show ?thesis using 3 None by simp
    next
      case (Some x)
      then obtain j where "j < length es" "mc_matches a (es ! j)" "me_dirty (es ! j) = x" by (auto simp: lines_of_iff [OF d])
      then have "lines_of (es[i := e]) a = Some x" using m [of j] by (auto simp: lines_of_iff [OF d'] intro!: exI [of _ j])
      then show ?thesis using 3 Some by simp
    qed
  qed
qed

lemma find_entry_find:
  "\<forall>i\<in>set is. i < length es \<Longrightarrow> find_entry p es is = Inr (find (\<lambda>i. p (es ! i)) is)"
  by (induction "is") (auto simp: inrange_def)

section \<open>Indexing\<close>

lemma get_index:
  assumes "cache_wf c"
  obtains s where "mcache_get_index c a = Inr s" "unat s = mc_home c a" "unat s < unat (mc_sets c)"
proof -
  have S: "0 < unat (mc_sets c)" using assms by (simp add: cache_wf_def unat_gt_0 word_neq_0_conv)
  have u: "unat (ucast (mc_sets c) :: u64) = unat (mc_sets c)" by (simp add: unsigned_ucast_eq take_bit_nat_eq_self order.strict_trans [OF unsigned_less])
  have "(ucast (mc_sets c) :: u64) \<noteq> 0" using S u by (metis less_irrefl unat_0)
  then have "mcache_get_index c a = Inr (ucast (a mod ucast (mc_sets c)))"
    using assms by (simp add: mcache_get_index_def cache_wf_def)
  moreover have "unat (ucast (a mod ucast (mc_sets c)) :: u32) = mc_home c a"
  proof -
    have "unat (a mod ucast (mc_sets c)) = mc_home c a" by (simp add: unat_mod_distrib u mc_home_def)
    moreover have "unat (mc_sets c) < 2 ^ 32" using unsigned_less [of "mc_sets c"] by simp
    then have "mc_home c a < 2 ^ 32" using mod_less_divisor [OF S, of "unat a"] by (simp add: mc_home_def)
    ultimately show ?thesis by (simp add: unsigned_ucast_eq take_bit_nat_eq_self)
  qed
  moreover have "mc_home c a < unat (mc_sets c)" using S by (simp add: mc_home_def)
  ultimately show ?thesis using that by metis
qed

text \<open>The ways of set \<open>s\<close>.\<close>

definition mc_ways :: "MCache \<Rightarrow> nat \<Rightarrow> nat list" where
  "mc_ways c s = [s * unat (mc_assocs c)..<s * unat (mc_assocs c) + unat (mc_assocs c)]"

lemma set_ways: "i \<in> set (mc_ways c s) \<longleftrightarrow> 0 < unat (mc_assocs c) \<and> i div unat (mc_assocs c) = s"
proof (cases "unat (mc_assocs c) = 0")
  case False
  then have "s * unat (mc_assocs c) \<le> i \<and> i < Suc s * unat (mc_assocs c) \<longleftrightarrow> s \<le> i div unat (mc_assocs c) \<and> i div unat (mc_assocs c) < Suc s"
    by (simp only: less_eq_div_iff_mult_less_eq div_less_iff_less_mult)
  then show ?thesis using False by (auto simp: mc_ways_def add.commute)
qed (simp add: mc_ways_def)

lemma cache_wfD:
  assumes "cache_wf c"
  shows "0 < unat (mc_sets c)" "0 < unat (mc_assocs c)" "unat (mc_sets c) * unat (mc_assocs c) < 2 ^ 31"
    "length (mc_entries c) = unat (mc_sets c) * unat (mc_assocs c)" "distinct (map me_tag (filter me_valid (mc_entries c)))"
    "mc_placed (unat (mc_sets c)) (unat (mc_assocs c)) (mc_entries c)"
  using assms by (simp_all add: cache_wf_def unat_gt_0 word_neq_0_conv)

lemma home_less: "cache_wf c \<Longrightarrow> mc_home c a < unat (mc_sets c)"
  using cache_wfD(1) [of c] by (simp add: mc_home_def)

lemma ways_bound:
  assumes "cache_wf c" "s < unat (mc_sets c)"
  shows "s * unat (mc_assocs c) + unat (mc_assocs c) \<le> length (mc_entries c)"
proof -
  have "Suc s * unat (mc_assocs c) \<le> unat (mc_sets c) * unat (mc_assocs c)" using assms(2) by (intro mult_le_mono) auto
  then show ?thesis using cache_wfD(4) [OF assms(1)] by simp
qed

lemma start_unat:
  assumes "cache_wf c" "unat s < unat (mc_sets c)"
  shows "unat (s * mc_assocs c) = unat s * unat (mc_assocs c)"
    "unat (s * mc_assocs c + mc_assocs c) = unat s * unat (mc_assocs c) + unat (mc_assocs c)"
proof -
  have b: "unat s * unat (mc_assocs c) + unat (mc_assocs c) < 2 ^ 32"
    using ways_bound [OF assms] cache_wfD(3,4) [OF assms(1)] by simp
  then show u: "unat (s * mc_assocs c) = unat s * unat (mc_assocs c)" by (simp add: unat_word_ariths)
  show "unat (s * mc_assocs c + mc_assocs c) = unat s * unat (mc_assocs c) + unat (mc_assocs c)"
    unfolding unat_word_ariths u using b by simp
qed

lemma way_indices_ways: "cache_wf c \<Longrightarrow> unat s < unat (mc_sets c) \<Longrightarrow> way_indices c s = mc_ways c (unat s)"
  by (simp add: way_indices_def mc_ways_def start_unat)

lemma ways_in_range: "cache_wf c \<Longrightarrow> s < unat (mc_sets c) \<Longrightarrow> i \<in> set (mc_ways c s) \<Longrightarrow> i < length (mc_entries c)"
  using ways_bound [of c s] by (simp add: mc_ways_def)

text \<open>Searching the ways of its set finds a line exactly when it is cached.\<close>

definition mc_slot :: "MCache \<Rightarrow> u64 \<Rightarrow> nat option" where
  "mc_slot c a = find (\<lambda>i. mc_matches a (mc_entries c ! i)) (mc_ways c (mc_home c a))"

lemma search_ways:
  assumes "cache_wf c" "mcache_get_index c a = Inr s" "unat s = mc_home c a" "unat s < unat (mc_sets c)"
  shows "find_entry (mc_matches a) (mc_entries c) (way_indices c s) = Inr (mc_slot c a)"
  using assms ways_in_range [OF assms(1,4)] by (subst find_entry_find) (auto simp: mc_slot_def way_indices_ways)

lemma slot_Some:
  assumes "cache_wf c" "mc_slot c a = Some i"
  shows "i < length (mc_entries c)" "mc_matches a (mc_entries c ! i)" "mc_lines c a = Some (me_dirty (mc_entries c ! i))"
proof -
  have "i \<in> set (mc_ways c (mc_home c a))" "mc_matches a (mc_entries c ! i)" using assms(2) by (auto simp: mc_slot_def find_Some_iff)
  then show i: "i < length (mc_entries c)" "mc_matches a (mc_entries c ! i)"
    using ways_in_range [OF assms(1), of "mc_home c a" i] home_less [OF assms(1)] by auto
  then show "mc_lines c a = Some (me_dirty (mc_entries c ! i))" by (auto simp: lines_of_iff [OF cache_wfD(5) [OF assms(1)]])
qed

lemma slot_None: "cache_wf c \<Longrightarrow> mc_slot c a = None \<longleftrightarrow> mc_lines c a = None"
proof -
  assume wf: "cache_wf c"
  have "i \<in> set (mc_ways c (mc_home c a))" if "i < length (mc_entries c)" "mc_matches a (mc_entries c ! i)" for i
    using that cache_wfD(2,6) [OF wf] by (auto simp: set_ways mc_placed_def mc_matches_def mc_home_def)
  then show ?thesis using ways_in_range [OF wf home_less [OF wf]]
    by (auto simp: mc_slot_def find_None_iff lines_of_None [OF cache_wfD(5) [OF wf]])
qed

text \<open>Changing an entry without changing its tag.\<close>

lemma cache_wf_update:
  assumes "cache_wf c" "i < length (mc_entries c)"
    and "me_valid e \<Longrightarrow> unat (me_tag e) mod unat (mc_sets c) = i div unat (mc_assocs c)"
    and "me_valid e \<Longrightarrow> \<forall>j<length (mc_entries c). j \<noteq> i \<longrightarrow> \<not> mc_matches (me_tag e) (mc_entries c ! j)"
    and "mc_index_policy c' = mc_index_policy c" "mc_sets c' = mc_sets c" "mc_assocs c' = mc_assocs c"
      "mc_repl_policy c' = mc_repl_policy c" "mc_entries c' = (mc_entries c)[i := e]"
  shows "cache_wf c'"
  using assms distinct_update [OF cache_wfD(5) [OF assms(1)] assms(2,4)] unfolding cache_wf_def mc_placed_def
  by (auto simp: nth_list_update)

lemma only_slot: "cache_wf c \<Longrightarrow> mc_matches a (mc_entries c ! i) \<Longrightarrow> i < length (mc_entries c) \<Longrightarrow>
    \<forall>j<length (mc_entries c). j \<noteq> i \<longrightarrow> \<not> mc_matches a (mc_entries c ! j)"
  using cache_wfD(5) [of c] by (auto simp: distinct_filter_nth mc_matches_def)

section \<open>Lookups\<close>

text \<open>A change of an entry that keeps its tag, and whether it is valid.\<close>

lemma retouch:
  assumes "cache_wf c" "mc_slot c a = Some i" "me_valid e" "me_tag e = a"
  shows "lines_of ((mc_entries c)[i := e]) = (mc_lines c)(a \<mapsto> me_dirty e)"
    and "mc_index_policy c' = mc_index_policy c \<Longrightarrow> mc_sets c' = mc_sets c \<Longrightarrow> mc_assocs c' = mc_assocs c \<Longrightarrow>
      mc_repl_policy c' = mc_repl_policy c \<Longrightarrow> mc_entries c' = (mc_entries c)[i := e] \<Longrightarrow> cache_wf c'"
proof -
  note i = slot_Some [OF assms(1,2)]
  note o = only_slot [OF assms(1) i(2,1)]
  show "lines_of ((mc_entries c)[i := e]) = (mc_lines c)(a \<mapsto> me_dirty e)"
    by (rule ext, subst lines_update [OF cache_wfD(5) [OF assms(1)] i(1)])
      (use o assms(3,4) i(2) in \<open>auto simp: mc_matches_def\<close>)
  show "cache_wf c'" if "mc_index_policy c' = mc_index_policy c" "mc_sets c' = mc_sets c" "mc_assocs c' = mc_assocs c"
      "mc_repl_policy c' = mc_repl_policy c" "mc_entries c' = (mc_entries c)[i := e]"
    by (rule cache_wf_update [OF assms(1) i(1) _ _ that])
      (use o assms(4) i(1,2) cache_wfD(6) [OF assms(1)] in \<open>auto simp: mc_placed_def mc_matches_def\<close>)
qed

lemma access_spec:
  assumes wf: "cache_wf c"
  shows "okE (mcache_access c a) (\<lambda>(hit, c'). cache_wf c' \<and> mc_lines c' = mc_lines c \<and> hit = (mc_lines c a \<noteq> None) \<and>
    s_count c' = s_count c + 1 \<and> s_miss c' = (if hit then s_miss c else s_miss c + 1))"
proof -
  obtain s where s: "mcache_get_index c a = Inr s" "unat s = mc_home c a" "unat s < unat (mc_sets c)" by (rule get_index [OF wf])
  let ?c = "c\<lparr>s_count := s_count c + 1\<rparr>"
  have f: "find_entry (mc_matches a) (mc_entries c) (way_indices ?c s) = Inr (mc_slot c a)"
    using search_ways [OF wf s] by (simp add: way_indices_def)
  show ?thesis
  proof (cases "mc_slot c a")
    case None
    then show ?thesis using wf s f slot_None [OF wf, of a] by (simp add: mcache_access_def cache_wf_def)
  next
    case (Some i)
    note i = slot_Some [OF wf Some]
    have r: "inrange (int i) (mc_entries c)" using i(1) by (simp add: inrange_def)
    let ?e = "(mc_entries c ! i)\<lparr>me_last_access := s_count c + 1, me_ripctr := MCACHE_SRRIP_MAX\<rparr>"
    note t = retouch [OF wf Some, of ?e]
    have "(mc_lines c)(a \<mapsto> me_dirty (mc_entries c ! i)) = mc_lines c" using i(3) by (rule map_upd_triv)
    then show ?thesis using s f Some i r t by (simp add: mcache_access_def mc_matches_def)
  qed
qed

lemma probe_spec: "cache_wf c \<Longrightarrow> mcache_probe c a = Inr (mc_lines c a \<noteq> None)"
  by (rule get_index [of c a]) (simp_all add: mcache_probe_def search_ways slot_None [of c a, symmetric])

lemma mark_dirty_spec:
  assumes wf: "cache_wf c"
  shows "okE (mcache_mark_dirty c a) (\<lambda>(found, c'). cache_wf c' \<and> found = (mc_lines c a \<noteq> None) \<and>
    mc_lines c' = (if found then (mc_lines c)(a \<mapsto> True) else mc_lines c))"
proof -
  obtain s where s: "mcache_get_index c a = Inr s" "unat s = mc_home c a" "unat s < unat (mc_sets c)" by (rule get_index [OF wf])
  note f = search_ways [OF wf s]
  show ?thesis
  proof (cases "mc_slot c a")
    case None
    then show ?thesis using wf s f slot_None [OF wf, of a] by (simp add: mcache_mark_dirty_def)
  next
    case (Some i)
    note i = slot_Some [OF wf Some]
    have r: "inrange (int i) (mc_entries c)" using i(1) by (simp add: inrange_def)
    note t = retouch [OF wf Some, of "(mc_entries c ! i)\<lparr>me_dirty := True\<rparr>"]
    show ?thesis using s f Some i r t by (simp add: mcache_mark_dirty_def mc_matches_def)
  qed
qed

lemma invalidate_spec:
  assumes wf: "cache_wf c"
  shows "okE (mcache_invalidate c a) (\<lambda>(found, c'). cache_wf c' \<and> found = (mc_lines c a \<noteq> None) \<and> mc_lines c' = (mc_lines c)(a := None))"
proof -
  obtain s where s: "mcache_get_index c a = Inr s" "unat s = mc_home c a" "unat s < unat (mc_sets c)" by (rule get_index [OF wf])
  note f = search_ways [OF wf s]
  show ?thesis
  proof (cases "mc_slot c a")
    case None
    then have "(mc_lines c)(a := None) = mc_lines c" using slot_None [OF wf] by auto
    then show ?thesis using None wf s f slot_None [OF wf, of a] by (simp add: mcache_invalidate_def)
  next
    case (Some i)
    note i = slot_Some [OF wf Some]
    have r: "inrange (int i) (mc_entries c)" using i(1) by (simp add: inrange_def)
    let ?e = "(mc_entries c ! i)\<lparr>me_valid := False\<rparr>"
    have "cache_wf (c\<lparr>mc_entries := (mc_entries c)[i := ?e]\<rparr>)"
      by (rule cache_wf_update [OF wf i(1)]) auto
    moreover have "lines_of ((mc_entries c)[i := ?e]) = (mc_lines c)(a := None)"
      by (rule ext, subst lines_update [OF cache_wfD(5) [OF wf] i(1)]) (use i(2) in \<open>auto simp: mc_matches_def\<close>)
    ultimately show ?thesis using s f Some i r by (simp add: mcache_invalidate_def)
  qed
qed

section \<open>Victims\<close>

lemma lru_scan_least:
  assumes "\<forall>i\<in>set is. i < length es" "l < length es"
  shows "okE (lru_scan es is l) (\<lambda>v. v \<in> set (l # is) \<and> (\<forall>i\<in>set (l # is). me_last_access (es ! v) \<le> me_last_access (es ! i)))"
  using assms
proof (induction "is" arbitrary: l)
  case (Cons i "is")
  let ?l = "if me_last_access (es ! i) < me_last_access (es ! l) then i else l"
  have "okE (lru_scan es is ?l) (\<lambda>v. v \<in> set (?l # is) \<and> (\<forall>i\<in>set (?l # is). me_last_access (es ! v) \<le> me_last_access (es ! i)))"
    using Cons by simp
  then show ?case using Cons.prems by (auto simp: inrange_def elim!: okE_mono split: if_splits)
qed simp

text \<open>Entries that agree up to the counters of the SRRIP policy.\<close>

definition same_lines :: "MCache_Entry list \<Rightarrow> MCache_Entry list \<Rightarrow> bool" where
  "same_lines es es' \<longleftrightarrow> map (\<lambda>e. e\<lparr>me_ripctr := 0\<rparr>) es = map (\<lambda>e. e\<lparr>me_ripctr := 0\<rparr>) es'"

lemma same_lines_nth: "same_lines es es' \<longleftrightarrow> length es = length es' \<and> (\<forall>i<length es. (es ! i)\<lparr>me_ripctr := 0\<rparr> = (es' ! i)\<lparr>me_ripctr := 0\<rparr>)"
  by (auto simp: same_lines_def list_eq_iff_nth_eq)

lemma foldE_age:
  "distinct is \<Longrightarrow> \<forall>i\<in>set is. i < length es \<Longrightarrow>
    \<exists>es'. foldE age_entry is es = Inr es' \<and> length es' = length es \<and>
      (\<forall>j<length es. es' ! j = (if j \<in> set is then (es ! j)\<lparr>me_ripctr := me_ripctr (es ! j) - 1\<rparr> else es ! j))"
proof (induction "is" arbitrary: es)
  case (Cons i "is")
  let ?es = "es[i := (es ! i)\<lparr>me_ripctr := me_ripctr (es ! i) - 1\<rparr>]"
  have a: "age_entry i es = Inr ?es" using Cons.prems by (simp add: age_entry_def inrange_def)
  obtain es' where "foldE age_entry is ?es = Inr es'" "length es' = length es"
    "\<forall>j<length es. es' ! j = (if j \<in> set is then (?es ! j)\<lparr>me_ripctr := me_ripctr (?es ! j) - 1\<rparr> else ?es ! j)"
    using Cons.IH [of ?es] Cons.prems by auto
  then show ?case using a Cons.prems by (auto simp: nth_list_update)
qed simp

lemma srrip_loop_result:
  assumes "distinct is" "\<forall>i\<in>set is. i < length es \<and> k \<le> unat (me_ripctr (es ! i))"
    and "find (\<lambda>i. unat (me_ripctr (es ! i)) = k) is = Some v"
  shows "\<exists>es'. srrip_loop is es = Some (Inr (v, es')) \<and> length es' = length es \<and>
    (\<forall>j<length es. es' ! j = (if j \<in> set is then (es ! j)\<lparr>me_ripctr := me_ripctr (es ! j) - of_nat k\<rparr> else es ! j))"
  using assms
proof (induction k arbitrary: es)
  case 0
  then have "find (\<lambda>i. me_ripctr (es ! i) = 0) is = Some v" by (simp add: unat_eq_0)
  then show ?case using 0 by (auto simp: srrip_loop.simps [of _ es] find_entry_find)
next
  case (Suc k)
  have nz: "unat (me_ripctr (es ! i)) \<noteq> 0" if "i \<in> set is" for i using that Suc.prems(2) by fastforce
  then have "find (\<lambda>i. me_ripctr (es ! i) = 0) is = None" by (force simp: find_None_iff)
  moreover obtain es1 where e1: "foldE age_entry is es = Inr es1" "length es1 = length es"
    "\<forall>j<length es. es1 ! j = (if j \<in> set is then (es ! j)\<lparr>me_ripctr := me_ripctr (es ! j) - 1\<rparr> else es ! j)"
    using foldE_age [of "is" es] Suc.prems by auto
  ultimately have l: "srrip_loop is es = srrip_loop is es1"
    using Suc.prems(2) by (simp add: srrip_loop.simps [of _ es] find_entry_find)
  have u: "unat (me_ripctr (es1 ! i)) = unat (me_ripctr (es ! i)) - 1" if "i \<in> set is" for i
    using that nz [of i] e1(3) Suc.prems(2) by (simp add: unat_minus_one unat_eq_0 [symmetric])
  have "unat (me_ripctr (es1 ! i)) = k \<longleftrightarrow> unat (me_ripctr (es ! i)) = Suc k" if "i \<in> set is" for i
    using u [OF that] nz [OF that] by linarith
  then have "find (\<lambda>i. unat (me_ripctr (es1 ! i)) = k) is = Some v"
    using Suc.prems(3) find_cong [of "is" "is" "\<lambda>i. unat (me_ripctr (es1 ! i)) = k" "\<lambda>i. unat (me_ripctr (es ! i)) = Suc k"] by simp
  moreover have "\<forall>i\<in>set is. i < length es1 \<and> k \<le> unat (me_ripctr (es1 ! i))" using u Suc.prems(2) e1(2) by fastforce
  ultimately obtain es' where "srrip_loop is es1 = Some (Inr (v, es'))" "length es' = length es1"
    "\<forall>j<length es1. es' ! j = (if j \<in> set is then (es1 ! j)\<lparr>me_ripctr := me_ripctr (es1 ! j) - of_nat k\<rparr> else es1 ! j)"
    using Suc.IH [OF Suc.prems(1)] by blast
  then show ?case using l e1 by (auto simp: algebra_simps)
qed

text \<open>The first way of a set whose counter is least.\<close>

definition oldest :: "MCache \<Rightarrow> nat \<Rightarrow> nat \<Rightarrow> bool" where
  "oldest c s v \<longleftrightarrow> v \<in> set (mc_ways c s) \<and>
     (\<forall>i\<in>set (mc_ways c s). me_ripctr (mc_entries c ! v) \<le> me_ripctr (mc_entries c ! i) \<and>
       (i < v \<longrightarrow> me_ripctr (mc_entries c ! v) < me_ripctr (mc_entries c ! i)))"

definition lowered :: "MCache \<Rightarrow> nat \<Rightarrow> u32 \<Rightarrow> MCache_Entry list" where
  "lowered c s k = map (\<lambda>j. if j \<in> set (mc_ways c s) then (mc_entries c ! j)\<lparr>me_ripctr := me_ripctr (mc_entries c ! j) - k\<rparr> else mc_entries c ! j)
     [0..<length (mc_entries c)]"

lemma find_upt_first: "find P [a..<b] = Some v \<Longrightarrow> a \<le> v \<and> v < b \<and> P v \<and> (\<forall>i. a \<le> i \<and> i < v \<longrightarrow> \<not> P i)"
  by (auto simp: find_Some_iff) (metis add_diff_inverse_nat diff_less_mono leD nat_add_left_cancel_less)

lemma srrip_spec:
  assumes wf: "cache_wf c" and s: "unat s < unat (mc_sets c)"
  shows "okE (mcache_find_victim_srrip c s) (\<lambda>(v, c').
    oldest c (unat s) (unat v) \<and> c' = c\<lparr>mc_entries := lowered c (unat s) (me_ripctr (mc_entries c ! unat v))\<rparr>)"
proof -
  let ?w = "mc_ways c (unat s)" let ?r = "\<lambda>i. unat (me_ripctr (mc_entries c ! i))"
  define k where "k = Min (?r ` set ?w)"
  have ne: "set ?w \<noteq> {}" using cache_wfD(2) [OF wf] by (simp add: mc_ways_def)
  then have k: "k \<in> ?r ` set ?w" "\<And>i. i \<in> set ?w \<Longrightarrow> k \<le> ?r i" unfolding k_def by (auto intro: Min_in)
  then obtain v where v: "find (\<lambda>i. ?r i = k) ?w = Some v" by (cases "find (\<lambda>i. ?r i = k) ?w") (auto simp: find_None_iff)
  obtain es' where es: "srrip_loop ?w (mc_entries c) = Some (Inr (v, es'))" "length es' = length (mc_entries c)"
    "\<forall>j<length (mc_entries c). es' ! j = (if j \<in> set ?w then (mc_entries c ! j)\<lparr>me_ripctr := me_ripctr (mc_entries c ! j) - of_nat k\<rparr> else mc_entries c ! j)"
    using srrip_loop_result [OF _ _ v] k(2) ways_in_range [OF wf s] by (auto simp: mc_ways_def)
  have p: "v \<in> set ?w" "?r v = k" "\<forall>i\<in>set ?w. i < v \<longrightarrow> ?r i \<noteq> k" using find_upt_first [OF v [unfolded mc_ways_def]] by (auto simp: mc_ways_def)
  have vb: "v < 2 ^ 32" using ways_in_range [OF wf s p(1)] cache_wfD(3,4) [OF wf] by simp
  then have uv: "unat (of_nat v :: u32) = v" by (simp add: unat_of_nat)
  have "es' = lowered c (unat s) (me_ripctr (mc_entries c ! v))"
    using es(2,3) p(2) by (auto simp: lowered_def intro!: nth_equalityI)
  moreover have "oldest c (unat s) v" using p k(2) by (fastforce simp: oldest_def word_le_nat_alt word_less_nat_alt)
  ultimately show ?thesis using es(1) uv by (simp add: mcache_find_victim_srrip_def way_indices_ways [OF wf s])
qed

lemma find_invalid_find:
  "\<forall>i\<in>set is. i < length es \<Longrightarrow> find_invalid es (map int is) = Inr (map_option int (find (\<lambda>i. \<not> me_valid (es ! i)) is))"
  by (induction "is") (auto simp: inrange_def)

lemma upto_map_int: "[int a..int b - 1] = map int [a..<b]"
proof (induction b)
  case (Suc b)
  show ?case
  proof (cases "a \<le> b")
    case True
    then have "[int a..int b] = [int a..int b - 1] @ [int b]" by (intro upto_rec2) simp
    then show ?thesis using Suc True by simp
  qed simp
qed simp

lemma lowered_same: "length (lowered c s k) = length (mc_entries c)" "i < length (mc_entries c) \<Longrightarrow>
    (lowered c s k ! i)\<lparr>me_ripctr := 0\<rparr> = (mc_entries c ! i)\<lparr>me_ripctr := 0\<rparr>"
  by (auto simp: lowered_def)

lemma same_lines_fields:
  assumes "same_lines es es'" "i < length es"
  shows "me_valid (es ! i) = me_valid (es' ! i)" "me_tag (es ! i) = me_tag (es' ! i)" "me_dirty (es ! i) = me_dirty (es' ! i)"
proof -
  have "(es ! i)\<lparr>me_ripctr := 0\<rparr> = (es' ! i)\<lparr>me_ripctr := 0\<rparr>" using assms by (simp add: same_lines_nth)
  then show "me_valid (es ! i) = me_valid (es' ! i)" "me_tag (es ! i) = me_tag (es' ! i)" "me_dirty (es ! i) = me_dirty (es' ! i)"
    by (cases "es ! i", cases "es' ! i", simp)+
qed

lemma same_lines_wf:
  assumes "cache_wf c" "same_lines (mc_entries c) es"
  shows "cache_wf (c\<lparr>mc_entries := es\<rparr>)" "lines_of es = mc_lines c"
proof -
  note f = same_lines_fields [OF assms(2)]
  have len: "length es = length (mc_entries c)" using assms(2) by (simp add: same_lines_nth)
  have d: "distinct (map me_tag (filter me_valid es))"
    using cache_wfD(5) [OF assms(1)] f len unfolding distinct_filter_nth by simp
  then show "cache_wf (c\<lparr>mc_entries := es\<rparr>)" using assms(1) f len by (simp add: cache_wf_def mc_placed_def)
  have "lines_of es a = Some x \<longleftrightarrow> mc_lines c a = Some x" for a x
    unfolding lines_of_iff [OF d] lines_of_iff [OF cache_wfD(5) [OF assms(1)]] using f len by (auto simp: mc_matches_def)
  then show "lines_of es = mc_lines c" by (metis ext option.exhaust)
qed

text \<open>The choice of a victim: a free way if the set has one, otherwise a way of the set that the policy picks.\<close>

definition mc_victim_ok :: "MCache \<Rightarrow> nat \<Rightarrow> u32 \<times> nat \<times> MCache \<Rightarrow> bool" where
  "mc_victim_ok c s = (\<lambda>(v, _, c'). unat v \<in> set (mc_ways c s) \<and>
     ((\<exists>i\<in>set (mc_ways c s). \<not> me_valid (mc_entries c ! i)) \<longrightarrow> \<not> me_valid (mc_entries c ! unat v)) \<and>
     (\<exists>es. same_lines (mc_entries c) es \<and> c' = c\<lparr>mc_entries := es\<rparr>))"

lemma lru_spec:
  assumes wf: "cache_wf c" and s: "unat s < unat (mc_sets c)"
  shows "okE (mcache_find_victim_lru c s) (\<lambda>v. unat v \<in> set (mc_ways c (unat s)) \<and>
    (\<forall>i\<in>set (mc_ways c (unat s)). me_last_access (mc_entries c ! unat v) \<le> me_last_access (mc_entries c ! i)))"
proof -
  let ?w = "mc_ways c (unat s)" and ?l = "unat s * unat (mc_assocs c)"
  have l: "?l \<in> set ?w" using cache_wfD(2) [OF wf] by (simp add: mc_ways_def)
  have b: "i < 2 ^ 32" if "i \<in> set ?w" for i using ways_in_range [OF wf s that] cache_wfD(3,4) [OF wf] by simp
  have "okE (lru_scan (mc_entries c) ?w ?l) (\<lambda>v. v \<in> set (?l # ?w) \<and> (\<forall>i\<in>set (?l # ?w). me_last_access (mc_entries c ! v) \<le> me_last_access (mc_entries c ! i)))"
    using ways_in_range [OF wf s] l by (intro lru_scan_least) auto
  then show ?thesis using l b unfolding mcache_find_victim_lru_def start_unat [OF wf s] way_indices_ways [OF wf s]
    by (auto simp: okE_bindE unat_of_nat elim!: okE_mono)
qed

lemma rnd_spec:
  assumes wf: "cache_wf c" and s: "unat s < unat (mc_sets c)"
  shows "okE (mcache_find_victim_rnd rnd pos c s) (\<lambda>(v, _). unat v \<in> set (mc_ways c (unat s)))"
proof -
  let ?r = "word_of_int (rnd pos) mod mc_assocs c"
  have "unat ?r < unat (mc_assocs c)" using cache_wfD(2) [OF wf] by (simp add: unat_mod_distrib)
  moreover have "unat s * unat (mc_assocs c) + unat (mc_assocs c) < 2 ^ 32"
    using ways_bound [OF wf s] cache_wfD(3,4) [OF wf] by simp
  ultimately have "unat (s * mc_assocs c + ?r) = unat s * unat (mc_assocs c) + unat ?r"
    unfolding unat_word_ariths(1) start_unat(1) [OF wf s] by simp
  moreover have "mc_assocs c \<noteq> 0" using wf by (auto simp: cache_wf_def)
  ultimately show ?thesis using \<open>unat ?r < _\<close> by (simp add: mcache_find_victim_rnd_def mc_ways_def)
qed

lemma sint_unat_small: "unat w < 2 ^ 31 \<Longrightarrow> sint (w :: u32) = int (unat w)"
proof -
  assume "unat w < 2 ^ 31"
  then have "int (unat w) < int (2 ^ 31)" by (simp only: of_nat_less_iff)
  then show ?thesis by (subst sint_u32_small) simp_all
qed

lemma find_victim_spec:
  assumes wf: "cache_wf c" and s: "unat s < unat (mc_sets c)"
  shows "okE (mcache_find_victim rnd pos c s) (mc_victim_ok c (unat s))"
proof -
  let ?w = "mc_ways c (unat s)"
  have b: "unat s * unat (mc_assocs c) + unat (mc_assocs c) < 2 ^ 31" using ways_bound [OF wf s] cache_wfD(3,4) [OF wf] by simp
  have "sint (s * mc_assocs c) = int (unat s * unat (mc_assocs c))"
    using b start_unat(1) [OF wf s] by (subst sint_unat_small) simp_all
  moreover have "sint (s * mc_assocs c + mc_assocs c) = int (unat s * unat (mc_assocs c) + unat (mc_assocs c))"
    using b start_unat(2) [OF wf s] by (subst sint_unat_small) simp_all
  ultimately have i: "[sint (s * mc_assocs c)..sint (s * mc_assocs c + mc_assocs c) - 1] = map int ?w"
    by (simp only: upto_map_int mc_ways_def)
  have f: "find_invalid (mc_entries c) (map int ?w) = Inr (map_option int (find (\<lambda>i. \<not> me_valid (mc_entries c ! i)) ?w))"
    using ways_in_range [OF wf s] by (intro find_invalid_find) auto
  have self: "\<exists>es. same_lines (mc_entries c) es \<and> c = c\<lparr>mc_entries := es\<rparr>" by (intro exI [of _ "mc_entries c"]) (simp add: same_lines_def)
  show ?thesis
  proof (cases "find (\<lambda>i. \<not> me_valid (mc_entries c ! i)) ?w")
    case (Some v)
    then have v: "v \<in> set ?w" "\<not> me_valid (mc_entries c ! v)" by (auto simp: find_Some_iff)
    then have "v < 2 ^ 32" using b by (simp add: mc_ways_def)
    then show ?thesis using Some v self by (simp add: mcache_find_victim_def i f mc_victim_ok_def unat_of_nat)
  next
    case None
    then have n: "\<forall>i\<in>set ?w. me_valid (mc_entries c ! i)" by (auto simp: find_None_iff)
    have sr: "\<exists>es. same_lines (mc_entries c) es \<and> c\<lparr>mc_entries := lowered c (unat s) k\<rparr> = c\<lparr>mc_entries := es\<rparr>" for k
      by (intro exI [of _ "lowered c (unat s) k"]) (simp add: same_lines_nth lowered_same)
    show ?thesis
    proof (cases "mc_repl_policy c")
      case REPL_LRU
      then show ?thesis using None n self lru_spec [OF wf s]
        by (auto simp: mcache_find_victim_def i f mc_victim_ok_def okE_bindE elim!: okE_mono)
    next
      case REPL_RND
      then show ?thesis using None n self rnd_spec [OF wf s, of rnd pos]
        by (auto simp: mcache_find_victim_def i f mc_victim_ok_def okE_bindE elim!: okE_mono)
    next
      case REPL_SRRIP
      then show ?thesis using None n sr srrip_spec [OF wf s]
        by (auto simp: mcache_find_victim_def i f mc_victim_ok_def okE_bindE oldest_def elim!: okE_mono)
    next
      case NUM_REPL_POLICY
      then show ?thesis using wf by (simp add: cache_wf_def)
    qed
  qed
qed

section \<open>Installing a line\<close>

text \<open>What an installation does to the lines: the new line is clean, and at most the line \<open>v\<close> of the same set leaves.\<close>

definition installed :: "MCache \<Rightarrow> u64 \<Rightarrow> MCache \<Rightarrow> u64 \<Rightarrow> bool" where
  "installed c a c' v \<longleftrightarrow> mc_lines c' = (mc_lines c)(v := None, a \<mapsto> False) \<and> mc_home c v = mc_home c a \<and>
     evicted_dirty_line c' = (mc_lines c v = Some True) \<and> (evicted_dirty_line c' \<longrightarrow> evicted_line_addr c' = v) \<and>
     s_evict c' = s_evict c + (if mc_lines c v = None then 0 else 1)"

lemma install_fill:
  assumes wf: "cache_wf c" and a: "mc_lines c a = None" and v: "v \<in> set (mc_ways c (mc_home c a))"
    and es: "same_lines (mc_entries c) es" and e: "me_valid e" "me_tag e = a"
  shows "mc_index_policy c' = mc_index_policy c \<Longrightarrow> mc_sets c' = mc_sets c \<Longrightarrow> mc_assocs c' = mc_assocs c \<Longrightarrow>
      mc_repl_policy c' = mc_repl_policy c \<Longrightarrow> mc_entries c' = es[v := e] \<Longrightarrow> cache_wf c'"
    and "lines_of (es[v := e]) = (if me_valid (es ! v) then (mc_lines c)(me_tag (es ! v) := None) else mc_lines c)(a \<mapsto> me_dirty e)"
proof -
  let ?c = "c\<lparr>mc_entries := es\<rparr>"
  note s = same_lines_wf [OF wf es]
  have len: "length es = length (mc_entries c)" using es by (simp add: same_lines_nth)
  have vb: "v < length es" using ways_in_range [OF wf home_less [OF wf] v] len by simp
  have no: "\<forall>j<length es. \<not> mc_matches a (es ! j)" using a s(2) cache_wfD(5) [OF s(1)] by (simp add: lines_of_None [symmetric])
  have "mc_home c a = v div unat (mc_assocs c)" using v by (simp add: set_ways)
  then show "cache_wf c'" if "mc_index_policy c' = mc_index_policy c" "mc_sets c' = mc_sets c" "mc_assocs c' = mc_assocs c"
      "mc_repl_policy c' = mc_repl_policy c" "mc_entries c' = es[v := e]"
    by (intro cache_wf_update [OF s(1), of v e c']) (use vb no e that in \<open>auto simp: mc_home_def\<close>)
  show "lines_of (es[v := e]) = (if me_valid (es ! v) then (mc_lines c)(me_tag (es ! v) := None) else mc_lines c)(a \<mapsto> me_dirty e)"
    using cache_wfD(5) [OF s(1)] vb no e
    by (intro ext, subst lines_update) (auto simp: mc_matches_def s(2))
qed

lemma install_spec:
  assumes wf: "cache_wf c" and a: "mc_lines c a = None"
  shows "okE (mcache_install rnd pos c a) (\<lambda>(_, c'). cache_wf c' \<and> s_count c' = s_count c \<and> (\<exists>v. installed c a c' v))"
proof -
  obtain s where s: "mcache_get_index c a = Inr s" "unat s = mc_home c a" "unat s < unat (mc_sets c)" by (rule get_index [OF wf])
  let ?c = "c\<lparr>evicted_dirty_line := False\<rparr>"
  have wf0: "cache_wf ?c" using wf by (simp add: cache_wf_def)
  have f: "find_entry (mc_matches a) (mc_entries c) (way_indices ?c s) = Inr None"
    using search_ways [OF wf s] slot_None [OF wf, of a] a by (simp add: way_indices_def)
  have "okE (mcache_find_victim rnd pos ?c s) (mc_victim_ok ?c (unat s))" using find_victim_spec [OF wf0] s(3) by simp
  then obtain v pos' es where v: "mcache_find_victim rnd pos ?c s = Inr (v, pos', ?c\<lparr>mc_entries := es\<rparr>)"
    "unat v \<in> set (mc_ways c (mc_home c a))" "same_lines (mc_entries c) es"
    using s(2) by (auto simp: okE_iff mc_victim_ok_def mc_ways_def)
  have len: "length es = length (mc_entries c)" using v(3) by (simp add: same_lines_nth)
  have vb: "unat v < length es" using ways_in_range [OF wf home_less [OF wf] v(2)] len by simp
  then have r: "inrange (uint v) es" by (simp add: inrange_uint)
  let ?e = "es ! unat v"
  let ?new = "?e\<lparr>me_tag := a, me_valid := True, me_dirty := False, me_ripctr := MCACHE_SRRIP_INIT, me_last_access := s_count c\<rparr>"
  note fill = install_fill [OF wf a v(2,3), of ?new]
  note sl = same_lines_wf [OF wf v(3)]
  have old: "mc_lines c (me_tag ?e) = Some (me_dirty ?e)" if "me_valid ?e"
  proof -
    have "distinct (map me_tag (filter me_valid es))" using cache_wfD(5) [OF sl(1)] by simp
    then have "lines_of es (me_tag ?e) = Some (me_dirty ?e)" using that vb by (auto simp: lines_of_iff mc_matches_def)
    then show ?thesis unfolding sl(2) .
  qed
  have h: "mc_home c (me_tag ?e) = mc_home c a" if "me_valid ?e"
    using that vb cache_wfD(6) [OF sl(1)] v(2) by (auto simp: mc_placed_def mc_home_def set_ways)
  show ?thesis
  proof (cases "me_valid ?e")
    case True
    then have "okE (mcache_install rnd pos c a) (\<lambda>(_, c'). cache_wf c' \<and> s_count c' = s_count c \<and> installed c a c' (me_tag ?e))"
      using s f v(1) r fill old h by (simp add: mcache_install_def installed_def Let_def)
    then show ?thesis by (rule okE_mono) auto
  next
    case False
    then have "okE (mcache_install rnd pos c a) (\<lambda>(_, c'). cache_wf c' \<and> s_count c' = s_count c \<and> installed c a c' a)"
      using s f v(1) r fill a by (simp add: mcache_install_def installed_def Let_def)
    then show ?thesis by (rule okE_mono) auto
  qed
qed

lemma mcache_new_wf:
  assumes "0 < sets" "0 < assocs" "unat sets * unat assocs < 2 ^ 31" "repl \<in> {0, 1, 2}"
  shows "cache_wf (mcache_new sets assocs repl)" "mc_lines (mcache_new sets assocs repl) = Map.empty"
proof -
  have "unat (sets * assocs) = unat sets * unat assocs" using assms(3) by (simp add: unat_word_ariths)
  then show "cache_wf (mcache_new sets assocs repl)" "mc_lines (mcache_new sets assocs repl) = Map.empty"
    using assms by (auto simp: cache_wf_def mcache_new_def to_policy_def mc_placed_def empty_entry_def lines_of_def)
qed

section \<open>Properties\<close>

text \<open>
  C16. Installing a line that is not cached always succeeds and keeps the cache well formed. The lines it holds
  afterwards are the old ones without at most one victim of the same set, plus the new line, clean. The
  eviction is reported as dirty exactly when the victim had been written, and then with the victim's address.
\<close>

theorem mcache_install_replaces_one_line:
  assumes "cache_wf c" "mc_lines c a = None"
  shows "okE (mcache_install rnd pos c a) (\<lambda>(_, c'). cache_wf c' \<and> (\<exists>v. installed c a c' v))"
  using install_spec [OF assms] by (rule okE_mono) auto

definition tiny_llc :: MCache where
  "tiny_llc = mcache_new 2 1 2"

lemma tiny_llc_wf: "cache_wf tiny_llc" "mc_lines tiny_llc = Map.empty"
  using mcache_new_wf [of 2 1 2] by (simp_all add: tiny_llc_def word_less_nat_alt)

theorem mcache_install_replaces_one_line_witness:
  "cache_wf tiny_llc \<and> mc_lines tiny_llc 6 = None \<and> okE (mcache_install (\<lambda>_. 0) 0 tiny_llc 6) (\<lambda>(_, c'). mc_lines c' 6 = Some False)"
proof -
  have "okE (mcache_install (\<lambda>_. 0) 0 tiny_llc 6) (\<lambda>(_, c'). mc_lines c' 6 = Some False)"
    using mcache_install_replaces_one_line [OF tiny_llc_wf(1), of 6 "\<lambda>_. 0" 0] tiny_llc_wf(2)
    by (auto simp: installed_def elim!: okE_mono)
  then show ?thesis using tiny_llc_wf by simp
qed

text \<open>
  C18. The lookups implement a finite map from lines to dirty bits: an access hits exactly the cached lines and
  changes none, marking dirty sets the bit of a cached line only, invalidating removes the line, and probing
  agrees with both. None of them can fail on a well-formed cache, and all keep it well formed.
\<close>

theorem mcache_lookups_refine_map:
  assumes "cache_wf c"
  shows "okE (mcache_access c a) (\<lambda>(hit, c'). cache_wf c' \<and> hit = (a \<in> dom (mc_lines c)) \<and> mc_lines c' = mc_lines c) \<and>
    okE (mcache_mark_dirty c a) (\<lambda>(found, c'). cache_wf c' \<and> found = (a \<in> dom (mc_lines c)) \<and>
      mc_lines c' = (if found then (mc_lines c)(a \<mapsto> True) else mc_lines c)) \<and>
    okE (mcache_invalidate c a) (\<lambda>(found, c'). cache_wf c' \<and> found = (a \<in> dom (mc_lines c)) \<and> mc_lines c' = (mc_lines c)(a := None)) \<and>
    mcache_probe c a = Inr (a \<in> dom (mc_lines c))"
  using access_spec [OF assms, of a] mark_dirty_spec [OF assms, of a] invalidate_spec [OF assms, of a] probe_spec [OF assms, of a]
  by (auto simp: dom_def elim!: okE_mono)

theorem mcache_lookups_refine_map_witness:
  "cache_wf tiny_llc \<and> mcache_probe tiny_llc 6 = Inr False"
  using mcache_lookups_refine_map [OF tiny_llc_wf(1), of 6] tiny_llc_wf by simp

text \<open>
  C17. The ageing loop of the SRRIP policy ends for every set of a well-formed cache, whatever the counters are:
  it returns the first way whose counter is least, and it has lowered every counter of the set by that value
  and touched no other entry.
\<close>

theorem srrip_victim_search_ends:
  assumes "cache_wf c" "unat s < unat (mc_sets c)"
  shows "\<exists>v. oldest c (unat s) (unat v) \<and> mcache_find_victim_srrip c s =
    Inr (v, c\<lparr>mc_entries := lowered c (unat s) (me_ripctr (mc_entries c ! unat v))\<rparr>)"
  using srrip_spec [OF assms] by (auto simp: okE_iff)

theorem srrip_victim_search_ends_witness:
  "cache_wf tiny_llc \<and> (\<exists>v c'. oldest tiny_llc 1 (unat v) \<and> mcache_find_victim_srrip tiny_llc 1 = Inr (v, c'))"
  using srrip_victim_search_ends [OF tiny_llc_wf(1), of 1] tiny_llc_wf(1) by (auto simp: tiny_llc_def mcache_new_def)

end
