(* ===== verification/Memsim_OS.thy ===== *)
theory Memsim_OS
  imports Prelude
begin

text \<open>
  memsim/os.h and os.c: the page tables of the processor model. Each pair of a thread and a virtual page gets a
  physical page at its first use, drawn at random among the free ones. The stream of \<open>rand()\<close> and the position
  in it are parameters.
\<close>

section \<open>The page table\<close>

record OS =
  os_pt :: "u64 \<rightharpoonup> u64"
  os_ipt :: "bool list"
  os_lines_in_page :: u32
  os_num_threads :: u32
  os_num_pages :: u64
  os_s_miss_count :: u64

definition LINESIZE :: u64 where "LINESIZE = 64"

definition os_new :: "u32 \<Rightarrow> u32 \<Rightarrow> u32 \<Rightarrow> OS res" where
  "os_new pagesize num_pages num_threads =
     bindE (udiv pagesize (ucast LINESIZE)) (\<lambda>lines.
     bindE (vset (replicate (unat num_pages) False) 0 True) (\<lambda>ipt.
     Inr \<lparr>os_pt = Map.empty, os_ipt = ipt, os_lines_in_page = lines, os_num_threads = num_threads,
          os_num_pages = ucast num_pages, os_s_miss_count = 0\<rparr>))"

text \<open>
  The assertion \<open>s_miss_count < 0.95*num_pages\<close> compares in double precision. With fewer than \<open>2 ^ 32\<close> pages the
  rounding never changes its outcome: where nineteen twentieths of the number of pages is an integer the product
  rounds to it, and elsewhere it is a twentieth or more away from the next integer.
\<close>

definition pages_left :: "OS \<Rightarrow> bool" where
  "pages_left os \<longleftrightarrow> 20 * uint (os_s_miss_count os) < 19 * uint (os_num_pages os)"

definition MAX_TRIES :: nat where "MAX_TRIES = 1000"

primrec try_pages :: "nat \<Rightarrow> (nat \<Rightarrow> int) \<Rightarrow> nat \<Rightarrow> OS \<Rightarrow> (u64 \<times> nat \<times> OS) res" where
  "try_pages 0 rnd pos os = Inl AssertFailed"
| "try_pages (Suc n) rnd pos os =
     bindE (umod (word_of_int (rnd pos)) (os_num_pages os)) (\<lambda>r.
     let victim = ucast r :: u32 in
     bindE (vget (os_ipt os) (uint victim)) (\<lambda>used.
     if \<not> used
     then bindE (vset (os_ipt os) (uint victim) True) (\<lambda>ipt. Inr (ucast victim, Suc pos, os\<lparr>os_ipt := ipt\<rparr>))
     else try_pages n rnd (Suc pos) os))"

definition os_get_victim_from_ipt :: "(nat \<Rightarrow> int) \<Rightarrow> nat \<Rightarrow> OS \<Rightarrow> (u64 \<times> nat \<times> OS) res" where
  "os_get_victim_from_ipt rnd pos os =
     bindE (checkE AssertFailed (pages_left os)) (\<lambda>_. try_pages MAX_TRIES rnd pos os)"

definition os_vpn_to_pfn :: "(nat \<Rightarrow> int) \<Rightarrow> nat \<Rightarrow> OS \<Rightarrow> u64 \<Rightarrow> u32 \<Rightarrow> (u64 \<times> nat \<times> OS) res" where
  "os_vpn_to_pfn rnd pos os vpn tid =
     bindE (checkE AssertFailed (drop_bit 36 vpn = 0)) (\<lambda>_.
     let tid_vpn = push_bit 36 (ucast tid) + vpn in
     case os_pt os tid_vpn of
       Some pfn \<Rightarrow> Inr (pfn, pos, os)
     | None \<Rightarrow>
         bindE (os_get_victim_from_ipt rnd pos os) (\<lambda>(pfn, pos, os).
         Inr (pfn, pos, os\<lparr>os_pt := (os_pt os)(tid_vpn \<mapsto> pfn), os_s_miss_count := os_s_miss_count os + 1\<rparr>)))"

definition os_v2p_lineaddr :: "(nat \<Rightarrow> int) \<Rightarrow> nat \<Rightarrow> OS \<Rightarrow> u64 \<Rightarrow> u32 \<Rightarrow> (u64 \<times> nat \<times> OS) res" where
  "os_v2p_lineaddr rnd pos os lineaddr tid =
     bindE (udiv lineaddr (ucast (os_lines_in_page os))) (\<lambda>vpn.
     bindE (umod lineaddr (ucast (os_lines_in_page os))) (\<lambda>lineid.
     bindE (os_vpn_to_pfn rnd pos os vpn tid) (\<lambda>(pfn, pos, os).
     Inr (pfn * ucast (os_lines_in_page os) + lineid, pos, os))))"

section \<open>The invariant\<close>

text \<open>Page 0 is nobody's; the frames in the table are marked in the inverse table and no two entries share one.\<close>

definition os_wf :: "OS \<Rightarrow> bool" where
  "os_wf os \<longleftrightarrow> length (os_ipt os) = unat (os_num_pages os) \<and> 0 < unat (os_num_pages os) \<and> unat (os_num_pages os) < 2 ^ 32 \<and>
     0 < unat (os_lines_in_page os) \<and> os_ipt os ! 0 \<and> inj_on (os_pt os) (dom (os_pt os)) \<and>
     (\<forall>p\<in>ran (os_pt os). 0 < unat p \<and> unat p < unat (os_num_pages os) \<and> os_ipt os ! unat p)"

text \<open>The memory is addressable: its number of lines times the line size fits 64 bits.\<close>

definition os_fits :: "OS \<Rightarrow> bool" where
  "os_fits os \<longleftrightarrow> unat (os_num_pages os) * unat (os_lines_in_page os) \<le> 2 ^ 58"

definition same_os :: "OS \<Rightarrow> OS \<Rightarrow> bool" where
  "same_os os os' \<longleftrightarrow> os_num_pages os' = os_num_pages os \<and> os_lines_in_page os' = os_lines_in_page os \<and> os_pt os \<subseteq>\<^sub>m os_pt os'"

lemma same_os_refl [simp]: "same_os os os"
  by (simp add: same_os_def)

lemma same_os_trans: "same_os a b \<Longrightarrow> same_os b c \<Longrightarrow> same_os a c"
  by (auto simp: same_os_def intro: map_le_trans)

lemma unat_ucast_u64: "unat (ucast (w :: u32) :: u64) = unat w"
proof -
  have "unat w < 2 ^ 32" using unsigned_less [of w] by simp
  then show ?thesis by (simp add: unsigned_ucast_eq take_bit_nat_eq_self)
qed

lemma try_pages_step:
  assumes "os_wf os" and v_def: "v = unat (word_of_int (rnd pos) :: u64) mod unat (os_num_pages os)"
  shows "try_pages (Suc n) rnd pos os =
    (if \<not> os_ipt os ! v then Inr (of_nat v, Suc pos, os\<lparr>os_ipt := (os_ipt os)[v := True]\<rparr>) else try_pages n rnd (Suc pos) os)"
proof -
  let ?r = "word_of_int (rnd pos) mod os_num_pages os :: u64" let ?v = "ucast ?r :: u32"
  have nz: "os_num_pages os \<noteq> 0" using assms(1) by (auto simp: os_wf_def)
  have r: "unat ?r = v" by (simp add: v_def unat_mod_distrib)
  then have rb: "v < unat (os_num_pages os)" using assms(1) by (simp add: os_wf_def v_def)
  then have v: "unat ?v = v" using r assms(1) by (simp add: os_wf_def unsigned_ucast_eq take_bit_nat_eq_self)
  have "inrange (uint ?v) (os_ipt os)" using rb v assms(1) by (simp add: inrange_uint os_wf_def)
  moreover have "(ucast ?v :: u64) = of_nat v" using v by (metis unat_ucast_u64 of_nat_unat ucast_id)
  ultimately show ?thesis using nz v by (simp add: Let_def)
qed

lemma try_pages_fresh:
  assumes "try_pages n rnd pos os = Inr (p, pos', os')" "os_wf os"
  shows "unat p < unat (os_num_pages os) \<and> \<not> os_ipt os ! unat p \<and> os' = os\<lparr>os_ipt := (os_ipt os)[unat p := True]\<rparr>"
  using assms(1)
proof (induction n arbitrary: pos)
  case (Suc n)
  let ?v = "unat (word_of_int (rnd pos) :: u64) mod unat (os_num_pages os)"
  have "?v < unat (os_num_pages os)" "unat (os_num_pages os) < 2 ^ 32" using assms(2) by (simp_all add: os_wf_def)
  then have "unat (of_nat ?v :: u64) = ?v" by (simp add: unat_of_nat)
  then show ?case using Suc \<open>?v < _\<close> try_pages_step [OF assms(2) refl, of n rnd pos] by (auto simp del: try_pages.simps split: if_splits)
qed simp

definition os_key :: "OS \<Rightarrow> u64 \<Rightarrow> u32 \<Rightarrow> u64" where
  "os_key os la tid = push_bit 36 (ucast tid) + la div ucast (os_lines_in_page os)"

lemma frame_bounds: "os_wf os \<Longrightarrow> os_pt os k = Some p \<Longrightarrow> 0 < unat p \<and> unat p < unat (os_num_pages os)"
  by (auto simp: os_wf_def ran_def)

lemma vpn_to_pfn_spec:
  assumes r: "os_vpn_to_pfn rnd pos os vpn tid = Inr (p, pos', os')" and wf: "os_wf os"
  shows "os_wf os' \<and> same_os os os' \<and> os_pt os' (push_bit 36 (ucast tid) + vpn) = Some p \<and> drop_bit 36 vpn = 0"
proof -
  let ?k = "push_bit 36 (ucast tid) + vpn"
  have d: "drop_bit 36 vpn = 0" using r by (auto simp: os_vpn_to_pfn_def)
  show ?thesis
  proof (cases "os_pt os ?k")
    case (Some q)
    then show ?thesis using r wf d by (simp add: os_vpn_to_pfn_def)
  next
    case None
    then obtain os1 where t: "try_pages MAX_TRIES rnd pos os = Inr (p, pos', os1)"
      and os': "os' = os1\<lparr>os_pt := (os_pt os1)(?k \<mapsto> p), os_s_miss_count := os_s_miss_count os1 + 1\<rparr>"
      using r d by (auto simp: os_vpn_to_pfn_def os_get_victim_from_ipt_def Let_def bindE_Inr_iff)
    have p: "unat p < unat (os_num_pages os)" "\<not> os_ipt os ! unat p" "os1 = os\<lparr>os_ipt := (os_ipt os)[unat p := True]\<rparr>"
      using try_pages_fresh [OF t wf] by auto
    then have "0 < unat p" using wf by (cases "unat p") (auto simp: os_wf_def)
    moreover have "p \<notin> ran (os_pt os)" using p(2) wf by (auto simp: os_wf_def)
    then have "inj_on ((os_pt os)(?k \<mapsto> p)) (dom ((os_pt os)(?k \<mapsto> p)))"
      using wf None by (auto simp: os_wf_def inj_on_def ran_def dom_def)
    moreover have "ran ((os_pt os)(?k \<mapsto> p)) = insert p (ran (os_pt os))" using None by (simp add: ran_map_upd)
    ultimately have "os_wf os'" using wf p unfolding os' by (auto simp: os_wf_def nth_list_update)
    moreover have "same_os os os'" using None p(3) by (auto simp: os' same_os_def map_le_def dom_def)
    ultimately show ?thesis using d by (simp add: os')
  qed
qed

lemma v2p_spec:
  assumes r: "os_v2p_lineaddr rnd pos os la tid = Inr (pa, pos', os')" and wf: "os_wf os" and fits: "os_fits os"
  obtains p where "os_wf os'" "same_os os os'" "os_pt os' (os_key os la tid) = Some p"
    "drop_bit 36 (la div ucast (os_lines_in_page os)) = 0"
    "unat pa = unat p * unat (os_lines_in_page os) + unat la mod unat (os_lines_in_page os)"
proof -
  let ?l = "ucast (os_lines_in_page os) :: u64" let ?L = "unat (os_lines_in_page os)"
  have L: "unat ?l = ?L" by (rule unat_ucast_u64)
  have "?l \<noteq> 0" using wf L by (metis less_irrefl os_wf_def unat_0)
  then obtain p where v: "os_vpn_to_pfn rnd pos os (la div ?l) tid = Inr (p, pos', os')"
    and pa: "pa = p * ucast (os_lines_in_page os') + la mod ?l"
    using r by (auto simp: os_v2p_lineaddr_def)
  note s = vpn_to_pfn_spec [OF v wf]
  have pb: "unat p < unat (os_num_pages os)" using s frame_bounds [of os'] by (auto simp: same_os_def)
  have m: "unat la mod ?L < ?L" using wf by (simp add: os_wf_def)
  have "Suc (unat p) * ?L \<le> unat (os_num_pages os) * ?L" using pb by (intro mult_le_mono) auto
  then have b: "unat p * ?L + unat la mod ?L < 2 ^ 58" using m fits by (auto simp: os_fits_def)
  then have "unat (p * ?l) = unat p * ?L" by (simp add: unat_word_ariths L)
  then have "unat (p * ?l + la mod ?l) = unat p * ?L + unat la mod ?L"
    using b by (simp add: unat_word_ariths(1) unat_mod_distrib L)
  then show ?thesis using s pa that [of p] by (simp add: os_key_def same_os_def)
qed

text \<open>The key of the table identifies the thread and the page.\<close>

lemma key_inj:
  assumes "push_bit 36 (ucast (t1 :: u32)) + v1 = (push_bit 36 (ucast t2) + v2 :: u64)"
    and "drop_bit 36 v1 = 0" "drop_bit 36 v2 = 0" "unat t1 < 2 ^ 28" "unat t2 < 2 ^ 28"
  shows "t1 = t2 \<and> v1 = v2"
proof -
  have v: "unat v < 2 ^ 36" if "drop_bit 36 (v :: u64) = 0" for v
  proof -
    have "unat v div 2 ^ 36 = 0" using that by (metis drop_bit_eq_div unat_0 unat_drop_bit_eq)
    then show ?thesis by (simp add: div_eq_0_iff)
  qed
  have k: "unat (push_bit 36 (ucast t) + v :: u64) = unat t * 2 ^ 36 + unat v" if "unat t < 2 ^ 28" "drop_bit 36 (v :: u64) = 0" for t :: u32 and v
  proof -
    have "unat (push_bit 36 (ucast t) :: u64) = unat t * 2 ^ 36"
      using that(1) by (simp add: push_bit_eq_mult unat_word_ariths unat_ucast_u64)
    then show ?thesis using that(1) v [OF that(2)] by (simp add: unat_word_ariths(1))
  qed
  have e: "unat t1 * 2 ^ 36 + unat v1 = unat t2 * 2 ^ 36 + unat v2" using assms k by metis
  have "unat t1 = (unat t1 * 2 ^ 36 + unat v1) div 2 ^ 36" using v [OF assms(2)] by simp
  also have "\<dots> = unat t2" using v [OF assms(3)] unfolding e by simp
  finally have "unat t1 = unat t2" .
  with e show ?thesis by (simp add: word_unat_eq_iff)
qed

lemma os_new_wf:
  assumes "os_new pagesize n nt = Inr os" "64 \<le> unat pagesize"
  shows "os_wf os" "os_pt os = Map.empty" "unat (os_num_pages os) = unat n" "unat (os_lines_in_page os) = unat pagesize div 64"
proof -
  have l: "(ucast LINESIZE :: u32) = 64" by (simp add: LINESIZE_def)
  have "inrange 0 (replicate (unat n) False)" using assms(1) by (auto simp: os_new_def l vset_Inr_iff bindE_Inr_iff)
  then have "0 < unat n" by (cases "unat n") (simp_all add: inrange_def)
  moreover have o: "os = \<lparr>os_pt = Map.empty, os_ipt = (replicate (unat n) False)[0 := True], os_lines_in_page = pagesize div 64, os_num_threads = nt,
          os_num_pages = ucast n, os_s_miss_count = 0\<rparr>" using assms(1) by (auto simp: os_new_def l vset_Inr_iff bindE_Inr_iff)
  moreover have d: "unat (pagesize div 64) = unat pagesize div 64" by (simp add: unat_div_distrib)
  moreover have "unat n < 2 ^ 32" using unsigned_less [of n] by simp
  ultimately show "os_wf os" using assms(2) by (simp add: os_wf_def unat_ucast_u64 div_greater_zero_iff)
  show "os_pt os = Map.empty" "unat (os_num_pages os) = unat n" "unat (os_lines_in_page os) = unat pagesize div 64"
    using d by (simp_all add: o unat_ucast_u64)
qed

lemma try_pages_full:
  assumes "os_wf os" "\<And>k. k < n \<Longrightarrow> os_ipt os ! (unat (word_of_int (rnd (pos + k)) :: u64) mod unat (os_num_pages os))"
  shows "try_pages n rnd pos os = Inl AssertFailed"
  using assms(2)
proof (induction n arbitrary: pos)
  case (Suc n)
  have "try_pages n rnd (Suc pos) os = Inl AssertFailed" using Suc.prems [of "Suc k" for k] by (intro Suc.IH) simp
  moreover have "os_ipt os ! (unat (word_of_int (rnd pos) :: u64) mod unat (os_num_pages os))" using Suc.prems [of 0] by simp
  ultimately show ?case by (simp add: try_pages_step [OF assms(1) refl] del: try_pages.simps)
qed simp

section \<open>Sequences of translations\<close>

primrec translate_all :: "(nat \<Rightarrow> int) \<Rightarrow> nat \<Rightarrow> OS \<Rightarrow> (u64 \<times> u32) list \<Rightarrow> (u64 list \<times> nat \<times> OS) res" where
  "translate_all rnd pos os [] = Inr ([], pos, os)"
| "translate_all rnd pos os (q # qs) =
     bindE (os_v2p_lineaddr rnd pos os (fst q) (snd q)) (\<lambda>(pa, pos, os).
     bindE (translate_all rnd pos os qs) (\<lambda>(pas, pos, os). Inr (pa # pas, pos, os)))"

text \<open>What the final table says of each request of a sequence.\<close>

definition mapped :: "OS \<Rightarrow> u64 \<times> u32 \<Rightarrow> u64 \<Rightarrow> bool" where
  "mapped os q pa \<longleftrightarrow> drop_bit 36 (fst q div ucast (os_lines_in_page os)) = 0 \<and>
     (\<exists>p. os_pt os (os_key os (fst q) (snd q)) = Some p \<and>
       unat pa = unat p * unat (os_lines_in_page os) + unat (fst q) mod unat (os_lines_in_page os))"

lemma mapped_later: "mapped os q pa \<Longrightarrow> same_os os os' \<Longrightarrow> mapped os' q pa"
  by (auto simp: mapped_def same_os_def os_key_def map_le_def dom_def)

text \<open>A frame is never page 0 and lies in the memory.\<close>

lemma mapped_bounds:
  assumes "os_wf os" "mapped os q pa"
  shows "unat (os_lines_in_page os) \<le> unat pa \<and> unat pa < unat (os_num_pages os) * unat (os_lines_in_page os)"
proof -
  obtain p where p: "os_pt os (os_key os (fst q) (snd q)) = Some p"
    "unat pa = unat p * unat (os_lines_in_page os) + unat (fst q) mod unat (os_lines_in_page os)"
    using assms(2) by (auto simp: mapped_def)
  note b = frame_bounds [OF assms(1) p(1)]
  have m: "unat (fst q) mod unat (os_lines_in_page os) < unat (os_lines_in_page os)" using assms(1) by (simp add: os_wf_def)
  have "Suc (unat p) * unat (os_lines_in_page os) \<le> unat (os_num_pages os) * unat (os_lines_in_page os)"
    using b by (intro mult_le_mono) auto
  then show ?thesis using b m p(2) by (cases "unat p") auto
qed

lemma v2p_mapped:
  assumes "os_v2p_lineaddr rnd pos os la tid = Inr (pa, pos', os')" "os_wf os" "os_fits os"
  shows "os_wf os' \<and> os_fits os' \<and> same_os os os' \<and> mapped os' (la, tid) pa"
proof -
  obtain p where "os_wf os'" "same_os os os'" "os_pt os' (os_key os la tid) = Some p"
    "drop_bit 36 (la div ucast (os_lines_in_page os)) = 0"
    "unat pa = unat p * unat (os_lines_in_page os) + unat la mod unat (os_lines_in_page os)" by (rule v2p_spec [OF assms])
  then show ?thesis using assms(3) by (auto simp: os_fits_def same_os_def mapped_def os_key_def)
qed

lemma translate_all_mapped:
  assumes "translate_all rnd pos os qs = Inr (pas, pos', os')" "os_wf os" "os_fits os"
  shows "os_wf os' \<and> same_os os os' \<and> list_all2 (mapped os') qs pas"
  using assms
proof (induction qs arbitrary: pos os pas)
  case (Cons q qs)
  then obtain pa pos1 os1 pas1 where v: "os_v2p_lineaddr rnd pos os (fst q) (snd q) = Inr (pa, pos1, os1)"
    and t: "translate_all rnd pos1 os1 qs = Inr (pas1, pos', os')" and pas: "pas = pa # pas1"
    by (auto simp: bindE_Inr_iff)
  note m = v2p_mapped [OF v Cons.prems(2,3)]
  note ih = Cons.IH [OF t conjunct1 [OF m]]
  have "mapped os' q pa" using mapped_later [of os1 q pa os'] m ih by simp
  then show ?case using ih m unfolding pas by (auto intro: same_os_trans)
qed simp

lemma mapped_inj:
  assumes "os_wf os" "mapped os q pa" "mapped os q' pa" "unat (snd q) < 2 ^ 28" "unat (snd q') < 2 ^ 28"
  shows "q = q'"
proof -
  let ?L = "unat (os_lines_in_page os)" let ?l = "ucast (os_lines_in_page os) :: u64"
  have L: "0 < ?L" using assms(1) by (simp add: os_wf_def)
  obtain p p' where p: "os_pt os (os_key os (fst q) (snd q)) = Some p" "os_pt os (os_key os (fst q') (snd q')) = Some p'"
    and e: "unat p * ?L + unat (fst q) mod ?L = unat p' * ?L + unat (fst q') mod ?L"
    using assms(2,3) by (auto simp: mapped_def)
  have m: "unat (fst q) mod ?L = unat (fst q') mod ?L" using arg_cong [OF e, of "\<lambda>x. x mod ?L"] by simp
  then have "p = p'" using e L by (simp add: word_unat_eq_iff)
  then have "os_key os (fst q) (snd q) = os_key os (fst q') (snd q')" using p assms(1) by (auto simp: os_wf_def inj_on_def dom_def)
  then have t: "snd q = snd q'" "fst q div ?l = fst q' div ?l"
    using key_inj assms by (auto simp: os_key_def mapped_def)
  then have "unat (fst q) div unat ?l = unat (fst q') div unat ?l" by (metis unat_div_distrib)
  then have "unat (fst q) div ?L = unat (fst q') div ?L" by (simp only: unat_ucast_u64)
  then have "unat (fst q) = unat (fst q')" using m by (metis div_mult_mod_eq)
  then show ?thesis using t(1) by (simp add: word_unat_eq_iff prod_eq_iff)
qed

section \<open>Properties\<close>

text \<open>
  C14. Address translation isolates the threads: in any sequence of translations two requests get the same
  physical line exactly when they name the same line of the same thread, and no request gets a line of
  physical page 0 or beyond the memory.
\<close>

theorem translation_is_injective:
  assumes "translate_all rnd pos os qs = Inr (pas, pos', os')" "os_wf os" "os_fits os"
    and "list_all (\<lambda>q. unat (snd q) < 2 ^ 28) qs" "i < length qs" "j < length qs"
  shows "(pas ! i = pas ! j \<longleftrightarrow> qs ! i = qs ! j) \<and> unat (os_lines_in_page os) \<le> unat (pas ! i) \<and>
    unat (pas ! i) < unat (os_num_pages os) * unat (os_lines_in_page os)"
proof -
  note t = translate_all_mapped [OF assms(1-3)]
  then have m: "mapped os' (qs ! i) (pas ! i)" "mapped os' (qs ! j) (pas ! j)" using assms(5,6) by (auto simp: list_all2_conv_all_nth)
  have "pas ! i = pas ! j" if "qs ! i = qs ! j" using m that by (auto simp: mapped_def word_unat_eq_iff)
  moreover have "qs ! i = qs ! j" if "pas ! i = pas ! j"
    using mapped_inj [of os'] t m that assms(4-6) by (auto simp: list_all_length)
  moreover have "unat (os_lines_in_page os) \<le> unat (pas ! i) \<and> unat (pas ! i) < unat (os_num_pages os) * unat (os_lines_in_page os)"
    using mapped_bounds [of os' "qs ! i" "pas ! i"] t m(1) by (auto simp: same_os_def)
  ultimately show ?thesis by blast
qed

definition tiny_os :: OS where
  "tiny_os = \<lparr>os_pt = Map.empty, os_ipt = [True, False, False, False], os_lines_in_page = 64, os_num_threads = 2,
     os_num_pages = 4, os_s_miss_count = 0\<rparr>"

lemma tiny_os_ok: "os_wf tiny_os" "os_fits tiny_os"
  by (simp_all add: os_wf_def os_fits_def tiny_os_def)

theorem translation_is_injective_witness:
  "\<exists>pas pos' os'. translate_all int 0 tiny_os [(5, 0), (5, 1), (70, 0), (5, 0)] = Inr (pas, pos', os') \<and>
     pas ! 0 \<noteq> pas ! 1 \<and> pas ! 0 = pas ! 3"
proof -
  let ?qs = "[(5, 0), (5, 1), (70, 0), (5, 0)] :: (u64 \<times> u32) list"
  have "okE (translate_all int 0 tiny_os ?qs) (\<lambda>_. True)" by code_simp
  then obtain pas pos' os' where t: "translate_all int 0 tiny_os ?qs = Inr (pas, pos', os')" by (auto simp: okE_iff)
  note i = translation_is_injective [OF t tiny_os_ok]
  have "pas ! 0 \<noteq> pas ! 1" "pas ! 0 = pas ! 3" using i [of 0 1] i [of 0 3] by simp_all
  then show ?thesis using t by blast
qed

text \<open>
  The pages can run out: when every draw of the thousand tries hits a used page, the translation of a new
  page stops the simulator, however many pages are free.
\<close>

theorem page_search_gives_up:
  assumes "\<And>k. k < 1000 \<Longrightarrow> os_ipt os ! (unat (word_of_int (rnd (pos + k)) :: u64) mod unat (os_num_pages os))"
    and "os_wf os" "drop_bit 36 vpn = 0" "os_pt os (push_bit 36 (ucast tid) + vpn) = None"
  shows "os_vpn_to_pfn rnd pos os vpn tid = Inl AssertFailed"
  using try_pages_full [of os MAX_TRIES rnd pos] assms
  by (auto simp: os_vpn_to_pfn_def os_get_victim_from_ipt_def MAX_TRIES_def checkE_def)

theorem page_search_gives_up_witness:
  "os_vpn_to_pfn (\<lambda>_. 0) 0 tiny_os 7 0 = Inl AssertFailed"
  by (rule page_search_gives_up [OF _ tiny_os_ok(1)]) (simp_all add: tiny_os_def)

end
