(* ===== verification/Memsim_Core.thy ===== *)
theory Memsim_Core
  imports Memory_Run Memsim_Cache Memsim_OS
begin

text \<open>
  memsim/memsys_dramsim3.h, memsys_dramsim3.c, mcore.h and mcore.c: the out-of-order cores that replay a trace
  against the last-level cache, the page tables and the memory system of DRAMsim3.

  The memory system is reached through the virtual methods of \<open>BaseDRAMSystem\<close>, a record of functions here. The
  trace is a compressed file read with zlib, which is not part of the repository: the three functions of it that
  the code calls are a parameter. Everything the code reads and never writes (the command-line parameters, the
  methods of the memory system, zlib, the stream of \<open>rand()\<close>) is collected in one record.
\<close>

section \<open>Parameters\<close>

text \<open>\<open>CORE_WIDTH\<close> has no command-line option.\<close>

definition CORE_WIDTH :: u64 where "CORE_WIDTH = 4"

record Params =
  ROB_SIZE :: u64
  INST_LIMIT :: u64
  OS_PAGESIZE :: u64
  L3_SIZE_KB :: u64
  L3_ASSOC :: u64
  L3_LATENCY :: u64
  L3_REPL :: u64
  L3_PERFECT :: u64
  MEM_SIZE_MB :: u64
  MEM_PAGESIZE :: u64
  MEM_RSRV_MB :: u64

record 'm MemoryMethods =
  m_WillAccept :: "'m \<Rightarrow> u64 \<Rightarrow> bool \<Rightarrow> bool res"
  m_Add :: "u64 \<Rightarrow> bool \<Rightarrow> 'm \<Rightarrow> (bool \<times> 'm) res"
  m_Tick :: "nat \<Rightarrow> 'm \<Rightarrow> (callback_event list \<times> nat \<times> 'm) res"
  m_IsInDRFM :: "'m \<Rightarrow> u64 \<Rightarrow> bool res"
  m_IsInREF :: "'m \<Rightarrow> u64 \<Rightarrow> bool res"

text \<open>\<open>gzopen\<close> (first or second attempt), \<open>gzread\<close> of up to a number of bytes, \<open>gzeof\<close>.\<close>

record 'f GzFunctions =
  gz_open :: "nat \<Rightarrow> string \<Rightarrow> 'f option"
  gz_read :: "nat \<Rightarrow> 'f \<Rightarrow> 8 word list \<times> 'f"
  gz_eof :: "'f \<Rightarrow> bool"

record ('m, 'f) Ctx =
  cx_p :: Params
  cx_mem :: "'m MemoryMethods"
  cx_gz :: "'f GzFunctions"
  cx_rand :: "nat \<Rightarrow> int"

text \<open>The methods of the two systems; \<open>rand()\<close> is one generator for the whole program.\<close>

definition jedec_methods :: "Config \<Rightarrow> (nat \<Rightarrow> int) \<Rightarrow> DRAMSystem MemoryMethods" where
  "jedec_methods cfg rnd =
     \<lparr>m_WillAccept = sys_WillAcceptTransaction cfg, m_Add = sys_AddTransaction cfg,
      m_Tick = (\<lambda>pos sys. bindE (sys_ClockTick cfg (sys\<lparr>shared_rand := rnd, shared_rand_pos := pos\<rparr>)) (\<lambda>(es, sys).
        Inr (es, shared_rand_pos sys, sys))),
      m_IsInDRFM = sys_IsInDRFM cfg, m_IsInREF = sys_IsInREF cfg\<rparr>"

definition ideal_methods :: "IdealDRAMSystem MemoryMethods" where
  "ideal_methods =
     \<lparr>m_WillAccept = (\<lambda>_ _ _. Inr True), m_Add = (\<lambda>h w sys. Inr (True, ideal_AddTransaction h w sys)),
      m_Tick = (\<lambda>pos sys. case ideal_ClockTick sys of (es, sys) \<Rightarrow> Inr (es, pos, sys)),
      m_IsInDRFM = (\<lambda>_ _. Inl OutOfRange), m_IsInREF = (\<lambda>_ _. Inl OutOfRange)\<rparr>"

section \<open>The memory interface\<close>

record MSHR_Entry =
  mshr_coreid :: u32
  mshr_robid :: u32
  mshr_inst_num :: u64

record 'm MemSys =
  mainmem :: 'm
  lines_in_mainmem_rbuf :: u64
  mshr :: "u64 \<rightharpoonup> MSHR_Entry"

definition memsys_new :: "Params \<Rightarrow> 'm \<Rightarrow> 'm MemSys" where
  "memsys_new p mem = \<lparr>mainmem = mem, lines_in_mainmem_rbuf = MEM_PAGESIZE p div LINESIZE, mshr = Map.empty\<rparr>"

definition memsys_isindrfm :: "'m MemoryMethods \<Rightarrow> 'm MemSys \<Rightarrow> u64 \<Rightarrow> bool res" where
  "memsys_isindrfm mm m lineaddr = m_IsInDRFM mm (mainmem m) (lineaddr * LINESIZE)"

definition memsys_isinref :: "'m MemoryMethods \<Rightarrow> 'm MemSys \<Rightarrow> u64 \<Rightarrow> bool res" where
  "memsys_isinref mm m lineaddr = m_IsInREF mm (mainmem m) (lineaddr * LINESIZE)"

definition memsys_mshr_insert :: "u64 \<Rightarrow> u32 \<Rightarrow> u32 \<Rightarrow> u64 \<Rightarrow> 'm MemSys \<Rightarrow> 'm MemSys res" where
  "memsys_mshr_insert lineaddr coreid robid inst_num m =
     bindE (checkE AssertFailed (mshr m lineaddr = None)) (\<lambda>_.
     Inr (m\<lparr>mshr := (mshr m)(lineaddr \<mapsto> \<lparr>mshr_coreid = coreid, mshr_robid = robid, mshr_inst_num = inst_num\<rparr>)\<rparr>))"

text \<open>Hand a transaction to the memory system when it takes it; the result says whether it did.\<close>

definition offer :: "'m MemoryMethods \<Rightarrow> u64 \<Rightarrow> bool \<Rightarrow> 'm MemSys \<Rightarrow> (bool \<times> 'm MemSys) res" where
  "offer mm lineaddr is_write m =
     (let byteaddress = lineaddr * LINESIZE in
      bindE (m_WillAccept mm (mainmem m) byteaddress is_write) (\<lambda>ok.
      if ok then bindE (m_Add mm byteaddress is_write (mainmem m)) (\<lambda>(_, mem). Inr (True, m\<lparr>mainmem := mem\<rparr>))
      else Inr (False, m)))"

definition memsys_access ::
    "'m MemoryMethods \<Rightarrow> u64 \<Rightarrow> u32 \<Rightarrow> u32 \<Rightarrow> u64 \<Rightarrow> u64 \<Rightarrow> 'm MemSys \<Rightarrow> (bool \<times> 'm MemSys) res" where
  "memsys_access mm lineaddr coreid robid inst_num wb_lineaddr m =
     bindE (offer mm lineaddr False m) (\<lambda>(retval, m).
     bindE (if retval then memsys_mshr_insert lineaddr coreid robid inst_num m else Inr m) (\<lambda>m.
     bindE (if wb_lineaddr \<noteq> 0 then bindE (offer mm wb_lineaddr True m) (\<lambda>(_, m). Inr m) else Inr m) (\<lambda>m.
     Inr (retval, m))))"

section \<open>The core\<close>

record ROB_Entry =
  birth_time :: u64
  ready_time :: u64
  r_inst_num :: u64
  r_lineaddr :: u64

record ROB =
  rob_entries :: "ROB_Entry list"
  rob_ptr :: u32
  rob_size :: u32

definition MAX_ROB_ENTRIES :: nat where "MAX_ROB_ENTRIES = 1024"

text \<open>The members the code uses; \<open>trace_iaddr\<close>, \<open>trace_dhits\<close> and \<open>trace_inst_num_clone\<close> are never touched.\<close>

record 'f MCore =
  mcore_id :: u32
  addr_trace_fname :: string
  addr_trace :: 'f
  core_done :: bool
  core_sleep :: bool
  sleep_lineaddr :: u64
  sleep_robid :: u32
  sleep_inst_num :: u64
  rob :: ROB
  trace_inst_num :: u64
  trace_va :: u64
  trace_wb :: "8 word"
  core_cycle :: u64
  inst_num :: u64
  access_count :: u64
  miss_count :: u64
  num_delay_count :: u64
  sum_delay_count :: u64
  queue_full_count :: u64
  sleep_cycle_count :: u64
  lifetime_inst_count :: u64
  total_rob_stalls :: u64
  drfm_rob_stalls :: u64
  ref_rob_stalls :: u64
  done_inst_count :: u64
  done_cycle_count :: u64
  done_access_count :: u64
  done_miss_count :: u64
  done_num_delay_count :: u64
  done_sum_delay_count :: u64
  done_queue_full_count :: u64
  done_sleep_cycle_count :: u64

text \<open>What a core shares with the others.\<close>

record 'm Shared =
  sh_memsys :: "'m MemSys"
  sh_os :: OS
  sh_llc :: MCache
  sh_rand_pos :: nat

definition DEFAULT_MEM_DELAY :: u32 where "DEFAULT_MEM_DELAY = 5000000"

subsection \<open>The trace\<close>

text \<open>\<open>gzread\<close> into an integer that was set to zero: the bytes read, least significant first.\<close>

definition le_word :: "8 word list \<Rightarrow> 'a::len word" where
  "le_word bs = foldr (\<lambda>b w. ucast b + 256 * w) bs 0"

definition mcore_fread_trace :: "'f GzFunctions \<Rightarrow> 'f MCore \<Rightarrow> 'f MCore" where
  "mcore_fread_trace gz c =
     (let (ni, f) = gz_read gz 5 (addr_trace c); (wb, f) = gz_read gz 1 f; (va, f) = gz_read gz 4 f
      in c\<lparr>addr_trace := f, trace_inst_num := le_word ni, trace_wb := le_word wb, trace_va := le_word va\<rparr>)"

text \<open>When the file cannot be opened the code sleeps for a random time and tries once more.\<close>

definition mcore_init_trace :: "'f GzFunctions \<Rightarrow> nat \<Rightarrow> 'f MCore \<Rightarrow> (nat \<times> 'f MCore) res" where
  "mcore_init_trace gz pos c =
     (case gz_open gz 0 (addr_trace_fname c) of
        Some f \<Rightarrow> Inr (pos, c\<lparr>addr_trace := f\<rparr>)
      | None \<Rightarrow>
          (case gz_open gz 1 (addr_trace_fname c) of
             Some f \<Rightarrow> Inr (Suc pos, c\<lparr>addr_trace := f\<rparr>)
           | None \<Rightarrow> Inl ExitFailure))"

definition record_done :: "'f MCore \<Rightarrow> 'f MCore" where
  "record_done c = c\<lparr>done_inst_count := inst_num c, done_cycle_count := core_cycle c, done_access_count := access_count c,
     done_miss_count := miss_count c, done_num_delay_count := num_delay_count c, done_sum_delay_count := sum_delay_count c,
     done_queue_full_count := queue_full_count c, done_sleep_cycle_count := sleep_cycle_count c, core_done := True\<rparr>"

definition mcore_read_trace :: "('m, 'f) Ctx \<Rightarrow> nat \<Rightarrow> 'f MCore \<Rightarrow> (nat \<times> 'f MCore) res" where
  "mcore_read_trace cx pos c =
     (let c = mcore_fread_trace (cx_gz cx) c in
      if gz_eof (cx_gz cx) (addr_trace c) \<or> (\<not> core_done c \<and> inst_num c \<ge> INST_LIMIT (cx_p cx))
      then let c = (if \<not> core_done c then record_done c else c) in
           bindE (mcore_init_trace (cx_gz cx) pos c) (\<lambda>(pos, c).
           let c = mcore_fread_trace (cx_gz cx) c in
           Inr (pos, c\<lparr>lifetime_inst_count := lifetime_inst_count c + inst_num c, inst_num := 0\<rparr>))
      else Inr (pos, c))"

subsection \<open>The reorder buffer\<close>

definition mcore_rob_insert :: "Params \<Rightarrow> u64 \<Rightarrow> u64 \<Rightarrow> u64 \<Rightarrow> u64 \<Rightarrow> 'f MCore \<Rightarrow> (u32 \<times> 'f MCore) res" where
  "mcore_rob_insert p inst cyc ready lineaddr c =
     (let r = rob c in
      bindE (checkE AssertFailed (ucast (rob_size r) < ROB_SIZE p)) (\<lambda>_.
      bindE (umod (ucast (rob_ptr r + rob_size r)) (ROB_SIZE p)) (\<lambda>i.
      let index = ucast i :: u32 in
      bindE (vset (rob_entries r) (uint index)
        \<lparr>birth_time = cyc, ready_time = ready, r_inst_num = inst, r_lineaddr = lineaddr\<rparr>) (\<lambda>es.
      Inr (index, c\<lparr>rob := r\<lparr>rob_entries := es, rob_size := rob_size r + 1\<rparr>\<rparr>)))))"

text \<open>One entry leaves; the core must not have been waiting for it for longer than the largest delay.\<close>

definition lost_packet :: "'f MCore \<Rightarrow> ROB_Entry \<Rightarrow> bool" where
  "lost_packet c e \<longleftrightarrow> ready_time e - birth_time e \<ge> ucast DEFAULT_MEM_DELAY \<and>
     \<not> (core_sleep c \<and> r_inst_num e = sleep_inst_num c)"

primrec retire_loop :: "nat \<Rightarrow> Params \<Rightarrow> u32 \<Rightarrow> 'f MCore \<Rightarrow> (u32 \<times> 'f MCore) res" where
  "retire_loop 0 p n c = Inr (n, c)"
| "retire_loop (Suc k) p n c =
     (let r = rob c in
      bindE (vget (rob_entries r) (uint (rob_ptr r))) (\<lambda>e.
      if ready_time e \<le> core_cycle c
      then bindE (checkE AssertFailed (\<not> lost_packet c e)) (\<lambda>_.
           bindE (umod (ucast (rob_ptr r + 1)) (ROB_SIZE p)) (\<lambda>i.
           retire_loop k p (n + 1) (c\<lparr>rob := r\<lparr>rob_ptr := ucast i, rob_size := rob_size r - 1\<rparr>\<rparr>)))
      else Inr (n, c)))"

definition mcore_rob_retire :: "Params \<Rightarrow> 'f MCore \<Rightarrow> (u32 \<times> 'f MCore) res" where
  "mcore_rob_retire p c =
     (if rob_size (rob c) = 0 then Inr (0, c) else retire_loop (unat CORE_WIDTH) p 0 c)"

definition mcore_rob_wakeup :: "u32 \<Rightarrow> u64 \<Rightarrow> 'f MCore \<Rightarrow> 'f MCore res" where
  "mcore_rob_wakeup robid inst c =
     bindE (vget (rob_entries (rob c)) (uint robid)) (\<lambda>e.
     if r_inst_num e = inst
     then bindE (vset (rob_entries (rob c)) (uint robid) (e\<lparr>ready_time := core_cycle c\<rparr>)) (\<lambda>es.
          Inr (c\<lparr>rob := (rob c)\<lparr>rob_entries := es\<rparr>, num_delay_count := num_delay_count c + 1,
            sum_delay_count := sum_delay_count c + (core_cycle c - birth_time e)\<rparr>))
     else Inl AssertFailed)"

subsection \<open>The cycle of a core\<close>

text \<open>A stalled core counts why its oldest instruction waits.\<close>

definition count_stall :: "'m MemoryMethods \<Rightarrow> 'm MemSys \<Rightarrow> 'f MCore \<Rightarrow> 'f MCore res" where
  "count_stall mm m c =
     bindE (vget (rob_entries (rob c)) (uint (rob_ptr (rob c)))) (\<lambda>e.
     let c = c\<lparr>total_rob_stalls := total_rob_stalls c + 1\<rparr> in
     bindE (memsys_isindrfm mm m (r_lineaddr e)) (\<lambda>drfm.
     if drfm then Inr (c\<lparr>drfm_rob_stalls := drfm_rob_stalls c + 1\<rparr>)
     else bindE (memsys_isinref mm m (r_lineaddr e)) (\<lambda>ref.
       Inr (if ref then c\<lparr>ref_rob_stalls := ref_rob_stalls c + 1\<rparr> else c))))"

definition mcore_retry_sleeping_request :: "('m, 'f) Ctx \<Rightarrow> 'f MCore \<Rightarrow> 'm Shared \<Rightarrow> (bool \<times> 'f MCore \<times> 'm Shared) res" where
  "mcore_retry_sleeping_request cx c sh =
     (let c = c\<lparr>sleep_cycle_count := sleep_cycle_count c + 1\<rparr> in
      bindE (memsys_access (cx_mem cx) (sleep_lineaddr c) (mcore_id c) (sleep_robid c) (sleep_inst_num c) 0 (sh_memsys sh)) (\<lambda>(ok, m).
      let sh = sh\<lparr>sh_memsys := m\<rparr> in
      if ok
      then bindE (vupd (rob_entries (rob c)) (uint (sleep_robid c))
             (\<lambda>e. e\<lparr>birth_time := core_cycle c, ready_time := core_cycle c + ucast DEFAULT_MEM_DELAY,
                    r_inst_num := sleep_inst_num c\<rparr>)) (\<lambda>es.
           Inr (True, c\<lparr>rob := (rob c)\<lparr>rob_entries := es\<rparr>, core_sleep := False\<rparr>, sh))
      else Inr (False, c, sh)))"

text \<open>
  A read of the trace at the last-level cache: the delay it adds, whether memory is accessed, and the line to
  write back (0 for none). \<open>delay\<close> is 32 bits wide.
\<close>

definition llc_read :: "('m, 'f) Ctx \<Rightarrow> u64 \<Rightarrow> 'f MCore \<Rightarrow> 'm Shared \<Rightarrow> (u32 \<times> bool \<times> u64 \<times> 'f MCore \<times> 'm Shared) res" where
  "llc_read cx lineaddr c sh =
     (let delay = ucast (L3_LATENCY (cx_p cx)); c = c\<lparr>access_count := access_count c + 1\<rparr> in
      bindE (mcache_access (sh_llc sh) lineaddr) (\<lambda>(hit, llc).
      if L3_PERFECT (cx_p cx) = 0 \<and> \<not> hit
      then bindE (mcache_install (cx_rand cx) (sh_rand_pos sh) llc lineaddr) (\<lambda>(pos, llc).
           Inr (delay + DEFAULT_MEM_DELAY, True, if evicted_dirty_line llc then evicted_line_addr llc else 0,
                c\<lparr>miss_count := miss_count c + 1\<rparr>, sh\<lparr>sh_llc := llc, sh_rand_pos := pos\<rparr>))
      else Inr (delay, False, 0, c, sh\<lparr>sh_llc := llc\<rparr>)))"

definition read_trace :: "('m, 'f) Ctx \<Rightarrow> 'f MCore \<Rightarrow> 'm Shared \<Rightarrow> ('f MCore \<times> 'm Shared) res" where
  "read_trace cx c sh =
     bindE (mcore_read_trace cx (sh_rand_pos sh) c) (\<lambda>(pos, c). Inr (c, sh\<lparr>sh_rand_pos := pos\<rparr>))"

text \<open>The next instruction of the trace, up to its place in the reorder buffer.\<close>

definition fetch :: "('m, 'f) Ctx \<Rightarrow> 'f MCore \<Rightarrow> 'm Shared \<Rightarrow> (u64 \<times> u32 \<times> bool \<times> u64 \<times> 'f MCore \<times> 'm Shared) res" where
  "fetch cx c sh =
     (let c = c\<lparr>inst_num := inst_num c + 1\<rparr> in
      bindE (if \<not> core_done c \<and> inst_num c > INST_LIMIT (cx_p cx) then read_trace cx c sh else Inr (c, sh)) (\<lambda>(c, sh).
      bindE (os_v2p_lineaddr (cx_rand cx) (sh_rand_pos sh) (sh_os sh) (trace_va c) (mcore_id c)) (\<lambda>(la, pos, os).
      let sh = sh\<lparr>sh_os := os, sh_rand_pos := pos\<rparr> in
      if inst_num c \<ge> trace_inst_num c
      then bindE (if trace_wb c \<noteq> 0
                  then bindE (mcache_mark_dirty (sh_llc sh) la) (\<lambda>(_, llc). Inr (0, False, 0, c, sh\<lparr>sh_llc := llc\<rparr>))
                  else llc_read cx la c sh) (\<lambda>(delay, mem_access, wb, c, sh).
           bindE (read_trace cx c sh) (\<lambda>(c, sh). Inr (la, delay, mem_access, wb, c, sh)))
      else Inr (la, 0, False, 0, c, sh))))"

text \<open>One iteration of the loop of \<open>mcore_cycle\<close>; the flag tells whether the cycle goes on.\<close>

definition issue_inst :: "('m, 'f) Ctx \<Rightarrow> 'f MCore \<Rightarrow> 'm Shared \<Rightarrow> (bool \<times> 'f MCore \<times> 'm Shared) res" where
  "issue_inst cx c sh =
     (if ucast (rob_size (rob c)) = ROB_SIZE (cx_p cx)
      then bindE (count_stall (cx_mem cx) (sh_memsys sh) c) (\<lambda>c. Inr (False, c, sh))
      else
        bindE (fetch cx c sh) (\<lambda>(la, delay, mem_access, wb, c, sh).
        bindE (mcore_rob_insert (cx_p cx) (inst_num c) (core_cycle c) (core_cycle c + ucast delay) la c) (\<lambda>(robid, c).
        if mem_access
        then bindE (memsys_access (cx_mem cx) la (mcore_id c) robid (inst_num c) wb (sh_memsys sh)) (\<lambda>(ok, m).
             let sh = sh\<lparr>sh_memsys := m\<rparr> in
             if ok then Inr (True, c, sh)
             else Inr (False, c\<lparr>queue_full_count := queue_full_count c + 1, sleep_lineaddr := la, sleep_robid := robid,
                    sleep_inst_num := inst_num c, core_sleep := True\<rparr>, sh))
        else Inr (True, c, sh))))"

primrec width_loop :: "nat \<Rightarrow> ('m, 'f) Ctx \<Rightarrow> 'f MCore \<Rightarrow> 'm Shared \<Rightarrow> ('f MCore \<times> 'm Shared) res" where
  "width_loop 0 cx c sh = Inr (c, sh)"
| "width_loop (Suc n) cx c sh =
     bindE (issue_inst cx c sh) (\<lambda>(more, c, sh). if more then width_loop n cx c sh else Inr (c, sh))"

definition mcore_cycle :: "('m, 'f) Ctx \<Rightarrow> 'f MCore \<Rightarrow> 'm Shared \<Rightarrow> ('f MCore \<times> 'm Shared) res" where
  "mcore_cycle cx c sh =
     bindE (mcore_rob_retire (cx_p cx) (c\<lparr>core_cycle := core_cycle c + 1\<rparr>)) (\<lambda>(_, c).
     if core_sleep c
     then bindE (mcore_retry_sleeping_request cx c sh) (\<lambda>(ok, c, sh).
          if ok then width_loop (unat CORE_WIDTH) cx c sh
          else bindE (count_stall (cx_mem cx) (sh_memsys sh) c) (\<lambda>c. Inr (c, sh)))
     else width_loop (unat CORE_WIDTH) cx c sh)"

subsection \<open>Construction and responses\<close>

definition empty_rob :: ROB where
  "empty_rob = \<lparr>rob_entries = replicate MAX_ROB_ENTRIES \<lparr>birth_time = 0, ready_time = 0, r_inst_num = 0, r_lineaddr = 0\<rparr>,
     rob_ptr = 0, rob_size = 0\<rparr>"

definition mcore_new :: "('m, 'f) Ctx \<Rightarrow> 'f \<Rightarrow> string \<Rightarrow> u32 \<Rightarrow> nat \<Rightarrow> (nat \<times> 'f MCore) res" where
  "mcore_new cx f0 fname i pos =
     bindE (mcore_init_trace (cx_gz cx) pos
       \<lparr>mcore_id = i, addr_trace_fname = fname, addr_trace = f0, core_done = False, core_sleep = False,
        sleep_lineaddr = 0, sleep_robid = 0, sleep_inst_num = 0, rob = empty_rob,
        trace_inst_num = 0, trace_va = 0, trace_wb = 0, core_cycle = 0, inst_num = 0, access_count = 0, miss_count = 0,
        num_delay_count = 0, sum_delay_count = 0, queue_full_count = 0, sleep_cycle_count = 0, lifetime_inst_count = 0,
        total_rob_stalls = 0, drfm_rob_stalls = 0, ref_rob_stalls = 0, done_inst_count = 0, done_cycle_count = 0,
        done_access_count = 0, done_miss_count = 0, done_num_delay_count = 0, done_sum_delay_count = 0,
        done_queue_full_count = 0, done_sleep_cycle_count = 0\<rparr>) (\<lambda>(pos, c).
     mcore_read_trace cx pos c)"

text \<open>A response to a read wakes the instruction its miss entry names; a response to a write does nothing.\<close>

definition memsys_callback :: "u64 \<Rightarrow> 'f MCore list \<times> 'm MemSys \<Rightarrow> ('f MCore list \<times> 'm MemSys) res" where
  "memsys_callback byteaddress = (\<lambda>(cores, m).
     let lineaddr = byteaddress div LINESIZE in
     case mshr m lineaddr of
       None \<Rightarrow> Inl AssertFailed
     | Some e \<Rightarrow>
         bindE (vget cores (uint (mshr_coreid e))) (\<lambda>c.
         bindE (mcore_rob_wakeup (mshr_robid e) (mshr_inst_num e) c) (\<lambda>c.
         bindE (vset cores (uint (mshr_coreid e)) c) (\<lambda>cores.
         Inr (cores, m\<lparr>mshr := (mshr m)(lineaddr := None)\<rparr>)))))"

definition dispatch :: "callback_event \<Rightarrow> 'f MCore list \<times> 'm MemSys \<Rightarrow> ('f MCore list \<times> 'm MemSys) res" where
  "dispatch ev s = (if snd ev then Inr s else memsys_callback (fst ev) s)"

definition memsys_cycle :: "('m, 'f) Ctx \<Rightarrow> 'f MCore list \<Rightarrow> 'm Shared \<Rightarrow> ('f MCore list \<times> 'm Shared) res" where
  "memsys_cycle cx cores sh =
     bindE (m_Tick (cx_mem cx) (sh_rand_pos sh) (mainmem (sh_memsys sh))) (\<lambda>(es, pos, mem).
     bindE (foldE dispatch es (cores, (sh_memsys sh)\<lparr>mainmem := mem\<rparr>)) (\<lambda>(cores, m).
     Inr (cores, sh\<lparr>sh_memsys := m, sh_rand_pos := pos\<rparr>)))"

end
