(* ===== verification/Memsim_Rob.thy ===== *)
theory Memsim_Rob
  imports Memsim_Core
begin

text \<open>
  The reorder buffer is a ring over a fixed array. It refines a queue: the view of a buffer is the list of its
  live entries, oldest first; an insertion appends to it, and retiring drops a prefix.
\<close>

section \<open>The view\<close>

abbreviation rob_cap :: "Params \<Rightarrow> nat" where
  "rob_cap p \<equiv> unat (ROB_SIZE p)"

definition rob_ok :: "Params \<Rightarrow> ROB \<Rightarrow> bool" where
  "rob_ok p r \<longleftrightarrow> length (rob_entries r) = MAX_ROB_ENTRIES \<and> 0 < rob_cap p \<and> rob_cap p \<le> MAX_ROB_ENTRIES \<and>
     unat (rob_ptr r) < rob_cap p \<and> unat (rob_size r) \<le> rob_cap p"

definition live :: "Params \<Rightarrow> ROB \<Rightarrow> nat list" where
  "live p r = map (\<lambda>d. (unat (rob_ptr r) + d) mod rob_cap p) [0..<unat (rob_size r)]"

definition rob_view :: "Params \<Rightarrow> ROB \<Rightarrow> ROB_Entry list" where
  "rob_view p r = map ((!) (rob_entries r)) (live p r)"

lemma length_live [simp]: "length (live p r) = unat (rob_size r)"
  by (simp add: live_def)

lemma live_cong: "rob_ptr r' = rob_ptr r \<Longrightarrow> rob_size r' = rob_size r \<Longrightarrow> live p r' = live p r"
  by (simp add: live_def)

lemma live_bound: "rob_ok p r \<Longrightarrow> k \<in> set (live p r) \<Longrightarrow> k < rob_cap p \<and> k < length (rob_entries r)"
  by (auto simp: live_def rob_ok_def intro!: order.strict_trans2 [of _ "rob_cap p" MAX_ROB_ENTRIES])

lemma ring_inj:
  assumes "(a + d) mod n = (a + d') mod n" "d < n" "d' < (n :: nat)"
  shows "d = d'"
proof -
  obtain q q' where "a + d + n * q = a + d' + n * q'" using assms(1) unfolding nat_mod_eq_iff by blast
  then have "d mod n = d' mod n" unfolding nat_mod_eq_iff by (intro exI [of _ q] exI [of _ q']) simp
  then show ?thesis using assms(2,3) by simp
qed

lemma live_distinct: "rob_ok p r \<Longrightarrow> distinct (live p r)"
  unfolding live_def distinct_map by (auto simp: rob_ok_def inj_on_def dest: ring_inj)

lemma next_free: "rob_ok p r \<Longrightarrow> unat (rob_size r) < rob_cap p \<Longrightarrow> (unat (rob_ptr r) + unat (rob_size r)) mod rob_cap p \<notin> set (live p r)"
  unfolding live_def by (auto simp: rob_ok_def dest!: ring_inj)

section \<open>Insertion\<close>

lemma unat_ucast_small: "unat (w :: u64) < 2 ^ 32 \<Longrightarrow> unat (ucast w :: u32) = unat w"
  by (simp add: unsigned_ucast_eq take_bit_nat_eq_self)

lemma ring_index:
  assumes "rob_ok p r" "unat d \<le> rob_cap p"
  obtains i where "umod (ucast (rob_ptr r + d)) (ROB_SIZE p) = Inr i"
    "unat (ucast i :: u32) = (unat (rob_ptr r) + unat d) mod rob_cap p"
proof -
  have s: "unat (rob_ptr r + d) = unat (rob_ptr r) + unat d"
    using assms by (simp add: rob_ok_def MAX_ROB_ENTRIES_def unat_word_ariths)
  have nz: "ROB_SIZE p \<noteq> 0" using assms(1) by (auto simp: rob_ok_def)
  let ?i = "ucast (rob_ptr r + d) mod ROB_SIZE p :: u64"
  have u: "unat ?i = (unat (rob_ptr r) + unat d) mod rob_cap p" by (simp add: unat_mod_distrib unat_ucast_u64 s)
  have "unat ?i < rob_cap p" unfolding u using assms(1) by (simp add: rob_ok_def)
  then have "unat ?i < 2 ^ 32" using assms(1) by (simp add: rob_ok_def MAX_ROB_ENTRIES_def)
  then show ?thesis using that [of ?i] nz u by (simp add: unat_ucast_small)
qed

lemma rob_insert_spec:
  assumes ok: "rob_ok p (rob c)"
  shows "if unat (rob_size (rob c)) < rob_cap p
    then \<exists>i c'. mcore_rob_insert p inst cyc ready la c = Inr (i, c') \<and>
      unat i = (unat (rob_ptr (rob c)) + unat (rob_size (rob c))) mod rob_cap p \<and>
      c' = c\<lparr>rob := (rob c)\<lparr>rob_entries := (rob_entries (rob c))[unat i := \<lparr>birth_time = cyc, ready_time = ready, r_inst_num = inst, r_lineaddr = la\<rparr>],
        rob_size := rob_size (rob c) + 1\<rparr>\<rparr> \<and> unat (rob_size (rob c) + 1) = unat (rob_size (rob c)) + 1
    else mcore_rob_insert p inst cyc ready la c = Inl AssertFailed"
proof (cases "unat (rob_size (rob c)) < rob_cap p")
  case True
  then have lt: "(ucast (rob_size (rob c)) :: u64) < ROB_SIZE p" by (simp add: word_less_nat_alt unat_ucast_u64)
  obtain i where i: "umod (ucast (rob_ptr (rob c) + rob_size (rob c))) (ROB_SIZE p) = Inr i"
    "unat (ucast i :: u32) = (unat (rob_ptr (rob c)) + unat (rob_size (rob c))) mod rob_cap p"
    using ring_index [OF ok, of "rob_size (rob c)"] True by auto
  have "unat (ucast i :: u32) < rob_cap p" unfolding i(2) using ok by (simp add: rob_ok_def)
  then have "inrange (uint (ucast i :: u32)) (rob_entries (rob c))" using ok by (simp add: inrange_uint rob_ok_def)
  moreover have "unat (rob_size (rob c) + 1) = unat (rob_size (rob c)) + 1"
    using True ok by (simp add: rob_ok_def MAX_ROB_ENTRIES_def unat_word_ariths)
  ultimately show ?thesis using True lt i by (simp add: mcore_rob_insert_def Let_def)
next
  case False
  then have "\<not> (ucast (rob_size (rob c)) :: u64) < ROB_SIZE p" by (simp add: word_less_nat_alt unat_ucast_u64)
  then show ?thesis using False by (simp add: mcore_rob_insert_def)
qed

lemma live_insert:
  assumes "unat (s + 1) = unat s + 1"
  shows "live p \<lparr>rob_entries = es, rob_ptr = q, rob_size = s + 1\<rparr> =
    live p \<lparr>rob_entries = es', rob_ptr = q, rob_size = s\<rparr> @ [(unat q + unat s) mod rob_cap p]"
  by (simp add: live_def assms)

lemma rob_insert_Inr:
  assumes "mcore_rob_insert p inst cyc ready la c = Inr (i, c')" "rob_ok p (rob c)"
  shows "unat (rob_size (rob c)) < rob_cap p" "unat i = (unat (rob_ptr (rob c)) + unat (rob_size (rob c))) mod rob_cap p"
    "c' = c\<lparr>rob := rob c'\<rparr>" "rob_entries (rob c') = (rob_entries (rob c))[unat i := \<lparr>birth_time = cyc, ready_time = ready, r_inst_num = inst, r_lineaddr = la\<rparr>]"
    "unat (rob_size (rob c')) = unat (rob_size (rob c)) + 1" "live p (rob c') = live p (rob c) @ [unat i]" "unat i \<notin> set (live p (rob c))"
    "unat i < length (rob_entries (rob c))" "rob_ok p (rob c')"
proof -
  show s: "unat (rob_size (rob c)) < rob_cap p"
    using rob_insert_spec [OF assms(2), of inst cyc ready la] assms(1) by (auto split: if_splits)
  show i: "unat i = (unat (rob_ptr (rob c)) + unat (rob_size (rob c))) mod rob_cap p"
    and c: "c' = c\<lparr>rob := rob c'\<rparr>"
    and e: "rob_entries (rob c') = (rob_entries (rob c))[unat i := \<lparr>birth_time = cyc, ready_time = ready, r_inst_num = inst, r_lineaddr = la\<rparr>]"
    and z: "unat (rob_size (rob c')) = unat (rob_size (rob c)) + 1"
    using rob_insert_spec [OF assms(2), of inst cyc ready la] s assms(1) by auto
  have q: "rob_ptr (rob c') = rob_ptr (rob c)"
    using rob_insert_spec [OF assms(2), of inst cyc ready la] s assms(1) by auto
  show l: "live p (rob c') = live p (rob c) @ [unat i]" by (simp add: live_def z q i)
  show "unat i \<notin> set (live p (rob c))" unfolding i by (rule next_free [OF assms(2) s])
  have "unat i < rob_cap p" unfolding i using assms(2) by (simp add: rob_ok_def)
  then show "unat i < length (rob_entries (rob c))" using assms(2) by (simp add: rob_ok_def)
  show "rob_ok p (rob c')" using assms(2) s by (simp add: rob_ok_def e z q)
qed

section \<open>Retirement\<close>

definition ready :: "'f MCore \<Rightarrow> ROB_Entry \<Rightarrow> bool" where
  "ready c e \<longleftrightarrow> ready_time e \<le> core_cycle c"

lemma ready_rob: "ready (c\<lparr>rob := r\<rparr>) = ready c"
  by (simp add: ready_def fun_eq_iff)

text \<open>The buffer without its \<open>n\<close> oldest entries.\<close>

definition popped :: "Params \<Rightarrow> nat \<Rightarrow> ROB \<Rightarrow> ROB" where
  "popped p n r = r\<lparr>rob_ptr := of_nat ((unat (rob_ptr r) + n) mod rob_cap p), rob_size := of_nat (unat (rob_size r) - n)\<rparr>"

lemma popped_fields:
  assumes "rob_ok p r" "n \<le> unat (rob_size r)"
  shows "unat (rob_ptr (popped p n r)) = (unat (rob_ptr r) + n) mod rob_cap p" "unat (rob_size (popped p n r)) = unat (rob_size r) - n"
    "rob_entries (popped p n r) = rob_entries r"
proof -
  have "(unat (rob_ptr r) + n) mod rob_cap p < rob_cap p" using assms(1) by (simp add: rob_ok_def)
  moreover have "rob_cap p < 2 ^ 32" using assms(1) by (simp add: rob_ok_def MAX_ROB_ENTRIES_def)
  ultimately have "(unat (rob_ptr r) + n) mod rob_cap p < 2 ^ 32" by (rule order.strict_trans)
  then show "unat (rob_ptr (popped p n r)) = (unat (rob_ptr r) + n) mod rob_cap p" by (simp add: popped_def unat_of_nat)
  have "unat (rob_size r) - n < 2 ^ 32" using assms \<open>rob_cap p < 2 ^ 32\<close> by (auto simp: rob_ok_def)
  then show "unat (rob_size (popped p n r)) = unat (rob_size r) - n" by (simp add: popped_def unat_of_nat)
  show "rob_entries (popped p n r) = rob_entries r" by (simp add: popped_def)
qed

lemma popped_ok: "rob_ok p r \<Longrightarrow> n \<le> unat (rob_size r) \<Longrightarrow> rob_ok p (popped p n r)"
  by (auto simp: rob_ok_def popped_fields)

lemma popped_live: "rob_ok p r \<Longrightarrow> n \<le> unat (rob_size r) \<Longrightarrow> live p (popped p n r) = drop n (live p r)"
  by (auto simp: live_def popped_fields drop_map mod_simps ac_simps intro!: nth_equalityI)

lemma popped_view: "rob_ok p r \<Longrightarrow> n \<le> unat (rob_size r) \<Longrightarrow> rob_view p (popped p n r) = drop n (rob_view p r)"
  by (simp add: rob_view_def popped_live popped_fields drop_map)

lemma popped_0: "rob_ok p r \<Longrightarrow> popped p 0 r = r"
  by (simp add: popped_def rob_ok_def)

lemma popped_Suc:
  assumes "rob_ok p r" "Suc n \<le> unat (rob_size r)"
  shows "popped p n (popped p 1 r) = popped p (Suc n) r"
proof -
  have f: "unat (rob_ptr (popped p 1 r)) = (unat (rob_ptr r) + 1) mod rob_cap p" "unat (rob_size (popped p 1 r)) = unat (rob_size r) - 1"
    using assms by (simp_all add: popped_fields)
  have "popped p n (popped p 1 r) = r\<lparr>rob_ptr := of_nat ((unat (rob_ptr (popped p 1 r)) + n) mod rob_cap p), rob_size := of_nat (unat (rob_size (popped p 1 r)) - n)\<rparr>"
    by (simp add: popped_def)
  then show ?thesis unfolding f by (simp add: popped_def mod_add_left_eq)
qed

lemma view_Cons:
  assumes "rob_ok p r" "0 < unat (rob_size r)"
  shows "rob_view p r = rob_entries r ! unat (rob_ptr r) # rob_view p (popped p 1 r)"
proof -
  have "live p r \<noteq> []" "hd (live p r) = unat (rob_ptr r)" using assms by (simp_all add: live_def upt_rec [of 0] rob_ok_def)
  then have "live p r = unat (rob_ptr r) # drop 1 (live p r)" by (metis One_nat_def drop0 drop_Suc list.collapse)
  then show ?thesis using popped_live [OF assms(1), of 1] assms(2) popped_fields(3) [OF assms(1), of 1]
    by (metis One_nat_def Suc_leI list.simps(9) rob_view_def)
qed

text \<open>
  What the loop does when it cannot run past the last entry: there are at least as many entries as it may
  retire, or one of them is not ready.
\<close>

definition no_overrun :: "nat \<Rightarrow> Params \<Rightarrow> 'f MCore \<Rightarrow> bool" where
  "no_overrun k p c \<longleftrightarrow> k \<le> unat (rob_size (rob c)) \<or> (\<exists>e\<in>set (rob_view p (rob c)). \<not> ready c e)"

definition retiring :: "nat \<Rightarrow> Params \<Rightarrow> 'f MCore \<Rightarrow> ROB_Entry list" where
  "retiring k p c = takeWhile (ready c) (take k (rob_view p (rob c)))"

lemma retiring_le: "length (retiring k p c) \<le> k" "length (retiring k p c) \<le> unat (rob_size (rob c))"
  using length_takeWhile_le [of "ready c" "take k (rob_view p (rob c))"] by (auto simp: retiring_def rob_view_def)

lemma retire_loop_spec:
  assumes "rob_ok p (rob c)" "no_overrun k p c"
  shows "retire_loop k p n c =
    (if list_ex (lost_packet c) (retiring k p c) then Inl AssertFailed
     else Inr (n + of_nat (length (retiring k p c)), c\<lparr>rob := popped p (length (retiring k p c)) (rob c)\<rparr>))"
  using assms
proof (induction k arbitrary: n c)
  case 0
  then show ?case by (simp add: retiring_def popped_0)
next
  case (Suc k)
  let ?r = "rob c" let ?e = "rob_entries ?r ! unat (rob_ptr ?r)" let ?c1 = "c\<lparr>rob := popped p 1 ?r\<rparr>"
  have pos: "0 < unat (rob_size ?r)" using Suc.prems(2) by (auto simp: no_overrun_def rob_view_def live_def)
  note v = view_Cons [OF Suc.prems(1) pos]
  have rt: "retiring (Suc k) p c = (if ready c ?e then ?e # retiring k p ?c1 else [])"
    using ready_rob [of "popped p 1 ?r" c] by (simp add: retiring_def v)
  have g: "vget (rob_entries ?r) (uint (rob_ptr ?r)) = Inr ?e" using Suc.prems(1) by (simp add: vget_Inr_iff inrange_uint rob_ok_def)
  show ?case
  proof (cases "ready c ?e")
    case False
    then show ?thesis using g by (simp add: rt ready_def Let_def popped_0 [OF Suc.prems(1)])
  next
    case True
    have one: "unat (1 :: u32) \<le> rob_cap p" using Suc.prems(1) by (simp add: rob_ok_def)
    obtain i where i: "umod (ucast (rob_ptr ?r + 1)) (ROB_SIZE p) = Inr i" "unat (ucast i :: u32) = (unat (rob_ptr ?r) + 1) mod rob_cap p"
      using ring_index [OF Suc.prems(1) one] by auto
    have "(ucast i :: u32) = of_nat ((unat (rob_ptr ?r) + 1) mod rob_cap p)" using i(2) by (metis of_nat_unat ucast_id)
    moreover have "rob_size ?r - 1 = of_nat (unat (rob_size ?r) - 1)" using pos by (simp add: of_nat_diff)
    ultimately have "?r\<lparr>rob_ptr := ucast i, rob_size := rob_size ?r - 1\<rparr> = popped p 1 ?r" by (simp add: popped_def)
    then have step: "retire_loop (Suc k) p n c = (if lost_packet c ?e then Inl AssertFailed else retire_loop k p (n + 1) ?c1)"
      using True g i(1) by (simp add: ready_def Let_def checkE_def)
    have ok1: "rob_ok p (rob ?c1)" using popped_ok [OF Suc.prems(1), of 1] pos by simp
    have "no_overrun k p ?c1"
      using Suc.prems(2) True popped_fields(2) [OF Suc.prems(1), of 1] pos by (auto simp: no_overrun_def v ready_def)
    note ih = Suc.IH [OF ok1 this, of "n + 1"]
    have l: "lost_packet ?c1 = lost_packet c" by (simp add: lost_packet_def fun_eq_iff)
    have "length (retiring k p ?c1) \<le> unat (rob_size ?r) - 1" using retiring_le(2) [of k p ?c1] popped_fields(2) [OF Suc.prems(1), of 1] pos by simp
    then have "popped p (length (retiring k p ?c1)) (popped p 1 ?r) = popped p (Suc (length (retiring k p ?c1))) ?r"
      using pos by (intro popped_Suc [OF Suc.prems(1)]) simp
    then show ?thesis unfolding step ih l by (simp add: rt True)
  qed
qed

lemma rob_retire_spec:
  assumes "rob_ok p (rob c)" "unat (rob_size (rob c)) = 0 \<or> no_overrun (unat CORE_WIDTH) p c"
  shows "mcore_rob_retire p c =
    (if list_ex (lost_packet c) (retiring (unat CORE_WIDTH) p c) then Inl AssertFailed
     else Inr (of_nat (length (retiring (unat CORE_WIDTH) p c)), c\<lparr>rob := popped p (length (retiring (unat CORE_WIDTH) p c)) (rob c)\<rparr>))"
proof (cases "unat (rob_size (rob c)) = 0")
  case True
  then show ?thesis using popped_0 [OF assms(1)] by (simp add: mcore_rob_retire_def retiring_def rob_view_def live_def unat_eq_0)
next
  case False
  then have "rob_size (rob c) \<noteq> 0" by auto
  then show ?thesis using retire_loop_spec [OF assms(1)] assms(2) False by (simp add: mcore_rob_retire_def)
qed

text \<open>Without the guard: the loop goes on over entries that have left the buffer long ago.\<close>

lemma retire_loop_stale:
  assumes "0 < rob_cap p" "rob_cap p \<le> MAX_ROB_ENTRIES" "length (rob_entries (rob c)) = MAX_ROB_ENTRIES" "unat (rob_ptr (rob c)) < rob_cap p"
    and "\<forall>d<k. ready c (rob_entries (rob c) ! ((unat (rob_ptr (rob c)) + d) mod rob_cap p)) \<and>
      \<not> lost_packet c (rob_entries (rob c) ! ((unat (rob_ptr (rob c)) + d) mod rob_cap p))"
  shows "\<exists>c'. retire_loop k p n c = Inr (n + of_nat k, c') \<and> rob_size (rob c') = rob_size (rob c) - of_nat k"
  using assms(3-5)
proof (induction k arbitrary: n c)
  case (Suc k)
  let ?r = "rob c" let ?e = "rob_entries ?r ! unat (rob_ptr ?r)"
  have e: "ready c ?e" "\<not> lost_packet c ?e" using Suc.prems(2,3) by (auto dest: spec [of _ 0])
  have "rob_ok p (?r\<lparr>rob_size := 0\<rparr>)" using Suc.prems assms(1,2) by (simp add: rob_ok_def)
  then obtain i where i: "umod (ucast (rob_ptr ?r + 1)) (ROB_SIZE p) = Inr i" "unat (ucast i :: u32) = (unat (rob_ptr ?r) + 1) mod rob_cap p"
    using ring_index [of p "?r\<lparr>rob_size := 0\<rparr>" 1] assms(1) by auto
  let ?c1 = "c\<lparr>rob := ?r\<lparr>rob_ptr := ucast i, rob_size := rob_size ?r - 1\<rparr>\<rparr>"
  have g: "vget (rob_entries ?r) (uint (rob_ptr ?r)) = Inr ?e" using Suc.prems assms(2) by (simp add: vget_Inr_iff inrange_uint)
  have l: "lost_packet ?c1 = lost_packet c" by (simp add: lost_packet_def fun_eq_iff)
  have "ready c (rob_entries ?r ! ((unat (rob_ptr ?r) + 1 + d) mod rob_cap p)) \<and> \<not> lost_packet c (rob_entries ?r ! ((unat (rob_ptr ?r) + 1 + d) mod rob_cap p))"
    if "d < k" for d using Suc.prems(3) that by (auto dest: spec [of _ "Suc d"])
  then have "\<exists>c'. retire_loop k p (n + 1) ?c1 = Inr (n + 1 + of_nat k, c') \<and> rob_size (rob c') = rob_size (rob ?c1) - of_nat k"
    using Suc.prems(1) assms(1) by (intro Suc.IH) (simp_all add: i(2) l ready_rob mod_simps)
  then show ?case using e g i(1) by (auto simp: ready_def Let_def algebra_simps)
qed simp

section \<open>Properties\<close>


definition tiny_params :: Params where
  "tiny_params = \<lparr>ROB_SIZE = 2, INST_LIMIT = 1000, OS_PAGESIZE = 4096, L3_SIZE_KB = 1, L3_ASSOC = 4, L3_LATENCY = 24, L3_REPL = 0,
     L3_PERFECT = 0, MEM_SIZE_MB = 1, MEM_PAGESIZE = 8192, MEM_RSRV_MB = 0\<rparr>"

definition tiny_core :: "u32 \<Rightarrow> unit MCore" where
  "tiny_core n = \<lparr>mcore_id = 0, addr_trace_fname = ''t'', addr_trace = (), core_done = False, core_sleep = False,
     sleep_lineaddr = 0, sleep_robid = 0, sleep_inst_num = 0, rob = empty_rob\<lparr>rob_size := n\<rparr>,
     trace_inst_num = 0, trace_va = 0, trace_wb = 0, core_cycle = 1, inst_num = 0, access_count = 0, miss_count = 0,
     num_delay_count = 0, sum_delay_count = 0, queue_full_count = 0, sleep_cycle_count = 0, lifetime_inst_count = 0,
     total_rob_stalls = 0, drfm_rob_stalls = 0, ref_rob_stalls = 0, done_inst_count = 0, done_cycle_count = 0,
     done_access_count = 0, done_miss_count = 0, done_num_delay_count = 0, done_sum_delay_count = 0,
     done_queue_full_count = 0, done_sleep_cycle_count = 0\<rparr>"

lemma tiny_core_ok: "unat n \<le> 2 \<Longrightarrow> rob_ok tiny_params (rob (tiny_core n))"
  by (simp add: rob_ok_def tiny_params_def tiny_core_def empty_rob_def MAX_ROB_ENTRIES_def)


text \<open>
  C20. Nothing in the loop that retires looks at the number of entries left. With a buffer smaller than the core is
  wide (\<open>-robsize 2\<close>) and all entries ready, it retires entries that are not there and the unsigned
  size wraps around.
\<close>

theorem rob_retire_underflows:
  assumes "rob_ok p (rob c)" "0 < unat (rob_size (rob c))" "unat (rob_size (rob c)) < unat CORE_WIDTH"
    and "\<forall>d<unat CORE_WIDTH. ready c (rob_entries (rob c) ! ((unat (rob_ptr (rob c)) + d) mod rob_cap p)) \<and>
      \<not> lost_packet c (rob_entries (rob c) ! ((unat (rob_ptr (rob c)) + d) mod rob_cap p))"
  shows "okE (mcore_rob_retire p c) (\<lambda>(n, c'). unat n = unat CORE_WIDTH \<and>
    unat (rob_size (rob c')) + unat CORE_WIDTH = 2 ^ 32 + unat (rob_size (rob c)))"
proof -
  have w: "unat CORE_WIDTH = 4" by (simp add: CORE_WIDTH_def)
  obtain c' where r: "retire_loop 4 p 0 c = Inr (4, c')" "rob_size (rob c') = rob_size (rob c) - 4"
    using retire_loop_stale [of p c 4 0] assms by (auto simp: rob_ok_def w)
  have "unat (rob_size (rob c) - 4) = unat (rob_size (rob c)) + 2 ^ 32 - 4" using assms(3) by (simp add: unat_sub_if' w)
  then show ?thesis using r assms(2) by (auto simp: mcore_rob_retire_def w)
qed

theorem rob_retire_underflows_witness:
  "okE (mcore_rob_retire tiny_params (tiny_core 2)) (\<lambda>(n, c'). unat n = 4 \<and> unat (rob_size (rob c')) + 4 = 2 ^ 32 + 2)"
proof -
  have "\<forall>d<unat CORE_WIDTH. ready (tiny_core 2) (rob_entries (rob (tiny_core 2)) ! ((unat (rob_ptr (rob (tiny_core 2))) + d) mod rob_cap tiny_params)) \<and>
      \<not> lost_packet (tiny_core 2) (rob_entries (rob (tiny_core 2)) ! ((unat (rob_ptr (rob (tiny_core 2))) + d) mod rob_cap tiny_params))"
    by (simp add: tiny_core_def tiny_params_def empty_rob_def ready_def lost_packet_def MAX_ROB_ENTRIES_def DEFAULT_MEM_DELAY_def)
  moreover have "unat (rob_size (rob (tiny_core 2))) = 2" by (simp add: tiny_core_def empty_rob_def)
  ultimately show ?thesis using rob_retire_underflows [of tiny_params "tiny_core 2"] tiny_core_ok [of 2] by (simp add: CORE_WIDTH_def)
qed

end
