(* ===== verification/Memsim_Run.thy ===== *)
theory Memsim_Run
  imports Memsim_Rob
begin

text \<open>
  The cores and the memory system together: every read the memory system holds has one miss entry, every miss
  entry names an instruction that still waits for it in the reorder buffer of its core, and a core that sleeps
  has its request in its buffer. The proofs use of the memory system only that it is a bag of requests; the
  interface is a locale, interpreted on the channels of DRAMsim3 and on the ideal system.
\<close>

section \<open>The invariant\<close>

text \<open>An instruction with the default delay waits for memory; the real delay is set when it is answered.\<close>

definition waits :: "ROB_Entry \<Rightarrow> bool" where
  "waits e \<longleftrightarrow> ucast DEFAULT_MEM_DELAY \<le> ready_time e - birth_time e"

definition pending :: "Params \<Rightarrow> 'f MCore \<Rightarrow> u64 \<Rightarrow> MSHR_Entry \<Rightarrow> bool" where
  "pending p c l e \<longleftrightarrow> unat (mshr_robid e) \<in> set (live p (rob c)) \<and> (core_sleep c \<longrightarrow> mshr_robid e \<noteq> sleep_robid c) \<and>
     (let x = rob_entries (rob c) ! unat (mshr_robid e) in r_inst_num x = mshr_inst_num e \<and> r_lineaddr x = l \<and> waits x)"

definition sleeper_ok :: "Params \<Rightarrow> 'f MCore \<Rightarrow> bool" where
  "sleeper_ok p c \<longleftrightarrow> (core_sleep c \<longrightarrow> unat (sleep_robid c) \<in> set (live p (rob c)) \<and> unat (sleep_lineaddr c) < 2 ^ 58 \<and>
     (let x = rob_entries (rob c) ! unat (sleep_robid c) in r_lineaddr x = sleep_lineaddr c \<and> waits x))"

definition core_ok :: "Params \<Rightarrow> nat \<Rightarrow> 'f MCore \<Rightarrow> bool" where
  "core_ok p i c \<longleftrightarrow> unat (mcore_id c) = i \<and> rob_ok p (rob c) \<and> unat CORE_WIDTH \<le> rob_cap p \<and> sleeper_ok p c"

text \<open>Between two cycles a core that is awake has nothing or at least a full width of instructions.\<close>

definition filled :: "'f MCore \<Rightarrow> bool" where
  "filled c \<longleftrightarrow> unat (rob_size (rob c)) = 0 \<or> unat CORE_WIDTH \<le> unat (rob_size (rob c)) \<or> core_sleep c"

text \<open>The memory has not kept an instruction waiting beyond the largest delay.\<close>

definition timely :: "Params \<Rightarrow> 'f MCore \<Rightarrow> bool" where
  "timely p c \<longleftrightarrow> (\<forall>k\<in>set (live p (rob c)). waits (rob_entries (rob c) ! k) \<longrightarrow> core_cycle c + 1 < ready_time (rob_entries (rob c) ! k))"

definition mshr_ok :: "Params \<Rightarrow> nat \<Rightarrow> 'f MCore \<Rightarrow> 'm MemSys \<Rightarrow> bool" where
  "mshr_ok p i c m \<longleftrightarrow> (\<forall>l e. mshr m l = Some e \<longrightarrow> unat (mshr_coreid e) = i \<longrightarrow> pending p c l e)"

definition others_kept :: "nat \<Rightarrow> 'm MemSys \<Rightarrow> 'm MemSys \<Rightarrow> bool" where
  "others_kept i m m' \<longleftrightarrow> (\<forall>l e. mshr m' l = Some e \<longrightarrow> unat (mshr_coreid e) \<noteq> i \<longrightarrow> mshr m l = Some e)"

lemma others_kept_refl [simp]: "mshr m' = mshr m \<Longrightarrow> others_kept i m m'"
  by (simp add: others_kept_def)

lemma others_kept_trans: "others_kept i a b \<Longrightarrow> others_kept i b c \<Longrightarrow> others_kept i a c"
  by (auto simp: others_kept_def)

definition params_ok :: "Params \<Rightarrow> bool" where
  "params_ok p \<longleftrightarrow> unat CORE_WIDTH \<le> rob_cap p \<and> rob_cap p \<le> MAX_ROB_ENTRIES \<and> unat (L3_LATENCY p) + unat DEFAULT_MEM_DELAY < 2 ^ 32"

section \<open>The reorder buffer keeps what waits\<close>

lemma not_retired:
  assumes "rob_ok p (rob c)" "n = length (retiring k p c)" "x \<in> set (live p (rob c))" "\<not> ready c (rob_entries (rob c) ! x)"
  shows "x \<in> set (live p (popped p n (rob c)))"
proof -
  have n: "n \<le> unat (rob_size (rob c))" using retiring_le(2) assms(2) by simp
  obtain j where j: "j < unat (rob_size (rob c))" "live p (rob c) ! j = x" using assms(3) by (auto simp: in_set_conv_nth)
  have "\<not> j < n"
  proof
    assume "j < n"
    then have "retiring k p c ! j \<in> set (retiring k p c)" using assms(2) by simp
    moreover have "retiring k p c ! j = rob_view p (rob c) ! j"
      using \<open>j < n\<close> assms(2) retiring_le(1) [of k p c] unfolding retiring_def by (subst takeWhile_nth) auto
    ultimately have "ready c (rob_view p (rob c) ! j)" unfolding retiring_def by (metis set_takeWhileD)
    then show False using assms(4) j by (simp add: rob_view_def)
  qed
  then have "drop n (live p (rob c)) ! (j - n) = x" "j - n < length (drop n (live p (rob c)))" using j by auto
  then show ?thesis unfolding popped_live [OF assms(1) n] by (metis nth_mem)
qed

lemma waiting_not_ready:
  "timely p c \<Longrightarrow> x \<in> set (live p (rob c)) \<Longrightarrow> waits (rob_entries (rob c) ! x) \<Longrightarrow> \<not> ready (c\<lparr>core_cycle := core_cycle c + 1\<rparr>) (rob_entries (rob c) ! x)"
  by (auto simp: timely_def ready_def)

lemma retire_exact:
  fixes c :: "'f MCore"
  defines "c1 \<equiv> c\<lparr>core_cycle := core_cycle c + 1\<rparr>"
  assumes r: "mcore_rob_retire p c1 = Inr (n, c')" and ok: "core_ok p i c" "filled c" "timely p c"
  shows "n = of_nat (length (retiring (unat CORE_WIDTH) p c1))" "c' = c1\<lparr>rob := popped p (length (retiring (unat CORE_WIDTH) p c1)) (rob c)\<rparr>"
proof -
  have rok: "rob_ok p (rob c1)" using ok(1) by (simp add: core_ok_def c1_def)
  have "unat (rob_size (rob c1)) = 0 \<or> no_overrun (unat CORE_WIDTH) p c1"
  proof (cases "core_sleep c")
    case True
    then have "unat (sleep_robid c) \<in> set (live p (rob c))" "\<not> ready c1 (rob_entries (rob c) ! unat (sleep_robid c))"
      using ok(1) waiting_not_ready [OF ok(3)] by (auto simp: core_ok_def sleeper_ok_def Let_def c1_def)
    then show ?thesis by (auto simp: no_overrun_def rob_view_def c1_def)
  next
    case False
    then show ?thesis using ok(2) by (auto simp: filled_def no_overrun_def c1_def)
  qed
  note s = rob_retire_spec [OF rok this]
  then show "n = of_nat (length (retiring (unat CORE_WIDTH) p c1))" "c' = c1\<lparr>rob := popped p (length (retiring (unat CORE_WIDTH) p c1)) (rob c)\<rparr>"
    using r by (auto simp: c1_def split: if_splits)
qed

lemma retire_keeps:
  assumes r: "mcore_rob_retire p (c\<lparr>core_cycle := core_cycle c + 1\<rparr>) = Inr (n, c')"
    and ok: "core_ok p i c" "filled c" "timely p c"
  shows "core_ok p i c' \<and> (\<forall>l e. pending p c l e \<longrightarrow> pending p c' l e) \<and> core_sleep c' = core_sleep c"
proof -
  let ?c = "c\<lparr>core_cycle := core_cycle c + 1\<rparr>" and ?k = "unat CORE_WIDTH"
  let ?n = "length (retiring ?k p ?c)"
  have rok: "rob_ok p (rob ?c)" using ok(1) by (simp add: core_ok_def)
  note c' = retire_exact(2) [OF r ok]
  have le: "?n \<le> unat (rob_size (rob c))" using retiring_le(2) [of ?k p ?c] by simp
  have kept: "x \<in> set (live p (rob c'))" if "x \<in> set (live p (rob c))" "waits (rob_entries (rob c) ! x)" for x
    using not_retired [OF rok refl, of x ?k] that waiting_not_ready [OF ok(3)] by (simp add: c')
  have e: "rob_entries (rob c') = rob_entries (rob c)" using popped_fields(3) [OF rok] le by (simp add: c')
  have "rob_ok p (rob c')" using popped_ok [OF rok] le by (simp add: c')
  moreover have "sleeper_ok p c'" using ok(1) kept e by (auto simp: core_ok_def sleeper_ok_def c' Let_def)
  ultimately have "core_ok p i c'" using ok(1) by (simp add: core_ok_def c')
  then show ?thesis using kept e by (auto simp: pending_def Let_def c')
qed

lemma live_update: "live p (r\<lparr>rob_entries := es\<rparr>) = live p r"
  by (simp add: live_def)

text \<open>Steps that leave the buffer and the sleeping request of a core alone.\<close>

definition same_core :: "'f MCore \<Rightarrow> 'f MCore \<Rightarrow> bool" where
  "same_core c c' \<longleftrightarrow> mcore_id c' = mcore_id c \<and> rob c' = rob c \<and> core_sleep c' = core_sleep c \<and> core_cycle c' = core_cycle c \<and>
     sleep_lineaddr c' = sleep_lineaddr c \<and> sleep_robid c' = sleep_robid c \<and> sleep_inst_num c' = sleep_inst_num c"

lemma same_core_refl [simp]: "same_core c c"
  by (simp add: same_core_def)

lemma same_core_trans: "same_core a b \<Longrightarrow> same_core b c \<Longrightarrow> same_core a c"
  by (simp add: same_core_def)

lemma same_core_ok: "same_core c c' \<Longrightarrow> core_ok p i c' = core_ok p i c" "same_core c c' \<Longrightarrow> pending p c' l e = pending p c l e"
  "same_core c c' \<Longrightarrow> mshr_ok p i c' m = mshr_ok p i c m"
  by (simp_all add: same_core_def core_ok_def sleeper_ok_def pending_def mshr_ok_def)

lemma fread_same: "same_core c (mcore_fread_trace gz c)"
  by (simp add: mcore_fread_trace_def same_core_def split: prod.splits)

lemma init_trace_same: "mcore_init_trace gz pos c = Inr (pos', c') \<Longrightarrow> same_core c c'"
  by (auto simp: mcore_init_trace_def same_core_def split: option.splits)

lemma mcore_read_trace_same:
  assumes "mcore_read_trace cx pos c = Inr (pos', c')"
  shows "same_core c c'"
proof -
  let ?c = "mcore_fread_trace (cx_gz cx) c"
  have d: "same_core c (if \<not> core_done ?c then record_done ?c else ?c)"
    using fread_same [of c "cx_gz cx"] by (simp add: same_core_def record_done_def)
  show ?thesis
  proof (cases "gz_eof (cx_gz cx) (addr_trace ?c) \<or> (\<not> core_done ?c \<and> inst_num ?c \<ge> INST_LIMIT (cx_p cx))")
    case False
    then have "c' = ?c" using assms by (simp only: mcore_read_trace_def Let_def if_False) simp
    then show ?thesis by (simp add: fread_same)
  next
    case True
    then obtain c1 where c1: "mcore_init_trace (cx_gz cx) pos (if \<not> core_done ?c then record_done ?c else ?c) = Inr (pos', c1)"
      and c': "c' = (let c = mcore_fread_trace (cx_gz cx) c1 in c\<lparr>lifetime_inst_count := lifetime_inst_count c + inst_num c, inst_num := 0\<rparr>)"
      using assms unfolding mcore_read_trace_def Let_def if_P [OF True] by (elim bindE_InrE) (auto split: prod.splits)
    have "same_core c (mcore_fread_trace (cx_gz cx) c1)"
      by (rule same_core_trans [OF d same_core_trans [OF init_trace_same [OF c1] fread_same]])
    then show ?thesis by (simp add: c' same_core_def Let_def)
  qed
qed

lemma count_stall_same: "count_stall mm m c = Inr c' \<Longrightarrow> same_core c c'"
  by (auto simp: count_stall_def same_core_def Let_def bindE_Inr_iff split: if_splits)

section \<open>Fetching an instruction\<close>

lemma read_trace_same: "read_trace cx c sh = Inr (c', sh') \<Longrightarrow> same_core c c' \<and> sh_memsys sh' = sh_memsys sh \<and> sh_os sh' = sh_os sh"
  by (auto simp: read_trace_def bindE_Inr_iff dest: mcore_read_trace_same)

lemma llc_read_same:
  assumes "llc_read cx la c sh = Inr (delay, acc, wb, c', sh')"
  shows "same_core c c' \<and> sh_memsys sh' = sh_memsys sh \<and> sh_os sh' = sh_os sh \<and>
    (acc \<longrightarrow> delay = ucast (L3_LATENCY (cx_p cx)) + DEFAULT_MEM_DELAY)"
  using assms by (auto simp: llc_read_def Let_def bindE_Inr_iff same_core_def split: if_splits)

definition trace_access :: "('m, 'f) Ctx \<Rightarrow> u64 \<Rightarrow> 'f MCore \<Rightarrow> 'm Shared \<Rightarrow> (u32 \<times> bool \<times> u64 \<times> 'f MCore \<times> 'm Shared) res" where
  "trace_access cx la c sh = (if trace_wb c \<noteq> 0
     then bindE (mcache_mark_dirty (sh_llc sh) la) (\<lambda>(_, llc). Inr (0, False, 0, c, sh\<lparr>sh_llc := llc\<rparr>))
     else llc_read cx la c sh)"

lemma trace_access_same:
  assumes "trace_access cx la c sh = Inr (delay, acc, wb, c', sh')"
  shows "same_core c c' \<and> sh_memsys sh' = sh_memsys sh \<and> sh_os sh' = sh_os sh \<and>
    (acc \<longrightarrow> delay = ucast (L3_LATENCY (cx_p cx)) + DEFAULT_MEM_DELAY)"
proof (cases "trace_wb c = 0")
  case True
  then show ?thesis using assms llc_read_same [of cx la c sh delay acc wb c' sh'] by (simp add: trace_access_def)
next
  case False
  then show ?thesis using assms by (auto simp: trace_access_def bindE_Inr_iff)
qed

lemma fetch_same:
  assumes r: "fetch cx c sh = Inr (la, delay, acc, wb, c', sh')" and os: "os_wf (sh_os sh)" "os_fits (sh_os sh)"
  shows "same_core c c' \<and> sh_memsys sh' = sh_memsys sh \<and> os_wf (sh_os sh') \<and> os_fits (sh_os sh') \<and> unat la < 2 ^ 58 \<and>
    (acc \<longrightarrow> delay = ucast (L3_LATENCY (cx_p cx)) + DEFAULT_MEM_DELAY)"
proof -
  let ?c = "c\<lparr>inst_num := inst_num c + 1\<rparr>"
  obtain c1 sh1 where 1: "(if \<not> core_done ?c \<and> inst_num ?c > INST_LIMIT (cx_p cx) then read_trace cx ?c sh else Inr (?c, sh)) = Inr (c1, sh1)"
    and r1: "bindE (os_v2p_lineaddr (cx_rand cx) (sh_rand_pos sh1) (sh_os sh1) (trace_va c1) (mcore_id c1)) (\<lambda>(la, pos, os).
      let sh = sh1\<lparr>sh_os := os, sh_rand_pos := pos\<rparr> in
      if inst_num c1 \<ge> trace_inst_num c1
      then bindE (trace_access cx la c1 sh) (\<lambda>(delay, mem_access, wb, c, sh).
           bindE (read_trace cx c sh) (\<lambda>(c, sh). Inr (la, delay, mem_access, wb, c, sh)))
      else Inr (la, 0, False, 0, c1, sh)) = Inr (la, delay, acc, wb, c', sh')"
    using r unfolding fetch_def trace_access_def Let_def by (elim bindE_InrE) (auto split: prod.splits)
  have s1: "same_core c c1" "sh_memsys sh1 = sh_memsys sh" "sh_os sh1 = sh_os sh"
    using 1 read_trace_same [of cx ?c sh c1 sh1] by (auto simp: same_core_def split: if_splits)
  obtain la' pos os where v: "os_v2p_lineaddr (cx_rand cx) (sh_rand_pos sh1) (sh_os sh1) (trace_va c1) (mcore_id c1) = Inr (la', pos, os)"
    and r2: "(if inst_num c1 \<ge> trace_inst_num c1
      then bindE (trace_access cx la' c1 (sh1\<lparr>sh_os := os, sh_rand_pos := pos\<rparr>)) (\<lambda>(delay, mem_access, wb, c, sh).
           bindE (read_trace cx c sh) (\<lambda>(c, sh). Inr (la', delay, mem_access, wb, c, sh)))
      else Inr (la', 0, False, 0, c1, sh1\<lparr>sh_os := os, sh_rand_pos := pos\<rparr>)) = Inr (la, delay, acc, wb, c', sh')"
    using r1 unfolding Let_def by (elim bindE_InrE) (auto split: prod.splits)
  note m = v2p_mapped [OF v] 
  have m': "os_wf os" "os_fits os" "mapped os (trace_va c1, mcore_id c1) la'" using m os s1(3) by auto
  have b: "unat la' < 2 ^ 58" using mapped_bounds [OF m'(1,3)] m'(2) by (simp add: os_fits_def)
  show ?thesis
  proof (cases "inst_num c1 \<ge> trace_inst_num c1")
    case False
    then show ?thesis using r2 s1 m' b by auto
  next
    case True
    then obtain d a w c2 sh2 where t: "trace_access cx la' c1 (sh1\<lparr>sh_os := os, sh_rand_pos := pos\<rparr>) = Inr (d, a, w, c2, sh2)"
      and r3: "bindE (read_trace cx c2 sh2) (\<lambda>(c, sh). Inr (la', d, a, w, c, sh)) = Inr (la, delay, acc, wb, c', sh')"
      using r2 unfolding if_P [OF True] by (elim bindE_InrE) (auto split: prod.splits)
    obtain c3 sh3 where q: "read_trace cx c2 sh2 = Inr (c3, sh3)" "la = la'" "delay = d" "acc = a" "c' = c3" "sh' = sh3"
      using r3 by (elim bindE_InrE) (auto split: prod.splits)
    show ?thesis using trace_access_same [OF t] read_trace_same [OF q(1)] s1 m' b same_core_trans
      unfolding q(2-6) by (auto intro: same_core_trans)
  qed
qed

section \<open>Line and byte addresses\<close>

lemma line_not_no_hex: "(l :: u64) * LINESIZE \<noteq> no_hex"
proof
  assume "l * LINESIZE = no_hex"
  then have "push_bit 6 l = - 1" by (simp add: LINESIZE_def no_hex_def push_bit_eq_mult)
  then have "bit (push_bit 6 l) 0 = bit (- 1 :: u64) 0" by simp
  then show False by (simp add: bit_simps)
qed

lemma line_of_byte: "unat (l :: u64) < 2 ^ 58 \<Longrightarrow> (l * LINESIZE) div LINESIZE = l"
proof -
  assume "unat l < 2 ^ 58"
  then have "unat (l * 64) = unat l * 64" by (simp add: unat_word_ariths)
  then have "unat (l * 64 div 64) = unat l" by (simp add: unat_div_distrib)
  then show ?thesis by (simp add: LINESIZE_def word_unat_eq_iff)
qed

definition read_books :: "('m \<Rightarrow> (u64 \<times> bool) multiset) \<Rightarrow> 'm MemSys \<Rightarrow> bool" where
  "read_books bag m \<longleftrightarrow> finite (dom (mshr m)) \<and> (\<forall>l\<in>dom (mshr m). unat l < 2 ^ 58) \<and>
     filter_mset (\<lambda>r. \<not> snd r) (bag (mainmem m)) = image_mset (\<lambda>l. (l * LINESIZE, False)) (mset_set (dom (mshr m)))"

definition shared_ok :: "('m \<Rightarrow> bool) \<Rightarrow> ('m \<Rightarrow> (u64 \<times> bool) multiset) \<Rightarrow> 'm Shared \<Rightarrow> bool" where
  "shared_ok minv bag sh \<longleftrightarrow> os_wf (sh_os sh) \<and> os_fits (sh_os sh) \<and> minv (mainmem (sh_memsys sh)) \<and> read_books bag (sh_memsys sh)"

text \<open>A new instruction in a free slot of the buffer disturbs nothing that waits there.\<close>

lemma insert_keeps:
  assumes r: "mcore_rob_insert p n cyc rdy la c = Inr (k, c')" and ok: "core_ok p i c" "\<not> core_sleep c"
  shows "core_ok p i c' \<and> \<not> core_sleep c' \<and> (\<forall>l e. pending p c l e \<longrightarrow> pending p c' l e \<and> mshr_robid e \<noteq> k) \<and>
    unat (rob_size (rob c')) = unat (rob_size (rob c)) + 1 \<and> unat k \<in> set (live p (rob c')) \<and> mcore_id c' = mcore_id c \<and> inst_num c' = inst_num c \<and>
    rob_entries (rob c') ! unat k = \<lparr>birth_time = cyc, ready_time = rdy, r_inst_num = n, r_lineaddr = la\<rparr>"
proof -
  have rok: "rob_ok p (rob c)" using ok(1) by (simp add: core_ok_def)
  note f = rob_insert_Inr [OF r rok]
  have s: "mcore_id c' = mcore_id c" "core_sleep c' = core_sleep c" "inst_num c' = inst_num c" "sleep_robid c' = sleep_robid c" by (subst f(3), simp)+
  have "pending p c' l e \<and> mshr_robid e \<noteq> k" if "pending p c l e" for l e
  proof -
    have "unat (mshr_robid e) \<noteq> unat k" using that f(7) by (auto simp: pending_def)
    then show ?thesis using that s(2,4) by (auto simp: pending_def f(4,6))
  qed
  moreover have "sleeper_ok p c'" using s(2) ok(2) by (simp add: sleeper_ok_def)
  ultimately show ?thesis using f(4-9) s ok by (simp add: core_ok_def)
qed

lemma waits_new:
  assumes "params_ok p" "delay = ucast (L3_LATENCY p) + DEFAULT_MEM_DELAY"
  shows "waits \<lparr>birth_time = cyc, ready_time = cyc + ucast delay, r_inst_num = n, r_lineaddr = la\<rparr>"
proof -
  have "unat (ucast (L3_LATENCY p) :: u32) = unat (L3_LATENCY p)" using assms(1) by (intro unat_ucast_small) (simp add: params_ok_def)
  then have "unat delay = unat (L3_LATENCY p) + unat DEFAULT_MEM_DELAY"
    using assms by (simp add: params_ok_def unat_word_ariths(1))
  then show ?thesis by (simp add: waits_def word_le_nat_alt unat_ucast_u64)
qed

text \<open>What holds of one core and of what it shares, during its cycle.\<close>

definition step_ok :: "('m \<Rightarrow> bool) \<Rightarrow> ('m \<Rightarrow> (u64 \<times> bool) multiset) \<Rightarrow> Params \<Rightarrow> nat \<Rightarrow> 'm MemSys \<Rightarrow> 'f MCore \<Rightarrow> 'm Shared \<Rightarrow> bool" where
  "step_ok minv bag p i m0 c sh \<longleftrightarrow> core_ok p i c \<and> shared_ok minv bag sh \<and> mshr_ok p i c (sh_memsys sh) \<and> others_kept i m0 (sh_memsys sh)"

section \<open>Responses\<close>

text \<open>All cores together with the miss entries.\<close>

definition cores_ok :: "Params \<Rightarrow> 'f MCore list \<Rightarrow> 'm MemSys \<Rightarrow> bool" where
  "cores_ok p cores m \<longleftrightarrow> (\<forall>i<length cores. core_ok p i (cores ! i) \<and> filled (cores ! i) \<and> mshr_ok p i (cores ! i) m) \<and>
     (\<forall>l e. mshr m l = Some e \<longrightarrow> unat (mshr_coreid e) < length cores)"

lemma callback_effect:
  assumes ok: "cores_ok p cores m" and l: "mshr m l = Some e" "unat l < 2 ^ 58"
  shows "\<exists>cores'. memsys_callback (l * LINESIZE) (cores, m) = Inr (cores', m\<lparr>mshr := (mshr m)(l := None)\<rparr>) \<and>
    cores_ok p cores' (m\<lparr>mshr := (mshr m)(l := None)\<rparr>) \<and> length cores' = length cores"
proof -
  let ?i = "unat (mshr_coreid e)" let ?k = "unat (mshr_robid e)"
  let ?c = "cores ! ?i" let ?es = "rob_entries (rob ?c)"
  let ?c' = "?c\<lparr>rob := (rob ?c)\<lparr>rob_entries := ?es[?k := (?es ! ?k)\<lparr>ready_time := core_cycle ?c\<rparr>]\<rparr>, num_delay_count := num_delay_count ?c + 1,
            sum_delay_count := sum_delay_count ?c + (core_cycle ?c - birth_time (?es ! ?k))\<rparr>"
  let ?m = "m\<lparr>mshr := (mshr m)(l := None)\<rparr>"
  have i: "?i < length cores" using ok l(1) by (auto simp: cores_ok_def)
  have ci: "core_ok p ?i ?c" "filled ?c" "mshr_ok p ?i ?c m" using ok i by (simp_all add: cores_ok_def)
  have pe: "pending p ?c l e" using ci(3) l(1) by (auto simp: mshr_ok_def)
  then have kb: "?k < length ?es" using live_bound [of p "rob ?c" ?k] ci(1) by (simp add: pending_def core_ok_def)
  have "mcore_rob_wakeup (mshr_robid e) (mshr_inst_num e) ?c = Inr ?c'"
    using pe kb by (simp add: mcore_rob_wakeup_def pending_def inrange_uint Let_def)
  then have r: "memsys_callback (l * LINESIZE) (cores, m) = Inr (cores[?i := ?c'], ?m)"
    using i l by (simp add: memsys_callback_def line_of_byte inrange_uint)
  have "core_ok p ?i ?c'"
    using ci(1) pe by (auto simp: core_ok_def rob_ok_def sleeper_ok_def pending_def live_update word_unat_eq_iff nth_list_update)
  moreover have "pending p ?c' l' e'" if "mshr m l' = Some e'" "l' \<noteq> l" "unat (mshr_coreid e') = ?i" for l' e'
  proof -
    have p': "pending p ?c l' e'" using ci(3) that by (auto simp: mshr_ok_def)
    then have "unat (mshr_robid e') \<noteq> ?k" using pe that(2) by (auto simp: pending_def Let_def)
    then show ?thesis using p' by (simp add: pending_def live_update)
  qed
  then have "mshr_ok p ?i ?c' ?m" by (auto simp: mshr_ok_def split: if_splits)
  moreover have "filled ?c'" using ci(2) by (simp add: filled_def)
  moreover have "mshr_ok p j (cores ! j) ?m" if "j < length cores" for j
    using ok that by (auto simp: cores_ok_def mshr_ok_def split: if_splits)
  ultimately have "cores_ok p (cores[?i := ?c']) ?m" using ok i by (auto simp: cores_ok_def nth_list_update split: if_splits)
  then show ?thesis using r by auto
qed

text \<open>A batch of callbacks whose reads are all among the miss entries.\<close>

lemma callbacks_effect:
  assumes "cores_ok p cores m" "finite (dom (mshr m))" "\<forall>l\<in>dom (mshr m). unat l < 2 ^ 58"
    and "filter_mset (\<lambda>r. \<not> snd r) (mset es) + R = image_mset (\<lambda>l. (l * LINESIZE, False)) (mset_set (dom (mshr m)))"
  shows "okE (foldE dispatch es (cores, m)) (\<lambda>(cores', m'). cores_ok p cores' m' \<and> mainmem m' = mainmem m \<and> length cores' = length cores \<and>
    finite (dom (mshr m')) \<and> dom (mshr m') \<subseteq> dom (mshr m) \<and> R = image_mset (\<lambda>l. (l * LINESIZE, False)) (mset_set (dom (mshr m'))))"
  using assms
proof (induction es arbitrary: cores m)
  case (Cons ev es)
  show ?case
  proof (cases "snd ev")
    case True
    then show ?thesis using Cons by (simp add: dispatch_def)
  next
    case False
    let ?f = "\<lambda>l :: u64. (l * LINESIZE, False)"
    have "ev \<in># image_mset ?f (mset_set (dom (mshr m)))" unfolding Cons.prems(4) [symmetric] using False by simp
    then obtain l e where l: "ev = ?f l" "mshr m l = Some e" using Cons.prems(2) by auto
    let ?m = "m\<lparr>mshr := (mshr m)(l := None)\<rparr>"
    obtain cores' where c: "memsys_callback (l * LINESIZE) (cores, m) = Inr (cores', ?m)" "cores_ok p cores' ?m" "length cores' = length cores"
      using callback_effect [OF Cons.prems(1) l(2)] Cons.prems(3) l(2) by blast
    have "mset_set (dom (mshr m)) = add_mset l (mset_set (dom (mshr m) - {l}))"
      using Cons.prems(2) l(2) by (intro mset_set.remove) auto
    then have ih: "filter_mset (\<lambda>r. \<not> snd r) (mset es) + R = image_mset ?f (mset_set (dom (mshr ?m)))"
      using Cons.prems(4) False l(1) by simp
    have d: "finite (dom (mshr ?m))" "\<forall>l\<in>dom (mshr ?m). unat l < 2 ^ 58" using Cons.prems(2,3) by simp_all
    have "okE (foldE dispatch es (cores', ?m)) (\<lambda>(cores'', m'). cores_ok p cores'' m' \<and> mainmem m' = mainmem ?m \<and> length cores'' = length cores' \<and>
      finite (dom (mshr m')) \<and> dom (mshr m') \<subseteq> dom (mshr ?m) \<and> R = image_mset ?f (mset_set (dom (mshr m'))))"
      by (rule Cons.IH [OF c(2) d ih])
    moreover have "dispatch ev (cores, m) = Inr (cores', ?m)" using c(1) l(1) by (simp add: dispatch_def)
    ultimately show ?thesis using c(3) by (auto elim!: okE_mono)
  qed
qed simp

section \<open>The interface to the memory system\<close>

text \<open>What the cycle of a core needs: a transaction the memory is ready for enters the bag when it is added.\<close>

locale memory_input =
  fixes mm :: "'m MemoryMethods" and minv :: "'m \<Rightarrow> bool" and bag :: "'m \<Rightarrow> (u64 \<times> bool) multiset"
  assumes add_enters: "minv s \<Longrightarrow> h \<noteq> no_hex \<Longrightarrow> m_WillAccept mm s h w = Inr True \<Longrightarrow> m_Add mm h w s = Inr (ok, s') \<Longrightarrow> minv s' \<and> bag s' = add_mset (h, w) (bag s)"
begin

lemma offer_effect:
  assumes "offer mm l w m = Inr (ok, m')" "minv (mainmem m)"
  shows "minv (mainmem m') \<and> mshr m' = mshr m \<and> bag (mainmem m') = (if ok then add_mset (l * LINESIZE, w) (bag (mainmem m)) else bag (mainmem m))"
  using assms add_enters [OF assms(2) line_not_no_hex] by (auto simp: offer_def Let_def bindE_Inr_iff split: if_splits)

lemma access_effect:
  assumes r: "memsys_access mm la i rid n wb m = Inr (ok, m')" and inv: "minv (mainmem m)" "read_books bag m" and la: "unat la < 2 ^ 58"
  shows "minv (mainmem m') \<and> read_books bag m' \<and>
    (if ok then mshr m la = None \<and> mshr m' = (mshr m)(la \<mapsto> \<lparr>mshr_coreid = i, mshr_robid = rid, mshr_inst_num = n\<rparr>) else mshr m' = mshr m)"
proof -
  obtain m1 m2 where o1: "offer mm la False m = Inr (ok, m1)"
    and i: "(if ok then memsys_mshr_insert la i rid n m1 else Inr m1) = Inr m2"
    and o2: "(if wb \<noteq> 0 then bindE (offer mm wb True m2) (\<lambda>(_, m). Inr m) else Inr m2) = Inr m'"
    using r unfolding memsys_access_def by (elim bindE_InrE) (auto split: prod.splits elim!: bindE_InrE)
  note e1 = offer_effect [OF o1 inv(1)]
  have m2: "mainmem m2 = mainmem m1" "if ok then mshr m la = None \<and> mshr m2 = (mshr m)(la \<mapsto> \<lparr>mshr_coreid = i, mshr_robid = rid, mshr_inst_num = n\<rparr>) else mshr m2 = mshr m"
    using i e1 by (auto simp: memsys_mshr_insert_def bindE_Inr_iff split: if_splits)
  have "minv (mainmem m') \<and> mshr m' = mshr m2 \<and> filter_mset (\<lambda>r. \<not> snd r) (bag (mainmem m')) = filter_mset (\<lambda>r. \<not> snd r) (bag (mainmem m2))"
  proof (cases "wb = 0")
    case False
    then obtain ok' where "offer mm wb True m2 = Inr (ok', m')" using o2 by (auto simp: bindE_Inr_iff)
    then show ?thesis using offer_effect [of wb True m2 ok' m'] e1 m2(1) by auto
  qed (use o2 e1 m2(1) in auto)
  moreover have "filter_mset (\<lambda>r. \<not> snd r) (bag (mainmem m2)) = image_mset (\<lambda>l. (l * LINESIZE, False)) (mset_set (dom (mshr m2)))"
  proof (cases ok)
    case True
    then have "la \<notin> dom (mshr m)" "finite (dom (mshr m))" using m2(2) inv(2) by (auto simp: read_books_def)
    then show ?thesis using True e1 m2 inv(2) by (simp add: read_books_def mset_set.insert)
  qed (use e1 m2 inv(2) in \<open>simp add: read_books_def\<close>)
  ultimately show ?thesis using m2(2) inv(2) la by (auto simp: read_books_def split: if_splits)
qed

lemma retry_effect:
  assumes r: "mcore_retry_sleeping_request cx c sh = Inr (ok, c', sh')" and cx: "cx_mem cx = mm" "cx_p cx = p"
    and inv: "step_ok minv bag p i m0 c sh" and sl: "core_sleep c"
  shows "step_ok minv bag p i m0 c' sh' \<and> core_sleep c' = (\<not> ok)"
proof -
  let ?s = "unat (sleep_robid c)"
  let ?c = "c\<lparr>sleep_cycle_count := sleep_cycle_count c + 1\<rparr>"
  have sc: "same_core c ?c" by (simp add: same_core_def)
  have i: "core_ok p i c" "minv (mainmem (sh_memsys sh))" "read_books bag (sh_memsys sh)" "unat (sleep_lineaddr c) < 2 ^ 58" "mshr_ok p i c (sh_memsys sh)"
    using inv sl by (auto simp: step_ok_def shared_ok_def core_ok_def sleeper_ok_def)
  obtain m where a: "memsys_access mm (sleep_lineaddr c) (mcore_id c) (sleep_robid c) (sleep_inst_num c) 0 (sh_memsys sh) = Inr (ok, m)"
    and res: "(if ok then bindE (vupd (rob_entries (rob c)) (uint (sleep_robid c))
             (\<lambda>e. e\<lparr>birth_time := core_cycle c, ready_time := core_cycle c + ucast DEFAULT_MEM_DELAY, r_inst_num := sleep_inst_num c\<rparr>)) (\<lambda>es.
           Inr (True, ?c\<lparr>rob := (rob c)\<lparr>rob_entries := es\<rparr>, core_sleep := False\<rparr>, sh\<lparr>sh_memsys := m\<rparr>))
      else Inr (False, ?c, sh\<lparr>sh_memsys := m\<rparr>)) = Inr (ok, c', sh')"
    using r unfolding mcore_retry_sleeping_request_def Let_def cx by (elim bindE_InrE) (auto split: prod.splits if_splits elim!: bindE_InrE)
  note e = access_effect [OF a i(2-4)]
  show ?thesis
  proof (cases ok)
    case False
    then have "c' = ?c" "sh' = sh\<lparr>sh_memsys := m\<rparr>" using res by auto
    then show ?thesis using False e inv sl same_core_ok [OF sc]
      by (auto simp: step_ok_def shared_ok_def mshr_ok_def others_kept_def same_core_ok [OF sc])
  next
    case True
    let ?e = "(rob_entries (rob c) ! ?s)\<lparr>birth_time := core_cycle c, ready_time := core_cycle c + ucast DEFAULT_MEM_DELAY, r_inst_num := sleep_inst_num c\<rparr>"
    have c': "c' = ?c\<lparr>rob := (rob c)\<lparr>rob_entries := (rob_entries (rob c))[?s := ?e]\<rparr>, core_sleep := False\<rparr>" and sh': "sh' = sh\<lparr>sh_memsys := m\<rparr>"
      using res True by (auto simp: bindE_Inr_iff vupd_Inr_iff)
    have s: "?s \<in> set (live p (rob c))" "r_lineaddr (rob_entries (rob c) ! ?s) = sleep_lineaddr c"
      using i(1) sl by (auto simp: core_ok_def sleeper_ok_def Let_def)
    then have sb: "?s < length (rob_entries (rob c))" using i(1) live_bound by (auto simp: core_ok_def)
    have w: "waits ?e" by (simp add: waits_def)
    have ok': "core_ok p i c'" using i(1) by (simp add: core_ok_def c' rob_ok_def sleeper_ok_def)
    have "pending p c' l x" if "mshr m l = Some x" "unat (mshr_coreid x) = i" for l x
    proof (cases "l = sleep_lineaddr c")
      case True
      then show ?thesis using that(1) e \<open>ok\<close> s sb w by (auto simp: pending_def c' live_update)
    next
      case False
      then have "pending p c l x" using that e \<open>ok\<close> i(5) by (auto simp: mshr_ok_def)
      then show ?thesis using sl by (auto simp: pending_def c' live_update word_unat_eq_iff)
    qed
    moreover have "others_kept i m0 m" using e \<open>ok\<close> inv i(1) by (auto simp: step_ok_def others_kept_def core_ok_def split: if_splits)
    ultimately show ?thesis using ok' e inv \<open>ok\<close> by (simp add: step_ok_def shared_ok_def mshr_ok_def sh' c')
  qed
qed

lemma issue_inst_effect:
  assumes r: "issue_inst cx c sh = Inr (goes, c', sh')" and cx: "cx_mem cx = mm" "cx_p cx = p"
    and inv: "step_ok minv bag p i m0 c sh" and sl: "\<not> core_sleep c" and p: "params_ok p"
  shows "step_ok minv bag p i m0 c' sh' \<and>
    (if goes then \<not> core_sleep c' \<and> unat (rob_size (rob c')) = unat (rob_size (rob c)) + 1 else core_sleep c' \<or> unat (rob_size (rob c')) = rob_cap p)"
proof (cases "(ucast (rob_size (rob c)) :: u64) = ROB_SIZE p")
  case True
  then have "unat (rob_size (rob c)) = rob_cap p" using unat_ucast_u64 by metis
  moreover have q: "count_stall mm (sh_memsys sh) c = Inr c'" "sh' = sh" "\<not> goes"
    using r unfolding issue_inst_def cx if_P [OF True] by (auto simp: bindE_Inr_iff)
  have sc: "same_core c c'" by (rule count_stall_same [OF q(1)])
  ultimately show ?thesis using inv same_core_ok(1) [OF sc, of p i] same_core_ok(3) [OF sc, of p i "sh_memsys sh"] q(2,3) sc
    by (simp add: step_ok_def same_core_def)
next
  case False
  obtain la delay acc wb c1 sh1 where f: "fetch cx c sh = Inr (la, delay, acc, wb, c1, sh1)"
    and r1: "bindE (mcore_rob_insert p (inst_num c1) (core_cycle c1) (core_cycle c1 + ucast delay) la c1) (\<lambda>(robid, c).
        if acc
        then bindE (memsys_access mm la (mcore_id c) robid (inst_num c) wb (sh_memsys sh1)) (\<lambda>(ok, m).
             let sh = sh1\<lparr>sh_memsys := m\<rparr> in
             if ok then Inr (True, c, sh)
             else Inr (False, c\<lparr>queue_full_count := queue_full_count c + 1, sleep_lineaddr := la, sleep_robid := robid,
                    sleep_inst_num := inst_num c, core_sleep := True\<rparr>, sh))
        else Inr (True, c, sh1)) = Inr (goes, c', sh')"
    using r unfolding issue_inst_def cx if_not_P [OF False] by (elim bindE_InrE) (auto split: prod.splits)
  have os: "os_wf (sh_os sh)" "os_fits (sh_os sh)" using inv by (simp_all add: step_ok_def shared_ok_def)
  note fs = fetch_same [OF f os]
  have i1: "core_ok p i c1" "\<not> core_sleep c1" "mshr_ok p i c1 (sh_memsys sh)" "shared_ok minv bag sh1"
    using fs inv sl same_core_ok(1) [of c c1 p i] same_core_ok(3) [of c c1 p i "sh_memsys sh"] by (auto simp: step_ok_def shared_ok_def same_core_def)
  obtain k c2 where k: "mcore_rob_insert p (inst_num c1) (core_cycle c1) (core_cycle c1 + ucast delay) la c1 = Inr (k, c2)"
    and r2: "(if acc
        then bindE (memsys_access mm la (mcore_id c2) k (inst_num c2) wb (sh_memsys sh1)) (\<lambda>(ok, m).
             let sh = sh1\<lparr>sh_memsys := m\<rparr> in
             if ok then Inr (True, c2, sh)
             else Inr (False, c2\<lparr>queue_full_count := queue_full_count c2 + 1, sleep_lineaddr := la, sleep_robid := k,
                    sleep_inst_num := inst_num c2, core_sleep := True\<rparr>, sh))
        else Inr (True, c2, sh1)) = Inr (goes, c', sh')"
    using r1 by (elim bindE_InrE) (auto split: prod.splits)
  note ik = insert_keeps [OF k i1(1,2)]
  have sz: "unat (rob_size (rob c2)) = unat (rob_size (rob c)) + 1" using ik fs by (simp add: same_core_def)
  have mk: "mshr_ok p i c2 (sh_memsys sh)" "others_kept i m0 (sh_memsys sh)" using ik i1(3) inv by (auto simp: mshr_ok_def step_ok_def)
  show ?thesis
  proof (cases acc)
    case False
    then have "goes" "c' = c2" "sh' = sh1" using r2 by auto
    then show ?thesis using ik sz fs i1(4) mk by (simp add: step_ok_def)
  next
    case True
    then obtain ok m where a: "memsys_access mm la (mcore_id c2) k (inst_num c2) wb (sh_memsys sh1) = Inr (ok, m)"
      and r3: "(if ok then (True, c2, sh1\<lparr>sh_memsys := m\<rparr>)
             else (False, c2\<lparr>queue_full_count := queue_full_count c2 + 1, sleep_lineaddr := la, sleep_robid := k,
                    sleep_inst_num := inst_num c2, core_sleep := True\<rparr>, sh1\<lparr>sh_memsys := m\<rparr>)) = (goes, c', sh')"
      using r2 unfolding if_P [OF True] Let_def by (elim bindE_InrE) (auto split: prod.splits if_splits)
    have w: "waits (rob_entries (rob c2) ! unat k)" "r_lineaddr (rob_entries (rob c2) ! unat k) = la" "r_inst_num (rob_entries (rob c2) ! unat k) = inst_num c2"
      using ik waits_new [OF p, of delay] fs True cx(2) by auto
    note e = access_effect [OF a, of] 
    have e': "minv (mainmem m)" "read_books bag m"
      "if ok then mshr (sh_memsys sh1) la = None \<and> mshr m = (mshr (sh_memsys sh1))(la \<mapsto> \<lparr>mshr_coreid = mcore_id c2, mshr_robid = k, mshr_inst_num = inst_num c2\<rparr>) else mshr m = mshr (sh_memsys sh1)"
      using e i1(4) fs by (auto simp: shared_ok_def)
    have idc: "unat (mcore_id c2) = i" using ik unfolding core_ok_def by blast
    have sh2: "shared_ok minv bag (sh1\<lparr>sh_memsys := m\<rparr>)" using i1(4) e' by (simp add: shared_ok_def)
    have o: "others_kept i m0 m" using mk(2) e'(3) idc fs by (auto simp: others_kept_def split: if_splits)
    show ?thesis
    proof (cases ok)
      case True
      then have "goes" "c' = c2" "sh' = sh1\<lparr>sh_memsys := m\<rparr>" using r3 by auto
      moreover have "mshr_ok p i c2 m" using mk(1) e'(3) True fs ik w by (auto simp: mshr_ok_def pending_def Let_def)
      ultimately show ?thesis using ik sz sh2 o by (simp add: step_ok_def)
    next
      case False
      let ?c = "c2\<lparr>queue_full_count := queue_full_count c2 + 1, sleep_lineaddr := la, sleep_robid := k, sleep_inst_num := inst_num c2, core_sleep := True\<rparr>"
      have q: "\<not> goes" "c' = ?c" "sh' = sh1\<lparr>sh_memsys := m\<rparr>" using r3 False by auto
      have "core_ok p i c2" "unat k \<in> set (live p (rob c2))" "unat la < 2 ^ 58" using ik fs by blast+
      then have "core_ok p i ?c" using w by (simp add: core_ok_def sleeper_ok_def)
      moreover have "pending p ?c l x" if "mshr m l = Some x" "unat (mshr_coreid x) = i" for l x
      proof -
        have "pending p c1 l x" using that e'(3) False fs i1(3) by (auto simp: mshr_ok_def)
        then have "pending p c2 l x" "mshr_robid x \<noteq> k" using ik by auto
        then show ?thesis by (simp add: pending_def)
      qed
      ultimately show ?thesis using sh2 o q by (simp add: step_ok_def mshr_ok_def)
    qed
  qed
qed

lemma width_loop_effect:
  assumes "width_loop n cx c sh = Inr (c', sh')" "cx_mem cx = mm" "cx_p cx = p"
    and "step_ok minv bag p i m0 c sh" "\<not> core_sleep c" "params_ok p"
  shows "step_ok minv bag p i m0 c' sh' \<and> (core_sleep c' \<or> unat (rob_size (rob c')) = rob_cap p \<or> n + unat (rob_size (rob c)) \<le> unat (rob_size (rob c')))"
  using assms(1,4,5)
proof (induction n arbitrary: c sh)
  case (Suc n)
  obtain goes c1 sh1 where s: "issue_inst cx c sh = Inr (goes, c1, sh1)" and l: "(if goes then width_loop n cx c1 sh1 else Inr (c1, sh1)) = Inr (c', sh')"
    using Suc.prems(1) by (auto simp: bindE_Inr_iff)
  note e = issue_inst_effect [OF s assms(2,3) Suc.prems(2,3) assms(6)]
  show ?case
  proof (cases goes)
    case True
    then show ?thesis using e Suc.IH [of c1 sh1] l by auto
  qed (use e l in auto)
qed simp

lemma cycle_effect:
  assumes r: "mcore_cycle cx c sh = Inr (c', sh')" and cx: "cx_mem cx = mm" "cx_p cx = p"
    and inv: "step_ok minv bag p i m0 c sh" "filled c" "timely p c" "params_ok p"
  shows "step_ok minv bag p i m0 c' sh' \<and> filled c'"
proof -
  obtain n c1 where t: "mcore_rob_retire p (c\<lparr>core_cycle := core_cycle c + 1\<rparr>) = Inr (n, c1)"
    and r1: "(if core_sleep c1
     then bindE (mcore_retry_sleeping_request cx c1 sh) (\<lambda>(ok, c, sh).
          if ok then width_loop (unat CORE_WIDTH) cx c sh
          else bindE (count_stall mm (sh_memsys sh) c) (\<lambda>c. Inr (c, sh)))
     else width_loop (unat CORE_WIDTH) cx c1 sh) = Inr (c', sh')"
    using r unfolding mcore_cycle_def cx by (elim bindE_InrE) (auto split: prod.splits)
  have ck: "core_ok p i c" using inv(1) by (simp add: step_ok_def)
  note k = retire_keeps [OF t ck inv(2,3)]
  have i1: "step_ok minv bag p i m0 c1 sh" using inv(1) k by (simp add: step_ok_def mshr_ok_def)
  have fin: "step_ok minv bag p i m0 c' sh' \<and> filled c'"
    if "width_loop (unat CORE_WIDTH) cx d s = Inr (c', sh')" "step_ok minv bag p i m0 d s" "\<not> core_sleep d" for d s
    using width_loop_effect [OF that(1) cx that(2,3) inv(4)] inv(4) by (auto simp: filled_def params_ok_def)
  show ?thesis
  proof (cases "core_sleep c1")
    case False
    then show ?thesis using fin [OF _ i1] r1 by simp
  next
    case True
    obtain ok d s where q: "mcore_retry_sleeping_request cx c1 sh = Inr (ok, d, s)"
      and r2: "(if ok then width_loop (unat CORE_WIDTH) cx d s else bindE (count_stall mm (sh_memsys s) d) (\<lambda>c. Inr (c, s))) = Inr (c', sh')"
      using r1 unfolding if_P [OF True] by (elim bindE_InrE) (auto split: prod.splits)
    note e = retry_effect [OF q cx i1 True]
    show ?thesis
    proof (cases ok)
      case True
      then show ?thesis using fin [of d s] e r2 by simp
    next
      case False
      then have v: "count_stall mm (sh_memsys s) d = Inr c'" "sh' = s" using r2 by (auto simp: bindE_Inr_iff)
      have sc: "same_core d c'" by (rule count_stall_same [OF v(1)])
      then show ?thesis using e False v(2) same_core_ok(1) [OF sc, of p i] same_core_ok(3) [OF sc, of p i "sh_memsys s"]
        by (simp add: step_ok_def filled_def same_core_def)
    qed
  qed
qed

end

text \<open>What the responses need as well: a cycle of the memory answers requests in the bag.\<close>

locale memory_port = memory_input +
  assumes tick_answers: "minv s \<Longrightarrow> m_Tick mm pos s = Inr (es, pos', s') \<Longrightarrow> minv s' \<and> bag s = mset es + bag s'"
begin

lemma memsys_cycle_effect:
  assumes t: "m_Tick mm (sh_rand_pos sh) (mainmem (sh_memsys sh)) = Inr (es, pos, mem)" and cx: "cx_mem cx = mm"
    and inv: "cores_ok p cores (sh_memsys sh)" "shared_ok minv bag sh"
  shows "okE (memsys_cycle cx cores sh) (\<lambda>(cores', sh'). cores_ok p cores' (sh_memsys sh') \<and> shared_ok minv bag sh' \<and> length cores' = length cores)"
proof -
  let ?m = "(sh_memsys sh)\<lparr>mainmem := mem\<rparr>"
  have b: "minv (mainmem (sh_memsys sh))" "read_books bag (sh_memsys sh)" using inv(2) by (simp_all add: shared_ok_def)
  note a = tick_answers [OF b(1) t]
  have c: "cores_ok p cores ?m" using inv(1) by (simp add: cores_ok_def mshr_ok_def)
  have "okE (foldE dispatch es (cores, ?m)) (\<lambda>(cores', m'). cores_ok p cores' m' \<and> mainmem m' = mainmem ?m \<and> length cores' = length cores \<and>
    finite (dom (mshr m')) \<and> dom (mshr m') \<subseteq> dom (mshr ?m) \<and>
    filter_mset (\<lambda>r. \<not> snd r) (bag mem) = image_mset (\<lambda>l. (l * LINESIZE, False)) (mset_set (dom (mshr m'))))"
    using b(2) a by (intro callbacks_effect [OF c]) (auto simp: read_books_def filter_union_mset)
  then obtain cores' m' where d: "foldE dispatch es (cores, ?m) = Inr (cores', m')" "cores_ok p cores' m'" "mainmem m' = mem" "length cores' = length cores"
    "finite (dom (mshr m'))" "dom (mshr m') \<subseteq> dom (mshr (sh_memsys sh))"
    "filter_mset (\<lambda>r. \<not> snd r) (bag mem) = image_mset (\<lambda>l. (l * LINESIZE, False)) (mset_set (dom (mshr m')))"
    unfolding okE_iff by auto
  have "\<forall>l\<in>dom (mshr m'). unat l < 2 ^ 58" using d(6) b(2) unfolding read_books_def by blast
  then have "shared_ok minv bag (sh\<lparr>sh_memsys := m', sh_rand_pos := pos\<rparr>)" using inv(2) a d(3,5,7) by (simp add: shared_ok_def read_books_def)
  then show ?thesis using t d(1,2,4) by (simp add: memsys_cycle_def cx)
qed

end

section \<open>The two memory systems\<close>

lemma sys_rand_irrelevant: "sys_wf cfg (sys\<lparr>shared_rand := r, shared_rand_pos := n\<rparr>) = sys_wf cfg sys" "sys_bag (sys\<lparr>shared_rand := r, shared_rand_pos := n\<rparr>) = sys_bag sys"
  by (simp_all add: sys_wf_def sys_bag_def)

interpretation jedec_port: memory_port "jedec_methods cfg rnd" "\<lambda>sys. sys_wf cfg sys \<and> hydra_cfg_ok cfg" sys_bag for cfg rnd
proof
  fix s h w ok s'
  assume "sys_wf cfg s \<and> hydra_cfg_ok cfg" "h \<noteq> no_hex" "m_WillAccept (jedec_methods cfg rnd) s h w = Inr True" "m_Add (jedec_methods cfg rnd) h w s = Inr (ok, s')"
  then show "(sys_wf cfg s' \<and> hydra_cfg_ok cfg) \<and> sys_bag s' = add_mset (h, w) (sys_bag s)"
    using sys_AddTransaction_bag [of cfg h w s ok s'] by (simp add: jedec_methods_def)
next
  fix s pos es pos' s'
  assume a: "sys_wf cfg s \<and> hydra_cfg_ok cfg" "m_Tick (jedec_methods cfg rnd) pos s = Inr (es, pos', s')"
  then have "sys_ClockTick cfg (s\<lparr>shared_rand := rnd, shared_rand_pos := pos\<rparr>) = Inr (es, s')" by (auto simp: jedec_methods_def bindE_Inr_iff)
  then show "(sys_wf cfg s' \<and> hydra_cfg_ok cfg) \<and> sys_bag s = mset es + sys_bag s'"
    using jedec.tick_answers [of cfg "s\<lparr>shared_rand := rnd, shared_rand_pos := pos\<rparr>" es s'] a(1) by (simp add: sys_rand_irrelevant)
qed

interpretation ideal_port: memory_port ideal_methods "\<lambda>_. True" ideal_bag
proof
  fix s pos es pos' s'
  assume "m_Tick ideal_methods pos s = Inr (es, pos', s')"
  then show "True \<and> ideal_bag s = mset es + ideal_bag s'"
    using ideal.tick_answers [of s es s'] by (auto simp: ideal_methods_def split: prod.splits)
qed (auto simp: ideal_methods_def ideal_bag_def ideal_AddTransaction_def tkey_def mk_Transaction_def)

text \<open>Adding a transaction does not move the clock of the memory system, a cycle moves it by one.\<close>

lemma sys_AddTransaction_clk: "sys_AddTransaction cfg h w s = Inr (ok, s') \<Longrightarrow> sys_clk s' = sys_clk s"
  by (auto simp: sys_AddTransaction_def bindE_Inr_iff)

interpretation jedec_clock: memory_input "jedec_methods cfg rnd" "\<lambda>sys. (sys_wf cfg sys \<and> hydra_cfg_ok cfg) \<and> sys_clk sys = t" sys_bag for cfg rnd t
proof
  fix s h w ok s'
  assume a: "(sys_wf cfg s \<and> hydra_cfg_ok cfg) \<and> sys_clk s = t" "h \<noteq> no_hex"
    "m_WillAccept (jedec_methods cfg rnd) s h w = Inr True" "m_Add (jedec_methods cfg rnd) h w s = Inr (ok, s')"
  then have "sys_clk s' = sys_clk s" by (auto simp: jedec_methods_def intro: sys_AddTransaction_clk)
  then show "((sys_wf cfg s' \<and> hydra_cfg_ok cfg) \<and> sys_clk s' = t) \<and> sys_bag s' = add_mset (h, w) (sys_bag s)"
    using jedec_port.add_enters [OF _ a(2-4)] a(1) by simp
qed

lemma tick_channel_clk: "tick_channel cfg i s = Inr s' \<Longrightarrow> sys_clk s' = sys_clk s"
  by (auto simp: tick_channel_def take_back_def bindE_Inr_iff)

lemma tick_channels_clk: "foldE (tick_channel cfg) is s = Inr s' \<Longrightarrow> sys_clk s' = sys_clk s"
  by (induction "is" arbitrary: s) (auto simp: bindE_Inr_iff dest!: tick_channel_clk)

lemma sys_ClockTick_clk:
  assumes "sys_ClockTick cfg s = Inr (es, s')"
  shows "sys_clk s' = sys_clk s + 1"
proof -
  obtain es0 s0 where r: "return_all s = (es0, s0)" by (cases "return_all s")
  have "sys_clk s0 = sys_clk s" using r by (auto simp: return_all_def Let_def)
  moreover obtain s1 where "foldE (tick_channel cfg) [0..<length (ctrls s0)] s0 = Inr s1" "sys_clk s' = sys_clk s1 + 1"
    using assms r by (auto simp: sys_ClockTick_def Let_def bindE_Inr_iff sys_PrintEpochStats_def split: if_splits)
  ultimately show ?thesis using tick_channels_clk by metis
qed

lemma jedec_Tick_clk: "m_Tick (jedec_methods cfg rnd) pos s = Inr (es, pos', s') \<Longrightarrow> sys_clk s' = sys_clk s + 1"
  by (auto simp: jedec_methods_def bindE_Inr_iff dest!: sys_ClockTick_clk)

end
