(* ===== verification/Memsim_Sim.thy ===== *)
theory Memsim_Sim
  imports Memsim_Run
begin

text \<open>
  memsim/sim.c: construction of the machine and the main loop, which cycles the cores in rotating order and the
  memory system three times in four.
\<close>

section \<open>The machine\<close>

record ('m, 'f) Sim =
  sim_cores :: "'f MCore list"
  sim_shared :: "'m Shared"
  sim_clk :: u64
  sim_last_dot :: u64
  sim_leap :: int

text \<open>
  \<open>leap_operation\<close> is a \<open>double\<close>. It is counted here in units of \<open>2 ^ -52\<close>: the constant \<open>(4.0/3.0) - 1\<close> is a
  multiple of that unit in double precision, and all values that occur are multiples of it below 2, where doubles
  of this granularity add and subtract without rounding.
\<close>

definition ONE :: int where "ONE = 2 ^ 52"
definition CLOCK_SCALE :: int where "CLOCK_SCALE = 1501199875790165"

text \<open>Whether this iteration cycles the memory, and the next value of \<open>leap_operation\<close>.\<close>

definition clock_step :: "int \<Rightarrow> bool \<times> int" where
  "clock_step leap = (if leap \<ge> ONE then (False, leap - ONE) else (True, leap + CLOCK_SCALE))"

definition DOT_INTERVAL :: u64 where "DOT_INTERVAL = 1000000"

text \<open>One core in its turn; the flag accumulates whether all cores are done.\<close>

definition run_core :: "('m, 'f) Ctx \<Rightarrow> u32 \<Rightarrow> nat \<Rightarrow> bool \<times> ('m, 'f) Sim \<Rightarrow> (bool \<times> ('m, 'f) Sim) res" where
  "run_core cx offset ii = (\<lambda>(all_done, s).
     bindE (umod (offset + of_nat ii) (of_nat (length (sim_cores s)))) (\<lambda>index.
     bindE (vget (sim_cores s) (uint index)) (\<lambda>c.
     bindE (mcore_cycle cx c (sim_shared s)) (\<lambda>(c, sh).
     bindE (vset (sim_cores s) (uint index) c) (\<lambda>cores.
     Inr (all_done \<and> core_done c, s\<lparr>sim_cores := cores, sim_shared := sh\<rparr>))))))"

definition sim_step :: "('m, 'f) Ctx \<Rightarrow> ('m, 'f) Sim \<Rightarrow> (bool \<times> ('m, 'f) Sim) res" where
  "sim_step cx s =
     (let n = length (sim_cores s) in
      bindE (umod (sim_clk s) (of_nat n)) (\<lambda>offset.
      bindE (foldE (run_core cx (ucast offset)) [0..<n] (True, s)) (\<lambda>(all_done, s).
      case clock_step (sim_leap s) of (tick, leap) \<Rightarrow>
      bindE (if tick then memsys_cycle cx (sim_cores s) (sim_shared s) else Inr (sim_cores s, sim_shared s)) (\<lambda>(cores, sh).
      let s = s\<lparr>sim_cores := cores, sim_shared := sh, sim_leap := leap\<rparr>;
          s = (if sim_clk s - sim_last_dot s \<ge> DOT_INTERVAL then s\<lparr>sim_last_dot := sim_clk s\<rparr> else s) in
      Inr (all_done, s\<lparr>sim_clk := sim_clk s + 1\<rparr>)))))"

text \<open>The loop ends when every core has finished its trace or its instructions once.\<close>

partial_function (option) sim_loop :: "('m, 'f) Ctx \<Rightarrow> ('m, 'f) Sim \<Rightarrow> ('m, 'f) Sim res option" where
  "sim_loop cx s =
     (case sim_step cx s of
        Inl f \<Rightarrow> Some (Inl f)
      | Inr (all_done, s') \<Rightarrow> if all_done then Some (Inr s') else sim_loop cx s')"

definition new_cores :: "('m, 'f) Ctx \<Rightarrow> 'f \<Rightarrow> string list \<Rightarrow> 'f MCore list res" where
  "new_cores cx f0 fnames =
     bindE (foldE (\<lambda>i (pos, cores). bindE (mcore_new cx f0 (fnames ! i) (of_nat i) pos) (\<lambda>(pos, c). Inr (pos, cores @ [c])))
       [0..<length fnames] (0, [])) (\<lambda>(_, cores). Inr cores)"

text \<open>Up to the main loop; \<open>srand(RAND_SEED)\<close> starts the stream of random numbers afresh.\<close>

definition sim_new :: "('m, 'f) Ctx \<Rightarrow> 'f \<Rightarrow> 'm \<Rightarrow> string list \<Rightarrow> ('m, 'f) Sim res" where
  "sim_new cx f0 mem fnames =
     (let p = cx_p cx in
      bindE (udiv (1024 * (MEM_SIZE_MB p - MEM_RSRV_MB p)) (OS_PAGESIZE p div 1024)) (\<lambda>num_os_pages.
      bindE (os_new (ucast (OS_PAGESIZE p)) (ucast num_os_pages) (of_nat (length fnames))) (\<lambda>os.
      bindE (udiv (L3_SIZE_KB p * 1024) (L3_ASSOC p * LINESIZE)) (\<lambda>l3sets.
      bindE (new_cores cx f0 fnames) (\<lambda>cores.
      Inr \<lparr>sim_cores = cores,
           sim_shared = \<lparr>sh_memsys = memsys_new p mem, sh_os = os,
             sh_llc = mcache_new (ucast l3sets) (ucast (L3_ASSOC p)) (ucast (L3_REPL p)), sh_rand_pos = 0\<rparr>,
           sim_clk = 0, sim_last_dot = 0, sim_leap = 0\<rparr>)))))"

section \<open>The clock ratio\<close>

fun mem_ticks :: "nat \<Rightarrow> nat \<times> int" where
  "mem_ticks 0 = (0, 0)"
| "mem_ticks (Suc n) = (case mem_ticks n of (k, leap) \<Rightarrow> case clock_step leap of (tick, leap') \<Rightarrow> (if tick then Suc k else k, leap'))"

lemma mem_ticks_balance:
  "mem_ticks n = (k, leap) \<Longrightarrow> int k * (ONE + CLOCK_SCALE) = int n * ONE + leap \<and> 0 \<le> leap \<and> leap < ONE + CLOCK_SCALE"
proof (induction n arbitrary: k leap)
  case 0
  then show ?case by (simp add: ONE_def CLOCK_SCALE_def)
next
  case (Suc n)
  obtain k0 l0 where m: "mem_ticks n = (k0, l0)" by (cases "mem_ticks n")
  note ih = Suc.IH [OF m]
  show ?case
  proof (cases "l0 \<ge> ONE")
    case True
    then have "k = k0" "leap = l0 - ONE" using Suc.prems m by (simp_all add: clock_step_def)
    then show ?thesis using ih True by (simp add: algebra_simps CLOCK_SCALE_def ONE_def)
  next
    case False
    then have "k = Suc k0" "leap = l0 + CLOCK_SCALE" using Suc.prems m by (simp_all add: clock_step_def)
    then show ?thesis using ih False by (simp add: algebra_simps CLOCK_SCALE_def ONE_def)
  qed
qed

section \<open>Runs of the machine\<close>

definition sim_ok :: "('m \<Rightarrow> bool) \<Rightarrow> ('m \<Rightarrow> (u64 \<times> bool) multiset) \<Rightarrow> Params \<Rightarrow> ('m, 'f) Sim \<Rightarrow> bool" where
  "sim_ok minv bag p s \<longleftrightarrow> cores_ok p (sim_cores s) (sh_memsys (sim_shared s)) \<and> shared_ok minv bag (sim_shared s)"

text \<open>
  The states the main loop reaches, as long as the memory answers every request within the largest delay. The
  core checks this itself when it retires an instruction.
\<close>

inductive sim_reach :: "('m, 'f) Ctx \<Rightarrow> ('m, 'f) Sim \<Rightarrow> nat \<Rightarrow> ('m, 'f) Sim \<Rightarrow> bool" for cx s0 where
  start: "sim_reach cx s0 0 s0"
| step: "sim_reach cx s0 n s \<Longrightarrow> list_all (timely (cx_p cx)) (sim_cores s) \<Longrightarrow> sim_step cx s = Inr (d, s') \<Longrightarrow> sim_reach cx s0 (Suc n) s'"

text \<open>While the cores take their turns, those whose turn has not come are as they were.\<close>

definition turn :: "u32 \<Rightarrow> nat \<Rightarrow> nat \<Rightarrow> nat" where
  "turn offset n ii = (unat offset + ii) mod n"

lemma turn_index:
  assumes "0 < n" "n < 2 ^ 31" "unat offset < n" "ii < n"
  shows "umod (offset + of_nat ii) (of_nat n) = Inr (of_nat (turn offset n ii))" "unat (of_nat (turn offset n ii) :: u32) = turn offset n ii"
proof -
  have u: "unat (of_nat n :: u32) = n" "unat (of_nat ii :: u32) = ii" using assms by (simp_all add: unat_of_nat)
  have t: "turn offset n ii < n" using assms(1) by (simp add: turn_def)
  then show w: "unat (of_nat (turn offset n ii) :: u32) = turn offset n ii" using assms(2) by (simp add: unat_of_nat)
  have s: "unat (offset + of_nat ii) = unat offset + ii" using u assms by (simp add: unat_word_ariths(1))
  have "unat ((offset + of_nat ii) mod of_nat n) = turn offset n ii" by (simp add: unat_mod_distrib u s turn_def)
  then have "(offset + of_nat ii) mod of_nat n = (of_nat (turn offset n ii) :: u32)" using w by (simp add: word_unat_eq_iff)
  moreover have "(of_nat n :: u32) \<noteq> 0" using u(1) assms(1) by (metis less_irrefl unat_0)
  ultimately show "umod (offset + of_nat ii) (of_nat n) = Inr (of_nat (turn offset n ii))" by simp
qed

lemma turn_inj: "unat offset < n \<Longrightarrow> i < n \<Longrightarrow> j < n \<Longrightarrow> turn offset n i = turn offset n j \<Longrightarrow> i = j"
  unfolding turn_def by (rule ring_inj)

context memory_input
begin

lemma run_core_effect:
  assumes r: "run_core cx offset ii (d, s) = Inr (d', s')" and cx: "cx_mem cx = mm" "cx_p cx = p" and p: "params_ok p"
    and ok: "sim_ok minv bag p s" and n: "n = length (sim_cores s)" "0 < n" "n < 2 ^ 31" "unat offset < n" "ii < n"
    and t: "timely p (sim_cores s ! turn offset n ii)"
  shows "sim_ok minv bag p s' \<and> length (sim_cores s') = n \<and> (\<forall>j<n. j \<noteq> turn offset n ii \<longrightarrow> sim_cores s' ! j = sim_cores s ! j) \<and>
    sim_leap s' = sim_leap s"
proof -
  let ?i = "turn offset n ii" let ?c = "sim_cores s ! ?i" let ?sh = "sim_shared s"
  have i: "?i < n" using n(2) by (simp add: turn_def)
  note ti = turn_index [OF n(2-5)]
  have g: "vget (sim_cores s) (uint (of_nat ?i :: u32)) = Inr ?c" using i ti(2) n(1) by (simp add: vget_Inr_iff inrange_uint)
  have v: "vset (sim_cores s) (uint (of_nat ?i :: u32)) x = Inr ((sim_cores s)[?i := x])" for x using i ti(2) n(1) by (simp add: vset_Inr_iff inrange_uint)
  obtain c' sh' where m: "mcore_cycle cx ?c ?sh = Inr (c', sh')"
    and s': "s' = s\<lparr>sim_cores := (sim_cores s)[?i := c'], sim_shared := sh'\<rparr>"
    and "d' = (d \<and> core_done c')"
    using r unfolding run_core_def prod.case n(1) [symmetric] ti(1) bindE_simps g by (elim bindE_InrE) (auto simp: v split: prod.splits)
  have c: "core_ok p ?i ?c" "filled ?c" "mshr_ok p ?i ?c (sh_memsys ?sh)" using ok i n(1) by (simp_all add: sim_ok_def cores_ok_def)
  have "step_ok minv bag p ?i (sh_memsys ?sh) ?c ?sh" using c ok by (simp add: step_ok_def sim_ok_def)
  note e = cycle_effect [OF m cx this c(2) t p]
  have "mshr_ok p j (sim_cores s ! j) (sh_memsys sh')" if "j < n" "j \<noteq> ?i" for j
    using e ok that n(1) by (auto simp: step_ok_def others_kept_def mshr_ok_def sim_ok_def cores_ok_def)
  moreover have "unat (mshr_coreid x) < n" if "mshr (sh_memsys sh') l = Some x" for l x
  proof (cases "unat (mshr_coreid x) = ?i")
    case False
    then have "mshr (sh_memsys ?sh) l = Some x" using e that unfolding step_ok_def others_kept_def by blast
    then show ?thesis using ok n(1) unfolding sim_ok_def cores_ok_def by simp
  qed (use i in simp)
  ultimately have "sim_ok minv bag p s'" using ok e i n(1) by (auto simp: sim_ok_def cores_ok_def s' step_ok_def nth_list_update)
  then show ?thesis using n(1) by (simp add: s')
qed

lemma cores_effect:
  assumes "foldE (run_core cx offset) [a..<n] (d, s) = Inr (d', s')" and cx: "cx_mem cx = mm" "cx_p cx = p" and p: "params_ok p"
    and "sim_ok minv bag p s" and "n = length (sim_cores s)" and n: "0 < n" "n < 2 ^ 31" "unat offset < n"
    and "\<forall>j. a \<le> j \<longrightarrow> j < n \<longrightarrow> timely p (sim_cores s ! turn offset n j)"
  shows "sim_ok minv bag p s' \<and> length (sim_cores s') = n \<and> sim_leap s' = sim_leap s"
  using assms(1,5,6,10)
proof (induction "n - a" arbitrary: a d s)
  case 0
  then show ?case by simp
next
  case (Suc k)
  then have a: "a < n" by simp
  then have "[a..<n] = a # [Suc a..<n]" by (simp add: upt_conv_Cons)
  then obtain d1 s1 where 1: "run_core cx offset a (d, s) = Inr (d1, s1)" "foldE (run_core cx offset) [Suc a..<n] (d1, s1) = Inr (d', s')"
    using Suc.prems(1) by (auto simp: bindE_Inr_iff)
  note e = run_core_effect [OF 1(1) cx p Suc.prems(2,3) n a]
  have e': "sim_ok minv bag p s1" "length (sim_cores s1) = n" "\<forall>j<n. j \<noteq> turn offset n a \<longrightarrow> sim_cores s1 ! j = sim_cores s ! j" "sim_leap s1 = sim_leap s"
    using e Suc.prems(4) a by auto
  have t: "timely p (sim_cores s1 ! turn offset n j)" if "Suc a \<le> j" "j < n" for j
  proof -
    have "turn offset n j \<noteq> turn offset n a" using turn_inj [OF n(3) that(2) a] that(1) by auto
    moreover have "turn offset n j < n" using n(1) by (simp add: turn_def)
    ultimately show ?thesis using e'(3) Suc.prems(4) that by simp
  qed
  have "k = n - Suc a" using Suc.hyps(2) by simp
  then have "sim_ok minv bag p s' \<and> length (sim_cores s') = n \<and> sim_leap s' = sim_leap s1"
    by (rule Suc.hyps(1) [OF _ 1(2) e'(1) e'(2) [symmetric]]) (use t in blast)
  then show ?case using e'(4) by simp
qed

end

text \<open>A step is the turns of the cores and, if the clock says so, a cycle of the memory system.\<close>

lemma sim_step_parts:
  assumes r: "sim_step cx s = Inr (d, s')" and n: "length (sim_cores s) < 2 ^ 31"
  obtains off d1 s1 where "foldE (run_core cx off) [0..<length (sim_cores s)] (True, s) = Inr (d1, s1)" "unat off < length (sim_cores s)"
    "0 < length (sim_cores s)" "sim_leap s' = snd (clock_step (sim_leap s1))"
    "(if fst (clock_step (sim_leap s1)) then memsys_cycle cx (sim_cores s1) (sim_shared s1) else Inr (sim_cores s1, sim_shared s1)) = Inr (sim_cores s', sim_shared s')"
proof -
  let ?n = "length (sim_cores s)"
  have u: "unat (of_nat ?n :: u64) = ?n" using n by (simp add: unat_of_nat)
  obtain off where o: "umod (sim_clk s) (of_nat ?n) = Inr off"
    and r1: "bindE (foldE (run_core cx (ucast off)) [0..<?n] (True, s)) (\<lambda>(all_done, s).
      case clock_step (sim_leap s) of (tick, leap) \<Rightarrow>
      bindE (if tick then memsys_cycle cx (sim_cores s) (sim_shared s) else Inr (sim_cores s, sim_shared s)) (\<lambda>(cores, sh).
      let s = s\<lparr>sim_cores := cores, sim_shared := sh, sim_leap := leap\<rparr>;
          s = (if sim_clk s - sim_last_dot s \<ge> DOT_INTERVAL then s\<lparr>sim_last_dot := sim_clk s\<rparr> else s) in
      Inr (all_done, s\<lparr>sim_clk := sim_clk s + 1\<rparr>))) = Inr (d, s')"
    using r unfolding sim_step_def Let_def by (elim bindE_InrE) simp
  have pos: "0 < ?n" using o by (cases "sim_cores s") (auto simp: umod_def)
  have "unat off < ?n" using o pos u by (auto simp: umod_def unat_mod_distrib split: if_splits)
  then have off: "unat (ucast off :: u32) < ?n" using n by (subst unat_ucast_small) simp_all
  obtain d1 s1 where f: "foldE (run_core cx (ucast off)) [0..<?n] (True, s) = Inr (d1, s1)"
    and r2: "(case clock_step (sim_leap s1) of (tick, leap) \<Rightarrow>
      bindE (if tick then memsys_cycle cx (sim_cores s1) (sim_shared s1) else Inr (sim_cores s1, sim_shared s1)) (\<lambda>(cores, sh).
      let s = s1\<lparr>sim_cores := cores, sim_shared := sh, sim_leap := leap\<rparr>;
          s = (if sim_clk s - sim_last_dot s \<ge> DOT_INTERVAL then s\<lparr>sim_last_dot := sim_clk s\<rparr> else s) in
      Inr (d1, s\<lparr>sim_clk := sim_clk s + 1\<rparr>))) = Inr (d, s')"
    using r1 by (elim bindE_InrE) (auto split: prod.splits)
  obtain tick leap where ck: "clock_step (sim_leap s1) = (tick, leap)" by (cases "clock_step (sim_leap s1)")
  show ?thesis
    by (rule that [OF f off pos]) (use r2 ck in \<open>auto simp: bindE_Inr_iff Let_def split: if_splits\<close>)
qed

lemma all_timely_turns: "list_all (timely p) cs \<Longrightarrow> 0 < length cs \<Longrightarrow> \<forall>j. 0 \<le> j \<longrightarrow> j < length cs \<longrightarrow> timely p (cs ! turn off (length cs) j)"
  by (simp add: list_all_length turn_def)

context memory_port
begin

lemma sim_step_effect:
  assumes r: "sim_step cx s = Inr (d, s')" and cx: "cx_mem cx = mm" "cx_p cx = p" and p: "params_ok p"
    and ok: "sim_ok minv bag p s" and t: "list_all (timely p) (sim_cores s)" and n: "length (sim_cores s) < 2 ^ 31"
  shows "sim_ok minv bag p s' \<and> length (sim_cores s') = length (sim_cores s)"
proof -
  obtain off d1 s1 where f: "foldE (run_core cx off) [0..<length (sim_cores s)] (True, s) = Inr (d1, s1)" "unat off < length (sim_cores s)"
      "0 < length (sim_cores s)"
    and m: "(if fst (clock_step (sim_leap s1)) then memsys_cycle cx (sim_cores s1) (sim_shared s1) else Inr (sim_cores s1, sim_shared s1)) = Inr (sim_cores s', sim_shared s')"
    by (rule sim_step_parts [OF r n])
  note e = cores_effect [OF f(1) cx p ok refl f(3) n f(2) all_timely_turns [OF t f(3)]]
  have ok1: "cores_ok p (sim_cores s1) (sh_memsys (sim_shared s1))" "shared_ok minv bag (sim_shared s1)" using e by (simp_all add: sim_ok_def)
  show ?thesis
  proof (cases "fst (clock_step (sim_leap s1))")
    case True
    then have mc: "memsys_cycle cx (sim_cores s1) (sim_shared s1) = Inr (sim_cores s', sim_shared s')" using m by simp
    then obtain es pos' mem where tk: "m_Tick mm (sh_rand_pos (sim_shared s1)) (mainmem (sh_memsys (sim_shared s1))) = Inr (es, pos', mem)"
      unfolding memsys_cycle_def cx by (elim bindE_InrE) (auto split: prod.splits)
    show ?thesis using memsys_cycle_effect [OF tk cx(1) ok1] mc e by (simp add: sim_ok_def)
  next
    case False
    then show ?thesis using m ok1 e by (simp add: sim_ok_def)
  qed
qed

lemma sim_reach_effect:
  assumes "sim_reach cx s0 n s" "cx_mem cx = mm" "cx_p cx = p" "params_ok p" "sim_ok minv bag p s0" "length (sim_cores s0) < 2 ^ 31"
  shows "sim_ok minv bag p s \<and> length (sim_cores s) = length (sim_cores s0)"
  using assms(1)
proof (induction rule: sim_reach.induct)
  case start
  then show ?case using assms(5) by simp
next
  case (step n s d s')
  then show ?case using sim_step_effect [of cx s d s' p] assms(2-6) by simp
qed

end

section \<open>The clocks of the cores and of the memory\<close>

definition mem_clk :: "(DRAMSystem, 'f) Sim \<Rightarrow> u64" where
  "mem_clk s = sys_clk (mainmem (sh_memsys (sim_shared s)))"

lemma memsys_cycle_clk:
  assumes "memsys_cycle cx cores sh = Inr (cores', sh')" "cx_mem cx = jedec_methods cfg rnd"
  shows "sys_clk (mainmem (sh_memsys sh')) = sys_clk (mainmem (sh_memsys sh)) + 1"
proof -
  obtain es pos mem m where t: "m_Tick (jedec_methods cfg rnd) (sh_rand_pos sh) (mainmem (sh_memsys sh)) = Inr (es, pos, mem)"
    and f: "foldE dispatch es (cores, (sh_memsys sh)\<lparr>mainmem := mem\<rparr>) = Inr (cores', m)" "sh' = sh\<lparr>sh_memsys := m, sh_rand_pos := pos\<rparr>"
    using assms unfolding memsys_cycle_def by (elim bindE_InrE) (auto split: prod.splits elim!: bindE_InrE)
  have "mainmem (snd x') = mainmem (snd x)" if "foldE dispatch es x = Inr x'" for es and x x' :: "'a MCore list \<times> DRAMSystem MemSys"
    using that
    by (induction es arbitrary: x) (auto simp: dispatch_def memsys_callback_def Let_def bindE_Inr_iff split: if_splits option.splits prod.splits)
  from this [OF f(1)] show ?thesis using jedec_Tick_clk [OF t] f(2) by simp
qed

lemma sim_step_clk:
  assumes r: "sim_step cx s = Inr (d, s')" and cx: "cx_mem cx = jedec_methods cfg rnd" "cx_p cx = p" and p: "params_ok p"
    and ok: "sim_ok (\<lambda>sys. sys_wf cfg sys \<and> hydra_cfg_ok cfg) sys_bag p s" and t: "list_all (timely p) (sim_cores s)" and n: "length (sim_cores s) < 2 ^ 31"
  shows "sim_leap s' = snd (clock_step (sim_leap s)) \<and> mem_clk s' = mem_clk s + (if fst (clock_step (sim_leap s)) then 1 else 0)"
proof -
  obtain off d1 s1 where f: "foldE (run_core cx off) [0..<length (sim_cores s)] (True, s) = Inr (d1, s1)" "unat off < length (sim_cores s)"
      "0 < length (sim_cores s)" and l: "sim_leap s' = snd (clock_step (sim_leap s1))"
    and m: "(if fst (clock_step (sim_leap s1)) then memsys_cycle cx (sim_cores s1) (sim_shared s1) else Inr (sim_cores s1, sim_shared s1)) = Inr (sim_cores s', sim_shared s')"
    by (rule sim_step_parts [OF r n])
  have "sim_ok (\<lambda>sys. (sys_wf cfg sys \<and> hydra_cfg_ok cfg) \<and> sys_clk sys = mem_clk s) sys_bag p s"
    using ok by (simp add: sim_ok_def shared_ok_def mem_clk_def)
  note e = jedec_clock.cores_effect [OF f(1) cx p this refl f(3) n f(2) all_timely_turns [OF t f(3)]]
  then have "mem_clk s1 = mem_clk s" "sim_leap s1 = sim_leap s" by (auto simp: sim_ok_def shared_ok_def mem_clk_def)
  then show ?thesis using l m memsys_cycle_clk [OF _ cx(1)] by (auto simp: mem_clk_def split: if_splits)
qed

lemma sim_reach_clk:
  assumes "sim_reach cx s0 n s" "cx_mem cx = jedec_methods cfg rnd" "cx_p cx = p" "params_ok p"
    and "sim_ok (\<lambda>sys. sys_wf cfg sys \<and> hydra_cfg_ok cfg) sys_bag p s0" "length (sim_cores s0) < 2 ^ 31" "sim_leap s0 = 0"
  shows "mem_clk s = mem_clk s0 + of_nat (fst (mem_ticks n)) \<and> sim_leap s = snd (mem_ticks n)"
  using assms(1)
proof (induction rule: sim_reach.induct)
  case start
  then show ?case using assms(7) by simp
next
  case (step n s d s')
  note e = jedec_port.sim_reach_effect [OF step.hyps(1) assms(2-6)]
  have "list_all (timely p) (sim_cores s)" "length (sim_cores s) < 2 ^ 31" using step.hyps(2) e assms(3,6) by simp_all
  then show ?case using sim_step_clk [OF step.hyps(3) assms(2-4)] e step.IH by (auto split: prod.splits)
qed

section \<open>The initial state\<close>

lemma mcore_new_fresh:
  assumes "mcore_new cx f0 fname i pos = Inr (pos', c)"
  shows "mcore_id c = i \<and> rob c = empty_rob \<and> \<not> core_sleep c"
proof -
  obtain c0 pos1 c1 where i: "mcore_init_trace (cx_gz cx) pos c0 = Inr (pos1, c1)" "mcore_id c0 = i" "rob c0 = empty_rob" "\<not> core_sleep c0"
    and t: "mcore_read_trace cx pos1 c1 = Inr (pos', c)"
    using assms unfolding mcore_new_def by (elim bindE_InrE) (auto split: prod.splits)
  show ?thesis using same_core_trans [OF init_trace_same [OF i(1)] mcore_read_trace_same [OF t]] i(2-4) by (simp add: same_core_def)
qed

lemma new_cores_fresh:
  assumes "new_cores cx f0 fnames = Inr cores"
  shows "length cores = length fnames \<and> (\<forall>i<length fnames. mcore_id (cores ! i) = of_nat i \<and> rob (cores ! i) = empty_rob \<and> \<not> core_sleep (cores ! i))"
proof -
  let ?f = "\<lambda>i (pos, cores). bindE (mcore_new cx f0 (fnames ! i) (of_nat i) pos) (\<lambda>(pos, c). Inr (pos, cores @ [c]))"
  have "length cs = n \<and> (\<forall>i<n. mcore_id (cs ! i) = of_nat i \<and> rob (cs ! i) = empty_rob \<and> \<not> core_sleep (cs ! i))"
    if "foldE ?f [0..<n] (0, []) = Inr (pos, cs)" for n pos cs
    using that
  proof (induction n arbitrary: pos cs)
    case (Suc n)
    then obtain pos1 cs1 c where m: "foldE ?f [0..<n] (0, []) = Inr (pos1, cs1)" "mcore_new cx f0 (fnames ! n) (of_nat n) pos1 = Inr (pos, c)" "cs = cs1 @ [c]"
      by (auto simp: foldE_append bindE_Inr_iff)
    then show ?case using Suc.IH [OF m(1)] mcore_new_fresh [OF m(2)] by (auto simp: nth_append less_Suc_eq)
  qed simp
  then show ?thesis using assms unfolding new_cores_def by (elim bindE_InrE) (auto split: prod.splits)
qed

lemma sim_new_ok:
  assumes r: "sim_new cx f0 mem fnames = Inr s" and mem: "minv mem" "bag mem = {#}"
    and p: "params_ok (cx_p cx)" "64 \<le> unat (ucast (OS_PAGESIZE (cx_p cx)) :: u32)" and n: "length fnames < 2 ^ 31"
  shows "sim_ok minv bag (cx_p cx) s" "length (sim_cores s) = length fnames" "sim_leap s = 0" "mainmem (sh_memsys (sim_shared s)) = mem"
proof -
  let ?ps = "ucast (OS_PAGESIZE (cx_p cx)) :: u32"
  obtain pg os cores where o: "os_new ?ps pg (of_nat (length fnames)) = Inr os" and c: "new_cores cx f0 fnames = Inr cores"
    and s: "sim_cores s = cores" "sh_os (sim_shared s) = os" "sh_memsys (sim_shared s) = memsys_new (cx_p cx) mem" "sim_leap s = 0"
    using r by (auto simp: sim_new_def Let_def bindE_Inr_iff)
  note w = os_new_wf [OF o p(2)]
  have "unat pg < 2 ^ 32" "unat ?ps < 2 ^ 32" using unsigned_less [of pg] unsigned_less [of ?ps] by simp_all
  then have "unat pg * (unat ?ps div 64) \<le> 2 ^ 32 * 2 ^ 26" by (intro mult_le_mono) auto
  then have "os_fits os" using w(3,4) by (simp add: os_fits_def)
  moreover note f = new_cores_fresh [OF c]
  have "core_ok (cx_p cx) i (cores ! i)" if "i < length fnames" for i
    using f that n p(1) by (simp add: core_ok_def sleeper_ok_def rob_ok_def empty_rob_def params_ok_def unat_of_nat CORE_WIDTH_def)
  ultimately show "sim_ok minv bag (cx_p cx) s" using w(1) mem f s
    by (auto simp: sim_ok_def cores_ok_def shared_ok_def read_books_def memsys_new_def mshr_ok_def filled_def empty_rob_def)
  show "length (sim_cores s) = length fnames" "sim_leap s = 0" "mainmem (sh_memsys (sim_shared s)) = mem" using f s by (simp_all add: memsys_new_def)
qed

section \<open>Small machines\<close>

text \<open>The bounded main loop, which also checks that the memory is timely.\<close>

primrec drive_sim :: "nat \<Rightarrow> ('m, 'f) Ctx \<Rightarrow> ('m, 'f) Sim \<Rightarrow> ('m, 'f) Sim res" where
  "drive_sim 0 cx s = Inr s"
| "drive_sim (Suc n) cx s =
     bindE (drive_sim n cx s) (\<lambda>s.
     if list_all (timely (cx_p cx)) (sim_cores s) then bindE (sim_step cx s) (\<lambda>(_, s). Inr s) else Inl AssertFailed)"

lemma drive_sim_reach: "drive_sim n cx s = Inr s' \<Longrightarrow> sim_reach cx s n s'"
  by (induction n arbitrary: s') (auto simp: bindE_Inr_iff split: if_splits intro: sim_reach.intros)

definition sim_params :: "u64 \<Rightarrow> Params" where
  "sim_params assoc = \<lparr>ROB_SIZE = 8, INST_LIMIT = 1000, OS_PAGESIZE = 4096, L3_SIZE_KB = 1, L3_ASSOC = assoc, L3_LATENCY = 24, L3_REPL = 0,
     L3_PERFECT = 0, MEM_SIZE_MB = 1, MEM_PAGESIZE = 8192, MEM_RSRV_MB = 0\<rparr>"

text \<open>A trace of reads in memory, one byte of address each, followed by zeros.\<close>

definition byte_trace :: "8 word list \<Rightarrow> 8 word list GzFunctions" where
  "byte_trace bs = \<lparr>gz_open = (\<lambda>_ _. Some bs), gz_read = (\<lambda>n f. (take n (f @ replicate n 0), drop n f)), gz_eof = (\<lambda>_. False)\<rparr>"

definition sim_cx :: "u64 \<Rightarrow> 8 word list \<Rightarrow> (DRAMSystem, 8 word list) Ctx" where
  "sim_cx assoc bs = \<lparr>cx_p = sim_params assoc, cx_mem = jedec_methods fast_cfg (\<lambda>n. int n + 1), cx_gz = byte_trace bs, cx_rand = (\<lambda>n. int n + 1)\<rparr>"

definition reads :: "8 word list \<Rightarrow> 8 word list" where
  "reads vas = concat (map (\<lambda>va. [0, 0, 0, 0, 0, 0, va, 0, 0, 0]) vas)"

lemma sim_run_example:
  "okE (bindE (sim_new (sim_cx 4 []) [] tiny_sys [''a'']) (drive_sim 3 (sim_cx 4 []))) (\<lambda>s. mem_clk s = 3 \<and> mshr (sh_memsys (sim_shared s)) 64 \<noteq> None \<and>
     length (sim_cores s) = 1 \<and> timely (sim_params 4) (sim_cores s ! 0) \<and>
     okE (mcore_rob_retire (sim_params 4) ((sim_cores s ! 0)\<lparr>core_cycle := core_cycle (sim_cores s ! 0) + 1\<rparr>)) (\<lambda>_. True))"
  by code_simp

text \<open>How a computation stops.\<close>

definition fault_of :: "'a res \<Rightarrow> fault option" where
  "fault_of m = (case m of Inl f \<Rightarrow> Some f | Inr _ \<Rightarrow> None)"

section \<open>Properties\<close>

text \<open>
  A machine as \<open>main\<close> builds it: on channels of DRAMsim3 that hold no request, with a reorder buffer that is not
  smaller than the core is wide nor larger than its array, and with pages of at least one line.
\<close>

definition booted :: "Config \<Rightarrow> (DRAMSystem, 'f) Ctx \<Rightarrow> 'f \<Rightarrow> DRAMSystem \<Rightarrow> string list \<Rightarrow> (DRAMSystem, 'f) Sim \<Rightarrow> bool" where
  "booted cfg cx f0 sys fnames s0 \<longleftrightarrow> sim_new cx f0 sys fnames = Inr s0 \<and> cx_mem cx = jedec_methods cfg (cx_rand cx) \<and>
     sys_wf cfg sys \<and> hydra_cfg_ok cfg \<and> sys_bag sys = {#} \<and> params_ok (cx_p cx) \<and>
     64 \<le> unat (ucast (OS_PAGESIZE (cx_p cx)) :: u32) \<and> length fnames < 2 ^ 31"

abbreviation jedec_inv :: "Config \<Rightarrow> DRAMSystem \<Rightarrow> bool" where
  "jedec_inv cfg \<equiv> \<lambda>sys. sys_wf cfg sys \<and> hydra_cfg_ok cfg"

lemma booted_ok:
  assumes "booted cfg cx f0 sys fnames s0"
  shows "sim_ok (jedec_inv cfg) sys_bag (cx_p cx) s0" "length (sim_cores s0) < 2 ^ 31" "sim_leap s0 = 0" "mem_clk s0 = sys_clk sys"
    "cx_mem cx = jedec_methods cfg (cx_rand cx)" "params_ok (cx_p cx)"
  using assms sim_new_ok [of cx f0 sys fnames s0 "jedec_inv cfg" sys_bag] by (simp_all add: booted_def mem_clk_def)

lemma booted_reach:
  assumes "booted cfg cx f0 sys fnames s0" "sim_reach cx s0 n s"
  shows "cores_ok (cx_p cx) (sim_cores s) (sh_memsys (sim_shared s))" "shared_ok (jedec_inv cfg) sys_bag (sim_shared s)"
  using jedec_port.sim_reach_effect [OF assms(2) booted_ok(5) [OF assms(1)] refl booted_ok(6,1,2) [OF assms(1)]] by (simp_all add: sim_ok_def)


lemma sim_example:
  obtains s0 s where "booted fast_cfg (sim_cx 4 []) [] tiny_sys [''a''] s0" "sim_reach (sim_cx 4 []) s0 3 s"
    "mshr (sh_memsys (sim_shared s)) 64 \<noteq> None" "length (sim_cores s) = 1" "timely (sim_params 4) (sim_cores s ! 0)"
    "okE (mcore_rob_retire (sim_params 4) ((sim_cores s ! 0)\<lparr>core_cycle := core_cycle (sim_cores s ! 0) + 1\<rparr>)) (\<lambda>_. True)"
proof -
  obtain s0 s where s: "sim_new (sim_cx 4 []) [] tiny_sys [''a''] = Inr s0" "drive_sim 3 (sim_cx 4 []) s0 = Inr s"
    "mshr (sh_memsys (sim_shared s)) 64 \<noteq> None" "length (sim_cores s) = 1" "timely (sim_params 4) (sim_cores s ! 0)"
    "okE (mcore_rob_retire (sim_params 4) ((sim_cores s ! 0)\<lparr>core_cycle := core_cycle (sim_cores s ! 0) + 1\<rparr>)) (\<lambda>_. True)"
    using sim_run_example by (auto simp only: okE_iff bindE_Inr_iff)
  have "sys_wf fast_cfg tiny_sys" "sys_bag tiny_sys = {#}" using tiny_ctl_ok by (simp_all add: sys_wf_def tiny_sys_def sys_bag_def)
  then have "booted fast_cfg (sim_cx 4 []) [] tiny_sys [''a''] s0"
    using s(1) tiny_ctl_ok(3) by (simp add: booted_def sim_cx_def sim_params_def params_ok_def CORE_WIDTH_def MAX_ROB_ENTRIES_def DEFAULT_MEM_DELAY_def)
  then show ?thesis using that drive_sim_reach [OF s(2)] s(3-6) by blast
qed




text \<open>
  C13. The memory system runs at three quarters of the clock of the cores: after \<open>n\<close> iterations of the main loop
  DRAMsim3 is at a cycle between \<open>3 n / 4\<close> and \<open>3 n / 4 + 1\<close>, in spite of the rounding in the constant.
\<close>

theorem memory_runs_at_three_quarters:
  assumes "booted cfg cx f0 sys fnames s0" "sim_reach cx s0 n s" "sys_clk sys = 0" "n < 2 ^ 52"
  shows "3 * n \<le> 4 * unat (mem_clk s) \<and> 4 * unat (mem_clk s) \<le> 3 * n + 4"
proof -
  note b = booted_ok [OF assms(1)]
  obtain k leap where m: "mem_ticks n = (k, leap)" by (cases "mem_ticks n")
  have c: "mem_clk s = of_nat k" using sim_reach_clk [OF assms(2) b(5) refl b(6,1-3)] b(4) assms(3) m by simp
  have e: "int k * 6004799503160661 = int n * 4503599627370496 + leap" "0 \<le> leap" "leap < 6004799503160661"
    using mem_ticks_balance [OF m] by (simp_all add: ONE_def CLOCK_SCALE_def)
  have n: "int n < 4503599627370496" using assms(4) by (simp flip: of_nat_less_iff)
  have "3 * int n \<le> 4 * int k" "4 * int k \<le> 3 * int n + 4" using e n by linarith+
  then have k: "3 * n \<le> 4 * k" "4 * k \<le> 3 * n + 4" by linarith+
  then have "unat (of_nat k :: u64) = k" using assms(4) by (simp add: unat_of_nat)
  then show ?thesis using k c by simp
qed

theorem memory_runs_at_three_quarters_witness:
  "\<exists>s0 s. booted fast_cfg (sim_cx 4 []) [] tiny_sys [''a''] s0 \<and> sim_reach (sim_cx 4 []) s0 3 s \<and> 9 \<le> 4 * unat (mem_clk s) \<and> 4 * unat (mem_clk s) \<le> 13"
proof -
  obtain s0 s where s: "booted fast_cfg (sim_cx 4 []) [] tiny_sys [''a''] s0" "sim_reach (sim_cx 4 []) s0 3 s" by (rule sim_example)
  have "sys_clk tiny_sys = 0" by (simp add: tiny_sys_def)
  then show ?thesis using memory_runs_at_three_quarters [OF s] s by auto
qed


end
