(* ===== verification/Memsim_Cube.thy ===== *)
theory Memsim_Cube
  imports Hmc_Run Memsim_Sim
begin

text \<open>
  The processor model on a Hybrid Memory Cube, the third memory system it can be built on: the methods of
  \<open>HMCMemorySystem\<close> satisfy the interface \<open>memory_port\<close>, so what is proved of the cores holds with it as well.
\<close>

definition hmc_methods :: "Config \<Rightarrow> (nat \<Rightarrow> int) \<Rightarrow> HMCMemorySystem MemoryMethods" where
  "hmc_methods cfg rnd =
     \<lparr>m_WillAccept = (\<lambda>h a w. Inr (hmc_WillAcceptTransaction h a w)), m_Add = hmc_AddTransaction cfg,
      m_Tick = (\<lambda>pos h. bindE (hmc_ClockTick cfg (h\<lparr>hmc_base := (hmc_base h)\<lparr>shared_rand := rnd, shared_rand_pos := pos\<rparr>\<rparr>)) (\<lambda>(es, h).
        Inr (es, shared_rand_pos (hmc_base h), h))),
      m_IsInDRFM = (\<lambda>h. sys_IsInDRFM cfg (hmc_base h)), m_IsInREF = (\<lambda>h. sys_IsInREF cfg (hmc_base h))\<rparr>"

lemma hmc_rand_irrelevant:
  "hmc_inv cfg (h\<lparr>hmc_base := (hmc_base h)\<lparr>shared_rand := r, shared_rand_pos := n\<rparr>\<rparr>) = hmc_inv cfg h"
  "hmc_bag (h\<lparr>hmc_base := (hmc_base h)\<lparr>shared_rand := r, shared_rand_pos := n\<rparr>\<rparr>) = hmc_bag h"
  by (simp_all add: hmc_inv_def front_ok_def vaults_ok_def sys_rand_irrelevant hmc_bag_def)

interpretation hmc_port: memory_port "hmc_methods cfg rnd" "hmc_inv cfg" hmc_bag for cfg rnd
proof
  fix s h w ok s'
  assume "hmc_inv cfg s" "h \<noteq> no_hex" "m_WillAccept (hmc_methods cfg rnd) s h w = Inr True" "m_Add (hmc_methods cfg rnd) h w s = Inr (ok, s')"
  then show "hmc_inv cfg s' \<and> hmc_bag s' = add_mset (h, w) (hmc_bag s)"
    using hmc_AddTransaction_bag [of cfg s h w ok s'] by (simp add: hmc_methods_def)
next
  fix s pos es pos' s'
  assume a: "hmc_inv cfg s" "m_Tick (hmc_methods cfg rnd) pos s = Inr (es, pos', s')"
  then have "hmc_ClockTick cfg (s\<lparr>hmc_base := (hmc_base s)\<lparr>shared_rand := rnd, shared_rand_pos := pos\<rparr>\<rparr>) = Inr (es, s')"
    by (auto simp: hmc_methods_def bindE_Inr_iff)
  from hmc_ClockTick_bag [OF _ this] a(1) show "hmc_inv cfg s' \<and> hmc_bag s = mset es + hmc_bag s'" by (simp add: hmc_rand_irrelevant)
qed

text \<open>
  The responses of the cube are expected in every state the simulator reaches: whenever its cycle succeeds, so do
  all the callbacks of that cycle.
\<close>

theorem cube_responses_are_expected:
  assumes "sim_new cx f0 h fnames = Inr s0" "cx_mem cx = hmc_methods cfg (cx_rand cx)" "hmc_inv cfg h" "hmc_bag h = {#}"
    and "params_ok (cx_p cx)" "64 \<le> unat (ucast (OS_PAGESIZE (cx_p cx)) :: u32)" "length fnames < 2 ^ 31"
    and "sim_reach cx s0 n s" "okE (m_Tick (cx_mem cx) (sh_rand_pos (sim_shared s)) (mainmem (sh_memsys (sim_shared s)))) (\<lambda>_. True)"
  shows "okE (memsys_cycle cx (sim_cores s) (sim_shared s)) (\<lambda>_. True)"
proof -
  have b: "sim_ok (hmc_inv cfg) hmc_bag (cx_p cx) s0" "length (sim_cores s0) < 2 ^ 31"
    using sim_new_ok [of cx f0 h fnames s0 "hmc_inv cfg" hmc_bag] assms(1-7) by simp_all
  have r: "cores_ok (cx_p cx) (sim_cores s) (sh_memsys (sim_shared s))" "shared_ok (hmc_inv cfg) hmc_bag (sim_shared s)"
    using hmc_port.sim_reach_effect [OF assms(8,2) refl assms(5) b] by (simp_all add: sim_ok_def)
  obtain es pos mem where "m_Tick (hmc_methods cfg (cx_rand cx)) (sh_rand_pos (sim_shared s)) (mainmem (sh_memsys (sim_shared s))) = Inr (es, pos, mem)"
    using assms(9) by (auto simp: okE_iff assms(2))
  from hmc_port.memsys_cycle_effect [OF this assms(2) r] show ?thesis by (rule okE_mono) simp
qed

end
